(* ===== verification/Rust_Prelude.thy ===== *)
theory Rust_Prelude
  imports Main "HOL-Library.Word" "HOL-Library.Monad_Syntax"
begin

text \<open>
  Shared vocabulary of the development.

  \<^item> Machine integers are words of their width (\<open>u8\<close>, \<open>u16\<close>, \<open>u32\<close>, \<open>u64\<close>); array
    indices, lengths and loop counters that the code bounds by an array size are \<open>nat\<close>.
  \<^item> A call that may fail to return is a value of type \<open>'a option\<close>: \<open>None\<close> means that control
    never comes back from the call, because the kernel panics (an index out of range, a failed
    \<open>expect\<close>) or because a spin loop never ends. A Rust \<open>Result\<close> is a sum, with \<open>Inl\<close>
    for \<open>Err\<close> and \<open>Inr\<close> for \<open>Ok\<close>.
  \<^item> Arrays and slices are lists; \<open>aget\<close>, \<open>aset\<close> and \<open>slice\<close> are the bounds-checked
    accesses of Rust, with \<open>None\<close> where Rust panics.
\<close>

unbundle bit_operations_syntax

type_synonym u8 = "8 word"
type_synonym u16 = "16 word"
type_synonym u32 = "32 word"
type_synonym u64 = "64 word"
type_synonym bytes = "8 word list"
type_synonym ('e, 'a) result = "'e + 'a"

abbreviation Ok :: "'a \<Rightarrow> 'e + 'a" where "Ok \<equiv> Inr"
abbreviation Err :: "'e \<Rightarrow> 'e + 'a" where "Err \<equiv> Inl"

named_theorems array_simps "bounds-checked array accesses under a bound"
named_theorems word_bytes "splitting and joining machine words"

subsection \<open>Bounds-checked array accesses\<close>

definition aget :: "'a list \<Rightarrow> nat \<Rightarrow> 'a option" where
  "aget xs i = (if i < length xs then Some (xs ! i) else None)"

definition aset :: "'a list \<Rightarrow> nat \<Rightarrow> 'a \<Rightarrow> 'a list option" where
  "aset xs i v = (if i < length xs then Some (xs[i := v]) else None)"

definition slice :: "'a list \<Rightarrow> nat \<Rightarrow> nat \<Rightarrow> 'a list option" where
  "slice xs a b = (if a \<le> b \<and> b \<le> length xs then Some (take (b - a) (drop a xs)) else None)"

text \<open>\<open>dst[a..a + src.len()].copy_from_slice(src)\<close> on an array.\<close>

definition copy_into :: "'a list \<Rightarrow> nat \<Rightarrow> 'a list \<Rightarrow> 'a list option" where
  "copy_into dst a src =
     (if a + length src \<le> length dst
      then Some (take a dst @ src @ drop (a + length src) dst) else None)"

lemma aget_in [array_simps]: "i < length xs \<Longrightarrow> aget xs i = Some (xs ! i)"
  by (simp add: aget_def)

lemma aget_Some_iff: "aget xs i = Some v \<longleftrightarrow> i < length xs \<and> v = xs ! i"
  by (auto simp: aget_def)

lemma aset_in [array_simps]: "i < length xs \<Longrightarrow> aset xs i v = Some (xs[i := v])"
  by (simp add: aset_def)

lemma aset_Some_iff: "aset xs i v = Some ys \<longleftrightarrow> i < length xs \<and> ys = xs[i := v]"
  by (auto simp: aset_def)

lemma slice_in [array_simps]:
  "a \<le> b \<Longrightarrow> b \<le> length xs \<Longrightarrow> slice xs a b = Some (take (b - a) (drop a xs))"
  by (simp add: slice_def)

lemma length_slice: "slice xs a b = Some ys \<Longrightarrow> length ys = b - a"
  by (auto simp: slice_def split: if_splits)

lemma copy_into_in [array_simps]:
  "a + length src \<le> length dst \<Longrightarrow>
   copy_into dst a src = Some (take a dst @ src @ drop (a + length src) dst)"
  by (simp add: copy_into_def)

lemma length_copy_into: "copy_into dst a src = Some r \<Longrightarrow> length r = length dst"
  by (auto simp: copy_into_def split: if_splits)

lemma nth_copy_into:
  "copy_into dst a src = Some r \<Longrightarrow> i < length dst \<Longrightarrow>
   r ! i = (if a \<le> i \<and> i < a + length src then src ! (i - a) else dst ! i)"
  by (auto simp: copy_into_def nth_append min_def split: if_splits)

subsection \<open>Little-endian encodings\<close>

definition to_le_bytes32 :: "u32 \<Rightarrow> bytes" where
  "to_le_bytes32 w = [ucast w, ucast (drop_bit 8 w), ucast (drop_bit 16 w), ucast (drop_bit 24 w)]"

fun from_le_bytes32 :: "bytes \<Rightarrow> u32" where
  "from_le_bytes32 [a, b, c, d] =
     ucast a OR push_bit 8 (ucast b) OR push_bit 16 (ucast c) OR push_bit 24 (ucast d)"
| "from_le_bytes32 _ = 0"

lemma length_to_le_bytes32 [simp]: "length (to_le_bytes32 w) = 4"
  by (simp add: to_le_bytes32_def)

lemma from_to_le_bytes32 [word_bytes, simp]: "from_le_bytes32 (to_le_bytes32 w) = w"
proof (rule bit_word_eqI)
  fix n assume n: "n < LENGTH(32)"
  consider "n < 8" | "8 \<le> n" "n < 16" | "16 \<le> n" "n < 24" | "24 \<le> n" by linarith
  then show "bit (from_le_bytes32 (to_le_bytes32 w)) n = bit w n"
    using n by cases (auto simp: to_le_bytes32_def bit_simps)
qed

subsection \<open>usize arithmetic\<close>

text \<open>\<open>usize\<close> is 64 bits wide; the release build the repository documents wraps on overflow.\<close>

definition uadd :: "nat \<Rightarrow> nat \<Rightarrow> nat" where
  "uadd a b = (a + b) mod 2 ^ 64"

definition usub :: "nat \<Rightarrow> nat \<Rightarrow> nat" where
  "usub a b = (a + 2 ^ 64 - b) mod 2 ^ 64"

definition umul :: "nat \<Rightarrow> nat \<Rightarrow> nat" where
  "umul a b = (a * b) mod 2 ^ 64"

named_theorems usize_simps "usize arithmetic without overflow"

lemma uadd_small [usize_simps]: "a + b < 2 ^ 64 \<Longrightarrow> uadd a b = a + b"
  by (simp add: uadd_def)

lemma usub_small [usize_simps]: "b \<le> a \<Longrightarrow> a < 2 ^ 64 \<Longrightarrow> usub a b = a - b"
  unfolding usub_def by (metis (no_types) Nat.add_diff_assoc2 mod_add_self2 mod_less
      less_imp_diff_less)

lemma umul_small [usize_simps]: "a * b < 2 ^ 64 \<Longrightarrow> umul a b = a * b"
  by (simp add: umul_def)

lemma unat_add_of_nat:
  fixes w :: u64
  assumes "unat w + i < 2 ^ 64"
  shows "unat (w + of_nat i) = unat w + i"
proof -
  have "w + of_nat i = of_nat (unat w + i)" by simp
  then show ?thesis using assms by (simp only: unat_of_nat) (simp add: take_bit_nat_def)
qed

text \<open>The memory layout of an allocation request (\<open>core::alloc::Layout\<close>): a size and a power-of-two
  alignment, the size not exceeding \<open>isize::MAX\<close> when rounded up to the alignment.\<close>

record Layout =
  lsize :: nat
  lalign :: nat

definition layout_valid :: "Layout \<Rightarrow> bool" where
  "layout_valid l \<longleftrightarrow> (\<exists>k. lalign l = 2 ^ k) \<and> lsize l + (lalign l - 1) < 2 ^ 63"

lemma layout_validD:
  assumes "layout_valid l"
  shows "0 < lalign l" "lsize l < 2 ^ 63" "lalign l \<le> 2 ^ 63"
  using assms by (auto simp: layout_valid_def)

subsection \<open>Iterators\<close>

text \<open>\<open>Iterator::position\<close>: the index of the first element with the property.\<close>

fun position :: "('a \<Rightarrow> bool) \<Rightarrow> 'a list \<Rightarrow> nat option" where
  "position p [] = None"
| "position p (x # xs) = (if p x then Some 0 else map_option Suc (position p xs))"

lemma position_iff:
  "position f xs = Some i \<longleftrightarrow> i < length xs \<and> f (xs ! i) \<and> (\<forall>j < i. \<not> f (xs ! j))"
  by (induction xs arbitrary: i) (auto simp: nth_Cons less_Suc_eq_0_disj split: nat.splits)

end
