(* ===== verification/Alloc_Spec.thy ===== *)
theory Alloc_Spec
  imports Rust_Prelude
begin

text \<open>
  The contract of a kernel heap (\<open>GlobalAlloc\<close>): what \<open>alloc\<close> and \<open>dealloc\<close> promise to
  the rest of the kernel, and what follows for any sequence of calls. The interface every heap has to meet is
  \<open>heap_interface\<close>, on the set of available byte addresses, of which a heap may lose some; \<open>heap_contract\<close> is the stricter
  contract of a heap that loses none.
\<close>

type_synonym 'a alloc_fun = "'a \<Rightarrow> Layout \<Rightarrow> (nat \<times> 'a) option"
type_synonym 'a dealloc_fun = "'a \<Rightarrow> nat \<Rightarrow> Layout \<Rightarrow> 'a option"

text \<open>A heap together with the list of the live allocations its clients hold. A client asks for a
  valid layout of positive size and gives back only what it holds.\<close>

inductive heap_step ::
  "'a alloc_fun \<Rightarrow> 'a dealloc_fun \<Rightarrow> 'a \<times> (nat \<times> Layout) list \<Rightarrow> 'a \<times> (nat \<times> Layout) list \<Rightarrow> bool"
  for al :: "'a alloc_fun" and de :: "'a dealloc_fun"
where
  allocated: "layout_valid l \<Longrightarrow> 0 < lsize l \<Longrightarrow> al a l = Some (p, a') \<Longrightarrow> p \<noteq> 0 \<Longrightarrow>
    heap_step al de (a, L) (a', (p, l) # L)"
| refused: "layout_valid l \<Longrightarrow> 0 < lsize l \<Longrightarrow> al a l = Some (0, a') \<Longrightarrow>
    heap_step al de (a, L) (a', L)"
| freed: "(p, l) \<in> set L \<Longrightarrow> de a p l = Some a' \<Longrightarrow>
    heap_step al de (a, L) (a', remove1 (p, l) L)"

inductive heap_reach ::
  "'a alloc_fun \<Rightarrow> 'a dealloc_fun \<Rightarrow> 'a \<Rightarrow> 'a \<times> (nat \<times> Layout) list \<Rightarrow> bool"
  for al :: "'a alloc_fun" and de :: "'a dealloc_fun" and a0 :: 'a
where
  start: "heap_reach al de a0 (a0, [])"
| step: "heap_reach al de a0 s \<Longrightarrow> heap_step al de s t \<Longrightarrow> heap_reach al de a0 t"

inductive_cases heap_stepE [consumes 1, case_names allocated refused freed]:
  "heap_step al de (a, L) t"

text \<open>The byte ranges of the live allocations are pairwise disjoint.\<close>

fun live_disjoint :: "(nat \<Rightarrow> Layout \<Rightarrow> nat set) \<Rightarrow> (nat \<times> Layout) list \<Rightarrow> bool" where
  "live_disjoint ext [] = True"
| "live_disjoint ext ((p, l) # L) =
     ((\<forall>(q, m) \<in> set L. ext p l \<inter> ext q m = {}) \<and> live_disjoint ext L)"

definition live_bytes :: "(nat \<Rightarrow> Layout \<Rightarrow> nat set) \<Rightarrow> (nat \<times> Layout) list \<Rightarrow> nat set" where
  "live_bytes ext L = (\<Union>(p, l) \<in> set L. ext p l)"

lemma live_bytes_simps [simp]:
  "live_bytes ext [] = {}" "live_bytes ext ((p, l) # L) = ext p l \<union> live_bytes ext L"
  by (auto simp: live_bytes_def)

lemma live_disjoint_Cons:
  "live_disjoint ext ((p, l) # L) \<longleftrightarrow> ext p l \<inter> live_bytes ext L = {} \<and> live_disjoint ext L"
  by (auto simp: live_bytes_def)

lemma live_disjoint_remove1:
  assumes "live_disjoint ext L" "(p, l) \<in> set L"
  shows "live_disjoint ext (remove1 (p, l) L) \<and>
    live_bytes ext (remove1 (p, l) L) = live_bytes ext L - ext p l"
  using assms
proof (induction L)
  case (Cons x L)
  obtain q m where x: "x = (q, m)" by fastforce
  show ?case
  proof (cases "x = (p, l)")
    case True
    with Cons.prems x show ?thesis by (auto simp: live_disjoint_Cons simp del: live_disjoint.simps)
  next
    case False
    with Cons.prems x have mem: "(p, l) \<in> set L" "live_disjoint ext L" by auto
    then have "ext p l \<subseteq> live_bytes ext L" by (auto simp: live_bytes_def)
    with Cons.prems x Cons.IH [OF mem(2,1)] False show ?thesis
      by (auto simp: live_disjoint_Cons simp del: live_disjoint.simps)
  qed
qed simp

lemma live_disjoint_mono:
  assumes "live_disjoint ext L" "\<And>p l. (p, l) \<in> set L \<Longrightarrow> ext' p l \<subseteq> ext p l"
  shows "live_disjoint ext' L"
  using assms
proof (induction L)
  case (Cons x L)
  obtain p l where x: "x = (p, l)" by fastforce
  have "ext' p l \<subseteq> ext p l" using Cons.prems(2) x by simp
  moreover have "ext' q m \<subseteq> ext q m" if "(q, m) \<in> set L" for q m using Cons.prems(2) that by simp
  moreover have "live_disjoint ext' L" using Cons by (simp add: x)
  ultimately show ?case using Cons.prems(1) by (fastforce simp: x)
qed simp

lemma live_disjoint_nth:
  assumes "live_disjoint ext L" "i < j" "j < length L" "L ! i = (p, l)" "L ! j = (q, m)"
  shows "ext p l \<inter> ext q m = {}"
  using assms
proof (induction L arbitrary: i j)
  case (Cons x L)
  then show ?case
  proof (cases i)
    case 0
    with Cons.prems obtain j' where "j = Suc j'" "(q, m) \<in> set L"
      by (cases j) (auto dest: nth_mem)
    with 0 Cons.prems show ?thesis by (cases x) auto
  next
    case (Suc i')
    with Cons.prems obtain j' where "j = Suc j'" by (cases j) auto
    with Suc Cons show ?thesis by (cases x) auto
  qed
qed simp

locale heap_interface =
  fixes al :: "'a alloc_fun" and de :: "'a dealloc_fun"
    and inv :: "'a \<Rightarrow> bool" and avail :: "'a \<Rightarrow> nat set"
    and ext :: "nat \<Rightarrow> Layout \<Rightarrow> nat set" and owned :: "'a \<Rightarrow> nat \<Rightarrow> Layout \<Rightarrow> bool"
  assumes alloc_takes: "inv a \<Longrightarrow> layout_valid l \<Longrightarrow> 0 < lsize l \<Longrightarrow> al a l = Some (p, a') \<Longrightarrow> p \<noteq> 0 \<Longrightarrow>
      inv a' \<and> ext p l \<subseteq> avail a \<and> avail a' \<subseteq> avail a - ext p l \<and> owned a' p l \<and>
      (\<forall>q m. owned a q m \<longrightarrow> owned a' q m)"
    and alloc_refuses: "inv a \<Longrightarrow> layout_valid l \<Longrightarrow> 0 < lsize l \<Longrightarrow> al a l = Some (0, a') \<Longrightarrow> a' = a"
    and dealloc_returns: "inv a \<Longrightarrow> owned a p l \<Longrightarrow> ext p l \<inter> avail a = {} \<Longrightarrow>
      \<exists>a'. de a p l = Some a' \<and> inv a' \<and> avail a' \<subseteq> avail a \<union> ext p l \<and>
        (\<forall>q m. owned a q m \<longrightarrow> owned a' q m)"
begin

definition consistent :: "'a \<Rightarrow> (nat \<times> Layout) list \<Rightarrow> bool" where
  "consistent a L \<longleftrightarrow> inv a \<and> avail a \<inter> live_bytes ext L = {} \<and> live_disjoint ext L \<and> (\<forall>(p, l) \<in> set L. owned a p l)"

lemma step_consistent:
  assumes "heap_step al de (a, L) (a', L')" "consistent a L"
  shows "consistent a' L' \<and> avail a' \<union> live_bytes ext L' \<subseteq> avail a \<union> live_bytes ext L"
  using assms(1)
proof (cases rule: heap_stepE)
  case (allocated l p b)
  then have "p \<noteq> 0" by simp
  from alloc_takes [OF _ allocated(2-4) this] assms(2) allocated(1)
  have b: "inv b" "ext p l \<subseteq> avail a" "avail b \<subseteq> avail a - ext p l" "owned b p l" "\<forall>q m. owned a q m \<longrightarrow> owned b q m"
    by (auto simp: consistent_def)
  then have "avail b \<inter> live_bytes ext ((p, l) # L) = {}" "live_disjoint ext ((p, l) # L)"
    using assms(2) by (auto simp: consistent_def live_disjoint_Cons simp del: live_disjoint.simps)
  moreover have "\<forall>(q, m) \<in> set ((p, l) # L). owned b q m" using b(4,5) assms(2) by (auto simp: consistent_def)
  ultimately show ?thesis using allocated(1) b by (auto simp: consistent_def simp del: live_disjoint.simps)
next
  case (refused l b)
  then show ?thesis using alloc_refuses [of a l b] assms(2) by (auto simp: consistent_def)
next
  case (freed p l b)
  then have "ext p l \<inter> avail a = {}" "owned a p l" using assms(2) by (auto simp: consistent_def live_bytes_def)
  from dealloc_returns [OF _ this(2,1)] freed assms(2)
  have b: "inv b" "avail b \<subseteq> avail a \<union> ext p l" "\<forall>q m. owned a q m \<longrightarrow> owned b q m" by (auto simp: consistent_def)
  note r = live_disjoint_remove1 [OF _ freed(2), of ext]
  have "\<forall>(q, m) \<in> set (remove1 (p, l) L). owned b q m"
    using assms(2) b(3) set_remove1_subset [of "(p, l)" L] unfolding consistent_def by blast
  moreover have "ext p l \<subseteq> live_bytes ext L" using freed(2) by (auto simp: live_bytes_def)
  ultimately show ?thesis using freed(1) b(1,2) r assms(2) unfolding consistent_def by blast
qed

lemma reach_consistent:
  assumes "heap_reach al de a0 (a, L)" "inv a0"
  shows "consistent a L \<and> avail a \<union> live_bytes ext L \<subseteq> avail a0"
  using assms(1)
proof (induction "(a, L)" arbitrary: a L rule: heap_reach.induct)
  case (step s)
  obtain b M where s: "s = (b, M)" by fastforce
  with step have "heap_step al de (b, M) (a, L)" by simp
  with step.hyps(2) [OF s] step_consistent show ?case by blast
qed (use assms in \<open>simp add: consistent_def\<close>)

lemma reach_frees:
  assumes "heap_reach al de a0 (a, L)" "inv a0" "(p, l) \<in> set L"
  shows "owned a p l \<and> ext p l \<subseteq> avail a0 \<and> (\<exists>a'. de a p l = Some a')"
proof -
  from reach_consistent [OF assms(1,2)] assms(3) have "inv a" "owned a p l" "ext p l \<inter> avail a = {}" "ext p l \<subseteq> avail a0"
    by (auto simp: consistent_def live_bytes_def)
  then show ?thesis using dealloc_returns [of a p l] by blast
qed

end

text \<open>The exact contract: the heap forgets nothing. It tracks the bytes in use, and a release gives all bytes of the block back.\<close>

locale heap_contract =
  fixes al :: "'a alloc_fun" and de :: "'a dealloc_fun"
    and inv :: "'a \<Rightarrow> bool" and used :: "'a \<Rightarrow> nat set"
    and ext :: "nat \<Rightarrow> Layout \<Rightarrow> nat set" and owned :: "'a \<Rightarrow> nat \<Rightarrow> Layout \<Rightarrow> bool"
  assumes alloc_fresh: "inv a \<Longrightarrow> layout_valid l \<Longrightarrow> 0 < lsize l \<Longrightarrow> al a l = Some (p, a') \<Longrightarrow> p \<noteq> 0 \<Longrightarrow>
      inv a' \<and> ext p l \<inter> used a = {} \<and> used a' = used a \<union> ext p l \<and> owned a' p l \<and>
      (\<forall>q m. owned a q m \<longrightarrow> owned a' q m)"
    and alloc_null: "inv a \<Longrightarrow> layout_valid l \<Longrightarrow> 0 < lsize l \<Longrightarrow> al a l = Some (0, a') \<Longrightarrow> a' = a"
    and dealloc_frees: "inv a \<Longrightarrow> owned a p l \<Longrightarrow> ext p l \<subseteq> used a \<Longrightarrow>
      \<exists>a'. de a p l = Some a' \<and> inv a' \<and> used a' = used a - ext p l \<and>
        (\<forall>q m. owned a q m \<longrightarrow> owned a' q m)"
begin

lemma step_inv:
  assumes "heap_step al de (a, L) (a', L')" "inv a" "used a = live_bytes ext L"
    "live_disjoint ext L" "\<forall>(p, l) \<in> set L. owned a p l"
  shows "inv a' \<and> used a' = live_bytes ext L' \<and> live_disjoint ext L' \<and>
    (\<forall>(p, l) \<in> set L'. owned a' p l)"
  using assms(1)
proof (cases rule: heap_stepE)
  case (allocated l p b)
  then have "p \<noteq> 0" by simp
  from alloc_fresh [OF assms(2) allocated(2-4) this] assms allocated show ?thesis
    by (auto simp: live_disjoint_Cons simp del: live_disjoint.simps)
next
  case (refused l b)
  then have "a' = a" "L' = L" using alloc_null [OF assms(2), of l b] by auto
  with assms show ?thesis by simp
next
  case (freed p l b)
  then have "ext p l \<subseteq> used a" "owned a p l" using assms by (auto simp: live_bytes_def)
  from dealloc_frees [OF assms(2) this(2,1)] freed
  have b: "inv b" "used b = used a - ext p l" "\<forall>q m. owned a q m \<longrightarrow> owned b q m" by auto
  have "\<forall>(q, m) \<in> set (remove1 (p, l) L). owned b q m"
    using assms(5) b(3) set_remove1_subset [of "(p, l)" L] by blast
  with b freed assms(3) live_disjoint_remove1 [OF assms(4) freed(2)] show ?thesis by simp
qed

lemma reach_inv:
  assumes "heap_reach al de a0 (a, L)" "inv a0" "used a0 = {}"
  shows "inv a \<and> used a = live_bytes ext L \<and> live_disjoint ext L \<and>
    (\<forall>(p, l) \<in> set L. owned a p l)"
  using assms(1)
proof (induction "(a, L)" arbitrary: a L rule: heap_reach.induct)
  case (step s)
  obtain b M where s: "s = (b, M)" by fastforce
  with step have "heap_step al de (b, M) (a, L)" by simp
  with step.hyps(2) [OF s] step_inv show ?case by simp
qed (use assms in simp)

text \<open>A client that frees what it holds never makes the heap panic.\<close>

lemma reach_dealloc_returns:
  assumes "heap_reach al de a0 (a, L)" "inv a0" "used a0 = {}" "(p, l) \<in> set L"
  shows "\<exists>a'. de a p l = Some a'"
proof -
  from reach_inv [OF assms(1-3)] assms(4) have "inv a" "owned a p l" "ext p l \<subseteq> used a"
    by (auto simp: live_bytes_def)
  then show ?thesis using dealloc_frees by blast
qed

end

text \<open>It gives the first one, the available bytes being those not in use.\<close>

sublocale heap_contract \<subseteq> free_view: heap_interface al de inv "\<lambda>a. - used a" ext owned
proof unfold_locales
  fix a a' l p
  assume inv: "inv a"
  { assume l: "layout_valid l" "0 < lsize l"
    { assume "al a l = Some (p, a')" "p \<noteq> 0"
      from alloc_fresh [OF inv l this] show "inv a' \<and> ext p l \<subseteq> - used a \<and> - used a' \<subseteq> - used a - ext p l \<and> owned a' p l \<and>
        (\<forall>q m. owned a q m \<longrightarrow> owned a' q m)" by auto }
    { assume "al a l = Some (0, a')" then show "a' = a" by (rule alloc_null [OF inv l]) } }
  { assume "owned a p l" "ext p l \<inter> - used a = {}"
    then have "ext p l \<subseteq> used a" by auto
    from dealloc_frees [OF inv \<open>owned a p l\<close> this]
    show "\<exists>a'. de a p l = Some a' \<and> inv a' \<and> - used a' \<subseteq> - used a \<union> ext p l \<and> (\<forall>q m. owned a q m \<longrightarrow> owned a' q m)" by auto }
qed

end
