(* ===== verification/Mict_Alloc.thy ===== *)
theory Mict_Alloc
  imports Alloc_Spec
begin

text \<open>
  The kernel's global allocator, \<^verbatim>\<open>kernel/src/allocator/mict_global_allocator.rs\<close>: a bitmap
  (the heatmap) with one bit per 64-byte block, a first-fit scan with alignment, and its
  release operation. A pointer is a \<open>nat\<close>, the null pointer is \<open>0\<close>.
\<close>

subsection \<open>State and operations\<close>

definition BLOCK_SIZE :: nat where "BLOCK_SIZE = 64"
definition MAX_HEAP_BLOCKS :: nat where "MAX_HEAP_BLOCKS = 500000"

record MictGlobalAllocator =
  heap_start :: nat
  heap_size :: nat
  heatmap :: bytes

definition MictGlobalAllocator_new :: MictGlobalAllocator where
  "MictGlobalAllocator_new =
     \<lparr>heap_start = 0, heap_size = 0, heatmap = replicate (MAX_HEAP_BLOCKS div 8) 0\<rparr>"

definition MictGlobalAllocator_init ::
  "MictGlobalAllocator \<Rightarrow> nat \<Rightarrow> nat \<Rightarrow> MictGlobalAllocator" where
  "MictGlobalAllocator_init a start sz = a\<lparr>heap_start := start, heap_size := sz\<rparr>"

definition set_bit :: "MictGlobalAllocator \<Rightarrow> nat \<Rightarrow> bool \<Rightarrow> MictGlobalAllocator option" where
  "set_bit a bit_idx hot = (
     let byte_idx = bit_idx div 8; bit_mask = push_bit (bit_idx mod 8) (1 :: u8) in
     do {
       b \<leftarrow> aget (heatmap a) byte_idx;
       h \<leftarrow> aset (heatmap a) byte_idx (if hot then b OR bit_mask else b AND NOT bit_mask);
       Some (a\<lparr>heatmap := h\<rparr>)
     })"

definition is_hot :: "MictGlobalAllocator \<Rightarrow> nat \<Rightarrow> bool option" where
  "is_hot a bit_idx = (
     let byte_idx = bit_idx div 8; bit_mask = push_bit (bit_idx mod 8) (1 :: u8) in
     do { b \<leftarrow> aget (heatmap a) byte_idx; Some (b AND bit_mask \<noteq> 0) })"

text \<open>The loop \<open>for j in 0..n \<open>{\<close> set_bit(start + j, hot) \<open>}\<close>\<close> of both operations.\<close>

primrec set_bits :: "MictGlobalAllocator \<Rightarrow> nat \<Rightarrow> nat \<Rightarrow> bool \<Rightarrow> MictGlobalAllocator option" where
  "set_bits a start 0 hot = Some a"
| "set_bits a start (Suc n) hot = do { a' \<leftarrow> set_bits a start n hot; set_bit a' (start + n) hot }"

definition blocks_of :: "nat \<Rightarrow> nat" where
  "blocks_of sz = usub (uadd sz BLOCK_SIZE) 1 div BLOCK_SIZE"

definition align_blocks_of :: "nat \<Rightarrow> nat" where
  "align_blocks_of al = (if al > BLOCK_SIZE then al div BLOCK_SIZE else 1)"

function alloc_scan ::
  "MictGlobalAllocator \<Rightarrow> nat \<Rightarrow> nat \<Rightarrow> nat \<Rightarrow> nat \<Rightarrow> nat \<Rightarrow> nat \<Rightarrow> (nat \<times> MictGlobalAllocator) option"
where
  "alloc_scan a blocks_needed align_blocks total_blocks i current_consecutive start_bit_idx =
     (if i < total_blocks then
        if current_consecutive = 0 \<and> i mod align_blocks \<noteq> 0
        then alloc_scan a blocks_needed align_blocks total_blocks (Suc i)
               current_consecutive start_bit_idx
        else case is_hot a i of
            None \<Rightarrow> None
          | Some True \<Rightarrow> alloc_scan a blocks_needed align_blocks total_blocks (Suc i) 0 start_bit_idx
          | Some False \<Rightarrow>
              let start' = (if current_consecutive = 0 then i else start_bit_idx);
                  current' = current_consecutive + 1 in
              if current' = blocks_needed
              then do {
                a' \<leftarrow> set_bits a start' blocks_needed True;
                Some (uadd (heap_start a) (umul start' BLOCK_SIZE), a')
              }
              else alloc_scan a blocks_needed align_blocks total_blocks (Suc i) current' start'
      else Some (0, a))"
  by pat_completeness auto
termination
  by (relation "measure (\<lambda>(a, need, al, tot, i, cur, start). tot - i)") auto

declare alloc_scan.simps [simp del]

definition alloc :: "MictGlobalAllocator \<Rightarrow> Layout \<Rightarrow> (nat \<times> MictGlobalAllocator) option" where
  "alloc a layout =
     alloc_scan a (blocks_of (lsize layout)) (align_blocks_of (lalign layout))
       (heap_size a div BLOCK_SIZE) 0 0 0"

definition dealloc :: "MictGlobalAllocator \<Rightarrow> nat \<Rightarrow> Layout \<Rightarrow> MictGlobalAllocator option" where
  "dealloc a addr layout =
     (if addr < heap_start a \<or> addr \<ge> uadd (heap_start a) (heap_size a) then None
      else let offset = addr - heap_start a; start_bit_idx = offset div BLOCK_SIZE in
           set_bits a start_bit_idx (blocks_of (lsize layout)) False)"

subsection \<open>The heatmap as a set of hot blocks\<close>

definition nblocks :: "MictGlobalAllocator \<Rightarrow> nat" where
  "nblocks a = 8 * length (heatmap a)"

definition hot :: "MictGlobalAllocator \<Rightarrow> nat \<Rightarrow> bool" where
  "hot a i \<longleftrightarrow> i < nblocks a \<and> bit (heatmap a ! (i div 8)) (i mod 8)"

text \<open>A run of \<open>n\<close> cold blocks at an aligned index below \<open>lim\<close>.\<close>

definition fits :: "MictGlobalAllocator \<Rightarrow> nat \<Rightarrow> nat \<Rightarrow> nat \<Rightarrow> nat \<Rightarrow> bool" where
  "fits a n al lim s \<longleftrightarrow> al dvd s \<and> s + n \<le> lim \<and> (\<forall>j<n. \<not> hot a (s + j))"

lemma byte_in: "i < nblocks a \<Longrightarrow> i div 8 < length (heatmap a)"
  by (simp add: nblocks_def less_mult_imp_div_less mult.commute)

lemma mask_bit: "(b AND 2 ^ n \<noteq> 0) \<longleftrightarrow> bit (b :: u8) n"
  by (simp add: and_exp_eq_0_iff_not_bit)

lemma is_hot_in: "i < nblocks a \<Longrightarrow> is_hot a i = Some (hot a i)"
  by (simp add: is_hot_def aget_in byte_in mask_bit hot_def)

lemma is_hot_out: "nblocks a \<le> i \<Longrightarrow> is_hot a i = None"
proof -
  assume "nblocks a \<le> i"
  then have "\<not> i div 8 < length (heatmap a)" by (auto simp: nblocks_def)
  then show ?thesis by (simp add: is_hot_def aget_def)
qed

lemma set_bit_in:
  assumes "i < nblocks a"
  obtains a' where "set_bit a i h = Some a'" "nblocks a' = nblocks a"
    "heap_start a' = heap_start a" "heap_size a' = heap_size a"
    "\<And>k. hot a' k \<longleftrightarrow> (if k = i then h else hot a k)"
proof -
  let ?m = "push_bit (i mod 8) (1 :: u8)"
  let ?b = "heatmap a ! (i div 8)"
  define a' where "a' = a\<lparr>heatmap := (heatmap a)[i div 8 := if h then ?b OR ?m else ?b AND NOT ?m]\<rparr>"
  have "set_bit a i h = Some a'"
    using assms by (simp add: set_bit_def Let_def array_simps byte_in a'_def)
  moreover have "hot a' k \<longleftrightarrow> (if k = i then h else hot a k)" for k
  proof (cases "k div 8 = i div 8")
    case True
    then have "k mod 8 = i mod 8 \<longleftrightarrow> k = i" by (metis mult_div_mod_eq)
    moreover have "k mod 8 < 8" by simp
    ultimately show ?thesis
      using assms True byte_in [OF assms]
      by (auto simp: hot_def a'_def nblocks_def bit_simps)
  next
    case False
    then show ?thesis by (auto simp: hot_def a'_def nblocks_def)
  qed
  ultimately show ?thesis by (intro that [of a']) (simp_all add: a'_def nblocks_def)
qed


text \<open>Two allocators that agree on their bounds and on every bit are equal.\<close>

lemma heatmap_eqI:
  assumes "heap_start a = heap_start b" "heap_size a = heap_size b" "nblocks a = nblocks b"
    "\<And>k. hot a k = hot b k"
  shows "a = (b :: MictGlobalAllocator)"
proof -
  have len: "length (heatmap a) = length (heatmap b)" using assms(3) by (simp add: nblocks_def)
  have "heatmap a ! i = heatmap b ! i" if i: "i < length (heatmap a)" for i
  proof (rule bit_word_eqI)
    fix n assume n: "n < LENGTH(8)"
    with i have "8 * i + n < nblocks a" "(8 * i + n) div 8 = i" "(8 * i + n) mod 8 = n"
      by (auto simp: nblocks_def)
    with assms(4) [of "8 * i + n"] assms(3) show "bit (heatmap a ! i) n = bit (heatmap b ! i) n"
      by (simp add: hot_def)
  qed
  with len have "heatmap a = heatmap b" by (simp add: nth_equalityI)
  with assms(1,2) show ?thesis by simp
qed

definition same_bounds :: "MictGlobalAllocator \<Rightarrow> MictGlobalAllocator \<Rightarrow> bool" where
  "same_bounds a b \<longleftrightarrow> heap_start a = heap_start b \<and> heap_size a = heap_size b \<and> nblocks a = nblocks b"

lemma set_bits_in:
  assumes "start + n \<le> nblocks a"
  shows "\<exists>a'. set_bits a start n h = Some a' \<and> same_bounds a' a \<and>
    (\<forall>k. hot a' k \<longleftrightarrow> (if start \<le> k \<and> k < start + n then h else hot a k))"
  using assms
proof (induction n)
  case (Suc n)
  then obtain a1 where a1: "set_bits a start n h = Some a1" "same_bounds a1 a"
    "\<forall>k. hot a1 k \<longleftrightarrow> (if start \<le> k \<and> k < start + n then h else hot a k)" by auto
  then have "start + n < nblocks a1" using Suc.prems by (simp add: same_bounds_def)
  then show ?case
    by (rule set_bit_in [where h = h]) (use a1 in \<open>auto simp: same_bounds_def\<close>)
qed (auto simp: same_bounds_def)

subsection \<open>The first-fit scan\<close>

definition scan_inv :: "MictGlobalAllocator \<Rightarrow> nat \<Rightarrow> nat \<Rightarrow> nat \<Rightarrow> nat \<Rightarrow> nat \<Rightarrow> bool" where
  "scan_inv a need al i cur start \<longleftrightarrow> cur < need \<and>
     (0 < cur \<longrightarrow> al dvd start \<and> start + cur = i \<and> (\<forall>j<cur. \<not> hot a (start + j))) \<and>
     (\<forall>s. al dvd s \<and> (\<forall>j<need. \<not> hot a (s + j)) \<longrightarrow> (if cur = 0 then i else start) \<le> s)"

lemma scan_inv_init: "0 < need \<Longrightarrow> scan_inv a need al 0 0 0"
  by (simp add: scan_inv_def)

lemma scan_inv_skip: "scan_inv a need al i 0 start \<Longrightarrow> \<not> al dvd i \<Longrightarrow> scan_inv a need al (Suc i) 0 start"
  unfolding scan_inv_def by (auto simp: Suc_le_eq) (metis order_le_less)

lemma scan_inv_hot:
  assumes "scan_inv a need al i cur start" "hot a i"
  shows "scan_inv a need al (Suc i) 0 start"
proof -
  have "Suc i \<le> s" if s: "al dvd s" "\<forall>j<need. \<not> hot a (s + j)" for s
  proof (rule ccontr)
    assume "\<not> Suc i \<le> s"
    moreover have "(if cur = 0 then i else start) \<le> s" using assms(1) s by (auto simp: scan_inv_def)
    ultimately have "i - s < need" "s + (i - s) = i"
      using assms(1) by (auto simp: scan_inv_def split: if_splits)
    with s(2) assms(2) show False by metis
  qed
  with assms(1) show ?thesis by (auto simp: scan_inv_def)
qed

lemma scan_inv_cold:
  assumes "scan_inv a need al i cur start" "\<not> hot a i" "cur = 0 \<longrightarrow> al dvd i" "Suc cur \<noteq> need"
  shows "scan_inv a need al (Suc i) (Suc cur) (if cur = 0 then i else start)"
  using assms by (auto simp: scan_inv_def less_Suc_eq)

text \<open>When the run is complete the block found is a fit, and the first one.\<close>

lemma scan_inv_done:
  assumes "scan_inv a need al i cur start" "\<not> hot a i" "cur = 0 \<longrightarrow> al dvd i" "Suc cur = need"
    "i < lim"
  shows "fits a need al lim (if cur = 0 then i else start)"
proof -
  let ?s = "if cur = 0 then i else start"
  have "al dvd ?s" "?s + cur = i" "\<forall>j<cur. \<not> hot a (?s + j)"
    using assms(1,3) by (auto simp: scan_inv_def)
  moreover from this have "\<not> hot a (?s + j)" if "j < need" for j
    using that assms(2,4) by (cases "j = cur") (auto simp del: if_split)
  ultimately show ?thesis using assms(4,5) by (simp add: fits_def del: if_split)
qed

text \<open>The iterations of the scan, one equation per branch of the loop body.\<close>

lemma alloc_scan_end: "\<not> i < tot \<Longrightarrow> alloc_scan a need al tot i cur start = Some (0, a)"
  by (simp add: alloc_scan.simps [of a need al tot i cur start])

lemma alloc_scan_skip:
  "i < tot \<Longrightarrow> cur = 0 \<and> \<not> al dvd i \<Longrightarrow>
   alloc_scan a need al tot i cur start = alloc_scan a need al tot (Suc i) cur start"
  by (subst alloc_scan.simps) (simp add: mod_greater_zero_iff_not_dvd)

lemma alloc_scan_panic:
  "i < tot \<Longrightarrow> \<not> (cur = 0 \<and> \<not> al dvd i) \<Longrightarrow> is_hot a i = None \<Longrightarrow>
   alloc_scan a need al tot i cur start = None"
  by (subst alloc_scan.simps) (auto simp: mod_greater_zero_iff_not_dvd)

lemma alloc_scan_hot:
  "i < tot \<Longrightarrow> \<not> (cur = 0 \<and> \<not> al dvd i) \<Longrightarrow> is_hot a i = Some True \<Longrightarrow>
   alloc_scan a need al tot i cur start = alloc_scan a need al tot (Suc i) 0 start"
  by (subst alloc_scan.simps) (auto simp: mod_greater_zero_iff_not_dvd)

lemma alloc_scan_full:
  "i < tot \<Longrightarrow> \<not> (cur = 0 \<and> \<not> al dvd i) \<Longrightarrow> is_hot a i = Some False \<Longrightarrow> Suc cur = need \<Longrightarrow>
   (if cur = 0 then i else start) = s0 \<Longrightarrow>
   alloc_scan a need al tot i cur start =
     do { a' \<leftarrow> set_bits a s0 need True; Some (uadd (heap_start a) (umul s0 BLOCK_SIZE), a') }"
  by (subst alloc_scan.simps) (auto simp: mod_greater_zero_iff_not_dvd)

lemma alloc_scan_cold:
  "i < tot \<Longrightarrow> \<not> (cur = 0 \<and> \<not> al dvd i) \<Longrightarrow> is_hot a i = Some False \<Longrightarrow> Suc cur \<noteq> need \<Longrightarrow>
   alloc_scan a need al tot i cur start =
     alloc_scan a need al tot (Suc i) (Suc cur) (if cur = 0 then i else start)"
  by (subst alloc_scan.simps) (auto simp: mod_greater_zero_iff_not_dvd)

text \<open>Induction over the iterations that stay inside the heatmap and keep the invariant. The four
  cases are those in which the loop stops.\<close>

lemma scan_induct [consumes 1, case_names finish beyond full step]:
  assumes inv: "scan_inv a need al i cur start"
    and "\<And>i cur start. scan_inv a need al i cur start \<Longrightarrow> \<not> i < tot \<Longrightarrow> P i cur start"
    and "\<And>i cur start. scan_inv a need al i cur start \<Longrightarrow> i < tot \<Longrightarrow> nblocks a \<le> i \<Longrightarrow> P i cur start"
    and "\<And>i cur start. scan_inv a need al i cur start \<Longrightarrow> i < tot \<Longrightarrow> i < nblocks a \<Longrightarrow>
      \<not> (cur = 0 \<and> \<not> al dvd i) \<Longrightarrow> \<not> hot a i \<Longrightarrow> Suc cur = need \<Longrightarrow> P i cur start"
    and "\<And>i cur start cur' start'. scan_inv a need al i cur start \<Longrightarrow> i < tot \<Longrightarrow> i < nblocks a \<Longrightarrow>
      scan_inv a need al (Suc i) cur' start' \<Longrightarrow>
      alloc_scan a need al tot i cur start = alloc_scan a need al tot (Suc i) cur' start' \<Longrightarrow>
      P (Suc i) cur' start' \<Longrightarrow> P i cur start"
  shows "P i cur start"
  using inv
proof (induction "tot - i" arbitrary: i cur start rule: less_induct)
  case less
  note step = assms(5) [OF less.prems]
  consider (out) "\<not> i < tot" | (beyond) "i < tot" "nblocks a \<le> i"
    | (skip) "i < tot" "i < nblocks a" "cur = 0 \<and> \<not> al dvd i"
    | (hot) "i < tot" "i < nblocks a" "\<not> (cur = 0 \<and> \<not> al dvd i)" "hot a i"
    | (full) "i < tot" "i < nblocks a" "\<not> (cur = 0 \<and> \<not> al dvd i)" "\<not> hot a i" "Suc cur = need"
    | (cold) "i < tot" "i < nblocks a" "\<not> (cur = 0 \<and> \<not> al dvd i)" "\<not> hot a i" "Suc cur \<noteq> need"
    by linarith
  then show ?case
  proof cases
    case skip
    then have "scan_inv a need al (Suc i) cur start" using less.prems scan_inv_skip by auto
    from step [OF _ _ this alloc_scan_skip less.hyps [OF _ this]] skip show ?thesis by simp
  next
    case hot
    then have "scan_inv a need al (Suc i) 0 start" using less.prems scan_inv_hot by blast
    from step [OF _ _ this alloc_scan_hot less.hyps [OF _ this]] hot show ?thesis
      by (simp add: is_hot_in)
  next
    case cold
    then have "scan_inv a need al (Suc i) (Suc cur) (if cur = 0 then i else start)"
      using less.prems by (intro scan_inv_cold) auto
    from step [OF _ _ this alloc_scan_cold less.hyps [OF _ this]] cold show ?thesis
      by (simp add: is_hot_in)
  qed (use less.prems assms(2-4) in blast)+
qed

lemma scan_found:
  assumes "scan_inv a need al i cur start" "lim = min tot (nblocks a)" "fits a need al lim s0"
    "\<forall>s < s0. \<not> fits a need al lim s"
  shows "alloc_scan a need al tot i cur start =
    do { a' \<leftarrow> set_bits a s0 need True; Some (uadd (heap_start a) (umul s0 BLOCK_SIZE), a') }"
proof -
  have in_lim: "i < lim \<and> (if cur = 0 then i else start) \<le> s0"
    if "scan_inv a need al i cur start" for i cur start
  proof -
    have "(if cur = 0 then i else start) \<le> s0" using that assms(3) by (auto simp: scan_inv_def fits_def)
    moreover have "cur < need" "0 < cur \<longrightarrow> start + cur = i" "s0 + need \<le> lim"
      using that assms(3) by (auto simp: scan_inv_def fits_def)
    ultimately show ?thesis by (auto split: if_splits)
  qed
  from assms(1) show ?thesis
  proof (induction rule: scan_induct [where tot = tot])
    case (full i cur start)
    have "fits a need al lim (if cur = 0 then i else start)"
      using full in_lim by (intro scan_inv_done) auto
    with in_lim [OF full(1)] assms(4) have "(if cur = 0 then i else start) = s0"
      by (metis order_le_less)
    with full show ?case by (intro alloc_scan_full) (auto simp: is_hot_in)
  qed (use in_lim assms(2) in \<open>auto dest: in_lim\<close>)
qed

lemma scan_none:
  assumes "scan_inv a need al i cur start" "tot \<le> nblocks a" "\<forall>s. \<not> fits a need al tot s"
  shows "alloc_scan a need al tot i cur start = Some (0, a)"
  using assms(1)
proof (induction rule: scan_induct [where tot = tot])
  case (full i cur start)
  then have "fits a need al tot (if cur = 0 then i else start)" by (intro scan_inv_done) auto
  with assms(3) show ?case by blast
qed (use assms(2) in \<open>auto simp: alloc_scan_end\<close>)

text \<open>Past the end of the heatmap every probe is an index out of range.\<close>

lemma alloc_scan_beyond:
  assumes "nblocks a \<le> i" "i \<le> k" "k < tot" "al dvd k"
  shows "alloc_scan a need al tot i cur start = None"
  using assms
proof (induction "tot - i" arbitrary: i cur start rule: less_induct)
  case less
  show ?case
  proof (cases "cur = 0 \<and> \<not> al dvd i")
    case True
    with less.prems have "i \<noteq> k" by auto
    with less True show ?thesis by (subst alloc_scan_skip) auto
  next
    case False
    with less.prems show ?thesis by (intro alloc_scan_panic) (auto simp: is_hot_out)
  qed
qed

lemma scan_exhausted:
  assumes "scan_inv a need al i cur start" "i \<le> nblocks a" "nblocks a \<le> k" "k < tot" "al dvd k"
    "\<forall>s. \<not> fits a need al (nblocks a) s"
  shows "alloc_scan a need al tot i cur start = None"
  using assms(1,2)
proof (induction rule: scan_induct [where tot = tot])
  case (full i cur start)
  then have "fits a need al (nblocks a) (if cur = 0 then i else start)" by (intro scan_inv_done) auto
  with assms(6) show ?case by blast
next
  case (beyond i cur start)
  with assms show ?case by (intro alloc_scan_beyond [where k = k]) auto
qed (use assms(3,4) in auto)


lemma scan_no_fit:
  assumes "scan_inv a need al i cur start" "\<forall>s. \<not> fits a need al (min tot (nblocks a)) s"
  shows "alloc_scan a need al tot i cur start \<in> {None, Some (0, a)}"
  using assms(1)
proof (induction rule: scan_induct [where tot = tot])
  case (full i cur start)
  then have "fits a need al (min tot (nblocks a)) (if cur = 0 then i else start)"
    by (intro scan_inv_done) auto
  with assms(2) show ?case by blast
next
  case (beyond i cur start)
  have "alloc_scan a need al tot i cur start \<in> {None, Some (0, a)}" if "nblocks a \<le> i"
    using that
  proof (induction "tot - i" arbitrary: i cur start rule: less_induct)
    case less
    then show ?case
      by (cases "i < tot"; cases "cur = 0 \<and> \<not> al dvd i")
        (auto simp: alloc_scan_end alloc_scan_skip alloc_scan_panic is_hot_out)
  qed
  with beyond show ?case by blast
qed (auto simp: alloc_scan_end)

subsection \<open>Interpretation of the heap contract\<close>

definition total_blocks :: "MictGlobalAllocator \<Rightarrow> nat" where
  "total_blocks a = heap_size a div BLOCK_SIZE"

text \<open>The blocks the scan can reach: those of the heap that have a bit in the heatmap.\<close>

definition reach_blocks :: "MictGlobalAllocator \<Rightarrow> nat" where
  "reach_blocks a = min (total_blocks a) (nblocks a)"

definition mict_inv :: "MictGlobalAllocator \<Rightarrow> bool" where
  "mict_inv a \<longleftrightarrow> 0 < heap_start a \<and> heap_start a + heap_size a < 2 ^ 64"

definition mict_used :: "MictGlobalAllocator \<Rightarrow> nat set" where
  "mict_used a = {x. \<exists>k. hot a k \<and> heap_start a + 64 * k \<le> x \<and> x < heap_start a + 64 * k + 64}"

definition mict_ext :: "nat \<Rightarrow> Layout \<Rightarrow> nat set" where
  "mict_ext p l = {p ..< p + 64 * blocks_of (lsize l)}"

definition mict_owned :: "MictGlobalAllocator \<Rightarrow> nat \<Rightarrow> Layout \<Rightarrow> bool" where
  "mict_owned a p l \<longleftrightarrow> layout_valid l \<and> 0 < lsize l \<and>
     (\<exists>s. p = heap_start a + 64 * s \<and> s + blocks_of (lsize l) \<le> reach_blocks a \<and>
          align_blocks_of (lalign l) dvd s)"

lemma blocks_of_valid: "layout_valid l \<Longrightarrow> blocks_of (lsize l) = (lsize l + 63) div 64"
proof -
  assume "layout_valid l"
  then have "lsize l < 2 ^ 63" by (rule layout_validD)
  then have "uadd (lsize l) 64 = lsize l + 64" by (intro uadd_small) simp
  moreover have "usub (lsize l + 64) 1 = lsize l + 63"
    using \<open>lsize l < 2 ^ 63\<close> by (subst usub_small) simp_all
  ultimately show ?thesis by (simp add: blocks_of_def BLOCK_SIZE_def)
qed

lemma blocks_of_pos: "layout_valid l \<Longrightarrow> 0 < lsize l \<Longrightarrow> 0 < blocks_of (lsize l)"
  by (simp add: blocks_of_valid)

lemma size_le_blocks: "layout_valid l \<Longrightarrow> lsize l \<le> 64 * blocks_of (lsize l)"
  by (simp add: blocks_of_valid)

lemma same_bounds_trans_facts:
  assumes "same_bounds a' a"
  shows "mict_inv a' = mict_inv a" "reach_blocks a' = reach_blocks a" "total_blocks a' = total_blocks a"
    "mict_owned a' = mict_owned a"
  using assms
  by (auto simp: same_bounds_def mict_inv_def reach_blocks_def total_blocks_def mict_owned_def fun_eq_iff)

text \<open>The outcome of \<open>alloc\<close>: the first fit if there is one, otherwise null or a panic.\<close>

lemma alloc_first:
  assumes "mict_inv a" "layout_valid l" "0 < lsize l"
    "fits a (blocks_of (lsize l)) (align_blocks_of (lalign l)) (reach_blocks a) s"
    "\<forall>t < s. \<not> fits a (blocks_of (lsize l)) (align_blocks_of (lalign l)) (reach_blocks a) t"
  shows "\<exists>a'. alloc a l = Some (heap_start a + 64 * s, a') \<and> same_bounds a' a \<and>
    (\<forall>k. hot a' k \<longleftrightarrow> hot a k \<or> s \<le> k \<and> k < s + blocks_of (lsize l))"
proof -
  let ?n = "blocks_of (lsize l)"
  have s: "s + ?n \<le> reach_blocks a" using assms(4) by (simp add: fits_def)
  then obtain a' where a': "set_bits a s ?n True = Some a'" "same_bounds a' a"
    "\<forall>k. hot a' k \<longleftrightarrow> (if s \<le> k \<and> k < s + ?n then True else hot a k)"
    using set_bits_in [of s ?n a True] by (auto simp: reach_blocks_def)
  have "64 * s \<le> heap_size a"
    using s by (auto simp: reach_blocks_def total_blocks_def BLOCK_SIZE_def)
  then have p: "uadd (heap_start a) (umul s BLOCK_SIZE) = heap_start a + 64 * s"
    using assms(1) by (simp add: mict_inv_def uadd_def umul_def BLOCK_SIZE_def mult.commute)
  have "alloc a l = do { a' \<leftarrow> set_bits a s ?n True; Some (uadd (heap_start a) (umul s BLOCK_SIZE), a') }"
    unfolding alloc_def
    by (rule scan_found [where lim = "reach_blocks a"])
      (use assms in \<open>simp_all add: scan_inv_init blocks_of_pos reach_blocks_def total_blocks_def\<close>)
  with a' p show ?thesis by auto
qed

lemma alloc_cases [consumes 3, case_names found none]:
  assumes "mict_inv a" "layout_valid l" "0 < lsize l"
  obtains (found) s a' where "alloc a l = Some (heap_start a + 64 * s, a')" "same_bounds a' a"
      "fits a (blocks_of (lsize l)) (align_blocks_of (lalign l)) (reach_blocks a) s"
      "\<forall>t < s. \<not> fits a (blocks_of (lsize l)) (align_blocks_of (lalign l)) (reach_blocks a) t"
      "\<forall>k. hot a' k \<longleftrightarrow> hot a k \<or> s \<le> k \<and> k < s + blocks_of (lsize l)"
  | (none) "alloc a l \<in> {None, Some (0, a)}"
      "\<forall>s. \<not> fits a (blocks_of (lsize l)) (align_blocks_of (lalign l)) (reach_blocks a) s"
proof (cases "\<exists>s. fits a (blocks_of (lsize l)) (align_blocks_of (lalign l)) (reach_blocks a) s")
  case True
  then obtain s where s: "fits a (blocks_of (lsize l)) (align_blocks_of (lalign l)) (reach_blocks a) s"
    "\<forall>t < s. \<not> fits a (blocks_of (lsize l)) (align_blocks_of (lalign l)) (reach_blocks a) t"
    using exists_least_iff [of "fits a (blocks_of (lsize l)) (align_blocks_of (lalign l)) (reach_blocks a)"]
    by blast
  from alloc_first [OF assms this] s show ?thesis using found by blast
next
  case False
  then have "alloc a l \<in> {None, Some (0, a)}"
    unfolding alloc_def
    by (intro scan_no_fit scan_inv_init)
      (use assms in \<open>auto simp: blocks_of_pos reach_blocks_def total_blocks_def\<close>)
  with False show ?thesis using none by blast
qed

lemma dealloc_in:
  assumes "mict_inv a" "layout_valid l" "0 < lsize l" "s + blocks_of (lsize l) \<le> reach_blocks a"
  shows "\<exists>a'. dealloc a (heap_start a + 64 * s) l = Some a' \<and> same_bounds a' a \<and>
    (\<forall>k. hot a' k \<longleftrightarrow> hot a k \<and> \<not> (s \<le> k \<and> k < s + blocks_of (lsize l)))"
proof -
  let ?n = "blocks_of (lsize l)"
  have n: "0 < ?n" using assms(2,3) by (rule blocks_of_pos)
  have "s < heap_size a div 64" "s + ?n \<le> nblocks a"
    using assms(4) n by (simp_all add: reach_blocks_def total_blocks_def BLOCK_SIZE_def)
  then have "64 * s < heap_size a" by linarith
  moreover have "uadd (heap_start a) (heap_size a) = heap_start a + heap_size a"
    using assms(1) by (intro uadd_small) (simp add: mict_inv_def)
  ultimately have "dealloc a (heap_start a + 64 * s) l = set_bits a s ?n False"
    by (simp add: dealloc_def BLOCK_SIZE_def)
  with set_bits_in [OF \<open>s + ?n \<le> nblocks a\<close>, of False] show ?thesis by auto
qed

lemma mict_used_range:
  "x \<in> mict_used a \<longleftrightarrow> heap_start a \<le> x \<and> hot a ((x - heap_start a) div 64)"
proof
  assume "x \<in> mict_used a"
  then obtain k where k: "hot a k" "heap_start a + 64 * k \<le> x" "x < heap_start a + 64 * k + 64"
    by (auto simp: mict_used_def)
  then have "(x - heap_start a) div 64 = k" by (intro div_nat_eqI) auto
  with k show "heap_start a \<le> x \<and> hot a ((x - heap_start a) div 64)" by simp
next
  assume "heap_start a \<le> x \<and> hot a ((x - heap_start a) div 64)"
  then show "x \<in> mict_used a"
    unfolding mict_used_def by (auto intro!: exI [of _ "(x - heap_start a) div 64"])
qed

lemma block_range:
  fixes x h s n :: nat
  shows "h + 64 * s \<le> x \<and> x < h + 64 * s + 64 * n \<longleftrightarrow>
    h \<le> x \<and> s \<le> (x - h) div 64 \<and> (x - h) div 64 < s + n"
  by linarith

lemma mict_ext_range:
  "x \<in> mict_ext (h + 64 * s) l \<longleftrightarrow>
   h \<le> x \<and> s \<le> (x - h) div 64 \<and> (x - h) div 64 < s + blocks_of (lsize l)"
  using block_range [of h s x "blocks_of (lsize l)"] by (simp add: mict_ext_def)

lemma fits_cold:
  assumes "fits a n al lim s" "s \<le> k" "k < s + n"
  shows "\<not> hot a k"
proof -
  have "k = s + (k - s)" "k - s < n" using assms(2,3) by simp_all
  with assms(1) show ?thesis unfolding fits_def by metis
qed

lemmas mict_ranges = mict_used_range mict_ext_range same_bounds_def

interpretation mict: heap_contract alloc dealloc mict_inv mict_used mict_ext mict_owned
proof unfold_locales
  fix a a' :: MictGlobalAllocator and l p
  assume inv: "mict_inv a" and l: "layout_valid l" "0 < lsize l"
  { assume "alloc a l = Some (p, a')" "p \<noteq> 0"
    then obtain s where p: "p = heap_start a + 64 * s" and b: "same_bounds a' a"
      and s: "fits a (blocks_of (lsize l)) (align_blocks_of (lalign l)) (reach_blocks a) s"
      and h: "\<forall>k. hot a' k \<longleftrightarrow> hot a k \<or> s \<le> k \<and> k < s + blocks_of (lsize l)"
      by (cases rule: alloc_cases [OF inv l]) auto
    have "mict_ext p l \<inter> mict_used a = {}"
      using fits_cold [OF s] by (auto simp: p mict_used_range mict_ext_range)
    moreover have "mict_used a' = mict_used a \<union> mict_ext p l"
      using b h by (auto simp: p mict_ranges)
    moreover have "mict_owned a' p l"
      unfolding same_bounds_trans_facts(4) [OF b] mict_owned_def
      using l s by (intro conjI exI [of _ s]) (simp_all add: p fits_def)
    ultimately show "mict_inv a' \<and> mict_ext p l \<inter> mict_used a = {} \<and>
        mict_used a' = mict_used a \<union> mict_ext p l \<and> mict_owned a' p l \<and>
        (\<forall>q m. mict_owned a q m \<longrightarrow> mict_owned a' q m)"
      using inv b by (simp add: same_bounds_trans_facts) }
  { assume "alloc a l = Some (0, a')"
    then show "a' = a"
      using inv by (cases rule: alloc_cases [OF inv l]) (auto simp: mict_inv_def) }
next
  fix a p l
  assume inv: "mict_inv a" and own: "mict_owned a p l" and used: "mict_ext p l \<subseteq> mict_used a"
  then obtain s where p: "p = heap_start a + 64 * s" "s + blocks_of (lsize l) \<le> reach_blocks a"
    and l: "layout_valid l" "0 < lsize l" by (auto simp: mict_owned_def)
  from dealloc_in [OF inv l p(2)] obtain a' where a': "dealloc a p l = Some a'" "same_bounds a' a"
    "\<forall>k. hot a' k \<longleftrightarrow> hot a k \<and> \<not> (s \<le> k \<and> k < s + blocks_of (lsize l))"
    by (auto simp: p)
  then have "mict_used a' = mict_used a - mict_ext p l" by (auto simp: p mict_ranges)
  with a' inv show "\<exists>a'. dealloc a p l = Some a' \<and> mict_inv a' \<and> mict_used a' = mict_used a - mict_ext p l \<and>
      (\<forall>q m. mict_owned a q m \<longrightarrow> mict_owned a' q m)"
    by (auto simp: same_bounds_trans_facts)
qed

subsection \<open>The properties of the allocator\<close>

lemma align_blocks_dvd:
  assumes "layout_valid l" "align_blocks_of (lalign l) dvd s"
  shows "lalign l dvd 64 * s"
proof -
  obtain k where k: "lalign l = 2 ^ k" using assms(1) by (auto simp: layout_valid_def)
  show ?thesis
  proof (cases "6 \<le> k")
    case True
    then have e: "(2 :: nat) ^ k = 64 * 2 ^ (k - 6)"
      using power_add [of "2 :: nat" 6 "k - 6"] by simp
    moreover have "64 < (64 :: nat) * 2 ^ (k - 6) \<or> 2 ^ (k - 6) = (1 :: nat)"
      using one_le_power [of "2 :: nat" "k - 6"] by linarith
    ultimately have "lalign l = 64 * align_blocks_of (lalign l)"
      by (auto simp: align_blocks_of_def BLOCK_SIZE_def k simp del: one_less_power)
    with assms(2) show ?thesis by (metis mult_dvd_mono dvd_refl)
  next
    case False
    then have "(2 :: nat) ^ k dvd 2 ^ 6" by (intro le_imp_power_dvd) simp
    then show ?thesis by (simp add: k dvd_mult2)
  qed
qed

lemma set_bits_bounds: "set_bits a s n h = Some a' \<Longrightarrow> same_bounds a' a"
proof (induction n arbitrary: a')
  case (Suc n)
  then obtain b where "set_bits a s n h = Some b" "set_bit b (s + n) h = Some a'"
    by (auto split: bind_splits)
  with Suc.IH show ?case
    by (auto simp: set_bit_def Let_def same_bounds_def nblocks_def aset_Some_iff split: bind_splits)
qed (simp add: same_bounds_def)

lemma alloc_scan_bounds:
  assumes "alloc_scan a n al tot i cur st = Some (p, a')"
  shows "same_bounds a' a"
  using assms
proof (induction "tot - i" arbitrary: i cur st rule: less_induct)
  case less
  show ?case
  proof (cases "i < tot")
    case True
    then have IH: "alloc_scan a n al tot (Suc i) c t = Some (p, a') \<Longrightarrow> same_bounds a' a" for c t
      by (intro less.hyps) auto
    from less.prems True show ?thesis
      by (subst (asm) alloc_scan.simps)
        (auto simp: Let_def split: if_splits option.splits bool.splits bind_splits
          dest: set_bits_bounds intro: IH)
  next
    case False
    with less.prems show ?thesis by (simp add: alloc_scan_end same_bounds_def)
  qed
qed

lemma alloc_bounds: "alloc a l = Some (p, a') \<Longrightarrow> same_bounds a' a"
  unfolding alloc_def by (rule alloc_scan_bounds)

lemma dealloc_bounds: "dealloc a p l = Some a' \<Longrightarrow> same_bounds a' a"
  by (auto simp: dealloc_def Let_def split: if_splits dest: set_bits_bounds)

lemma mict_owned_placed:
  assumes "mict_owned a p l"
  shows "heap_start a \<le> p \<and> p + lsize l \<le> heap_start a + heap_size a \<and>
    (lalign l dvd heap_start a \<longrightarrow> lalign l dvd p)"
proof -
  from assms obtain s where s: "p = heap_start a + 64 * s" "s + blocks_of (lsize l) \<le> reach_blocks a"
    "align_blocks_of (lalign l) dvd s" and l: "layout_valid l" by (auto simp: mict_owned_def)
  have "64 * (s + blocks_of (lsize l)) \<le> heap_size a"
    using s(2) by (auto simp: reach_blocks_def total_blocks_def BLOCK_SIZE_def)
  with size_le_blocks [OF l] s(1) have "p + lsize l \<le> heap_start a + heap_size a" by simp
  moreover have "lalign l dvd 64 * s" using l s(3) by (rule align_blocks_dvd)
  ultimately show ?thesis using s(1) by simp
qed

lemma mict_bounds_step:
  assumes "heap_step alloc dealloc (a, L) (a', L')"
  shows "same_bounds a' a"
  using assms
  by (cases rule: heap_stepE) (auto dest: alloc_bounds dealloc_bounds)

lemma mict_bounds_reach:
  assumes "heap_reach alloc dealloc a0 (a, L)"
  shows "same_bounds a a0"
  using assms
proof (induction "(a, L)" arbitrary: a L rule: heap_reach.induct)
  case (step s)
  obtain b M where s: "s = (b, M)" by fastforce
  with step have "heap_step alloc dealloc (b, M) (a, L)" by simp
  from mict_bounds_step [OF this] step.hyps(2) [OF s] show ?case by (simp add: same_bounds_def)
qed (simp add: same_bounds_def)

definition free_run :: "MictGlobalAllocator \<Rightarrow> Layout \<Rightarrow> nat \<Rightarrow> bool" where
  "free_run a l = fits a (blocks_of (lsize l)) (align_blocks_of (lalign l)) (reach_blocks a)"

lemma alloc_none_covered:
  assumes "mict_inv a" "layout_valid l" "0 < lsize l" "total_blocks a \<le> nblocks a"
    "\<forall>s. \<not> free_run a l s"
  shows "alloc a l = Some (0, a)"
  unfolding alloc_def
  by (rule scan_none)
    (use assms in \<open>auto simp: free_run_def reach_blocks_def total_blocks_def min_def
        intro!: scan_inv_init blocks_of_pos\<close>)

lemma alloc_none_uncovered:
  assumes "mict_inv a" "layout_valid l" "0 < lsize l" "nblocks a \<le> k" "k < total_blocks a"
    "align_blocks_of (lalign l) dvd k" "\<forall>s. \<not> free_run a l s"
  shows "alloc a l = None"
  unfolding alloc_def
  by (rule scan_exhausted [where k = k])
    (use assms in \<open>auto simp: free_run_def reach_blocks_def total_blocks_def min_def
        intro!: scan_inv_init blocks_of_pos\<close>)


lemma set_bits_numeral:
  "set_bits a st (numeral n) h =
     do { a' \<leftarrow> set_bits a st (pred_numeral n) h; set_bit a' (st + pred_numeral n) h }"
  by (simp add: numeral_eq_Suc)

lemmas alloc_eval = alloc_def blocks_of_def align_blocks_of_def BLOCK_SIZE_def uadd_def usub_def
  umul_def alloc_scan.simps is_hot_def set_bit_def aget_def aset_def set_bits_numeral

definition small_heap :: MictGlobalAllocator where
  "small_heap = \<lparr>heap_start = 4096, heap_size = 1024, heatmap = [5, 0]\<rparr>"

definition cold_heap :: MictGlobalAllocator where
  "cold_heap = \<lparr>heap_start = 4096, heap_size = 1024, heatmap = [0, 0]\<rparr>"

definition two_lines :: Layout where
  "two_lines = \<lparr>lsize = 100, lalign = 128\<rparr>"

lemma two_lines_valid: "layout_valid two_lines" "0 < lsize two_lines"
  by (auto simp: layout_valid_def two_lines_def intro!: exI [of _ 7])

lemma small_heap_facts:
  "mict_inv small_heap" "total_blocks small_heap \<le> nblocks small_heap"
  "mict_inv cold_heap" "total_blocks cold_heap \<le> nblocks cold_heap"
  by (simp_all add: mict_inv_def small_heap_def cold_heap_def total_blocks_def nblocks_def BLOCK_SIZE_def)

lemma small_heap_alloc:
  "alloc small_heap two_lines = Some (4352, small_heap\<lparr>heatmap := [53, 0]\<rparr>)"
  "alloc cold_heap two_lines = Some (4096, cold_heap\<lparr>heatmap := [3, 0]\<rparr>)"
  by (simp_all add: alloc_eval small_heap_def cold_heap_def two_lines_def)



lemma cold_heap_cold: "\<not> hot cold_heap k"
  by (auto simp: hot_def cold_heap_def nblocks_def nth_Cons' split: if_splits)

lemma cold_heap_reach:
  "heap_reach alloc dealloc cold_heap (cold_heap\<lparr>heatmap := [3, 0]\<rparr>, [(4096, two_lines)])"
  by (rule heap_reach.step [OF heap_reach.start])
    (intro heap_step.allocated two_lines_valid small_heap_alloc, simp)


text \<open>Freeing an allocation right after making it restores the allocator bit for bit.\<close>

theorem mict_alloc_dealloc_roundtrip:
  assumes "mict_inv a" "layout_valid l" "0 < lsize l" "alloc a l = Some (p, a')" "p \<noteq> 0"
  shows "dealloc a' p l = Some a"
  using assms(1-3)
proof (cases rule: alloc_cases)
  case (found s b)
  with assms have b: "b = a'" "p = heap_start a' + 64 * s" "s + blocks_of (lsize l) \<le> reach_blocks a'"
    by (auto simp: same_bounds_def reach_blocks_def total_blocks_def fits_def)
  have "mict_inv a'" using found(2) assms(1) by (simp add: b same_bounds_trans_facts)
  from dealloc_in [OF this assms(2,3) b(3)] obtain c where c: "dealloc a' p l = Some c" "same_bounds c a'"
    "\<forall>k. hot c k \<longleftrightarrow> hot a' k \<and> \<not> (s \<le> k \<and> k < s + blocks_of (lsize l))"
    by (auto simp: b(2))
  have "c = a"
  proof (rule heatmap_eqI)
    fix k show "hot c k = hot a k"
      using c(3) found(5) fits_cold [OF found(3), of k] by (auto simp: b(1))
  qed (use c(2) found(2) in \<open>auto simp: same_bounds_def b(1)\<close>)
  with c show ?thesis by simp
qed (use assms in auto)

theorem mict_alloc_dealloc_roundtrip_witness:
  "alloc small_heap two_lines = Some (4352, small_heap\<lparr>heatmap := [53, 0]\<rparr>) \<and>
   dealloc (small_heap\<lparr>heatmap := [53, 0]\<rparr>) 4352 two_lines = Some small_heap"
  using mict_alloc_dealloc_roundtrip [OF small_heap_facts(1) two_lines_valid small_heap_alloc(1)]
    small_heap_alloc(1) by simp

text \<open>The heap as the kernel configures it: 64 MiB of heap, hence 1,048,576 blocks, over a heatmap of
  500,000 bits.\<close>

definition HEAP_START :: nat where "HEAP_START = 0x444444440000"
definition HEAP_SIZE :: nat where "HEAP_SIZE = 64 * 1024 * 1024"

definition kernel_heap :: MictGlobalAllocator where
  "kernel_heap = MictGlobalAllocator_init MictGlobalAllocator_new HEAP_START HEAP_SIZE"

lemma kernel_heap_facts:
  "mict_inv kernel_heap" "nblocks kernel_heap = 500000" "total_blocks kernel_heap = 1048576"
  "heap_start kernel_heap = HEAP_START"
  by (simp_all add: mict_inv_def kernel_heap_def MictGlobalAllocator_init_def nblocks_def
      MictGlobalAllocator_new_def HEAP_START_def HEAP_SIZE_def MAX_HEAP_BLOCKS_def total_blocks_def
      BLOCK_SIZE_def)

lemma kernel_heap_cold: "\<not> hot kernel_heap k"
  by (auto simp: hot_def kernel_heap_def MictGlobalAllocator_init_def MictGlobalAllocator_new_def
      nblocks_def)

lemma pow_div_dvd:
  assumes "j \<le> 25"
  shows "(if 64 < (2 :: nat) ^ j then 2 ^ j div 64 else 1) dvd (2 :: nat) ^ 19"
proof (cases "6 \<le> j")
  case True
  then have "(2 :: nat) ^ j = 64 * 2 ^ (j - 6)"
    using power_add [of "2 :: nat" 6 "j - 6"] by simp
  moreover have "(2 :: nat) ^ (j - 6) dvd 2 ^ 19" using assms by (intro le_imp_power_dvd) simp
  ultimately show ?thesis by simp
next
  case False
  then have "(2 :: nat) ^ j \<le> 2 ^ 6" by (intro power_increasing) simp_all
  then show ?thesis by simp
qed

text \<open>In the kernel's own configuration the heap is larger than what the heatmap covers: a request
  that no free run of covered blocks can satisfy never gets the null pointer that means out of
  memory; the scan leaves the heatmap and the kernel panics on the index.\<close>

theorem kernel_heap_exhaustion_panics:
  assumes "heap_reach alloc dealloc kernel_heap (a, L)" "layout_valid l" "0 < lsize l"
    "lalign l \<le> 2 ^ 25"
  shows "(alloc a l = None \<longleftrightarrow> (\<forall>s. \<not> free_run a l s)) \<and> alloc a l \<noteq> Some (0, a')"
proof -
  note b = mict_bounds_reach [OF assms(1)]
  have inv: "mict_inv a" and n: "nblocks a = 500000" "total_blocks a = 1048576"
    using b kernel_heap_facts same_bounds_trans_facts [OF b] by (auto simp: same_bounds_def)
  obtain j where j: "lalign l = 2 ^ j" using assms(2) by (auto simp: layout_valid_def)
  with assms(4) have "j \<le> 25" using power_le_imp_le_exp [of "2 :: nat" j 25] by simp
  then have "align_blocks_of (lalign l) dvd 2 ^ 19"
    unfolding align_blocks_of_def BLOCK_SIZE_def j by (rule pow_div_dvd)
  then have nofit: "alloc a l = None" if "\<forall>s. \<not> free_run a l s"
    using alloc_none_uncovered [OF inv assms(2,3), of "2 ^ 19"] that n by simp
  show ?thesis
  proof (cases rule: alloc_cases [OF inv assms(2,3)])
    case 1
    then have "0 < heap_start a" "\<exists>s. free_run a l s" using inv by (auto simp: mict_inv_def free_run_def)
    with 1 show ?thesis by simp
  next
    case 2
    with nofit show ?thesis by (simp add: free_run_def)
  qed
qed

definition forty_megabytes :: Layout where
  "forty_megabytes = \<lparr>lsize = 40000000, lalign = 8\<rparr>"

theorem kernel_heap_exhaustion_panics_witness:
  "lsize forty_megabytes < HEAP_SIZE \<and> (\<forall>s. \<not> free_run kernel_heap forty_megabytes s) \<and>
   alloc kernel_heap forty_megabytes = None"
proof -
  have v: "layout_valid forty_megabytes" "0 < lsize forty_megabytes" "lalign forty_megabytes \<le> 2 ^ 25"
    by (auto simp: layout_valid_def forty_megabytes_def intro!: exI [of _ 3])
  have "blocks_of (lsize forty_megabytes) = 625000"
    unfolding blocks_of_valid [OF v(1)] by (simp add: forty_megabytes_def)
  then have "\<forall>s. \<not> free_run kernel_heap forty_megabytes s"
    by (simp add: free_run_def fits_def reach_blocks_def kernel_heap_facts)
  with kernel_heap_exhaustion_panics [OF heap_reach.start v] show ?thesis
    by (simp add: forty_megabytes_def HEAP_SIZE_def)
qed

end
