(* ===== verification/Memory.thy ===== *)
theory Memory
  imports Mict_Alloc
begin

text \<open>
  Physical memory: \<^verbatim>\<open>kernel/src/memory.rs\<close> (the frame allocator over the memory map of the
  bootloader, DMA allocation, MMIO mapping) and \<open>init_heap\<close> of \<^verbatim>\<open>kernel/src/allocator.rs\<close>. Addresses
  are \<open>nat\<close>; a frame or a page is its start address. The page tables belong to the x86\_64 crate: the
  mapper is a parameter.
\<close>

subsection \<open>The frame allocator\<close>

record MemoryRegion =
  rstart :: nat
  rend :: nat
  rusable :: bool

record BootInfoFrameAllocator =
  memory_regions :: "MemoryRegion list"
  next_frame :: nat

definition BootInfoFrameAllocator_init :: "MemoryRegion list \<Rightarrow> BootInfoFrameAllocator" where
  "BootInfoFrameAllocator_init regions = \<lparr>memory_regions = regions, next_frame = 0\<rparr>"

text \<open>\<open>(start..end).step_by(4096)\<close>.\<close>

definition step_by_4096 :: "nat \<Rightarrow> nat \<Rightarrow> nat list" where
  "step_by_4096 a b = map (\<lambda>i. a + 4096 * i) [0..<(b - a + 4095) div 4096]"

definition containing_address :: "nat \<Rightarrow> nat" where
  "containing_address a = a - a mod 4096"

definition usable_frames :: "BootInfoFrameAllocator \<Rightarrow> nat list" where
  "usable_frames fa = map containing_address
     (concat (map (\<lambda>r. step_by_4096 (rstart r) (rend r)) (filter rusable (memory_regions fa))))"

definition allocate_frame :: "BootInfoFrameAllocator \<Rightarrow> nat option \<times> BootInfoFrameAllocator" where
  "allocate_frame fa =
     (if next_frame fa < length (usable_frames fa) then Some (usable_frames fa ! next_frame fa) else None,
      fa\<lparr>next_frame := next_frame fa + 1\<rparr>)"

text \<open>The allocator that never has a frame.\<close>

definition empty_allocate_frame :: "unit \<Rightarrow> nat option \<times> unit" where
  "empty_allocate_frame u = (None, u)"

subsection \<open>DMA memory\<close>

type_synonym 'fa frame_fun = "'fa \<Rightarrow> nat option \<times> 'fa"

primrec reserve_frames :: "'fa frame_fun \<Rightarrow> nat \<Rightarrow> 'fa \<Rightarrow> bool \<times> 'fa" where
  "reserve_frames alf 0 fa = (True, fa)"
| "reserve_frames alf (Suc n) fa = (case alf fa of
       (None, fa') \<Rightarrow> (False, fa')
     | (Some _, fa') \<Rightarrow> reserve_frames alf n fa')"

text \<open>The result of \<open>allocate_dma_frames\<close>: physical and virtual address, and the physical bytes it zeroes.\<close>

definition allocate_dma_frames :: "'fa frame_fun \<Rightarrow> nat \<Rightarrow> nat \<Rightarrow> 'fa \<Rightarrow>
    (nat \<times> nat \<times> nat set) option \<times> 'fa" where
  "allocate_dma_frames alf phys_mem_offset pages fa = (case alf fa of
       (None, fa') \<Rightarrow> (None, fa')
     | (Some first, fa') \<Rightarrow>
         (case reserve_frames alf (pages - 1) fa' of
            (False, fa'') \<Rightarrow> (None, fa'')
          | (True, fa'') \<Rightarrow>
              (Some (first, phys_mem_offset + first, {first ..< first + pages * 4096}), fa'')))"

subsection \<open>Mappings\<close>

text \<open>\<open>Mapper::map_to\<close> with its flush: page, frame, flags, frame allocator and page tables.\<close>

type_synonym ('e, 'fa, 'pt) map_fun = "nat \<Rightarrow> nat \<Rightarrow> nat \<Rightarrow> 'fa \<Rightarrow> 'pt \<Rightarrow> ('e, unit) result \<times> 'fa \<times> 'pt"

definition PRESENT :: nat where "PRESENT = 1"
definition WRITABLE :: nat where "WRITABLE = 2"
definition WRITE_THROUGH :: nat where "WRITE_THROUGH = 8"
definition NO_CACHE :: nat where "NO_CACHE = 16"

text \<open>\<open>range_inclusive\<close> over pages or frames.\<close>

definition range_inclusive :: "nat \<Rightarrow> nat \<Rightarrow> nat list" where
  "range_inclusive a b = (if a \<le> b then map (\<lambda>i. a + 4096 * i) [0..<(b - a) div 4096 + 1] else [])"

fun map_frames :: "('e, 'fa, 'pt) map_fun \<Rightarrow> nat \<Rightarrow> nat list \<Rightarrow> 'fa \<Rightarrow> 'pt \<Rightarrow> ('e, unit) result \<times> 'fa \<times> 'pt" where
  "map_frames mto fl [] fa pt = (Ok (), fa, pt)"
| "map_frames mto fl (f # fs) fa pt = (case mto (containing_address f) f fl fa pt of
       (Err e, fa', pt') \<Rightarrow> (Err e, fa', pt')
     | (Ok _, fa', pt') \<Rightarrow> map_frames mto fl fs fa' pt')"

definition map_mmio :: "('e, 'fa, 'pt) map_fun \<Rightarrow> nat \<Rightarrow> nat \<Rightarrow> 'fa \<Rightarrow> 'pt \<Rightarrow> ('e, nat) result \<times> 'fa \<times> 'pt" where
  "map_mmio mto physical_address size_in_bytes fa pt = (
     let start_frame = containing_address physical_address;
         end_frame = containing_address (physical_address + size_in_bytes - 1);
         fl = PRESENT + WRITABLE + NO_CACHE + WRITE_THROUGH
     in case map_frames mto fl (range_inclusive start_frame end_frame) fa pt of
          (Err e, fa', pt') \<Rightarrow> (Err e, fa', pt')
        | (Ok _, fa', pt') \<Rightarrow> (Ok physical_address, fa', pt'))"

definition virt_to_phys :: "('pt \<Rightarrow> nat \<Rightarrow> nat option) \<Rightarrow> 'pt \<Rightarrow> nat \<Rightarrow> nat option" where
  "virt_to_phys translate_addr pt virt_addr = translate_addr pt virt_addr"

fun map_heap :: "'e \<Rightarrow> 'fa frame_fun \<Rightarrow> ('e, 'fa, 'pt) map_fun \<Rightarrow> nat list \<Rightarrow> 'fa \<Rightarrow> 'pt \<Rightarrow>
    ('e, unit) result \<times> 'fa \<times> 'pt" where
  "map_heap FrameAllocationFailed alf mto [] fa pt = (Ok (), fa, pt)"
| "map_heap FrameAllocationFailed alf mto (page # ps) fa pt = (case alf fa of
       (None, fa') \<Rightarrow> (Err FrameAllocationFailed, fa', pt)
     | (Some frame, fa') \<Rightarrow>
         (case mto page frame (PRESENT + WRITABLE) fa' pt of
            (Err e, fa'', pt') \<Rightarrow> (Err e, fa'', pt')
          | (Ok _, fa'', pt') \<Rightarrow> map_heap FrameAllocationFailed alf mto ps fa'' pt'))"

definition init_heap :: "'e \<Rightarrow> 'fa frame_fun \<Rightarrow> ('e, 'fa, 'pt) map_fun \<Rightarrow> MictGlobalAllocator \<Rightarrow> 'fa \<Rightarrow> 'pt \<Rightarrow>
    ('e, unit) result \<times> MictGlobalAllocator \<times> 'fa \<times> 'pt" where
  "init_heap FrameAllocationFailed alf mto ALLOCATOR fa pt = (
     let heap_end = HEAP_START + HEAP_SIZE - 1;
         page_range = range_inclusive (containing_address HEAP_START) (containing_address heap_end)
     in case map_heap FrameAllocationFailed alf mto page_range fa pt of
          (Err e, fa', pt') \<Rightarrow> (Err e, ALLOCATOR, fa', pt')
        | (Ok _, fa', pt') \<Rightarrow> (Ok (), MictGlobalAllocator_init ALLOCATOR HEAP_START HEAP_SIZE, fa', pt'))"

subsection \<open>Frames are handed out once\<close>

text \<open>A memory map the bootloader gives: page-aligned regions that do not overlap.\<close>

definition region_frames :: "MemoryRegion \<Rightarrow> nat set" where
  "region_frames r = {f. 4096 dvd f \<and> rstart r \<le> f \<and> f < rend r}"

fun regions_disjoint :: "MemoryRegion list \<Rightarrow> bool" where
  "regions_disjoint [] = True"
| "regions_disjoint (r # rs) = ((\<forall>q \<in> set rs. rend r \<le> rstart q \<or> rend q \<le> rstart r) \<and> regions_disjoint rs)"

definition map_ok :: "MemoryRegion list \<Rightarrow> bool" where
  "map_ok rs \<longleftrightarrow> regions_disjoint rs \<and> (\<forall>r \<in> set rs. 4096 dvd rstart r \<and> 4096 dvd rend r)"

lemma step_by_set:
  assumes "4096 dvd a" "4096 dvd b"
  shows "set (step_by_4096 a b) = {f. 4096 dvd f \<and> a \<le> f \<and> f < b}" "distinct (step_by_4096 a b)"
proof -
  show "distinct (step_by_4096 a b)" by (auto simp: step_by_4096_def distinct_map inj_on_def)
  show "set (step_by_4096 a b) = {f. 4096 dvd f \<and> a \<le> f \<and> f < b}"
  proof (intro equalityI subsetI)
    fix f assume "f \<in> set (step_by_4096 a b)"
    then obtain i where i: "f = a + 4096 * i" "i < (b - a + 4095) div 4096" by (auto simp: step_by_4096_def)
    from assms obtain x y where "a = 4096 * x" "b = 4096 * y" by (auto elim!: dvdE)
    with i show "f \<in> {f. 4096 dvd f \<and> a \<le> f \<and> f < b}" by auto
  next
    fix f assume f: "f \<in> {f. 4096 dvd f \<and> a \<le> f \<and> f < b}"
    with assms obtain x z where "a = 4096 * x" "f = 4096 * z" by (auto elim!: dvdE)
    with f have "f = a + 4096 * (z - x)" "z - x < (b - a + 4095) div 4096" by auto
    then show "f \<in> set (step_by_4096 a b)" by (auto simp: step_by_4096_def)
  qed
qed

lemma containing_aligned: "4096 dvd a \<Longrightarrow> containing_address a = a"
  by (auto simp: containing_address_def)

lemma regions_disjoint_filter: "regions_disjoint rs \<Longrightarrow> regions_disjoint (filter p rs)"
  by (induction rs) auto

lemma frames_of_regions:
  assumes "regions_disjoint rs" "\<forall>r \<in> set rs. 4096 dvd rstart r \<and> 4096 dvd rend r"
  shows "distinct (concat (map (\<lambda>r. step_by_4096 (rstart r) (rend r)) rs)) \<and>
    set (concat (map (\<lambda>r. step_by_4096 (rstart r) (rend r)) rs)) = (\<Union>r \<in> set rs. region_frames r)"
  using assms
proof (induction rs)
  case (Cons r rs)
  have s: "set (step_by_4096 (rstart r) (rend r)) = region_frames r" "distinct (step_by_4096 (rstart r) (rend r))"
    using step_by_set [of "rstart r" "rend r"] Cons.prems(2) by (auto simp: region_frames_def)
  have "region_frames r \<inter> (\<Union>q \<in> set rs. region_frames q) = {}"
    using Cons.prems(1) by (fastforce simp: region_frames_def)
  with Cons s show ?case by auto
qed simp

lemma usable_frames_ok:
  assumes "map_ok (memory_regions fa)"
  shows "distinct (usable_frames fa)"
    "set (usable_frames fa) = (\<Union>r \<in> {r \<in> set (memory_regions fa). rusable r}. region_frames r)"
proof -
  let ?rs = "filter rusable (memory_regions fa)"
  let ?fs = "concat (map (\<lambda>r. step_by_4096 (rstart r) (rend r)) ?rs)"
  have f: "distinct ?fs" "set ?fs = (\<Union>r \<in> set ?rs. region_frames r)"
    using frames_of_regions [of ?rs] assms regions_disjoint_filter by (auto simp: map_ok_def)
  have "map containing_address ?fs = ?fs"
    using f(2) by (intro map_idI containing_aligned) (auto simp: region_frames_def)
  then show "distinct (usable_frames fa)"
    "set (usable_frames fa) = (\<Union>r \<in> {r \<in> set (memory_regions fa). rusable r}. region_frames r)"
    using f by (auto simp: usable_frames_def)
qed

text \<open>The answers of a number of successive requests.\<close>

primrec take_frames :: "nat \<Rightarrow> BootInfoFrameAllocator \<Rightarrow> nat option list" where
  "take_frames 0 fa = []"
| "take_frames (Suc n) fa = (let (f, fa') = allocate_frame fa in f # take_frames n fa')"

lemma take_frames_nth:
  "take_frames n fa = map (\<lambda>i. if i < length (usable_frames fa) then Some (usable_frames fa ! i) else None)
     [next_frame fa ..< next_frame fa + n]"
proof (induction n arbitrary: fa)
  case (Suc n)
  have "usable_frames (fa\<lparr>next_frame := k\<rparr>) = usable_frames fa" for k by (simp add: usable_frames_def)
  with Suc show ?case by (simp add: allocate_frame_def upt_conv_Cons del: upt_Suc)
qed simp

text \<open>C11. Physical frames are handed out at most once: on a memory map of page-aligned regions that do not overlap, the
  frames that any number of successive requests get are all different, are page-aligned, and lie in
  regions the bootloader marked usable; and requests fail only once every usable frame is gone.\<close>

theorem frames_handed_out_once:
  assumes "map_ok regions"
  shows "distinct (List.map_filter id (take_frames n (BootInfoFrameAllocator_init regions))) \<and>
    set (List.map_filter id (take_frames n (BootInfoFrameAllocator_init regions))) \<subseteq>
      (\<Union>r \<in> {r \<in> set regions. rusable r}. region_frames r) \<and>
    (None \<in> set (take_frames n (BootInfoFrameAllocator_init regions)) \<longrightarrow>
      set (List.map_filter id (take_frames n (BootInfoFrameAllocator_init regions))) =
        (\<Union>r \<in> {r \<in> set regions. rusable r}. region_frames r))"
proof -
  let ?fa = "BootInfoFrameAllocator_init regions"
  let ?fs = "usable_frames ?fa"
  have f: "distinct ?fs" "set ?fs = (\<Union>r \<in> {r \<in> set regions. rusable r}. region_frames r)"
    using usable_frames_ok [of ?fa] assms by (simp_all add: BootInfoFrameAllocator_init_def)
  have t: "take_frames n ?fa = map (\<lambda>i. if i < length ?fs then Some (?fs ! i) else None) [0..<n]"
    unfolding take_frames_nth by (simp add: BootInfoFrameAllocator_init_def)
  have "List.map_filter id (map (\<lambda>i. if i < length ?fs then Some (?fs ! i) else None) [0..<n]) = take n ?fs" for n
    by (induction n) (auto simp: map_filter_def take_Suc_conv_app_nth)
  then have m: "List.map_filter id (take_frames n ?fa) = take n ?fs" by (simp add: t)
  have "length ?fs < n" if "None \<in> set (take_frames n ?fa)" using that by (auto simp: t split: if_splits)
  then have "take n ?fs = ?fs" if "None \<in> set (take_frames n ?fa)" using that by fastforce
  with f show ?thesis by (auto simp: m dest: in_set_takeD)
qed

definition two_regions :: "MemoryRegion list" where
  "two_regions = [\<lparr>rstart = 4096, rend = 12288, rusable = True\<rparr>, \<lparr>rstart = 12288, rend = 16384, rusable = False\<rparr>,
     \<lparr>rstart = 16384, rend = 20480, rusable = True\<rparr>]"

lemma two_regions_ok: "map_ok two_regions"
  by (simp add: map_ok_def two_regions_def)

lemma two_regions_frames:
  "usable_frames \<lparr>memory_regions = two_regions, next_frame = n\<rparr> = [4096, 8192, 16384]"
  by (simp add: usable_frames_def two_regions_def step_by_4096_def containing_address_def upt_rec)

theorem frames_handed_out_once_witness:
  "take_frames 4 (BootInfoFrameAllocator_init two_regions) = [Some 4096, Some 8192, Some 16384, None] \<and>
   {4096, 8192, 16384} = (\<Union>r \<in> {r \<in> set two_regions. rusable r}. region_frames r)"
proof -
  have t: "take_frames 4 (BootInfoFrameAllocator_init two_regions) = [Some 4096, Some 8192, Some 16384, None]"
    by (simp add: take_frames_nth BootInfoFrameAllocator_init_def two_regions_frames upt_rec)
  with frames_handed_out_once [OF two_regions_ok, of 4] show ?thesis by (auto simp: map_filter_simps)
qed

subsection \<open>DMA blocks\<close>

lemma step_by_nth: "j < length (step_by_4096 a b) \<Longrightarrow> step_by_4096 a b ! j = a + 4096 * j"
  unfolding step_by_4096_def by (simp only: length_map length_upt nth_map nth_upt) simp

lemma frames_in_region:
  assumes "map_ok (memory_regions fa)" "r \<in> set (memory_regions fa)" "rusable r" "k < length (usable_frames fa)"
    "usable_frames fa ! k \<in> region_frames r" "usable_frames fa ! k + 4096 * i < rend r"
  shows "k + i < length (usable_frames fa) \<and> usable_frames fa ! (k + i) = usable_frames fa ! k + 4096 * i"
proof -
  let ?S = "\<lambda>r. step_by_4096 (rstart r) (rend r)"
  let ?fs = "usable_frames fa"
  have al: "4096 dvd rstart r" "4096 dvd rend r" using assms(1,2) by (auto simp: map_ok_def)
  obtain rs1 rs2 where rs: "filter rusable (memory_regions fa) = rs1 @ r # rs2"
    using assms(2,3) split_list [of r "filter rusable (memory_regions fa)"] by auto
  define A where "A = map containing_address (concat (map ?S rs1))"
  define B where "B = map containing_address (concat (map ?S rs2))"
  have "map containing_address (?S r) = ?S r"
    using step_by_set [OF al] by (intro map_idI containing_aligned) auto
  then have fs: "?fs = A @ ?S r @ B" by (simp add: usable_frames_def rs A_def B_def)
  have "?fs ! k \<in> set (?S r)" using assms(5) step_by_set [OF al] by (auto simp: region_frames_def)
  then obtain j where j: "j < length (?S r)" "?S r ! j = ?fs ! k" by (auto simp: in_set_conv_nth)
  then have "?fs ! (length A + j) = ?fs ! k" "length A + j < length ?fs" by (simp_all add: fs nth_append)
  then have k: "k = length A + j"
    using usable_frames_ok(1) [OF assms(1)] assms(4) nth_eq_iff_index_eq by blast
  have v: "?fs ! k = rstart r + 4096 * j" using j step_by_nth by metis
  obtain x y where "rstart r = 4096 * x" "rend r = 4096 * y" using al by (auto elim!: dvdE)
  with assms(6) v have "j + i < length (?S r)" by (simp add: step_by_4096_def)
  then have "?fs ! (k + i) = ?S r ! (j + i)" "k + i < length ?fs" by (simp_all add: fs k nth_append add.assoc)
  then show ?thesis using step_by_nth [OF \<open>j + i < length (?S r)\<close>] v by simp
qed

lemma usable_frames_next [simp]: "usable_frames (fa\<lparr>next_frame := k\<rparr>) = usable_frames fa"
  by (simp add: usable_frames_def)

lemma reserve_frames_boot:
  "reserve_frames allocate_frame n fa = (True, fa') \<Longrightarrow>
   fa' = fa\<lparr>next_frame := next_frame fa + n\<rparr> \<and> (n = 0 \<or> next_frame fa + n \<le> length (usable_frames fa))"
proof (induction n arbitrary: fa)
  case (Suc n)
  from Suc.prems have "next_frame fa < length (usable_frames fa)"
    "reserve_frames allocate_frame n (fa\<lparr>next_frame := next_frame fa + 1\<rparr>) = (True, fa')"
    by (auto simp: allocate_frame_def [of fa] split: if_splits)
  with Suc.IH [OF this(2)] show ?case by auto
qed simp

text \<open>A DMA block that lies in the region of its first frame consists of reserved frames only: the bytes
  \<open>allocate_dma_frames\<close> zeroes and returns are exactly those of the frames it took from the
  allocator, so no later request gets any of them.\<close>

theorem dma_block_is_reserved:
  assumes "map_ok (memory_regions fa)" "0 < pages"
    "allocate_dma_frames allocate_frame off pages fa = (Some (p, v, Z), fa')"
    "r \<in> set (memory_regions fa)" "rusable r" "p \<in> region_frames r" "p + 4096 * pages \<le> rend r"
  shows "v = off + p \<and> next_frame fa' = next_frame fa + pages \<and> next_frame fa' \<le> length (usable_frames fa) \<and>
    Z = (\<Union>i < pages. {usable_frames fa ! (next_frame fa + i) ..< usable_frames fa ! (next_frame fa + i) + 4096})"
proof -
  let ?k = "next_frame fa"
  from assms(3) have k: "?k < length (usable_frames fa)" "p = usable_frames fa ! ?k" "v = off + p" "Z = {p ..< p + pages * 4096}"
    "reserve_frames allocate_frame (pages - 1) (fa\<lparr>next_frame := ?k + 1\<rparr>) = (True, fa')"
    by (auto simp: allocate_dma_frames_def allocate_frame_def split: if_splits prod.splits bool.splits)
  from reserve_frames_boot [OF k(5)] assms(2) k(1)
  have n: "next_frame fa' = ?k + pages" "next_frame fa' \<le> length (usable_frames fa)" by auto
  have f: "usable_frames fa ! (?k + i) = p + 4096 * i" if "i < pages" for i
    using frames_in_region [OF assms(1,4,5) k(1), of i] assms(6,7) that by (simp add: k(2))
  have "{p ..< p + pages * 4096} = (\<Union>i < pages. {p + 4096 * i ..< p + 4096 * i + 4096})"
  proof (intro equalityI subsetI)
    fix x assume x: "x \<in> {p ..< p + pages * 4096}"
    then have "(x - p) div 4096 < pages" "p + 4096 * ((x - p) div 4096) \<le> x" "x < p + 4096 * ((x - p) div 4096) + 4096"
      by (auto simp: less_mult_imp_div_less)
    then show "x \<in> (\<Union>i < pages. {p + 4096 * i ..< p + 4096 * i + 4096})" by fastforce
  qed auto
  with f k n show ?thesis by simp
qed

theorem dma_block_is_reserved_witness:
  "allocate_dma_frames allocate_frame 0 2 (BootInfoFrameAllocator_init two_regions) =
     (Some (4096, 4096, {4096 ..< 12288}), \<lparr>memory_regions = two_regions, next_frame = 2\<rparr>) \<and>
   {4096 ..< 12288 :: nat} = {4096 ..< 8192} \<union> {8192 ..< 12288}"
proof -
  let ?fa = "BootInfoFrameAllocator_init two_regions"
  have a: "allocate_dma_frames allocate_frame 0 2 ?fa =
      (Some (4096, 4096, {4096 ..< 12288}), \<lparr>memory_regions = two_regions, next_frame = 2\<rparr>)"
    by (simp add: allocate_dma_frames_def allocate_frame_def BootInfoFrameAllocator_init_def two_regions_frames)
  have "{4096 ..< 12288 :: nat} = (\<Union>i < 2. {usable_frames ?fa ! (0 + i) ..< usable_frames ?fa ! (0 + i) + 4096})"
    using dma_block_is_reserved [OF _ _ a, of "\<lparr>rstart = 4096, rend = 12288, rusable = True\<rparr>"] two_regions_ok
    by (simp add: BootInfoFrameAllocator_init_def two_regions_def region_frames_def)
  with a show ?thesis by (auto simp: BootInfoFrameAllocator_init_def two_regions_frames numeral_2_eq_2 lessThan_Suc)
qed

text \<open>Nothing checks that the frames of a block are adjacent: when the usable memory has a hole after the first
  frame, \<open>allocate_dma_frames\<close> returns, and zeroes, a block that covers memory the bootloader did not
  mark usable.\<close>

theorem dma_block_may_cross_hole:
  "\<exists>regions off p v Z fa'. map_ok regions \<and>
    allocate_dma_frames allocate_frame off 3 (BootInfoFrameAllocator_init regions) = (Some (p, v, Z), fa') \<and>
    (\<exists>r \<in> set regions. \<not> rusable r \<and> {rstart r ..< rend r} \<subseteq> Z)"
proof (intro exI conjI)
  show "allocate_dma_frames allocate_frame 0 3 (BootInfoFrameAllocator_init two_regions) =
      (Some (4096, 4096, {4096 ..< 16384}), \<lparr>memory_regions = two_regions, next_frame = 3\<rparr>)"
    by (simp add: allocate_dma_frames_def allocate_frame_def BootInfoFrameAllocator_init_def two_regions_frames
        numeral_2_eq_2)
qed (rule two_regions_ok, simp add: two_regions_def)

subsection \<open>The heap mapping\<close>

lemma map_heap_maps:
  assumes "\<forall>p f fl fa pt fa' pt'. mto p f fl fa pt = (Ok (), fa', pt') \<longrightarrow> look pt' = (look pt)(p \<mapsto> (f, fl))"
    "map_heap E alf mto ps fa pt = (Ok (), fa', pt')"
  shows "(\<forall>p \<in> set ps. \<exists>f. look pt' p = Some (f, PRESENT + WRITABLE)) \<and> (\<forall>p. p \<notin> set ps \<longrightarrow> look pt' p = look pt p)"
  using assms(2)
proof (induction ps arbitrary: fa pt)
  case (Cons p ps)
  then obtain f fa1 fa2 pt2 where s: "alf fa = (Some f, fa1)" "mto p f (PRESENT + WRITABLE) fa1 pt = (Ok (), fa2, pt2)"
    "map_heap E alf mto ps fa2 pt2 = (Ok (), fa', pt')"
    by (auto split: prod.splits option.splits sum.splits)
  have "look pt2 = (look pt)(p \<mapsto> (f, PRESENT + WRITABLE))" using assms(1) s(2) by blast
  with Cons.IH [OF s(3)] show ?case by (cases "p \<in> set ps") (auto split: if_splits)
qed simp

lemma heap_pages:
  assumes "HEAP_START \<le> a" "a < HEAP_START + HEAP_SIZE"
  shows "containing_address a \<in> set (range_inclusive (containing_address HEAP_START)
    (containing_address (HEAP_START + HEAP_SIZE - 1)))"
proof -
  have r: "set (range_inclusive (containing_address HEAP_START) (containing_address (HEAP_START + HEAP_SIZE - 1))) =
      (\<lambda>i. HEAP_START + 4096 * i) ` {0 ..< 16384}"
    by (simp add: range_inclusive_def containing_address_def HEAP_START_def HEAP_SIZE_def del: upt_Suc)
  obtain d where d: "a = HEAP_START + d" using assms(1) le_Suc_ex by blast
  have "HEAP_START mod 4096 = 0" by (simp add: HEAP_START_def)
  then have "a mod 4096 = d mod 4096" unfolding d by (metis add_0 mod_add_left_eq)
  then have "containing_address a = HEAP_START + 4096 * ((a - HEAP_START) div 4096)"
    by (simp add: containing_address_def d minus_mod_eq_mult_div [symmetric])
  moreover have "(a - HEAP_START) div 4096 < 16384"
    using assms by (simp add: HEAP_START_def HEAP_SIZE_def less_mult_imp_div_less)
  ultimately show ?thesis unfolding r by auto
qed

text \<open>C33. After \<open>init_heap\<close> has returned Ok every byte of the heap lies on a present and writable page and the
  allocator manages exactly the heap; when it fails the allocator is untouched. (The mapper is assumed
  to record a mapping when it reports success.)\<close>

theorem init_heap_maps_heap:
  assumes "\<forall>p f fl fa pt fa' pt'. mto p f fl fa pt = (Ok (), fa', pt') \<longrightarrow> look pt' = (look pt)(p \<mapsto> (f, fl))"
    "init_heap E alf mto a fa pt = (res, a', fa', pt')"
  shows "case res of
      Ok _ \<Rightarrow> a' = MictGlobalAllocator_init a HEAP_START HEAP_SIZE \<and>
        (\<forall>x. HEAP_START \<le> x \<and> x < HEAP_START + HEAP_SIZE \<longrightarrow>
          (\<exists>f. look pt' (containing_address x) = Some (f, PRESENT + WRITABLE)))
    | Err _ \<Rightarrow> a' = a"
proof (cases res)
  case (Inl e)
  with assms(2) show ?thesis by (auto simp: init_heap_def Let_def split: prod.splits sum.splits)
next
  case (Inr u)
  with assms(2) have "a' = MictGlobalAllocator_init a HEAP_START HEAP_SIZE"
    "map_heap E alf mto (range_inclusive (containing_address HEAP_START)
       (containing_address (HEAP_START + HEAP_SIZE - 1))) fa pt = (Ok (), fa', pt')"
    by (auto simp: init_heap_def Let_def split: prod.splits sum.splits)
  with map_heap_maps [OF assms(1) this(2)] heap_pages Inr show ?thesis by simp
qed

text \<open>A mapper that keeps a list of mappings, and an allocator that counts frames.\<close>

definition list_mapper :: "(unit, nat, (nat \<times> nat \<times> nat) list) map_fun" where
  "list_mapper p f fl fa pt = (Ok (), fa, (p, f, fl) # pt)"

lemma map_heap_counts:
  "map_heap () (\<lambda>n. (Some (4096 * n), Suc n)) list_mapper ps fa pt =
     (Ok (), fa + length ps, rev (map (\<lambda>i. (ps ! i, 4096 * (fa + i), PRESENT + WRITABLE)) [0..<length ps]) @ pt)"
proof (induction ps arbitrary: fa pt)
  case (Cons p ps)
  have "map (\<lambda>i. ((p # ps) ! i, 4096 * (fa + i), PRESENT + WRITABLE)) [0..<length (p # ps)] =
      (p, 4096 * fa, PRESENT + WRITABLE) # map (\<lambda>i. (ps ! i, 4096 * (Suc fa + i), PRESENT + WRITABLE)) [0..<length ps]"
    unfolding length_Cons upt_conv_Cons [OF zero_less_Suc] map_Suc_upt [symmetric] by simp
  with Cons show ?case by (simp add: list_mapper_def del: upt_Suc)
qed simp

theorem init_heap_maps_heap_witness:
  "\<exists>fa' pt'. init_heap () (\<lambda>n. (Some (4096 * n), Suc n)) list_mapper MictGlobalAllocator_new 7 [] =
      (Ok (), kernel_heap, fa', pt') \<and> (\<exists>f. map_of pt' (containing_address (HEAP_START + 5000)) = Some (f, PRESENT + WRITABLE))"
proof -
  obtain fa' pt' where i: "init_heap () (\<lambda>n. (Some (4096 * n), Suc n)) list_mapper MictGlobalAllocator_new 7 [] =
      (Ok (), kernel_heap, fa', pt')"
    by (simp add: init_heap_def map_heap_counts kernel_heap_def Let_def)
  have "\<forall>p f fl fa pt fa' pt'. list_mapper p f fl fa pt = (Ok (), fa', pt') \<longrightarrow> map_of pt' = (map_of pt)(p \<mapsto> (f, fl))"
    by (simp add: list_mapper_def)
  from init_heap_maps_heap [OF this i] i show ?thesis by (auto simp: HEAP_SIZE_def)
qed

end
