(* ===== verification/Checksum.thy ===== *)
theory Checksum
  imports Rust_Prelude
begin

text \<open>
  The Internet checksum of \<^verbatim>\<open>kernel/src/e1000.rs\<close> (the same text stands in
  \<^verbatim>\<open>kernel/src/virtio_net.rs\<close>): the sum of the big-endian 16-bit words of the data, folded to
  16 bits and complemented.
\<close>

subsection \<open>The code\<close>

fun checksum_sum :: "bytes \<Rightarrow> u32 \<Rightarrow> u32" where
  "checksum_sum [] acc = acc"
| "checksum_sum [a] acc = acc + (push_bit 8 (ucast a) OR 0)"
| "checksum_sum (a # b # rest) acc = checksum_sum rest (acc + (push_bit 8 (ucast a) OR ucast b))"

lemma fold_decreases:
  fixes s :: u32
  assumes "drop_bit 16 s \<noteq> 0"
  shows "unat ((s AND 0xFFFF) + drop_bit 16 s) < unat s"
proof -
  have m: "s AND 0xFFFF = take_bit 16 s" by (simp add: take_bit_eq_mask mask_eq_exp_minus_1)
  have lo: "unat (take_bit 16 s) = unat s mod 65536" by (simp add: unsigned_take_bit_eq take_bit_nat_def)
  have hi: "unat (drop_bit 16 s) = unat s div 65536" by (simp add: unsigned_drop_bit_eq drop_bit_eq_div unat_div_distrib)
  have "unat s < 2 ^ 32" using unsigned_less [of s] by simp
  then have "unat s mod 65536 + unat s div 65536 < 2 ^ 32" by simp
  then have u: "unat (take_bit 16 s + drop_bit 16 s) = unat s mod 65536 + unat s div 65536"
    by (simp add: unat_word_ariths lo hi)
  have "unat s div 65536 \<noteq> 0" using assms hi by (metis unat_eq_zero)
  then have "unat s mod 65536 + unat s div 65536 < unat s"
    using div_mult_mod_eq [of "unat s" 65536] by linarith
  with u show ?thesis by (simp add: m)
qed

function checksum_fold :: "u32 \<Rightarrow> u32" where
  "checksum_fold s = (if drop_bit 16 s \<noteq> 0 then checksum_fold ((s AND 0xFFFF) + drop_bit 16 s) else s)"
  by pat_completeness auto
termination
  by (relation "measure unat") (use fold_decreases in auto)

declare checksum_fold.simps [simp del]

definition calculate_checksum :: "bytes \<Rightarrow> u16" where
  "calculate_checksum data = NOT (ucast (checksum_fold (checksum_sum data 0)))"

subsection \<open>Its value\<close>

text \<open>The sum over the natural numbers, and the fold as arithmetic modulo 65535.\<close>

fun word_sum :: "bytes \<Rightarrow> nat" where
  "word_sum [] = 0"
| "word_sum [a] = 256 * unat a"
| "word_sum (a # b # rest) = 256 * unat a + unat b + word_sum rest"

lemma word_of_bytes: "unat (push_bit 8 (ucast (a :: u8)) OR ucast (b :: u8) :: u32) = 256 * unat a + unat b"
proof -
  have ab: "unat a < 256" "unat b < 256" using unsigned_less [of a] unsigned_less [of b] by simp_all
  have "\<not> bit (push_bit 8 (ucast a :: u32)) n \<or> \<not> bit (ucast b :: u32) n" for n
    by (auto simp: bit_simps dest!: bit_imp_le_length)
  then have "push_bit 8 (ucast a) OR ucast b = (push_bit 8 (ucast a) + ucast b :: u32)"
    by (simp add: disjunctive_add)
  moreover have "unat (push_bit 8 (ucast a) :: u32) = 256 * unat a"
    using ab by (simp add: unsigned_push_bit_eq unsigned_ucast_eq unsigned_take_bit_eq take_bit_nat_def push_bit_nat_def)
  moreover have "unat (ucast b :: u32) = unat b"
    using ab by (simp add: unsigned_ucast_eq unsigned_take_bit_eq take_bit_nat_def)
  ultimately show ?thesis using ab by (simp add: unat_word_ariths)
qed

lemma checksum_sum_nat:
  "unat acc + word_sum data < 2 ^ 32 \<Longrightarrow> unat (checksum_sum data acc) = unat acc + word_sum data"
proof (induction data acc rule: checksum_sum.induct)
  case (2 a acc)
  have "unat (push_bit 8 (ucast a) :: u32) = 256 * unat a" using word_of_bytes [of a 0] by simp
  with 2 show ?case by (simp add: unat_word_ariths)
next
  case (3 a b rest acc)
  have "unat (acc + (push_bit 8 (ucast a) OR ucast b)) = unat acc + (256 * unat a + unat b)"
    using "3.prems" by (simp add: unat_word_ariths word_of_bytes)
  with 3 show ?case by simp
qed simp

definition fold_nat :: "nat \<Rightarrow> nat" where
  "fold_nat n = (if n = 0 then 0 else (n - 1) mod 65535 + 1)"

lemma fold_nat_step: "n div 65536 \<noteq> 0 \<Longrightarrow> fold_nat (n mod 65536 + n div 65536) = fold_nat n"
proof -
  assume h: "n div 65536 \<noteq> 0"
  let ?m = "n mod 65536 + n div 65536"
  have n: "n - 1 = ?m - 1 + 65535 * (n div 65536)" using h by simp
  have "?m \<noteq> 0" "n \<noteq> 0" using h by auto
  then show ?thesis unfolding fold_nat_def n by simp
qed

lemma fold_nat_small: "n < 65536 \<Longrightarrow> fold_nat n = n"
  by (simp add: fold_nat_def)

lemma checksum_fold_nat: "unat (checksum_fold s) = fold_nat (unat s)"
proof (induction s rule: checksum_fold.induct)
  case (1 s)
  have m: "s AND 0xFFFF = take_bit 16 s" by (simp add: take_bit_eq_mask mask_eq_exp_minus_1)
  have lo: "unat (take_bit 16 s) = unat s mod 65536" by (simp add: unsigned_take_bit_eq take_bit_nat_def)
  have hi: "unat (drop_bit 16 s) = unat s div 65536" by (simp add: unsigned_drop_bit_eq drop_bit_eq_div unat_div_distrib)
  have "unat s < 2 ^ 32" using unsigned_less [of s] by simp
  then have u: "unat ((s AND 0xFFFF) + drop_bit 16 s) = unat s mod 65536 + unat s div 65536"
    by (simp add: m unat_word_ariths lo hi)
  show ?case
  proof (cases "drop_bit 16 s = 0")
    case True
    then have "unat s div 65536 = 0" using hi by simp
    then have "unat s < 65536" by simp
    with True show ?thesis by (subst checksum_fold.simps) (simp add: fold_nat_small)
  next
    case False
    then have "unat s div 65536 \<noteq> 0" using hi by (metis unat_eq_zero)
    with 1 False u show ?thesis by (subst checksum_fold.simps) (simp add: fold_nat_step)
  qed
qed

lemma fold_nat_less: "fold_nat n < 65536"
  by (simp add: fold_nat_def)

lemma calculate_checksum_nat:
  assumes "word_sum data < 2 ^ 32"
  shows "unat (calculate_checksum data) = 65535 - fold_nat (word_sum data)"
proof -
  let ?f = "checksum_fold (checksum_sum data 0)"
  have f: "unat ?f = fold_nat (word_sum data)" using checksum_sum_nat [of 0 data] assms by (simp add: checksum_fold_nat)
  then have "unat (ucast ?f :: u16) = fold_nat (word_sum data)"
    using fold_nat_less by (simp add: unsigned_ucast_eq unsigned_take_bit_eq take_bit_nat_def)
  moreover have "unat (NOT w) = 65535 - unat w" for w :: u16
  proof -
    have "unat w < 2 ^ LENGTH(16)" by (rule unsigned_less)
    then have "w \<le> 65535" by (simp add: word_le_nat_alt)
    moreover have "NOT w = 65535 - w" by (simp add: not_eq_complement)
    ultimately show ?thesis by (simp add: unat_sub)
  qed
  ultimately show ?thesis by (simp add: calculate_checksum_def)
qed

subsection \<open>Inserting the checksum\<close>

text \<open>What the packet builders do with the checksum: the high byte at an even offset, the low byte after it.\<close>

definition put_be16 :: "nat \<Rightarrow> u16 \<Rightarrow> bytes \<Rightarrow> bytes" where
  "put_be16 k c data = data[k := ucast (drop_bit 8 c), k + 1 := ucast (c AND 0xFF)]"

lemma length_put_be16 [simp]: "length (put_be16 k c data) = length data"
  by (simp add: put_be16_def)

lemma be16_bytes: "256 * unat (ucast (drop_bit 8 c) :: u8) + unat (ucast (c AND 0xFF) :: u8) = unat (c :: u16)"
proof -
  have c: "unat c < 65536" using unsigned_less [of c] by simp
  have "c AND 0xFF = take_bit 8 c" by (simp add: take_bit_eq_mask mask_eq_exp_minus_1)
  then have "unat (ucast (c AND 0xFF) :: u8) = unat c mod 256"
    by (simp add: unsigned_ucast_eq unsigned_take_bit_eq take_bit_nat_def)
  moreover have "unat (ucast (drop_bit 8 c) :: u8) = unat c div 256"
    using c by (simp add: unsigned_ucast_eq unsigned_take_bit_eq take_bit_nat_def unsigned_drop_bit_eq drop_bit_eq_div unat_div_distrib)
  ultimately show ?thesis by simp
qed

lemma word_sum_put:
  assumes "even k" "k + 1 < length data" "data ! k = 0" "data ! (k + 1) = 0"
  shows "word_sum (put_be16 k c data) = word_sum data + unat c"
  using assms
proof (induction data arbitrary: k rule: word_sum.induct)
  case (3 a b rest)
  show ?case
  proof (cases k)
    case 0
    with "3.prems" be16_bytes [of c] show ?thesis by (simp add: put_be16_def)
  next
    case (Suc k')
    then obtain j where k: "k = Suc (Suc j)" using "3.prems"(1) by (cases k') auto
    then have "put_be16 k c (a # b # rest) = a # b # put_be16 j c rest" by (simp add: put_be16_def)
    moreover have "word_sum (put_be16 j c rest) = word_sum rest + unat c"
      using "3.IH" [of j] "3.prems" k by simp
    ultimately show ?thesis by simp
  qed
qed simp_all

lemma word_sum_bound: "word_sum data \<le> 65535 * ((length data + 1) div 2)"
proof (induction data rule: word_sum.induct)
  case (2 a)
  have "unat a < 256" using unsigned_less [of a] by simp
  then show ?case by simp
next
  case (3 a b rest)
  have "unat a < 256" "unat b < 256" using unsigned_less [of a] unsigned_less [of b] by simp_all
  then have "256 * unat a + unat b \<le> 65535" by simp
  with 3 show ?case by simp
qed simp

lemma word_sum_short: "length data < 131000 \<Longrightarrow> word_sum data < 2 ^ 32"
  using word_sum_bound [of data] by simp

lemma fold_nat_complement: "fold_nat (n + (65535 - fold_nat n)) = 65535"
proof (cases "n = 0")
  case False
  define q r where "q = (n - 1) div 65535" and "r = (n - 1) mod 65535"
  have n: "n = 65535 * q + r + 1" using False by (simp add: q_def r_def)
  have r: "r < 65535" by (simp add: r_def)
  have "fold_nat n = r + 1" using False by (simp add: fold_nat_def r_def)
  then have "n + (65535 - fold_nat n) = Suc (65534 + 65535 * q)" using n r by simp
  then show ?thesis by (simp add: fold_nat_def)
qed (simp add: fold_nat_def)

lemma checksum_inserted:
  assumes "length data < 131000" "even k" "k + 1 < length data" "data ! k = 0" "data ! (k + 1) = 0"
  shows "calculate_checksum (put_be16 k (calculate_checksum data) data) = 0"
proof -
  let ?d = "put_be16 k (calculate_checksum data) data"
  have "word_sum ?d = word_sum data + (65535 - fold_nat (word_sum data))"
    using assms by (simp add: word_sum_put calculate_checksum_nat [OF word_sum_short])
  then have "fold_nat (word_sum ?d) = 65535" by (simp add: fold_nat_complement)
  moreover have "unat (calculate_checksum ?d) = 65535 - fold_nat (word_sum ?d)"
    using assms by (simp add: calculate_checksum_nat [OF word_sum_short])
  ultimately have "unat (calculate_checksum ?d) = 0" by simp
  then show ?thesis by (rule unat_eq_zero [THEN iffD1])
qed

end
