(* ===== verification/Streams.thy ===== *)
theory Streams
  imports Rust_Prelude
begin

text \<open>
  The interrupt-fed byte streams: \<^verbatim>\<open>kernel/src/task/keyboard.rs\<close> (scancodes, 256 bytes),
  \<^verbatim>\<open>kernel/src/task/mouse_stream.rs\<close> and \<^verbatim>\<open>kernel/src/task/serial_stream.rs\<close> (65536 bytes).
  The three files hold the same ring buffer over static variables; an interrupt handler is the
  producer and the \<open>poll_next\<close> of the stream is the consumer. \<open>poll_next\<close> can be interrupted
  anywhere, so beside the uninterrupted operation the theory has its micro-steps, interleaved
  with interrupts by a step relation.
\<close>

subsection \<open>The AtomicWaker of the futures crate\<close>

text \<open>\<open>AtomicWaker\<close> is library code: its operations are parameters. \<open>aw_wake\<close> and \<open>aw_take\<close> give
  the new cell and the waker that was woken or taken out.\<close>

record ('c, 'w) AtomicWaker =
  aw_register :: "'w \<Rightarrow> 'c \<Rightarrow> 'c"
  aw_wake :: "'c \<Rightarrow> 'c \<times> 'w option"
  aw_take :: "'c \<Rightarrow> 'c \<times> 'w option"

text \<open>Its documented behaviour: \<open>register\<close> stores the waker, \<open>wake\<close> wakes the last waker stored
  and \<open>take\<close> removes it without waking; both leave the cell without a waker.\<close>

definition atomic_waker :: "('c, 'w) AtomicWaker \<Rightarrow> ('c \<Rightarrow> 'w option) \<Rightarrow> bool" where
  "atomic_waker aw held \<longleftrightarrow>
     (\<forall>w c. held (aw_register aw w c) = Some w) \<and>
     (\<forall>c. snd (aw_wake aw c) = held c \<and> held (fst (aw_wake aw c)) = None) \<and>
     (\<forall>c. snd (aw_take aw c) = held c \<and> held (fst (aw_take aw c)) = None)"

text \<open>A cell of one waker behaves so.\<close>

definition cell_waker :: "('w option, 'w) AtomicWaker" where
  "cell_waker = \<lparr>aw_register = \<lambda>w c. Some w, aw_wake = \<lambda>c. (None, c), aw_take = \<lambda>c. (None, c)\<rparr>"

lemma cell_waker_ok: "atomic_waker cell_waker (\<lambda>c. c)"
  by (simp add: atomic_waker_def cell_waker_def)

subsection \<open>The ring buffer\<close>

record 'c ring =
  BUFFER :: bytes
  HEAD :: nat
  TAIL :: nat
  WAKER :: 'c

definition ring_init :: "nat \<Rightarrow> 'c \<Rightarrow> 'c ring" where
  "ring_init n c = \<lparr>BUFFER = replicate n 0, HEAD = 0, TAIL = 0, WAKER = c\<rparr>"

text \<open>The producer: the new ring, the waker it woke and whether the byte was stored.\<close>

definition ring_add :: "('c, 'w) AtomicWaker \<Rightarrow> nat \<Rightarrow> u8 \<Rightarrow> 'c ring \<Rightarrow>
    ('c ring \<times> 'w option \<times> bool) option" where
  "ring_add aw n byte r = (
     let next_head = (HEAD r + 1) mod n in
     if next_head \<noteq> TAIL r
     then do {
       buf \<leftarrow> aset (BUFFER r) (HEAD r) byte;
       let (c, woken) = aw_wake aw (WAKER r);
       Some (r\<lparr>BUFFER := buf, HEAD := next_head, WAKER := c\<rparr>, woken, True)
     }
     else Some (r, None, False))"

datatype poll = Ready u8 | Pending

definition ring_pop :: "nat \<Rightarrow> 'c ring \<Rightarrow> ('c ring \<times> u8) option" where
  "ring_pop n r = do {
     byte \<leftarrow> aget (BUFFER r) (TAIL r);
     Some (r\<lparr>TAIL := (TAIL r + 1) mod n\<rparr>, byte)
   }"

definition ring_poll_next :: "('c, 'w) AtomicWaker \<Rightarrow> nat \<Rightarrow> 'w \<Rightarrow> 'c ring \<Rightarrow>
    ('c ring \<times> poll) option" where
  "ring_poll_next aw n cx r =
     (if HEAD r \<noteq> TAIL r then do { (r', b) \<leftarrow> ring_pop n r; Some (r', Ready b) }
      else let r1 = r\<lparr>WAKER := aw_register aw cx (WAKER r)\<rparr> in
        if HEAD r1 \<noteq> TAIL r1
        then do {
          (r', b) \<leftarrow> ring_pop n (r1\<lparr>WAKER := fst (aw_take aw (WAKER r1))\<rparr>);
          Some (r', Ready b)
        }
        else Some (r1, Pending))"

subsection \<open>The three streams\<close>

definition KEYBOARD_BUF_SIZE :: nat where "KEYBOARD_BUF_SIZE = 256"
definition MOUSE_BUF_SIZE :: nat where "MOUSE_BUF_SIZE = 65536"
definition SERIAL_BUF_SIZE :: nat where "SERIAL_BUF_SIZE = 65536"

text \<open>\<open>add_scancode\<close> also reports a dropped scancode on the serial port.\<close>

definition add_scancode :: "('c, 'w) AtomicWaker \<Rightarrow> u8 \<Rightarrow> 'c ring \<Rightarrow>
    ('c ring \<times> 'w option \<times> string list) option" where
  "add_scancode aw scancode r = do {
     (r', woken, stored) \<leftarrow> ring_add aw KEYBOARD_BUF_SIZE scancode r;
     Some (r', woken, if stored then [] else [''WARNING: Keyboard buffer full; dropping scancode''])
   }"

definition scancode_poll_next :: "('c, 'w) AtomicWaker \<Rightarrow> 'w \<Rightarrow> 'c ring \<Rightarrow> ('c ring \<times> poll) option" where
  "scancode_poll_next aw = ring_poll_next aw KEYBOARD_BUF_SIZE"

definition mouse_add_byte :: "('c, 'w) AtomicWaker \<Rightarrow> u8 \<Rightarrow> 'c ring \<Rightarrow> ('c ring \<times> 'w option) option" where
  "mouse_add_byte aw byte r = do {
     (r', woken, stored) \<leftarrow> ring_add aw MOUSE_BUF_SIZE byte r; Some (r', woken) }"

definition mouse_has_data :: "'c ring \<Rightarrow> bool" where
  "mouse_has_data r \<longleftrightarrow> HEAD r \<noteq> TAIL r"

definition mouse_poll_next :: "('c, 'w) AtomicWaker \<Rightarrow> 'w \<Rightarrow> 'c ring \<Rightarrow> ('c ring \<times> poll) option" where
  "mouse_poll_next aw = ring_poll_next aw MOUSE_BUF_SIZE"

definition serial_add_byte :: "('c, 'w) AtomicWaker \<Rightarrow> u8 \<Rightarrow> 'c ring \<Rightarrow> ('c ring \<times> 'w option) option" where
  "serial_add_byte aw byte r = do {
     (r', woken, stored) \<leftarrow> ring_add aw SERIAL_BUF_SIZE byte r; Some (r', woken) }"

definition serial_poll_next :: "('c, 'w) AtomicWaker \<Rightarrow> 'w \<Rightarrow> 'c ring \<Rightarrow> ('c ring \<times> poll) option" where
  "serial_poll_next aw = ring_poll_next aw SERIAL_BUF_SIZE"

subsection \<open>The ring as a bounded queue\<close>

definition ring_inv :: "nat \<Rightarrow> 'c ring \<Rightarrow> bool" where
  "ring_inv n r \<longleftrightarrow> length (BUFFER r) = n \<and> HEAD r < n \<and> TAIL r < n"

definition ring_len :: "nat \<Rightarrow> 'c ring \<Rightarrow> nat" where
  "ring_len n r = (if TAIL r \<le> HEAD r then HEAD r - TAIL r else HEAD r + n - TAIL r)"

definition content :: "nat \<Rightarrow> 'c ring \<Rightarrow> bytes" where
  "content n r = map (\<lambda>i. BUFFER r ! ((TAIL r + i) mod n)) [0..<ring_len n r]"

lemma length_content [simp]: "length (content n r) = ring_len n r"
  by (simp add: content_def)

lemma ring_len_0: "ring_inv n r \<Longrightarrow> ring_len n r = 0 \<longleftrightarrow> HEAD r = TAIL r"
  by (auto simp: ring_len_def ring_inv_def)

lemma content_Nil: "ring_inv n r \<Longrightarrow> content n r = [] \<longleftrightarrow> HEAD r = TAIL r"
  using ring_len_0 [of n r] length_0_conv [of "content n r"] by simp

lemma Suc_mod: "i < n \<Longrightarrow> Suc i mod n = (if Suc i = n then 0 else Suc i)"
  by simp

lemma mod_wrap: "x < 2 * n \<Longrightarrow> x mod n = (if x < n then x else x - n)" for x n :: nat
  by (auto simp: le_mod_geq)

lemma ring_full:
  assumes "ring_inv n r"
  shows "(HEAD r + 1) mod n = TAIL r \<longleftrightarrow> ring_len n r = n - 1"
  using assms by (auto simp: ring_inv_def ring_len_def Suc_mod)

lemma ring_inv_init: "0 < n \<Longrightarrow> ring_inv n (ring_init n c)"
  by (simp add: ring_inv_def ring_init_def)

lemma content_init: "content n (ring_init n c) = []"
  by (simp add: content_def ring_init_def ring_len_def)

lemma content_WAKER [simp]: "content n (r\<lparr>WAKER := c\<rparr>) = content n r" "ring_inv n (r\<lparr>WAKER := c\<rparr>) = ring_inv n r"
  by (simp_all add: content_def ring_len_def ring_inv_def)

lemma content_write:
  fixes r :: "'c ring" and b :: u8 and c :: 'c
  assumes "ring_inv n r" "(HEAD r + 1) mod n \<noteq> TAIL r"
  defines "r' \<equiv> r\<lparr>BUFFER := (BUFFER r)[HEAD r := b], HEAD := (HEAD r + 1) mod n, WAKER := c\<rparr>"
  shows "ring_inv n r'" "content n r' = content n r @ [b]"
proof -
  show inv: "ring_inv n r'" using assms by (auto simp: ring_inv_def)
  have len: "ring_len n r' = Suc (ring_len n r)"
    using assms by (auto simp: ring_inv_def ring_len_def Suc_mod split: if_splits)
  have pos: "(TAIL r + ring_len n r) mod n = HEAD r"
    using assms by (auto simp: ring_inv_def ring_len_def)
  have other: "(TAIL r + i) mod n \<noteq> HEAD r" if "i < ring_len n r" for i
    using assms(1) that mod_wrap [of "TAIL r + i" n] by (auto simp: ring_inv_def ring_len_def split: if_splits)
  show "content n r' = content n r @ [b]"
  proof (rule nth_equalityI)
    fix i assume "i < length (content n r')"
    then have i: "i < Suc (ring_len n r)" by (simp add: len)
    show "content n r' ! i = (content n r @ [b]) ! i"
    proof (cases "i = ring_len n r")
      case True
      with assms pos len show ?thesis by (simp add: content_def nth_append ring_inv_def)
    next
      case False
      with i other [of i] len show ?thesis by (simp add: content_def nth_append assms(3))
    qed
  qed (simp add: len)
qed

lemma content_read:
  assumes "ring_inv n r" "HEAD r \<noteq> TAIL r"
  shows "ring_inv n (r\<lparr>TAIL := (TAIL r + 1) mod n\<rparr>)"
    and "content n r = BUFFER r ! TAIL r # content n (r\<lparr>TAIL := (TAIL r + 1) mod n\<rparr>)"
proof -
  let ?r = "r\<lparr>TAIL := (TAIL r + 1) mod n\<rparr>"
  show "ring_inv n ?r" using assms by (auto simp: ring_inv_def)
  have len: "ring_len n r = Suc (ring_len n ?r)"
    using assms by (auto simp: ring_inv_def ring_len_def Suc_mod split: if_splits)
  have "((TAIL r + 1) mod n + i) mod n = (TAIL r + Suc i) mod n" for i
    by (metis add.assoc mod_add_left_eq plus_1_eq_Suc)
  then show "content n r = BUFFER r ! TAIL r # content n ?r"
    using assms(1) unfolding content_def len upt_conv_Cons [OF zero_less_Suc] map_Suc_upt [symmetric]
    by (simp add: ring_inv_def comp_def)
qed

lemma ring_add_spec:
  assumes "ring_inv n r"
  shows "if ring_len n r < n - 1
    then \<exists>r'. ring_add aw n b r = Some (r', snd (aw_wake aw (WAKER r)), True) \<and> ring_inv n r' \<and>
      content n r' = content n r @ [b] \<and> WAKER r' = fst (aw_wake aw (WAKER r)) \<and> TAIL r' = TAIL r \<and>
      HEAD r' \<noteq> TAIL r' \<and> (HEAD r \<noteq> TAIL r \<longrightarrow> BUFFER r' ! TAIL r' = BUFFER r ! TAIL r)
    else ring_add aw n b r = Some (r, None, False)"
proof (cases "(HEAD r + 1) mod n = TAIL r")
  case True
  then show ?thesis using ring_full [OF assms] by (simp add: ring_add_def)
next
  case False
  have "ring_len n r \<noteq> n - 1" using False ring_full [OF assms] by blast
  moreover have "ring_len n r < n" using assms by (auto simp: ring_inv_def ring_len_def)
  ultimately have "ring_len n r < n - 1" by simp
  with False content_write [OF assms False] assms show ?thesis
    by (auto simp: ring_add_def array_simps ring_inv_def split: prod.splits)
qed

lemma ring_poll_spec:
  assumes "ring_inv n r"
  shows "\<exists>r'. ring_inv n r' \<and> content n r' = tl (content n r) \<and>
    ring_poll_next aw n cx r = Some (r', case content n r of [] \<Rightarrow> Pending | b # _ \<Rightarrow> Ready b)"
proof (cases "HEAD r = TAIL r")
  case True
  then have "content n r = []" using content_Nil [OF assms] by blast
  with True assms show ?thesis by (simp add: ring_poll_next_def)
next
  case False
  with assms content_read [OF assms False] show ?thesis
    by (simp add: ring_poll_next_def ring_pop_def array_simps ring_inv_def)
qed

subsection \<open>The queue interface\<close>

datatype 'a fifo_op = Push 'a | Pop
datatype 'a fifo_out = Pushed bool | Popped "'a option"

fun fifo_run :: "('a \<Rightarrow> 's \<Rightarrow> ('s \<times> bool) option) \<Rightarrow> ('s \<Rightarrow> ('s \<times> 'a option) option) \<Rightarrow>
    'a fifo_op list \<Rightarrow> 's \<Rightarrow> ('s \<times> 'a fifo_out list) option" where
  "fifo_run push pop [] s = Some (s, [])"
| "fifo_run push pop (Push a # ops) s = do {
     (s', ok) \<leftarrow> push a s; (t, outs) \<leftarrow> fifo_run push pop ops s'; Some (t, Pushed ok # outs) }"
| "fifo_run push pop (Pop # ops) s = do {
     (s', x) \<leftarrow> pop s; (t, outs) \<leftarrow> fifo_run push pop ops s'; Some (t, Popped x # outs) }"

text \<open>The specification: a list of at most \<open>cap\<close> elements that drops what does not fit.\<close>

fun queue_spec :: "nat \<Rightarrow> 'a fifo_op list \<Rightarrow> 'a list \<Rightarrow> 'a list \<times> 'a fifo_out list" where
  "queue_spec cap [] q = (q, [])"
| "queue_spec cap (Push a # ops) q =
     (let ok = length q < cap; (q', outs) = queue_spec cap ops (if ok then q @ [a] else q)
      in (q', Pushed ok # outs))"
| "queue_spec cap (Pop # ops) q =
     (let (q', outs) = queue_spec cap ops (tl q)
      in (q', Popped (case q of [] \<Rightarrow> None | x # _ \<Rightarrow> Some x) # outs))"

locale bounded_fifo =
  fixes push :: "'a \<Rightarrow> 's \<Rightarrow> ('s \<times> bool) option" and pop :: "'s \<Rightarrow> ('s \<times> 'a option) option"
    and admissible :: "'a \<Rightarrow> bool" and inv :: "'s \<Rightarrow> bool" and view :: "'s \<Rightarrow> 'a list" and cap :: nat
  assumes push_law: "inv s \<Longrightarrow> admissible a \<Longrightarrow> \<exists>s'. push a s = Some (s', length (view s) < cap) \<and> inv s' \<and>
      view s' = (if length (view s) < cap then view s @ [a] else view s)"
    and pop_law: "inv s \<Longrightarrow> \<exists>s'. pop s = Some (s', case view s of [] \<Rightarrow> None | x # _ \<Rightarrow> Some x) \<and>
      inv s' \<and> view s' = tl (view s)"
begin

lemma run_refines:
  assumes "inv s" "\<forall>a. Push a \<in> set ops \<longrightarrow> admissible a"
  shows "\<exists>t. fifo_run push pop ops s = Some (t, snd (queue_spec cap ops (view s))) \<and> inv t \<and>
    view t = fst (queue_spec cap ops (view s))"
  using assms
proof (induction ops arbitrary: s)
  case (Cons op ops)
  show ?case
  proof (cases op)
    case (Push a)
    from push_law [OF Cons.prems(1), of a] Cons.prems(2) Push obtain s' where s': "inv s'"
      "push a s = Some (s', length (view s) < cap)"
      "view s' = (if length (view s) < cap then view s @ [a] else view s)" by auto
    from Cons.IH [OF s'(1)] Cons.prems(2) s' Push show ?thesis by (auto simp: Let_def split: prod.splits)
  next
    case Pop
    from pop_law [OF Cons.prems(1)] obtain s' where s': "inv s'" "view s' = tl (view s)"
      "pop s = Some (s', case view s of [] \<Rightarrow> None | x # _ \<Rightarrow> Some x)" by blast
    from Cons.IH [OF s'(1)] Cons.prems(2) s' Pop show ?thesis by (auto split: prod.splits)
  qed
qed simp

end

text \<open>The operations of the streams seen through the queue interface.\<close>

fun poll_value :: "poll \<Rightarrow> u8 option" where
  "poll_value (Ready b) = Some b"
| "poll_value Pending = None"

definition keyboard_push :: "('c, 'w) AtomicWaker \<Rightarrow> u8 \<Rightarrow> 'c ring \<Rightarrow> ('c ring \<times> bool) option" where
  "keyboard_push aw b r = do { (r', _, log) \<leftarrow> add_scancode aw b r; Some (r', log = []) }"

definition keyboard_pop :: "('c, 'w) AtomicWaker \<Rightarrow> 'w \<Rightarrow> 'c ring \<Rightarrow> ('c ring \<times> u8 option) option" where
  "keyboard_pop aw cx r = do { (r', x) \<leftarrow> scancode_poll_next aw cx r; Some (r', poll_value x) }"

text \<open>The other two streams do not report a drop; whether a byte was taken shows in \<open>HEAD\<close>.\<close>

definition mouse_push :: "('c, 'w) AtomicWaker \<Rightarrow> u8 \<Rightarrow> 'c ring \<Rightarrow> ('c ring \<times> bool) option" where
  "mouse_push aw b r = do { (r', _) \<leftarrow> mouse_add_byte aw b r; Some (r', HEAD r' \<noteq> HEAD r) }"

definition mouse_pop :: "('c, 'w) AtomicWaker \<Rightarrow> 'w \<Rightarrow> 'c ring \<Rightarrow> ('c ring \<times> u8 option) option" where
  "mouse_pop aw cx r = do { (r', x) \<leftarrow> mouse_poll_next aw cx r; Some (r', poll_value x) }"

definition serial_push :: "('c, 'w) AtomicWaker \<Rightarrow> u8 \<Rightarrow> 'c ring \<Rightarrow> ('c ring \<times> bool) option" where
  "serial_push aw b r = do { (r', _) \<leftarrow> serial_add_byte aw b r; Some (r', HEAD r' \<noteq> HEAD r) }"

definition serial_pop :: "('c, 'w) AtomicWaker \<Rightarrow> 'w \<Rightarrow> 'c ring \<Rightarrow> ('c ring \<times> u8 option) option" where
  "serial_pop aw cx r = do { (r', x) \<leftarrow> serial_poll_next aw cx r; Some (r', poll_value x) }"

lemma ring_add_HEAD:
  assumes "ring_inv n r" "1 < n" "ring_add aw n b r = Some (r', w, ok)"
  shows "HEAD r' \<noteq> HEAD r \<longleftrightarrow> ok"
  using assms by (auto simp: ring_add_def ring_inv_def Suc_mod split: if_splits bind_splits prod.splits)

lemmas stream_queue_defs = keyboard_push_def keyboard_pop_def add_scancode_def scancode_poll_next_def
  mouse_push_def mouse_pop_def mouse_add_byte_def mouse_poll_next_def
  serial_push_def serial_pop_def serial_add_byte_def serial_poll_next_def
  KEYBOARD_BUF_SIZE_def MOUSE_BUF_SIZE_def SERIAL_BUF_SIZE_def

lemma ring_push_law:
  assumes "ring_inv n r" "1 < n"
  shows "\<exists>r' w. ring_add aw n b r = Some (r', w, length (content n r) < n - 1) \<and> ring_inv n r' \<and>
    content n r' = (if length (content n r) < n - 1 then content n r @ [b] else content n r) \<and>
    (HEAD r' \<noteq> HEAD r \<longleftrightarrow> length (content n r) < n - 1)"
  using ring_add_spec [OF assms(1), of aw b] ring_add_HEAD [OF assms, of aw b] assms(1)
  by (cases "ring_len n r < n - 1") auto

interpretation kbd: bounded_fifo "keyboard_push aw" "keyboard_pop aw cx" "\<lambda>_. True" "ring_inv 256" "content 256" 255
  for aw :: "('c, 'w) AtomicWaker" and cx :: 'w
proof unfold_locales
  fix s :: "'c ring" and a assume inv: "ring_inv 256 s"
  show "\<exists>s'. keyboard_push aw a s = Some (s', length (content 256 s) < 255) \<and> ring_inv 256 s' \<and>
      content 256 s' = (if length (content 256 s) < 255 then content 256 s @ [a] else content 256 s)"
    using ring_push_law [OF inv, of aw a] by (auto simp: stream_queue_defs)
  show "\<exists>s'. keyboard_pop aw cx s = Some (s', case content 256 s of [] \<Rightarrow> None | x # _ \<Rightarrow> Some x) \<and>
      ring_inv 256 s' \<and> content 256 s' = tl (content 256 s)"
    using ring_poll_spec [OF inv, of aw cx] by (auto simp: stream_queue_defs split: list.splits)
qed

interpretation mouse: bounded_fifo "mouse_push aw" "mouse_pop aw cx" "\<lambda>_. True" "ring_inv 65536" "content 65536" 65535
  for aw :: "('c, 'w) AtomicWaker" and cx :: 'w
proof unfold_locales
  fix s :: "'c ring" and a assume inv: "ring_inv 65536 s"
  show "\<exists>s'. mouse_push aw a s = Some (s', length (content 65536 s) < 65535) \<and> ring_inv 65536 s' \<and>
      content 65536 s' = (if length (content 65536 s) < 65535 then content 65536 s @ [a] else content 65536 s)"
    using ring_push_law [OF inv, of aw a] by (auto simp: stream_queue_defs)
  show "\<exists>s'. mouse_pop aw cx s = Some (s', case content 65536 s of [] \<Rightarrow> None | x # _ \<Rightarrow> Some x) \<and>
      ring_inv 65536 s' \<and> content 65536 s' = tl (content 65536 s)"
    using ring_poll_spec [OF inv, of aw cx] by (auto simp: stream_queue_defs split: list.splits)
qed

interpretation serial: bounded_fifo "serial_push aw" "serial_pop aw cx" "\<lambda>_. True" "ring_inv 65536" "content 65536" 65535
  for aw :: "('c, 'w) AtomicWaker" and cx :: 'w
proof unfold_locales
  fix s :: "'c ring" and a assume inv: "ring_inv 65536 s"
  show "\<exists>s'. serial_push aw a s = Some (s', length (content 65536 s) < 65535) \<and> ring_inv 65536 s' \<and>
      content 65536 s' = (if length (content 65536 s) < 65535 then content 65536 s @ [a] else content 65536 s)"
    using ring_push_law [OF inv, of aw a] by (auto simp: stream_queue_defs)
  show "\<exists>s'. serial_pop aw cx s = Some (s', case content 65536 s of [] \<Rightarrow> None | x # _ \<Rightarrow> Some x) \<and>
      ring_inv 65536 s' \<and> content 65536 s' = tl (content 65536 s)"
    using ring_poll_spec [OF inv, of aw cx] by (auto simp: stream_queue_defs split: list.splits)
qed

text \<open>From their initial state the three streams never panic and are bounded first-in first-out
  queues: any sequence of interrupts and polls gives the outputs of a list of at most 255
  (keyboard) or 65535 (mouse, serial) bytes that drops what does not fit.\<close>

theorem streams_are_bounded_queues:
  "\<exists>k m s. fifo_run (keyboard_push aw) (keyboard_pop aw cx) ops (ring_init KEYBOARD_BUF_SIZE c) =
      Some (k, snd (queue_spec 255 ops [])) \<and>
    fifo_run (mouse_push aw) (mouse_pop aw cx) ops (ring_init MOUSE_BUF_SIZE c) =
      Some (m, snd (queue_spec 65535 ops [])) \<and>
    fifo_run (serial_push aw) (serial_pop aw cx) ops (ring_init SERIAL_BUF_SIZE c) =
      Some (s, snd (queue_spec 65535 ops [])) \<and>
    mouse_has_data m = (fst (queue_spec 65535 ops []) \<noteq> [])"
proof -
  note i = ring_inv_init [of 256 c] ring_inv_init [of 65536 c]
  obtain k where k: "fifo_run (keyboard_push aw) (keyboard_pop aw cx) ops (ring_init 256 c) =
      Some (k, snd (queue_spec 255 ops []))"
    using kbd.run_refines [of "ring_init 256 c" ops aw cx] i(1) by (auto simp: content_init)
  obtain m where m: "fifo_run (mouse_push aw) (mouse_pop aw cx) ops (ring_init 65536 c) =
      Some (m, snd (queue_spec 65535 ops []))" "ring_inv 65536 m"
      "content 65536 m = fst (queue_spec 65535 ops [])"
    using mouse.run_refines [of "ring_init 65536 c" ops aw cx] i(2) by (auto simp: content_init)
  obtain s where s: "fifo_run (serial_push aw) (serial_pop aw cx) ops (ring_init 65536 c) =
      Some (s, snd (queue_spec 65535 ops []))"
    using serial.run_refines [of "ring_init 65536 c" ops aw cx] i(2) by (auto simp: content_init)
  have "mouse_has_data m = (fst (queue_spec 65535 ops []) \<noteq> [])"
    using content_Nil [OF m(2)] m(3) by (simp add: mouse_has_data_def)
  with k m s show ?thesis
    unfolding KEYBOARD_BUF_SIZE_def MOUSE_BUF_SIZE_def SERIAL_BUF_SIZE_def by blast
qed

subsection \<open>A poll that is interrupted\<close>

text \<open>The micro-steps of \<open>poll_next\<close>: each test of \<open>HEAD\<close> against \<open>TAIL\<close>, the read of the byte, the
  advance of \<open>TAIL\<close> and the calls on the waker are separate steps, between which the interrupt
  handler may run.\<close>

datatype poll_pc = Check1 | Read1 | Advance1 u8 | Register | Check2 | Take2 | Read2 | Advance2 u8
  | Returned poll

fun poll_step :: "('c, 'w) AtomicWaker \<Rightarrow> nat \<Rightarrow> 'w \<Rightarrow> poll_pc \<Rightarrow> 'c ring \<Rightarrow> (poll_pc \<times> 'c ring) option" where
  "poll_step aw n cx Check1 r = Some (if HEAD r \<noteq> TAIL r then Read1 else Register, r)"
| "poll_step aw n cx Read1 r = do { b \<leftarrow> aget (BUFFER r) (TAIL r); Some (Advance1 b, r) }"
| "poll_step aw n cx (Advance1 b) r = Some (Returned (Ready b), r\<lparr>TAIL := (TAIL r + 1) mod n\<rparr>)"
| "poll_step aw n cx Register r = Some (Check2, r\<lparr>WAKER := aw_register aw cx (WAKER r)\<rparr>)"
| "poll_step aw n cx Check2 r = Some (if HEAD r \<noteq> TAIL r then Take2 else Returned Pending, r)"
| "poll_step aw n cx Take2 r = Some (Read2, r\<lparr>WAKER := fst (aw_take aw (WAKER r))\<rparr>)"
| "poll_step aw n cx Read2 r = do { b \<leftarrow> aget (BUFFER r) (TAIL r); Some (Advance2 b, r) }"
| "poll_step aw n cx (Advance2 b) r = Some (Returned (Ready b), r\<lparr>TAIL := (TAIL r + 1) mod n\<rparr>)"
| "poll_step aw n cx (Returned x) r = Some (Returned x, r)"

primrec poll_steps :: "('c, 'w) AtomicWaker \<Rightarrow> nat \<Rightarrow> 'w \<Rightarrow> nat \<Rightarrow> poll_pc \<times> 'c ring \<Rightarrow> (poll_pc \<times> 'c ring) option" where
  "poll_steps aw n cx 0 s = Some s"
| "poll_steps aw n cx (Suc k) s = do { (pc, r) \<leftarrow> poll_step aw n cx (fst s) (snd s); poll_steps aw n cx k (pc, r) }"

text \<open>Without interrupts six micro-steps are the whole operation.\<close>

lemma poll_steps_poll_next:
  "poll_steps aw n cx 6 (Check1, r) = do { (r', x) \<leftarrow> ring_poll_next aw n cx r; Some (Returned x, r') }"
  by (cases "aget (BUFFER r) (TAIL r)")
    (auto simp: ring_poll_next_def ring_pop_def eval_nat_numeral)

text \<open>The system: a ring, a task polling it under the waker \<open>cx\<close>, and ghost variables for the bytes the
  interrupt handler stored, the bytes the polls returned, and whether the task was woken since
  its last poll began.\<close>

record 'c stream_sys =
  sring :: "'c ring"
  spc :: poll_pc
  accepted :: bytes
  delivered :: bytes
  woken :: bool

fun returned_byte :: "poll_pc \<Rightarrow> bytes" where
  "returned_byte (Returned (Ready b)) = [b]"
| "returned_byte _ = []"

definition stream_sys_init :: "nat \<Rightarrow> 'c \<Rightarrow> 'c stream_sys" where
  "stream_sys_init n c = \<lparr>sring = ring_init n c, spc = Check1, accepted = [], delivered = [], woken = False\<rparr>"

inductive stream_step :: "('c, 'w) AtomicWaker \<Rightarrow> nat \<Rightarrow> 'w \<Rightarrow> 'c stream_sys \<Rightarrow> 'c stream_sys \<Rightarrow> bool"
  for aw :: "('c, 'w) AtomicWaker" and n :: nat and cx :: 'w
where
  irq: "ring_add aw n b (sring s) = Some (r, wk, stored) \<Longrightarrow>
    stream_step aw n cx s (s\<lparr>sring := r, accepted := accepted s @ (if stored then [b] else []),
      woken := (woken s \<or> wk = Some cx)\<rparr>)"
| poll: "\<nexists>x. spc s = Returned x \<Longrightarrow> poll_step aw n cx (spc s) (sring s) = Some (pc, r) \<Longrightarrow>
    stream_step aw n cx s (s\<lparr>sring := r, spc := pc, delivered := delivered s @ returned_byte pc\<rparr>)"
| again: "spc s = Returned x \<Longrightarrow> stream_step aw n cx s (s\<lparr>spc := Check1, woken := False\<rparr>)"

inductive stream_reach :: "('c, 'w) AtomicWaker \<Rightarrow> nat \<Rightarrow> 'w \<Rightarrow> 'c \<Rightarrow> 'c stream_sys \<Rightarrow> bool"
  for aw :: "('c, 'w) AtomicWaker" and n :: nat and cx :: 'w and c :: 'c
where
  start: "stream_reach aw n cx c (stream_sys_init n c)"
| step: "stream_reach aw n cx c s \<Longrightarrow> stream_step aw n cx s t \<Longrightarrow> stream_reach aw n cx c t"

fun pc_inv :: "('c \<Rightarrow> 'w option) \<Rightarrow> 'w \<Rightarrow> poll_pc \<Rightarrow> 'c ring \<Rightarrow> bool \<Rightarrow> bool" where
  "pc_inv held cx (Advance1 b) r wk = (HEAD r \<noteq> TAIL r \<and> b = BUFFER r ! TAIL r)"
| "pc_inv held cx (Advance2 b) r wk = (HEAD r \<noteq> TAIL r \<and> b = BUFFER r ! TAIL r)"
| "pc_inv held cx Read1 r wk = (HEAD r \<noteq> TAIL r)"
| "pc_inv held cx Take2 r wk = (HEAD r \<noteq> TAIL r)"
| "pc_inv held cx Read2 r wk = (HEAD r \<noteq> TAIL r)"
| "pc_inv held cx Check2 r wk = (held (WAKER r) = Some cx \<or> wk)"
| "pc_inv held cx (Returned Pending) r wk =
     ((held (WAKER r) = Some cx \<or> wk) \<and> (HEAD r \<noteq> TAIL r \<longrightarrow> wk))"
| "pc_inv held cx _ r wk = True"

definition sys_inv :: "nat \<Rightarrow> ('c \<Rightarrow> 'w option) \<Rightarrow> 'w \<Rightarrow> 'c stream_sys \<Rightarrow> bool" where
  "sys_inv n held cx s \<longleftrightarrow> ring_inv n (sring s) \<and>
     delivered s @ content n (sring s) = accepted s \<and> pc_inv held cx (spc s) (sring s) (woken s)"

lemma irq_inv:
  assumes "atomic_waker aw held" "sys_inv n held cx s"
    "ring_add aw n b (sring s) = Some (r, wk, stored)"
  shows "sys_inv n held cx (s\<lparr>sring := r, accepted := accepted s @ (if stored then [b] else []),
      woken := (woken s \<or> wk = Some cx)\<rparr>)"
proof -
  have inv: "ring_inv n (sring s)" using assms(2) by (simp add: sys_inv_def)
  show ?thesis
  proof (cases "ring_len n (sring s) < n - 1")
    case True
    with ring_add_spec [OF inv, of aw b] assms(3) have r: "ring_inv n r" "HEAD r \<noteq> TAIL r" "stored"
      "content n r = content n (sring s) @ [b]" "wk = held (WAKER (sring s))"
      "HEAD (sring s) \<noteq> TAIL (sring s) \<longrightarrow> BUFFER r ! TAIL r = BUFFER (sring s) ! TAIL (sring s)"
      using assms(1) by (auto simp: atomic_waker_def)
    then have "pc_inv held cx (spc s) r (woken s \<or> wk = Some cx)"
      using assms(2) by (cases "(held, cx, spc s, r, woken s)" rule: pc_inv.cases) (auto simp: sys_inv_def)
    with assms(2) r show ?thesis by (simp add: sys_inv_def)
  next
    case False
    with ring_add_spec [OF inv, of aw b] assms show ?thesis by (auto simp: sys_inv_def)
  qed
qed

lemma poll_inv:
  assumes "atomic_waker aw held" "sys_inv n held cx s" "poll_step aw n cx (spc s) (sring s) = Some (pc, r)"
    "\<nexists>x. spc s = Returned x"
  shows "sys_inv n held cx (s\<lparr>sring := r, spc := pc, delivered := delivered s @ returned_byte pc\<rparr>)"
proof (cases "spc s")
  case (Advance1 b)
  then show ?thesis using assms content_read [of n "sring s"] by (auto simp: sys_inv_def)
next
  case (Advance2 b)
  then show ?thesis using assms content_read [of n "sring s"] by (auto simp: sys_inv_def)
next
  case (Returned x)
  with assms(4) show ?thesis by blast
qed (use assms in \<open>auto simp: sys_inv_def atomic_waker_def aget_Some_iff split: bind_splits if_splits\<close>)

lemma stream_reach_inv:
  assumes "stream_reach aw n cx c s" "atomic_waker aw held" "0 < n"
  shows "sys_inv n held cx s"
  using assms(1)
proof induction
  case start
  then show ?case using assms(3) ring_inv_init by (auto simp: sys_inv_def stream_sys_init_def content_init)
next
  case (step s t)
  from step(2) show ?case
  proof cases
    case (again x)
    with step.IH show ?thesis by (simp add: sys_inv_def)
  qed (use step.IH irq_inv [OF assms(2)] poll_inv [OF assms(2)] in blast)+
qed

text \<open>C25. Whatever the interleaving of interrupts with the micro-steps of the polls: the bytes returned so
  far followed by the bytes in the ring are exactly the bytes the interrupt handler stored, in
  order (nothing is lost, duplicated or reordered), and no step panics.\<close>

theorem stream_interleaving_fifo:
  assumes "stream_reach aw n cx c s" "atomic_waker aw held" "0 < n"
  shows "delivered s @ content n (sring s) = accepted s \<and>
    ring_add aw n b (sring s) \<noteq> None \<and> poll_step aw n cx (spc s) (sring s) \<noteq> None"
proof -
  have inv: "sys_inv n held cx s" by (rule stream_reach_inv [OF assms])
  then have "ring_inv n (sring s)" by (simp add: sys_inv_def)
  moreover from this have "ring_add aw n b (sring s) \<noteq> None"
    using ring_add_spec [of n "sring s" aw b] by (auto split: if_splits)
  moreover from calculation have "poll_step aw n cx (spc s) (sring s) \<noteq> None"
    by (cases "(aw, n, cx, spc s, sring s)" rule: poll_step.cases) (auto simp: ring_inv_def array_simps)
  ultimately show ?thesis using inv by (simp add: sys_inv_def)
qed

text \<open>C7. No lost wake-up: when a poll has returned \<open>Pending\<close> and there is a byte in the ring, the task has
  been woken since that poll began, wherever the interrupt struck.\<close>

theorem stream_no_lost_wakeup:
  assumes "stream_reach aw n cx c s" "atomic_waker aw held" "0 < n"
    "spc s = Returned Pending" "HEAD (sring s) \<noteq> TAIL (sring s)"
  shows "woken s"
  using stream_reach_inv [OF assms(1-3)] assms(4,5) by (simp add: sys_inv_def)

text \<open>A run in which the interrupt strikes between the second test and the return of the poll.\<close>

definition race_end :: "nat option stream_sys" where
  "race_end = \<lparr>sring = \<lparr>BUFFER = [65, 0], HEAD = 1, TAIL = 0, WAKER = None\<rparr>,
     spc = Returned Pending, accepted = [65], delivered = [], woken = True\<rparr>"

lemma race_reach: "stream_reach cell_waker 2 (7 :: nat) None race_end"
proof -
  define s0 :: "nat option stream_sys" where "s0 = stream_sys_init 2 None"
  define s1 where "s1 = s0\<lparr>spc := Register\<rparr>"
  define s2 where "s2 = s1\<lparr>spc := Check2, sring := (sring s1)\<lparr>WAKER := Some 7\<rparr>\<rparr>"
  define s3 where "s3 = s2\<lparr>spc := Returned Pending\<rparr>"
  note d = s0_def s1_def s2_def s3_def stream_sys_init_def ring_init_def cell_waker_def race_end_def
    eval_nat_numeral
  have "stream_step cell_waker 2 7 s0 s1"
    using stream_step.poll [of s0 cell_waker 2 7 Register "sring s0"] by (simp add: d)
  moreover have "stream_step cell_waker 2 7 s1 s2"
    using stream_step.poll [of s1 cell_waker 2 7 Check2 "sring s2"] by (simp add: d)
  moreover have "stream_step cell_waker 2 7 s2 s3"
    using stream_step.poll [of s2 cell_waker 2 7 "Returned Pending" "sring s3"] by (simp add: d)
  moreover have "stream_step cell_waker 2 7 s3 race_end"
    using stream_step.irq [of cell_waker 2 65 s3 "sring race_end" "Some 7" True 7]
    by (simp add: d ring_add_def aset_def)
  ultimately show ?thesis unfolding s0_def by (meson stream_reach.intros)
qed

theorem stream_interleaving_fifo_witness:
  "delivered race_end @ content 2 (sring race_end) = [65]"
  using stream_interleaving_fifo [OF race_reach cell_waker_ok] by (simp add: race_end_def)

theorem stream_no_lost_wakeup_witness:
  "spc race_end = Returned Pending \<and> HEAD (sring race_end) \<noteq> TAIL (sring race_end) \<and> woken race_end"
proof -
  have "spc race_end = Returned Pending" "HEAD (sring race_end) \<noteq> TAIL (sring race_end)"
    by (simp_all add: race_end_def)
  with stream_no_lost_wakeup [OF race_reach cell_waker_ok] show ?thesis by simp
qed

end
