(* ===== verification/Byte_Store.thy ===== *)
theory Byte_Store
  imports Rust_Prelude
begin

text \<open>
  Byte memory that drivers share with devices: reading and writing a run of bytes at an address, and the
  little-endian layout of the fields of \<open>repr(C)\<close> structures.
\<close>

definition read_bytes :: "(nat \<Rightarrow> u8) \<Rightarrow> nat \<Rightarrow> nat \<Rightarrow> bytes" where
  "read_bytes h p n = map h [p..<p + n]"

definition write_bytes :: "nat \<Rightarrow> bytes \<Rightarrow> (nat \<Rightarrow> u8) \<Rightarrow> nat \<Rightarrow> u8" where
  "write_bytes p bs h = (\<lambda>a. if p \<le> a \<and> a < p + length bs then bs ! (a - p) else h a)"

lemma length_read_bytes [simp]: "length (read_bytes h p n) = n"
  by (simp add: read_bytes_def)

lemma nth_read_bytes [simp]: "i < n \<Longrightarrow> read_bytes h p n ! i = h (p + i)"
  by (simp add: read_bytes_def)

lemma read_write_bytes [simp]: "read_bytes (write_bytes p bs h) p (length bs) = bs"
  by (rule nth_equalityI) (simp_all add: write_bytes_def)

lemma read_write_prefix:
  "n \<le> length bs \<Longrightarrow> read_bytes (write_bytes p bs h) p n = take n bs"
  by (rule nth_equalityI) (simp_all add: write_bytes_def)

lemma read_write_long:
  "length bs \<le> n \<Longrightarrow> read_bytes (write_bytes p bs h) p n = bs @ drop (length bs) (read_bytes h p n)"
  by (rule nth_equalityI) (auto simp: write_bytes_def nth_append)

lemma read_write_disjoint:
  "q + n \<le> p \<or> p + length bs \<le> q \<Longrightarrow> read_bytes (write_bytes p bs h) q n = read_bytes h q n"
  by (rule nth_equalityI) (auto simp: write_bytes_def)

lemma write_bytes_other: "a < p \<or> p + length bs \<le> a \<Longrightarrow> write_bytes p bs h a = h a"
  by (auto simp: write_bytes_def)

lemma write_bytes_append: "write_bytes (p + length xs) ys (write_bytes p xs h) = write_bytes p (xs @ ys) h"
  by (auto simp: write_bytes_def fun_eq_iff nth_append)

lemma read_bytes_cong: "(\<And>a. p \<le> a \<Longrightarrow> a < p + n \<Longrightarrow> h a = h' a) \<Longrightarrow> read_bytes h p n = read_bytes h' p n"
  by (simp add: read_bytes_def)

definition to_le_bytes64 :: "u64 \<Rightarrow> bytes" where
  "to_le_bytes64 w = to_le_bytes32 (ucast w) @ to_le_bytes32 (ucast (drop_bit 32 w))"

lemma length_to_le_bytes64 [simp]: "length (to_le_bytes64 w) = 8"
  by (simp add: to_le_bytes64_def)

text \<open>A \<open>u32\<close> field at an address.\<close>

definition read_u32 :: "(nat \<Rightarrow> u8) \<Rightarrow> nat \<Rightarrow> u32" where
  "read_u32 h p = from_le_bytes32 (read_bytes h p 4)"

lemma read_u32_cong: "(\<And>a. p \<le> a \<Longrightarrow> a < p + 4 \<Longrightarrow> h a = h' a) \<Longrightarrow> read_u32 h p = read_u32 h' p"
  unfolding read_u32_def read_bytes_def by (intro arg_cong [of _ _ from_le_bytes32] map_cong) auto

end
