(* ===== verification/E1000.thy ===== *)
theory E1000
  imports Checksum Memory Streams Byte_Store
begin

text \<open>
  The Gigabit network driver, \<^verbatim>\<open>kernel/src/e1000.rs\<close>. Pointers are virtual addresses into a store
  with one heap per type the driver accesses memory at (transmit descriptors, receive descriptors, bytes):
  the driver never accesses a page at two types. The controller is a parameter: its register
  accesses by address, and what it does when a frame comes in from the wire.
\<close>

subsection \<open>Registers and descriptors\<close>

definition RCTL :: u32 where "RCTL = 0x100"
definition TCTL :: u32 where "TCTL = 0x400"
definition TCTL_EN :: u32 where "TCTL_EN = push_bit 1 1"
definition TCTL_PSP :: u32 where "TCTL_PSP = push_bit 3 1"
definition RDBAL :: u32 where "RDBAL = 0x2800"
definition RDBAH :: u32 where "RDBAH = 0x2804"
definition RDLEN :: u32 where "RDLEN = 0x2808"
definition RDH :: u32 where "RDH = 0x2810"
definition RDT :: u32 where "RDT = 0x2818"
definition TDBAL :: u32 where "TDBAL = 0x3800"
definition TDBAH :: u32 where "TDBAH = 0x3804"
definition TDLEN :: u32 where "TDLEN = 0x3808"
definition TDH :: u32 where "TDH = 0x3810"
definition TDT :: u32 where "TDT = 0x3818"
definition RAL0 :: u32 where "RAL0 = 0x5400"
definition RAH0 :: u32 where "RAH0 = 0x5404"

definition NUM_TX_DESCRIPTORS :: nat where "NUM_TX_DESCRIPTORS = 32"
definition NUM_RX_DESCRIPTORS :: nat where "NUM_RX_DESCRIPTORS = 32"
definition RCTL_EN :: u32 where "RCTL_EN = push_bit 1 1"
definition RCTL_UPE :: u32 where "RCTL_UPE = push_bit 3 1"
definition RCTL_MPE :: u32 where "RCTL_MPE = push_bit 4 1"
definition RCTL_BAM :: u32 where "RCTL_BAM = push_bit 15 1"
definition RCTL_SECRC :: u32 where "RCTL_SECRC = push_bit 26 1"

record ReceiveDescriptor =
  rd_buffer_addr :: u64
  rd_length :: u16
  rd_checksum :: u16
  rd_status :: u8
  rd_error :: u8
  rd_special :: u16

definition RD_DD :: u8 where "RD_DD = push_bit 0 1"

record TransmitDescriptor =
  td_buffer_addr :: u64
  td_length :: u16
  td_cso :: u8
  td_command :: u8
  td_status :: u8
  td_css :: u8
  td_special :: u16

definition TD_CMD_EOP :: u8 where "TD_CMD_EOP = push_bit 0 1"
definition TD_CMD_IFCS :: u8 where "TD_CMD_IFCS = push_bit 1 1"
definition TD_CMD_RS :: u8 where "TD_CMD_RS = push_bit 3 1"

text \<open>\<open>size_of\<close> of the two packed descriptors.\<close>

definition DESC_SIZE :: nat where "DESC_SIZE = 16"

record E1000Driver =
  mmio_base :: nat
  mac_address :: bytes
  tx_ring_virt :: nat
  tx_buffer_virt :: nat
  tx_buffer_phys :: u64
  tx_index :: nat
  rx_ring_virt :: nat
  rx_buffers_virt :: "nat list"
  rx_index :: nat

subsection \<open>Memory and the controller\<close>

record dma_store =
  td_heap :: "nat \<Rightarrow> TransmitDescriptor"
  rd_heap :: "nat \<Rightarrow> ReceiveDescriptor"
  u8_heap :: "nat \<Rightarrow> u8"

definition td_zero :: TransmitDescriptor where
  "td_zero = \<lparr>td_buffer_addr = 0, td_length = 0, td_cso = 0, td_command = 0, td_status = 0, td_css = 0, td_special = 0\<rparr>"

definition rd_zero :: ReceiveDescriptor where
  "rd_zero = \<lparr>rd_buffer_addr = 0, rd_length = 0, rd_checksum = 0, rd_status = 0, rd_error = 0, rd_special = 0\<rparr>"

text \<open>\<open>allocate_dma_frames\<close> zeroes a set of physical bytes, mapped at \<open>off\<close>.\<close>

definition zero_dma :: "nat \<Rightarrow> nat set \<Rightarrow> dma_store \<Rightarrow> dma_store" where
  "zero_dma off Z mem = (let z = (\<lambda>a. off \<le> a \<and> a - off \<in> Z) in
     \<lparr>td_heap = \<lambda>a. if z a then td_zero else td_heap mem a,
      rd_heap = \<lambda>a. if z a then rd_zero else rd_heap mem a,
      u8_heap = \<lambda>a. if z a then 0 else u8_heap mem a\<rparr>)"

record 'h Nic =
  nic_read :: "nat \<Rightarrow> 'h \<Rightarrow> u32 \<times> 'h"
  nic_write :: "nat \<Rightarrow> u32 \<Rightarrow> 'h \<Rightarrow> 'h"
  nic_frame_in :: "bytes \<Rightarrow> 'h \<times> dma_store \<Rightarrow> 'h \<times> dma_store"

record 'h e1000_state =
  drv :: E1000Driver
  mem :: dma_store
  hw :: 'h

definition read_reg :: "'h Nic \<Rightarrow> E1000Driver \<Rightarrow> u32 \<Rightarrow> 'h \<Rightarrow> u32 \<times> 'h" where
  "read_reg nic d register h = nic_read nic (mmio_base d + unat register) h"

definition write_reg :: "'h Nic \<Rightarrow> E1000Driver \<Rightarrow> u32 \<Rightarrow> u32 \<Rightarrow> 'h \<Rightarrow> 'h" where
  "write_reg nic d register v h = nic_write nic (mmio_base d + unat register) v h"

subsection \<open>Initialisation\<close>

definition read_mac_address :: "'h Nic \<Rightarrow> E1000Driver \<Rightarrow> 'h \<Rightarrow> E1000Driver \<times> 'h" where
  "read_mac_address nic d h = (
     let (mac_low, h1) = read_reg nic d RAL0 h;
         (mac_high, h2) = read_reg nic d RAH0 h1
     in (d\<lparr>mac_address := [ucast mac_low, ucast (drop_bit 8 mac_low), ucast (drop_bit 16 mac_low),
           ucast (drop_bit 24 mac_low), ucast mac_high, ucast (drop_bit 8 mac_high)]\<rparr>, h2))"

definition init_tx_ring :: "'h Nic \<Rightarrow> u64 \<Rightarrow> E1000Driver \<Rightarrow> 'h \<Rightarrow> 'h" where
  "init_tx_ring nic tx_ring_phys d h = (
     let h1 = write_reg nic d TDBAL (ucast (tx_ring_phys AND 0xFFFFFFFF)) h;
         h2 = write_reg nic d TDBAH (ucast (drop_bit 32 tx_ring_phys)) h1;
         ring_len = of_nat (NUM_TX_DESCRIPTORS * DESC_SIZE);
         h3 = write_reg nic d TDLEN ring_len h2;
         h4 = write_reg nic d TDH 0 h3;
         h5 = write_reg nic d TDT 0 h4;
         (tctl, h6) = read_reg nic d TCTL h5
     in write_reg nic d TCTL (tctl OR TCTL_EN OR TCTL_PSP) h6)"

text \<open>\<open>allocate_dma_frames(\<dots>, 1).unwrap()\<close>.\<close>

definition dma_page :: "'fa frame_fun \<Rightarrow> nat \<Rightarrow> 'fa \<times> dma_store \<Rightarrow> (nat \<times> nat \<times> 'fa \<times> dma_store) option" where
  "dma_page alf off = (\<lambda>(fa, m). case allocate_dma_frames alf off 1 fa of
       (None, _) \<Rightarrow> None
     | (Some (p, v, Z), fa') \<Rightarrow> Some (p, v, fa', zero_dma off Z m))"

definition wire_bucket :: "nat \<Rightarrow> nat \<Rightarrow> nat \<Rightarrow> E1000Driver \<times> dma_store \<Rightarrow> (E1000Driver \<times> dma_store) option" where
  "wire_bucket i buf_phys buf_virt = (\<lambda>(d, m). do {
     bs \<leftarrow> aset (rx_buffers_virt d) i buf_virt;
     let desc_ptr = rx_ring_virt d + DESC_SIZE * i;
     Some (d\<lparr>rx_buffers_virt := bs\<rparr>,
       m\<lparr>rd_heap := (rd_heap m)(desc_ptr := (rd_heap m desc_ptr)\<lparr>rd_buffer_addr := of_nat buf_phys, rd_status := 0\<rparr>)\<rparr>) })"

fun wire_buckets :: "'fa frame_fun \<Rightarrow> nat \<Rightarrow> nat list \<Rightarrow> E1000Driver \<Rightarrow> 'fa \<Rightarrow> dma_store \<Rightarrow>
    (E1000Driver \<times> 'fa \<times> dma_store) option" where
  "wire_buckets alf off [] d fa m = Some (d, fa, m)"
| "wire_buckets alf off (i # is) d fa m = do {
     (buf_phys, buf_virt, fa', m') \<leftarrow> dma_page alf off (fa, m);
     (d', m'') \<leftarrow> wire_bucket i buf_phys buf_virt (d, m');
     wire_buckets alf off is d' fa' m'' }"

definition init_rx_ring :: "'h Nic \<Rightarrow> 'fa frame_fun \<Rightarrow> nat \<Rightarrow> u64 \<Rightarrow> E1000Driver \<Rightarrow> 'fa \<Rightarrow> dma_store \<Rightarrow> 'h \<Rightarrow>
    (E1000Driver \<times> 'fa \<times> dma_store \<times> 'h) option" where
  "init_rx_ring nic alf off rx_ring_phys d fa m h = do {
     let h1 = write_reg nic d RDBAL (ucast (rx_ring_phys AND 0xFFFFFFFF)) h;
     let h2 = write_reg nic d RDBAH (ucast (drop_bit 32 rx_ring_phys)) h1;
     let h3 = write_reg nic d RDLEN (of_nat (NUM_RX_DESCRIPTORS * DESC_SIZE)) h2;
     let h4 = write_reg nic d RDH 0 h3;
     let h5 = write_reg nic d RDT (of_nat (NUM_RX_DESCRIPTORS - 1)) h4;
     (d', fa', m') \<leftarrow> wire_buckets alf off [0..<NUM_RX_DESCRIPTORS] d fa m;
     let (rctl, h6) = read_reg nic d' RCTL h5;
     Some (d', fa', m',
       write_reg nic d' RCTL (rctl OR RCTL_EN OR RCTL_BAM OR RCTL_SECRC OR RCTL_UPE OR RCTL_MPE) h6) }"

definition E1000Driver_new :: "'h Nic \<Rightarrow> 'fa frame_fun \<Rightarrow> nat \<Rightarrow> nat \<Rightarrow> 'fa \<Rightarrow> dma_store \<Rightarrow> 'h \<Rightarrow>
    ('h e1000_state \<times> 'fa) option" where
  "E1000Driver_new nic alf base phys_mem_offset fa m h = do {
     (tx_ring_phys, tx_ring_v, fa1, m1) \<leftarrow> dma_page alf phys_mem_offset (fa, m);
     (tx_buf_phys, tx_buf_virt, fa2, m2) \<leftarrow> dma_page alf phys_mem_offset (fa1, m1);
     (rx_ring_phys, rx_ring_v, fa3, m3) \<leftarrow> dma_page alf phys_mem_offset (fa2, m2);
     let driver = \<lparr>mmio_base = base, mac_address = replicate 6 0, tx_ring_virt = tx_ring_v,
       tx_buffer_virt = tx_buf_virt, tx_buffer_phys = of_nat tx_buf_phys, tx_index = 0,
       rx_ring_virt = rx_ring_v, rx_buffers_virt = replicate NUM_RX_DESCRIPTORS 0, rx_index = 0\<rparr>;
     let (driver, h1) = read_mac_address nic driver h;
     let h2 = init_tx_ring nic (of_nat tx_ring_phys) driver h1;
     (driver, fa4, m4, h3) \<leftarrow> init_rx_ring nic alf phys_mem_offset (of_nat rx_ring_phys) driver fa3 m3 h2;
     Some (\<lparr>drv = driver, mem = m4, hw = h3\<rparr>, fa4) }"

subsection \<open>Transmit and receive\<close>

definition transmit_packet_secure :: "'h Nic \<Rightarrow> bytes \<Rightarrow> 'h e1000_state \<Rightarrow> 'h e1000_state" where
  "transmit_packet_secure nic payload s = (
     if length payload > 1518 then s
     else let d = drv s; m = mem s;
         m1 = m\<lparr>u8_heap := write_bytes (tx_buffer_virt d) payload (u8_heap m)\<rparr>;
         desc_ptr = tx_ring_virt d + DESC_SIZE * tx_index d;
         desc = (td_heap m1 desc_ptr)\<lparr>td_buffer_addr := tx_buffer_phys d, td_length := of_nat (length payload),
           td_command := TD_CMD_EOP OR TD_CMD_IFCS OR TD_CMD_RS, td_status := 0\<rparr>;
         m2 = m1\<lparr>td_heap := (td_heap m1)(desc_ptr := desc)\<rparr>;
         d' = d\<lparr>tx_index := (tx_index d + 1) mod NUM_TX_DESCRIPTORS\<rparr>
       in s\<lparr>drv := d', mem := m2, hw := write_reg nic d' TDT (of_nat (tx_index d')) (hw s)\<rparr>)"

definition poll_receive :: "'h Nic \<Rightarrow> 'h e1000_state \<Rightarrow> ('h e1000_state \<times> bytes option) option" where
  "poll_receive nic s = (
     let d = drv s; m = mem s;
         desc_ptr = rx_ring_virt d + DESC_SIZE * rx_index d
     in if rd_status (rd_heap m desc_ptr) AND RD_DD \<noteq> 0
        then do {
          let packet_len = unat (rd_length (rd_heap m desc_ptr));
          buffer_ptr \<leftarrow> aget (rx_buffers_virt d) (rx_index d);
          let packet_data = read_bytes (u8_heap m) buffer_ptr packet_len;
          let m' = m\<lparr>rd_heap := (rd_heap m)(desc_ptr := (rd_heap m desc_ptr)\<lparr>rd_status := 0\<rparr>)\<rparr>;
          let old_index = rx_index d;
          let d' = d\<lparr>rx_index := (rx_index d + 1) mod NUM_RX_DESCRIPTORS\<rparr>;
          Some (s\<lparr>drv := d', mem := m', hw := write_reg nic d' RDT (of_nat old_index) (hw s)\<rparr>, Some packet_data)
        }
        else Some (s, None))"

subsection \<open>Packets\<close>

text \<open>\<open>packet[a..b].copy_from_slice(src)\<close>: it panics when the lengths differ.\<close>

definition copy_range :: "bytes \<Rightarrow> nat \<Rightarrow> nat \<Rightarrow> bytes \<Rightarrow> bytes option" where
  "copy_range packet a b src = (if length src = b - a \<and> a \<le> b then copy_into packet a src else None)"

definition ping_payload :: bytes where
  "ping_payload = map of_char ''PolymorphOS Bare-Metal Ping Test!''"

definition ping_packet :: "bytes \<Rightarrow> bytes \<Rightarrow> bytes \<Rightarrow> bytes \<Rightarrow> bytes option" where
  "ping_packet mac dest_mac dest_ip source_ip = do {
     let payload = ping_payload;
     let packet_size = 42 + length payload;
     let packet = replicate packet_size 0;
     packet \<leftarrow> copy_range packet 0 6 dest_mac;
     packet \<leftarrow> copy_range packet 6 12 mac;
     packet \<leftarrow> aset packet 12 0x08; packet \<leftarrow> aset packet 13 0x00;
     packet \<leftarrow> aset packet 14 0x45;
     packet \<leftarrow> aset packet 15 0x00;
     let ip_len = (of_nat (20 + 8 + length payload) :: u16);
     packet \<leftarrow> aset packet 16 (ucast (drop_bit 8 ip_len)); packet \<leftarrow> aset packet 17 (ucast (ip_len AND 0xFF));
     packet \<leftarrow> aset packet 18 0x12; packet \<leftarrow> aset packet 19 0x34;
     packet \<leftarrow> aset packet 20 0x40; packet \<leftarrow> aset packet 21 0x00;
     packet \<leftarrow> aset packet 22 0x40;
     packet \<leftarrow> aset packet 23 0x01;
     packet \<leftarrow> copy_range packet 26 30 source_ip;
     packet \<leftarrow> copy_range packet 30 34 dest_ip;
     packet \<leftarrow> aset packet 24 0; packet \<leftarrow> aset packet 25 0;
     header \<leftarrow> slice packet 14 34;
     let ip_csum = calculate_checksum header;
     packet \<leftarrow> aset packet 24 (ucast (drop_bit 8 ip_csum)); packet \<leftarrow> aset packet 25 (ucast (ip_csum AND 0xFF));
     packet \<leftarrow> aset packet 34 0x08;
     packet \<leftarrow> aset packet 35 0x00;
     packet \<leftarrow> aset packet 38 0x00; packet \<leftarrow> aset packet 39 0x01;
     packet \<leftarrow> aset packet 40 0x00; packet \<leftarrow> aset packet 41 0x01;
     packet \<leftarrow> copy_range packet 42 (42 + length payload) payload;
     packet \<leftarrow> aset packet 36 0; packet \<leftarrow> aset packet 37 0;
     icmp \<leftarrow> slice packet 34 packet_size;
     let icmp_csum = calculate_checksum icmp;
     packet \<leftarrow> aset packet 36 (ucast (drop_bit 8 icmp_csum)); packet \<leftarrow> aset packet 37 (ucast (icmp_csum AND 0xFF));
     Some packet }"

definition send_ping :: "'h Nic \<Rightarrow> bytes \<Rightarrow> bytes \<Rightarrow> bytes \<Rightarrow> 'h e1000_state \<Rightarrow> 'h e1000_state option" where
  "send_ping nic dest_mac dest_ip source_ip s = do {
     packet \<leftarrow> ping_packet (mac_address (drv s)) dest_mac dest_ip source_ip;
     Some (transmit_packet_secure nic packet s) }"

definition arp_packet :: "bytes \<Rightarrow> bytes \<Rightarrow> bytes \<Rightarrow> bytes option" where
  "arp_packet mac target_ip source_ip = do {
     let packet = replicate 42 0;
     packet \<leftarrow> copy_range packet 0 6 (replicate 6 0xFF);
     packet \<leftarrow> copy_range packet 6 12 mac;
     packet \<leftarrow> aset packet 12 0x08; packet \<leftarrow> aset packet 13 0x06;
     packet \<leftarrow> aset packet 14 0x00; packet \<leftarrow> aset packet 15 0x01;
     packet \<leftarrow> aset packet 16 0x08; packet \<leftarrow> aset packet 17 0x00;
     packet \<leftarrow> aset packet 18 0x06;
     packet \<leftarrow> aset packet 19 0x04;
     packet \<leftarrow> aset packet 20 0x00; packet \<leftarrow> aset packet 21 0x01;
     packet \<leftarrow> copy_range packet 22 28 mac;
     packet \<leftarrow> copy_range packet 28 32 source_ip;
     packet \<leftarrow> copy_range packet 32 38 (replicate 6 0x00);
     packet \<leftarrow> copy_range packet 38 42 target_ip;
     Some packet }"

definition send_arp_request :: "'h Nic \<Rightarrow> bytes \<Rightarrow> bytes \<Rightarrow> 'h e1000_state \<Rightarrow> 'h e1000_state option" where
  "send_arp_request nic target_ip source_ip s = do {
     packet \<leftarrow> arp_packet (mac_address (drv s)) target_ip source_ip;
     Some (transmit_packet_secure nic packet s) }"

subsection \<open>The packets built\<close>

text \<open>The Internet header and the echo message before their checksums are inserted.\<close>

definition ip_header0 :: "bytes \<Rightarrow> bytes \<Rightarrow> bytes" where
  "ip_header0 source_ip dest_ip = [0x45, 0, 0, 61, 0x12, 0x34, 0x40, 0, 0x40, 1, 0, 0] @ source_ip @ dest_ip"

definition icmp_echo0 :: bytes where
  "icmp_echo0 = [8, 0, 0, 0, 0, 1, 0, 1] @ ping_payload"

lemma list6: "length xs = 6 \<Longrightarrow> \<exists>a b c d e f. xs = [a, b, c, d, e, f]"
  by (auto simp: length_Suc_conv numeral_eq_Suc)

lemma list4: "length xs = 4 \<Longrightarrow> \<exists>a b c d. xs = [a, b, c, d]"
  by (auto simp: length_Suc_conv numeral_eq_Suc)

lemma ping_payload_eval:
  "ping_payload = [80, 111, 108, 121, 109, 111, 114, 112, 104, 79, 83, 32, 66, 97, 114, 101, 45, 77, 101, 116, 97,
     108, 32, 80, 105, 110, 103, 32, 84, 101, 115, 116, 33]"
  by (simp add: ping_payload_def)

lemma update_cons [simp]: "(x # xs)[numeral k := v] = x # xs[pred_numeral k := v]"
  by (simp add: numeral_eq_Suc)

lemma replicate_eval: "replicate (numeral k) x = x # replicate (pred_numeral k) x"
  by (simp add: numeral_eq_Suc)

lemmas packet_simps = copy_range_def copy_into_def aset_def slice_def replicate_eval

lemma ping_packet_eq:
  assumes "length mac = 6" "length dest_mac = 6" "length dest_ip = 4" "length source_ip = 4"
  shows "ping_packet mac dest_mac dest_ip source_ip = Some (dest_mac @ mac @ [0x08, 0x00] @
    put_be16 10 (calculate_checksum (ip_header0 source_ip dest_ip)) (ip_header0 source_ip dest_ip) @
    put_be16 2 (calculate_checksum icmp_echo0) icmp_echo0)"
proof -
  from list6 [OF assms(1)] list6 [OF assms(2)] obtain m0 m1 m2 m3 m4 m5 d0 d1 d2 d3 d4 d5
    where "mac = [m0, m1, m2, m3, m4, m5]" "dest_mac = [d0, d1, d2, d3, d4, d5]" by blast
  moreover from list4 [OF assms(3)] list4 [OF assms(4)] obtain p0 p1 p2 p3 q0 q1 q2 q3
    where "dest_ip = [p0, p1, p2, p3]" "source_ip = [q0, q1, q2, q3]" by blast
  ultimately show ?thesis
    unfolding ping_packet_def
    by (simp add: packet_simps ping_payload_eval ip_header0_def icmp_echo0_def put_be16_def Let_def)
qed

lemma arp_packet_eq:
  assumes "length mac = 6" "length target_ip = 4" "length source_ip = 4"
  shows "arp_packet mac target_ip source_ip = Some (replicate 6 0xFF @ mac @ [0x08, 0x06] @
    [0, 1, 8, 0, 6, 4, 0, 1] @ mac @ source_ip @ replicate 6 0 @ target_ip)"
proof -
  from list6 [OF assms(1)] obtain m0 m1 m2 m3 m4 m5 where "mac = [m0, m1, m2, m3, m4, m5]" by blast
  moreover from list4 [OF assms(2)] list4 [OF assms(3)] obtain p0 p1 p2 p3 q0 q1 q2 q3
    where "target_ip = [p0, p1, p2, p3]" "source_ip = [q0, q1, q2, q3]" by blast
  ultimately show ?thesis unfolding arp_packet_def by (simp add: packet_simps)
qed

subsection \<open>The transmit path\<close>

text \<open>The frame that descriptor \<open>i\<close> describes to the controller, and the wiring of the staging buffer.\<close>

definition tx_frame :: "nat \<Rightarrow> 'h e1000_state \<Rightarrow> nat \<Rightarrow> bytes" where
  "tx_frame off s i = (let desc = td_heap (mem s) (tx_ring_virt (drv s) + DESC_SIZE * i)
     in read_bytes (u8_heap (mem s)) (off + unat (td_buffer_addr desc)) (unat (td_length desc)))"

definition tx_wired :: "nat \<Rightarrow> E1000Driver \<Rightarrow> bool" where
  "tx_wired off d \<longleftrightarrow> tx_buffer_virt d = off + unat (tx_buffer_phys d) \<and> tx_index d < NUM_TX_DESCRIPTORS"

lemma unat_u16: "n < 65536 \<Longrightarrow> unat (of_nat n :: u16) = n"
  by (simp add: unat_of_nat take_bit_nat_def)

lemma tx_frame_transmit:
  "tx_wired off (drv s) \<Longrightarrow> length payload \<le> 1518 \<Longrightarrow>
   tx_frame off (transmit_packet_secure nic payload s) (tx_index (drv s)) = payload"
  by (simp add: transmit_packet_secure_def Let_def tx_frame_def tx_wired_def unat_u16)

text \<open>A frame of at most 1518 bytes is staged and published: the descriptor at the transmit index describes
  exactly that frame, complete (end of packet, checksum insertion, status report) and not yet done; no other
  descriptor and no receive memory changes; the index advances around the ring of 32 and is
  what the doorbell gets. A longer frame changes nothing.\<close>

theorem transmit_publishes_frame:
  assumes "tx_wired off (drv s)"
  shows "let s' = transmit_packet_secure nic payload s; i = tx_index (drv s); d = drv s' in
    if length payload \<le> 1518
    then tx_frame off s' i = payload \<and>
      td_command (td_heap (mem s') (tx_ring_virt d + 16 * i)) = 0b1011 \<and>
      td_status (td_heap (mem s') (tx_ring_virt d + 16 * i)) = 0 \<and>
      (\<forall>a. a \<noteq> tx_ring_virt d + 16 * i \<longrightarrow> td_heap (mem s') a = td_heap (mem s) a) \<and>
      rd_heap (mem s') = rd_heap (mem s) \<and> d = (drv s)\<lparr>tx_index := (i + 1) mod 32\<rparr> \<and> tx_wired off d \<and>
      hw s' = nic_write nic (mmio_base d + 0x3818) (of_nat ((i + 1) mod 32)) (hw s)
    else s' = s"
  using assms
  by (simp add: transmit_packet_secure_def Let_def tx_frame_def tx_wired_def unat_u16 TD_CMD_EOP_def TD_CMD_IFCS_def
      TD_CMD_RS_def DESC_SIZE_def NUM_TX_DESCRIPTORS_def write_reg_def TDT_def)

definition demo_driver :: E1000Driver where
  "demo_driver = \<lparr>mmio_base = 0, mac_address = [2, 0, 0, 0, 0, 1], tx_ring_virt = 0x1000, tx_buffer_virt = 0x2000,
     tx_buffer_phys = 0x2000, tx_index = 31, rx_ring_virt = 0x3000,
     rx_buffers_virt = map (\<lambda>i. 0x4000 + 4096 * i) [0..<32], rx_index = 0\<rparr>"

definition zero_store :: dma_store where
  "zero_store = \<lparr>td_heap = \<lambda>_. td_zero, rd_heap = \<lambda>_. rd_zero, u8_heap = \<lambda>_. 0\<rparr>"

text \<open>A controller that only records the register writes.\<close>

definition log_nic :: "(nat \<times> u32) list Nic" where
  "log_nic = \<lparr>nic_read = \<lambda>a h. (0, h), nic_write = \<lambda>a v h. h @ [(a, v)], nic_frame_in = \<lambda>p x. x\<rparr>"

definition demo_state :: "(nat \<times> u32) list e1000_state" where
  "demo_state = \<lparr>drv = demo_driver, mem = zero_store, hw = []\<rparr>"

lemma demo_wired: "tx_wired 0 (drv demo_state)"
  by (simp add: tx_wired_def demo_state_def demo_driver_def NUM_TX_DESCRIPTORS_def)

theorem transmit_publishes_frame_witness:
  "tx_frame 0 (transmit_packet_secure log_nic [1, 2, 3] demo_state) 31 = [1, 2, 3] \<and>
   hw (transmit_packet_secure log_nic [1, 2, 3] demo_state) = [(0x3818, 0)]"
  using transmit_publishes_frame [OF demo_wired, of log_nic "[1, 2, 3]"]
  by (simp add: Let_def log_nic_def) (simp add: demo_state_def demo_driver_def)

text \<open>C21. \<open>send_ping\<close> publishes a well-formed echo request: Ethernet header with the two addresses and type 0x0800,
  a 20-byte Internet header of total length 61 with the two IP addresses, an ICMP echo message
  with identifier and sequence number 1 and the payload; both checksums verify, that is, the checksum over the
  header and the one over the message, with the inserted values in place, come out as zero.\<close>

theorem ping_is_well_formed:
  assumes "tx_wired off (drv s)" "length (mac_address (drv s)) = 6" "length dest_mac = 6"
    "length dest_ip = 4" "length source_ip = 4"
  shows "\<exists>s' ip icmp. send_ping nic dest_mac dest_ip source_ip s = Some s' \<and>
    tx_frame off s' (tx_index (drv s)) = dest_mac @ mac_address (drv s) @ [0x08, 0x00] @ ip @ icmp \<and>
    length ip = 20 \<and> take 10 ip = [0x45, 0, 0, 61, 0x12, 0x34, 0x40, 0, 0x40, 1] \<and>
    drop 12 ip = source_ip @ dest_ip \<and> calculate_checksum ip = 0 \<and>
    length icmp = 41 \<and> take 2 icmp = [8, 0] \<and> drop 4 icmp = [0, 1, 0, 1] @ ping_payload \<and>
    calculate_checksum icmp = 0"
proof -
  let ?h = "ip_header0 source_ip dest_ip"
  let ?ip = "put_be16 10 (calculate_checksum ?h) ?h" and ?icmp = "put_be16 2 (calculate_checksum icmp_echo0) icmp_echo0"
  let ?pkt = "dest_mac @ mac_address (drv s) @ [0x08, 0x00] @ ?ip @ ?icmp"
  have l: "length ?h = 20" "length icmp_echo0 = 41" using assms by (simp_all add: ip_header0_def icmp_echo0_def ping_payload_eval)
  have "send_ping nic dest_mac dest_ip source_ip s = Some (transmit_packet_secure nic ?pkt s)"
    using assms(2-5) by (simp add: send_ping_def ping_packet_eq)
  moreover have "tx_frame off (transmit_packet_secure nic ?pkt s) (tx_index (drv s)) = ?pkt"
    by (rule tx_frame_transmit) (use assms l in simp_all)
  moreover have "calculate_checksum ?ip = 0" by (rule checksum_inserted) (use l in \<open>simp_all add: ip_header0_def\<close>)
  moreover have "calculate_checksum ?icmp = 0" by (rule checksum_inserted) (use l in \<open>simp_all add: icmp_echo0_def\<close>)
  moreover have "take 10 ?ip = [0x45, 0, 0, 61, 0x12, 0x34, 0x40, 0, 0x40, 1]" "drop 12 ?ip = source_ip @ dest_ip"
    "take 2 ?icmp = [8, 0]" "drop 4 ?icmp = [0, 1, 0, 1] @ ping_payload"
    by (simp_all add: put_be16_def ip_header0_def icmp_echo0_def)
  ultimately show ?thesis using l by (metis length_put_be16)
qed

theorem ping_is_well_formed_witness:
  "\<exists>s' ip icmp. send_ping log_nic [1, 2, 3, 4, 5, 6] [10, 0, 2, 2] [10, 0, 2, 15] demo_state = Some s' \<and>
    tx_frame 0 s' 31 = [1, 2, 3, 4, 5, 6] @ [2, 0, 0, 0, 0, 1] @ [0x08, 0x00] @ ip @ icmp \<and>
    calculate_checksum ip = 0 \<and> calculate_checksum icmp = 0"
proof -
  have d: "mac_address (drv demo_state) = [2, 0, 0, 0, 0, 1]" "tx_index (drv demo_state) = 31"
    by (simp_all add: demo_state_def demo_driver_def)
  from ping_is_well_formed [OF demo_wired, of "[1, 2, 3, 4, 5, 6]" "[10, 0, 2, 2]" "[10, 0, 2, 15]" log_nic]
  show ?thesis unfolding d by (auto 4 3)
qed

text \<open>All frames share one staging buffer and nothing waits for the controller: when a second frame is transmitted
  before the controller has fetched the first, the first descriptor describes the bytes of the second frame, cut
  or padded to the first frame's length.\<close>

theorem transmit_overwrites_pending:
  assumes "tx_wired off (drv s)" "length p \<le> 1518" "length q \<le> 1518"
  shows "tx_frame off (transmit_packet_secure nic q (transmit_packet_secure nic p s)) (tx_index (drv s)) =
    take (length p) q @ drop (length q) p"
proof -
  have "(tx_index (drv s) + 1) mod 32 \<noteq> tx_index (drv s)"
    using assms(1) by (cases "tx_index (drv s) = 31") (auto simp: tx_wired_def NUM_TX_DESCRIPTORS_def)
  with assms show ?thesis
    by (cases "length p \<le> length q")
       (simp_all add: transmit_packet_secure_def Let_def tx_frame_def tx_wired_def unat_u16 DESC_SIZE_def
          NUM_TX_DESCRIPTORS_def read_write_prefix read_write_long)
qed

theorem transmit_overwrites_pending_witness:
  "tx_frame 0 (transmit_packet_secure log_nic [7, 8] (transmit_packet_secure log_nic [1, 2, 3] demo_state)) 31 = [7, 8, 3]"
  using transmit_overwrites_pending [OF demo_wired, of "[1, 2, 3]" "[7, 8]" log_nic]
  by (simp add: demo_state_def demo_driver_def)

end
