(* ===== verification/E1000_Rx.thy ===== *)
theory E1000_Rx
  imports E1000
begin

text \<open>
  The receive side of the network driver (\<open>init_rx_ring\<close> and \<open>poll_receive\<close> of \<^verbatim>\<open>kernel/src/e1000.rs\<close>) together
  with the controller: the descriptor ring is a bounded queue of 31 frames.
\<close>

subsection \<open>The receive path as a queue\<close>

text \<open>What the driver relies on of the controller (the receive side of its data sheet). \<open>regs\<close> is its receive
  register file. Register writes are stored, writes to transmit registers and reads do not
  touch it. An incoming frame of at most 1518 bytes is dropped when the receiver is disabled or when head and tail
  are equal; otherwise it is written to the buffer of the descriptor at the head, the descriptor gets
  its length and the done bit, and the head moves on.\<close>

definition rx_regs :: "u32 set" where
  "rx_regs = {RCTL, RDBAL, RDBAH, RDLEN, RDH, RDT}"

definition tx_regs :: "u32 set" where
  "tx_regs = {TCTL, TDBAL, TDBAH, TDLEN, TDH, TDT}"

definition ring_slot :: "nat \<Rightarrow> (u32 \<Rightarrow> u32) \<Rightarrow> nat" where
  "ring_slot off rg = off + (unat (rg RDBAL) + 2 ^ 32 * unat (rg RDBAH)) + 16 * unat (rg RDH)"

definition frame_stored :: "nat \<Rightarrow> (u32 \<Rightarrow> u32) \<Rightarrow> bytes \<Rightarrow> dma_store \<Rightarrow> dma_store \<Rightarrow> bool" where
  "frame_stored off rg p m m' \<longleftrightarrow> (\<exists>desc. let a = ring_slot off rg in
     rd_buffer_addr desc = rd_buffer_addr (rd_heap m a) \<and> rd_length desc = of_nat (length p) \<and>
     rd_status desc AND RD_DD \<noteq> 0 \<and>
     m' = m\<lparr>rd_heap := (rd_heap m)(a := desc), u8_heap := write_bytes (off + unat (rd_buffer_addr desc)) p (u8_heap m)\<rparr>)"

definition nic_conforms :: "'h Nic \<Rightarrow> nat \<Rightarrow> nat \<Rightarrow> ('h \<Rightarrow> u32 \<Rightarrow> u32) \<Rightarrow> bool" where
  "nic_conforms nic base off regs \<longleftrightarrow>
     (\<forall>r \<in> rx_regs. \<forall>v h. regs (nic_write nic (base + unat r) v h) = (regs h)(r := v)) \<and>
     (\<forall>r \<in> tx_regs. \<forall>v h. regs (nic_write nic (base + unat r) v h) = regs h) \<and>
     (\<forall>a h. regs (snd (nic_read nic a h)) = regs h) \<and>
     (\<forall>p h m h' m'. length p \<le> 1518 \<and> nic_frame_in nic p (h, m) = (h', m') \<longrightarrow>
        (if regs h RCTL AND RCTL_EN = 0 \<or> regs h RDH = regs h RDT then regs h' = regs h \<and> m' = m
         else frame_stored off (regs h) p m m' \<and>
           regs h' = (regs h)(RDH := of_nat ((unat (regs h RDH) + 1) mod (unat (regs h RDLEN) div 16)))))"

text \<open>A frame arrives; it was accepted when the head has moved.\<close>

definition frame_arrives :: "'h Nic \<Rightarrow> ('h \<Rightarrow> u32 \<Rightarrow> u32) \<Rightarrow> bytes \<Rightarrow> 'h e1000_state \<Rightarrow>
    ('h e1000_state \<times> bool) option" where
  "frame_arrives nic regs p s = (let (h', m') = nic_frame_in nic p (hw s, mem s)
     in Some (s\<lparr>hw := h', mem := m'\<rparr>, regs h' RDH \<noteq> regs (hw s) RDH))"

text \<open>The distance of slot \<open>i\<close> from slot \<open>t\<close> in the ring of 32.\<close>

definition rpos :: "nat \<Rightarrow> nat \<Rightarrow> nat" where
  "rpos t i = (if t \<le> i then i - t else i + 32 - t)"

abbreviation rx_desc :: "'h e1000_state \<Rightarrow> nat \<Rightarrow> ReceiveDescriptor" where
  "rx_desc s i \<equiv> rd_heap (mem s) (rx_ring_virt (drv s) + 16 * i)"

definition rx_pending :: "('h \<Rightarrow> u32 \<Rightarrow> u32) \<Rightarrow> 'h e1000_state \<Rightarrow> nat" where
  "rx_pending regs s = rpos (rx_index (drv s)) (unat (regs (hw s) RDH))"

text \<open>The wiring of ring and buffers, which no operation changes, and the state of the ring.\<close>

definition rx_wired :: "nat \<Rightarrow> nat \<Rightarrow> ('h \<Rightarrow> u32 \<Rightarrow> u32) \<Rightarrow> 'h e1000_state \<Rightarrow> bool" where
  "rx_wired base off regs s \<longleftrightarrow> mmio_base (drv s) = base \<and> length (rx_buffers_virt (drv s)) = 32 \<and>
     rx_ring_virt (drv s) = off + (unat (regs (hw s) RDBAL) + 2 ^ 32 * unat (regs (hw s) RDBAH)) \<and>
     regs (hw s) RDLEN = 512 \<and> regs (hw s) RCTL AND RCTL_EN \<noteq> 0 \<and>
     (\<forall>i < 32. rx_buffers_virt (drv s) ! i = off + unat (rd_buffer_addr (rx_desc s i))) \<and>
     (\<forall>i < 32. \<forall>j < 32. i \<noteq> j \<longrightarrow> rx_buffers_virt (drv s) ! i + 4096 \<le> rx_buffers_virt (drv s) ! j \<or>
        rx_buffers_virt (drv s) ! j + 4096 \<le> rx_buffers_virt (drv s) ! i)"

definition rx_inv :: "nat \<Rightarrow> nat \<Rightarrow> ('h \<Rightarrow> u32 \<Rightarrow> u32) \<Rightarrow> 'h e1000_state \<Rightarrow> bool" where
  "rx_inv base off regs s \<longleftrightarrow> rx_wired base off regs s \<and> rx_index (drv s) < 32 \<and>
     unat (regs (hw s) RDH) < 32 \<and> regs (hw s) RDT = of_nat ((rx_index (drv s) + 31) mod 32) \<and>
     (\<forall>i < 32. (rd_status (rx_desc s i) AND RD_DD \<noteq> 0) = (rpos (rx_index (drv s)) i < rx_pending regs s)) \<and>
     (\<forall>i < 32. rpos (rx_index (drv s)) i < rx_pending regs s \<longrightarrow> unat (rd_length (rx_desc s i)) \<le> 1518)"

definition rx_packet :: "'h e1000_state \<Rightarrow> nat \<Rightarrow> bytes" where
  "rx_packet s i = read_bytes (u8_heap (mem s)) (rx_buffers_virt (drv s) ! i) (unat (rd_length (rx_desc s i)))"

definition rx_view :: "('h \<Rightarrow> u32 \<Rightarrow> u32) \<Rightarrow> 'h e1000_state \<Rightarrow> bytes list" where
  "rx_view regs s = map (\<lambda>k. rx_packet s ((rx_index (drv s) + k) mod 32)) [0..<rx_pending regs s]"

lemma rpos_facts:
  assumes "t < 32" "i < 32"
  shows "rpos t i < 32" "(t + rpos t i) mod 32 = i" "rpos t i = 0 \<longleftrightarrow> i = t"
    "rpos ((t + 1) mod 32) i = (if i = t then 31 else rpos t i - 1)"
    "rpos t i = 31 \<longleftrightarrow> i = (t + 31) mod 32"
    "rpos t i \<noteq> 31 \<Longrightarrow> rpos t ((i + 1) mod 32) = rpos t i + 1"
  using assms by (auto simp: rpos_def mod_wrap)

lemma rpos_slot: "t < 32 \<Longrightarrow> k < 32 \<Longrightarrow> rpos t ((t + k) mod 32) = k"
  by (auto simp: rpos_def mod_wrap)

lemma rpos_inj: "t < 32 \<Longrightarrow> i < 32 \<Longrightarrow> j < 32 \<Longrightarrow> rpos t i = rpos t j \<longleftrightarrow> i = j"
  by (auto simp: rpos_def)

lemma length_rx_view [simp]: "length (rx_view regs s) = rx_pending regs s"
  by (simp add: rx_view_def)

lemma rx_regs_distinct [simp]:
  "RDH \<noteq> RDT" "RDT \<noteq> RDH" "RDH \<noteq> RDBAL" "RDBAL \<noteq> RDH" "RDH \<noteq> RDBAH" "RDBAH \<noteq> RDH" "RDH \<noteq> RDLEN" "RDLEN \<noteq> RDH"
  "RDH \<noteq> RCTL" "RCTL \<noteq> RDH" "RDT \<noteq> RDBAL" "RDBAL \<noteq> RDT" "RDT \<noteq> RDBAH" "RDBAH \<noteq> RDT" "RDT \<noteq> RDLEN" "RDLEN \<noteq> RDT"
  "RDT \<noteq> RCTL" "RCTL \<noteq> RDT" "RCTL \<noteq> RDBAL" "RDBAL \<noteq> RCTL" "RCTL \<noteq> RDBAH" "RDBAH \<noteq> RCTL" "RCTL \<noteq> RDLEN" "RDLEN \<noteq> RCTL"
  "RDBAL \<noteq> RDBAH" "RDBAH \<noteq> RDBAL" "RDBAL \<noteq> RDLEN" "RDLEN \<noteq> RDBAL" "RDBAH \<noteq> RDLEN" "RDLEN \<noteq> RDBAH"
  by (simp_all add: RDH_def RDT_def RDBAL_def RDBAH_def RDLEN_def RCTL_def)

lemma unat_slot [simp]: "unat (of_nat (n mod 32) :: u32) = n mod 32"
  by (simp add: unat_of_nat take_bit_nat_def)

lemma conforms_frame:
  assumes "nic_conforms nic base off regs" "rx_inv base off regs s" "length p \<le> 1518"
    "nic_frame_in nic p (hw s, mem s) = (h', m')"
  shows "if rx_pending regs s = 31 then regs h' = regs (hw s) \<and> m' = mem s
    else frame_stored off (regs (hw s)) p (mem s) m' \<and>
      regs h' = (regs (hw s))(RDH := of_nat ((unat (regs (hw s) RDH) + 1) mod 32))"
proof -
  let ?rg = "regs (hw s)"
  have i: "?rg RCTL AND RCTL_EN \<noteq> 0" "?rg RDLEN = 512" "?rg RDT = of_nat ((rx_index (drv s) + 31) mod 32)"
    "rx_index (drv s) < 32" "unat (?rg RDH) < 32"
    using assms(2) by (auto simp: rx_inv_def rx_wired_def)
  have "?rg RDH = ?rg RDT \<longleftrightarrow> unat (?rg RDH) = (rx_index (drv s) + 31) mod 32"
    unfolding i(3) word_unat_eq_iff by simp
  then have "?rg RDH = ?rg RDT \<longleftrightarrow> rx_pending regs s = 31" by (simp add: rx_pending_def rpos_facts i)
  then show ?thesis using assms(1,3,4) i(1,2) unfolding nic_conforms_def by auto
qed

lemma rx_wired_cong:
  assumes "mmio_base (drv s') = mmio_base (drv s)" "rx_ring_virt (drv s') = rx_ring_virt (drv s)"
    "rx_buffers_virt (drv s') = rx_buffers_virt (drv s)" "\<forall>r \<in> {RDBAL, RDBAH, RDLEN, RCTL}. regs (hw s') r = regs (hw s) r"
    "\<forall>i. rd_buffer_addr (rx_desc s' i) = rd_buffer_addr (rx_desc s i)"
  shows "rx_wired base off regs s' = rx_wired base off regs s"
proof -
  have r: "regs (hw s') RDBAL = regs (hw s) RDBAL" "regs (hw s') RDBAH = regs (hw s) RDBAH"
    "regs (hw s') RDLEN = regs (hw s) RDLEN" "regs (hw s') RCTL = regs (hw s) RCTL" using assms(4) by simp_all
  have "rd_buffer_addr (rx_desc s' i) = rd_buffer_addr (rx_desc s i)" for i using assms(5) by blast
  then show ?thesis unfolding rx_wired_def r assms(1,3) by (simp only: assms(2))
qed

lemma rx_inv_disjoint:
  "rx_inv base off regs s \<Longrightarrow> i < 32 \<Longrightarrow> j < 32 \<Longrightarrow> i \<noteq> j \<Longrightarrow>
   rx_buffers_virt (drv s) ! i + 4096 \<le> rx_buffers_virt (drv s) ! j \<or>
   rx_buffers_virt (drv s) ! j + 4096 \<le> rx_buffers_virt (drv s) ! i"
  unfolding rx_inv_def rx_wired_def by blast

lemma rx_inv_length:
  "rx_inv base off regs s \<Longrightarrow> i < 32 \<Longrightarrow> rpos (rx_index (drv s)) i < rx_pending regs s \<Longrightarrow>
   unat (rd_length (rx_desc s i)) \<le> 1518"
  unfolding rx_inv_def by blast

lemma frame_arrives_law:
  assumes c: "nic_conforms nic base off regs" and inv: "rx_inv base off regs s" and p: "length p \<le> 1518"
  shows "\<exists>s'. frame_arrives nic regs p s = Some (s', length (rx_view regs s) < 31) \<and> rx_inv base off regs s' \<and>
    rx_view regs s' = (if length (rx_view regs s) < 31 then rx_view regs s @ [p] else rx_view regs s)"
proof -
  let ?t = "rx_index (drv s)" and ?hd = "unat (regs (hw s) RDH)" and ?n = "rx_pending regs s"
  obtain h' m' where f: "nic_frame_in nic p (hw s, mem s) = (h', m')" by force
  define s' where "s' = s\<lparr>hw := h', mem := m'\<rparr>"
  have a: "frame_arrives nic regs p s = Some (s', regs h' RDH \<noteq> regs (hw s) RDH)"
    by (simp add: frame_arrives_def f s'_def)
  have t: "?t < 32" "?hd < 32" "?n < 32" using inv by (auto simp: rx_inv_def rx_pending_def rpos_facts)
  note law = conforms_frame [OF c inv p f]
  show ?thesis
  proof (cases "?n = 31")
    case True
    with law have "regs h' = regs (hw s)" "m' = mem s" by simp_all
    then have "rx_inv base off regs s' = rx_inv base off regs s" "rx_view regs s' = rx_view regs s"
      by (simp_all add: s'_def rx_inv_def rx_wired_def rx_view_def rx_pending_def rx_packet_def)
    with True inv a \<open>regs h' = regs (hw s)\<close> show ?thesis by simp
  next
    case False
    with law have rg: "regs h' = (regs (hw s))(RDH := of_nat ((?hd + 1) mod 32))" by simp
    have w: "rx_ring_virt (drv s) = off + (unat (regs (hw s) RDBAL) + 2 ^ 32 * unat (regs (hw s) RDBAH))"
      and b: "\<forall>i < 32. rx_buffers_virt (drv s) ! i = off + unat (rd_buffer_addr (rx_desc s i))"
      using inv by (simp_all add: rx_inv_def rx_wired_def)
    from law False obtain desc where desc: "rd_buffer_addr desc = rd_buffer_addr (rx_desc s ?hd)"
      "rd_length desc = of_nat (length p)" "rd_status desc AND RD_DD \<noteq> 0"
      and m': "m' = (mem s)\<lparr>rd_heap := (rd_heap (mem s))(rx_ring_virt (drv s) + 16 * ?hd := desc),
        u8_heap := write_bytes (rx_buffers_virt (drv s) ! ?hd) p (u8_heap (mem s))\<rparr>"
      using b t(2) by (auto simp: frame_stored_def ring_slot_def Let_def w)
    have d': "rx_desc s' i = (if i = ?hd then desc else rx_desc s i)" for i by (simp add: s'_def m')
    have n': "rx_pending regs s' = ?n + 1"
      using False t rpos_facts(6) [of ?t ?hd] by (simp add: rx_pending_def s'_def rg)
    have pos: "rpos ?t ?hd = ?n" by (simp add: rx_pending_def)
    have at: "rpos ?t i < ?n + 1 \<longleftrightarrow> i = ?hd \<or> rpos ?t i < ?n" if "i < 32" for i
      using rpos_inj [OF t(1) that t(2)] pos by auto
    have "rx_wired base off regs s' = rx_wired base off regs s"
      by (rule rx_wired_cong) (simp_all add: d' desc(1), simp_all add: s'_def rg)
    then have w': "rx_wired base off regs s'" using inv by (simp add: rx_inv_def)
    have "rx_inv base off regs s'"
      using inv w' d' at desc p n' by (auto simp: rx_inv_def s'_def rg unat_u16)
    moreover have "rx_packet s' ?hd = p"
      using desc(2) p by (simp add: rx_packet_def s'_def m' unat_u16)
    moreover have "rx_packet s' i = rx_packet s i" if i: "i < 32" "rpos ?t i < ?n" for i
    proof -
      have ne: "i \<noteq> ?hd" using i pos by auto
      from rx_inv_disjoint [OF inv i(1) t(2) ne] rx_inv_length [OF inv i]
      show ?thesis using ne p by (auto simp: rx_packet_def s'_def m' intro!: read_write_disjoint)
    qed
    ultimately have "rx_inv base off regs s' \<and> rx_view regs s' = rx_view regs s @ [p]"
      using t rpos_facts(2) [OF t(1,2)] pos by (simp add: rx_view_def n') (auto simp: s'_def rpos_slot)
    moreover have "unat (regs h' RDH) = (?hd + 1) mod 32" unfolding rg fun_upd_same by (rule unat_slot)
    moreover have "(?hd + 1) mod 32 \<noteq> ?hd" using t(2) by (cases "?hd = 31") simp_all
    ultimately have "rx_inv base off regs s' \<and> rx_view regs s' = rx_view regs s @ [p]" "regs h' RDH \<noteq> regs (hw s) RDH"
      by auto
    then show ?thesis using False t(3) a by simp
  qed
qed

lemma poll_receive_law:
  assumes c: "nic_conforms nic base off regs" and inv: "rx_inv base off regs s"
  shows "\<exists>s'. poll_receive nic s = Some (s', case rx_view regs s of [] \<Rightarrow> None | x # _ \<Rightarrow> Some x) \<and>
    rx_inv base off regs s' \<and> rx_view regs s' = tl (rx_view regs s)"
proof -
  let ?t = "rx_index (drv s)" and ?hd = "unat (regs (hw s) RDH)" and ?n = "rx_pending regs s"
  have t: "?t < 32" "?hd < 32" "?n < 32" using inv by (auto simp: rx_inv_def rx_pending_def rpos_facts)
  have dd: "rd_status (rx_desc s ?t) AND RD_DD \<noteq> 0 \<longleftrightarrow> 0 < ?n"
    using inv t rpos_facts(3) [OF t(1) t(1)] by (simp add: rx_inv_def)
  show ?thesis
  proof (cases "?n = 0")
    case True
    with dd inv show ?thesis by (simp add: poll_receive_def Let_def DESC_SIZE_def rx_view_def)
  next
    case False
    define s' where "s' = s\<lparr>drv := (drv s)\<lparr>rx_index := (?t + 1) mod 32\<rparr>,
      mem := (mem s)\<lparr>rd_heap := (rd_heap (mem s))(rx_ring_virt (drv s) + 16 * ?t := (rx_desc s ?t)\<lparr>rd_status := 0\<rparr>)\<rparr>,
      hw := nic_write nic (base + unat RDT) (of_nat ?t) (hw s)\<rparr>"
    have p: "poll_receive nic s = Some (s', Some (rx_packet s ?t))"
      using dd False inv t(1)
      by (simp add: poll_receive_def Let_def DESC_SIZE_def array_simps rx_inv_def rx_wired_def s'_def rx_packet_def
          write_reg_def NUM_RX_DESCRIPTORS_def)
    have rg: "regs (hw s') = (regs (hw s))(RDT := of_nat ?t)"
      using c by (simp add: nic_conforms_def rx_regs_def s'_def)
    have d': "rx_desc s' i = (if i = ?t then (rx_desc s ?t)\<lparr>rd_status := 0\<rparr> else rx_desc s i)" for i
      by (simp add: s'_def)
    have n': "rx_pending regs s' = ?n - 1"
      using False t rpos_facts(3,4) [OF t(1,2)] by (simp add: rx_pending_def rg) (simp add: s'_def rx_pending_def)
    have at: "rpos ((?t + 1) mod 32) i < ?n - 1 \<longleftrightarrow> i \<noteq> ?t \<and> rpos ?t i < ?n" if "i < 32" for i
      using t rpos_facts(3,4) [OF t(1) that] False by auto
    have "((?t + 1) mod 32 + 31) mod 32 = ?t" using t(1) by (auto simp: mod_wrap)
    moreover have "rx_wired base off regs s' = rx_wired base off regs s"
      by (rule rx_wired_cong) (simp_all add: d' rg, simp_all add: s'_def)
    moreover have "rx_buffers_virt (drv s') = rx_buffers_virt (drv s)" "rx_index (drv s') = (?t + 1) mod 32"
      "u8_heap (mem s') = u8_heap (mem s)" by (simp_all add: s'_def)
    ultimately have "rx_inv base off regs s'"
      using inv d' at n' by (auto simp: rx_inv_def rg)
    moreover have "rx_packet s' i = rx_packet s i" for i
      using d' by (simp add: rx_packet_def) (simp add: s'_def)
    moreover have "((?t + 1) mod 32 + k) mod 32 = (?t + Suc k) mod 32" for k
      by (metis add.assoc mod_add_left_eq plus_1_eq_Suc)
    moreover have "rx_view regs s = rx_packet s ?t # map (\<lambda>k. rx_packet s ((?t + Suc k) mod 32)) [0..<?n - 1]"
    proof -
      obtain m where m: "?n = Suc m" using False by (cases ?n) auto
      show ?thesis
        unfolding rx_view_def m upt_conv_Cons [OF zero_less_Suc] map_Suc_upt [symmetric] using t(1) by (simp add: comp_def)
    qed
    ultimately show ?thesis using p n' by (simp add: rx_view_def) (simp add: s'_def)
  qed
qed

lemma e1000_rx_fifo:
  assumes "nic_conforms nic base off regs"
  shows "bounded_fifo (frame_arrives nic regs) (poll_receive nic) (\<lambda>p. length p \<le> 1518) (rx_inv base off regs) (rx_view regs) 31"
  by unfold_locales (use frame_arrives_law [OF assms] poll_receive_law [OF assms] in auto)

subsection \<open>The state after initialisation\<close>

lemma dma_page_boot:
  assumes "next_frame fa < length (usable_frames fa)"
  shows "dma_page allocate_frame off (fa, m) = (let p = usable_frames fa ! next_frame fa in
    Some (p, off + p, fa\<lparr>next_frame := next_frame fa + 1\<rparr>, zero_dma off {p ..< p + 4096} m))"
  using assms by (simp add: dma_page_def allocate_dma_frames_def allocate_frame_def Let_def)

lemma frames_apart:
  assumes "map_ok (memory_regions fa)" "i < length (usable_frames fa)" "j < length (usable_frames fa)" "i \<noteq> j"
  shows "usable_frames fa ! i + 4096 \<le> usable_frames fa ! j \<or> usable_frames fa ! j + 4096 \<le> usable_frames fa ! i"
proof -
  have "usable_frames fa ! i \<noteq> usable_frames fa ! j"
    using usable_frames_ok(1) [OF assms(1)] assms(2-4) by (simp add: nth_eq_iff_index_eq)
  moreover have "4096 dvd usable_frames fa ! i" "4096 dvd usable_frames fa ! j"
    using nth_mem [OF assms(2)] nth_mem [OF assms(3)] unfolding usable_frames_ok(2) [OF assms(1)]
    by (auto simp: region_frames_def)
  ultimately show ?thesis by (auto elim!: dvdE)
qed

lemma wire_buckets_boot:
  assumes "map_ok (memory_regions fa)" "i \<le> 32" "length (rx_buffers_virt d) = 32"
    "next_frame fa + (32 - i) \<le> length (usable_frames fa)"
    "r < next_frame fa" "rx_ring_virt d = off + usable_frames fa ! r"
  shows "\<exists>d' m'. wire_buckets allocate_frame off [i..<32] d fa m =
      Some (d', fa\<lparr>next_frame := next_frame fa + (32 - i)\<rparr>, m') \<and>
    d' = d\<lparr>rx_buffers_virt := rx_buffers_virt d'\<rparr> \<and> length (rx_buffers_virt d') = 32 \<and>
    (\<forall>j < i. rx_buffers_virt d' ! j = rx_buffers_virt d ! j \<and>
       rd_heap m' (rx_ring_virt d + 16 * j) = rd_heap m (rx_ring_virt d + 16 * j)) \<and>
    (\<forall>j. i \<le> j \<and> j < 32 \<longrightarrow> rx_buffers_virt d' ! j = off + usable_frames fa ! (next_frame fa + (j - i)) \<and>
       rd_buffer_addr (rd_heap m' (rx_ring_virt d + 16 * j)) = of_nat (usable_frames fa ! (next_frame fa + (j - i))) \<and>
       rd_status (rd_heap m' (rx_ring_virt d + 16 * j)) = 0)"
  using assms
proof (induction "32 - i" arbitrary: i d fa m)
  case 0
  then show ?case by (intro exI [of _ d] exI [of _ m]) auto
next
  case (Suc n)
  let ?k = "next_frame fa" and ?fs = "usable_frames fa"
  let ?fa = "fa\<lparr>next_frame := ?k + 1\<rparr>" and ?d = "d\<lparr>rx_buffers_virt := (rx_buffers_virt d)[i := off + ?fs ! ?k]\<rparr>"
  let ?z = "zero_dma off {?fs ! ?k ..< ?fs ! ?k + 4096} m" and ?a = "rx_ring_virt d + 16 * i"
  let ?m = "?z\<lparr>rd_heap := (rd_heap ?z)(?a := (rd_heap ?z ?a)\<lparr>rd_buffer_addr := of_nat (?fs ! ?k), rd_status := 0\<rparr>)\<rparr>"
  from Suc.prems Suc.hyps(2) have i: "i < 32" "?k < length ?fs" "n = 32 - Suc i" by auto
  have s: "wire_buckets allocate_frame off [i..<32] d fa m = wire_buckets allocate_frame off [Suc i..<32] ?d ?fa ?m"
    unfolding upt_conv_Cons [OF i(1)] using i Suc.prems(3)
    by (simp add: dma_page_boot wire_bucket_def array_simps Let_def DESC_SIZE_def)
  obtain d' m' where w: "wire_buckets allocate_frame off [Suc i..<32] ?d ?fa ?m =
      Some (d', ?fa\<lparr>next_frame := next_frame ?fa + (32 - Suc i)\<rparr>, m')"
    and d': "d' = ?d\<lparr>rx_buffers_virt := rx_buffers_virt d'\<rparr>" "length (rx_buffers_virt d') = 32"
    and lo: "\<forall>j < Suc i. rx_buffers_virt d' ! j = rx_buffers_virt ?d ! j \<and>
       rd_heap m' (rx_ring_virt ?d + 16 * j) = rd_heap ?m (rx_ring_virt ?d + 16 * j)"
    and hi: "\<forall>j. Suc i \<le> j \<and> j < 32 \<longrightarrow> rx_buffers_virt d' ! j = off + usable_frames ?fa ! (next_frame ?fa + (j - Suc i)) \<and>
       rd_buffer_addr (rd_heap m' (rx_ring_virt ?d + 16 * j)) = of_nat (usable_frames ?fa ! (next_frame ?fa + (j - Suc i))) \<and>
       rd_status (rd_heap m' (rx_ring_virt ?d + 16 * j)) = 0"
    using Suc.hyps(1) [of "Suc i" ?fa ?d ?m] Suc.prems i by force
  have z: "rd_heap ?z (rx_ring_virt d + 16 * j) = rd_heap m (rx_ring_virt d + 16 * j)" if "j < 32" for j
    using frames_apart [OF Suc.prems(1), of r ?k] Suc.prems(5,6) i that by (auto simp: zero_dma_def Let_def)
  have "rx_buffers_virt d' ! j = off + ?fs ! (?k + (j - i)) \<and>
       rd_buffer_addr (rd_heap m' (rx_ring_virt d + 16 * j)) = of_nat (?fs ! (?k + (j - i))) \<and>
       rd_status (rd_heap m' (rx_ring_virt d + 16 * j)) = 0" if j: "i \<le> j" "j < 32" for j
  proof (cases "j = i")
    case True
    then show ?thesis using lo i Suc.prems(3) by simp
  next
    case False
    with j have "Suc i \<le> j" "Suc ?k + (j - Suc i) = ?k + (j - i)" by simp_all
    then show ?thesis using hi j(2) by simp
  qed
  moreover have "rx_buffers_virt d' ! j = rx_buffers_virt d ! j \<and>
       rd_heap m' (rx_ring_virt d + 16 * j) = rd_heap m (rx_ring_virt d + 16 * j)" if "j < i" for j
    using lo z [of j] that i by simp
  moreover have "Suc ?k + (32 - Suc i) = ?k + (32 - i)" using i by simp
  moreover have "d' = d\<lparr>rx_buffers_virt := rx_buffers_virt d'\<rparr>" using d'(1) by simp
  ultimately show ?case unfolding s w using d'(2) by (intro exI [of _ d'] exI [of _ m']) simp
qed

lemma split64: "unat (ucast (w AND 0xFFFFFFFF) :: u32) + 2 ^ 32 * unat (ucast (drop_bit 32 w) :: u32) = unat (w :: u64)"
proof -
  have w: "unat w < 2 ^ 64" using unsigned_less [of w] by simp
  have "w AND 0xFFFFFFFF = take_bit 32 w" by (simp add: take_bit_eq_mask mask_eq_exp_minus_1)
  then have "unat (ucast (w AND 0xFFFFFFFF) :: u32) = unat w mod 2 ^ 32"
    by (simp add: unsigned_ucast_eq unsigned_take_bit_eq take_bit_nat_def)
  moreover have "unat (ucast (drop_bit 32 w) :: u32) = unat w div 2 ^ 32"
    using w by (simp add: unsigned_ucast_eq unsigned_take_bit_eq take_bit_nat_def unsigned_drop_bit_eq drop_bit_eq_div
        unat_div_distrib)
  ultimately show ?thesis by simp
qed

lemma rctl_enabled: "(rctl OR RCTL_EN OR x) AND RCTL_EN \<noteq> 0"
proof
  assume "(rctl OR RCTL_EN OR x) AND RCTL_EN = 0"
  then have "bit ((rctl OR RCTL_EN OR x) AND RCTL_EN) 1 = bit (0 :: u32) 1" by simp
  then show False by (simp add: RCTL_EN_def bit_simps)
qed

lemma conforms_regs:
  assumes "nic_conforms nic (mmio_base d) off regs"
  shows "r \<in> rx_regs \<Longrightarrow> regs (write_reg nic d r v h) = (regs h)(r := v)"
    "r \<in> tx_regs \<Longrightarrow> regs (write_reg nic d r v h) = regs h"
    "regs (snd (read_reg nic d r h)) = regs h"
  using assms by (simp_all add: nic_conforms_def write_reg_def read_reg_def)

lemma init_tx_regs:
  assumes "nic_conforms nic (mmio_base d) off regs"
  shows "regs (init_tx_ring nic p d h) = regs h"
  by (simp add: init_tx_ring_def Let_def case_prod_beta conforms_regs [OF assms] tx_regs_def)

lemma read_mac_frame:
  "\<exists>mac h'. read_mac_address nic d h = (d\<lparr>mac_address := mac\<rparr>, h') \<and> length mac = 6 \<and>
    (nic_conforms nic (mmio_base d) off regs \<longrightarrow> regs h' = regs h)"
proof -
  obtain l h1 where r1: "read_reg nic d RAL0 h = (l, h1)" by (rule prod.exhaust)
  obtain u h2 where r2: "read_reg nic d RAH0 h1 = (u, h2)" by (rule prod.exhaust)
  have "regs h2 = regs h" if "nic_conforms nic (mmio_base d) off regs"
    using conforms_regs(3) [OF that, of RAL0 h] conforms_regs(3) [OF that, of RAH0 h1] r1 r2 by simp
  with r1 r2 show ?thesis by (auto simp: read_mac_address_def)
qed

lemma init_rx_ring_ok:
  assumes c: "nic_conforms nic (mmio_base d) off regs" and fa: "map_ok (memory_regions fa)"
    and n: "next_frame fa + 32 \<le> length (usable_frames fa)" and f: "\<forall>f \<in> set (usable_frames fa). f < 2 ^ 64"
    and r: "r < next_frame fa" "rx_ring_virt d = off + usable_frames fa ! r"
    and d: "length (rx_buffers_virt d) = 32" "rx_index d = 0"
  shows "\<exists>bufs m' h'. init_rx_ring nic allocate_frame off (of_nat (usable_frames fa ! r)) d fa m h =
      Some (d\<lparr>rx_buffers_virt := bufs\<rparr>, fa\<lparr>next_frame := next_frame fa + 32\<rparr>, m', h') \<and>
    (let s = \<lparr>drv = d\<lparr>rx_buffers_virt := bufs\<rparr>, mem = m', hw = h'\<rparr>
     in rx_inv (mmio_base d) off regs s \<and> rx_pending regs s = 0)"
proof -
  let ?k = "next_frame fa" and ?fs = "usable_frames fa"
  have lt: "?fs ! j < 2 ^ 64" if "j < ?k + 32" for j using f n that by (meson nth_mem order_less_le_trans)
  then have u: "unat (of_nat (?fs ! j) :: u64) = ?fs ! j" if "j < ?k + 32" for j
    using that by (simp add: unat_of_nat take_bit_nat_def)
  obtain d' m' where w: "wire_buckets allocate_frame off [0..<32] d fa m = Some (d', fa\<lparr>next_frame := ?k + 32\<rparr>, m')"
    and d': "d' = d\<lparr>rx_buffers_virt := rx_buffers_virt d'\<rparr>" "length (rx_buffers_virt d') = 32"
    and b: "\<forall>j. 0 \<le> j \<and> j < 32 \<longrightarrow> rx_buffers_virt d' ! j = off + ?fs ! (?k + (j - 0)) \<and>
       rd_buffer_addr (rd_heap m' (rx_ring_virt d + 16 * j)) = of_nat (?fs ! (?k + (j - 0))) \<and>
       rd_status (rd_heap m' (rx_ring_virt d + 16 * j)) = 0"
    using wire_buckets_boot [OF fa _ d(1) _ r, of 0 m] n by auto
  define bufs where "bufs = rx_buffers_virt d'"
  have d'': "d' = d\<lparr>rx_buffers_virt := bufs\<rparr>" using d'(1) by (simp add: bufs_def)
  define h5 where "h5 = write_reg nic d RDT 31 (write_reg nic d RDH 0 (write_reg nic d RDLEN 512
    (write_reg nic d RDBAH (ucast (drop_bit 32 (of_nat (?fs ! r)) :: u64))
      (write_reg nic d RDBAL (ucast (of_nat (?fs ! r) AND 0xFFFFFFFF :: u64)) h))))"
  define h' where "h' = write_reg nic d' RCTL (fst (read_reg nic d' RCTL h5) OR RCTL_EN OR RCTL_BAM OR RCTL_SECRC OR
    RCTL_UPE OR RCTL_MPE) (snd (read_reg nic d' RCTL h5))"
  have i: "init_rx_ring nic allocate_frame off (of_nat (?fs ! r)) d fa m h =
      Some (d\<lparr>rx_buffers_virt := bufs\<rparr>, fa\<lparr>next_frame := ?k + 32\<rparr>, m', h')"
    using w by (simp add: init_rx_ring_def Let_def case_prod_beta NUM_RX_DESCRIPTORS_def DESC_SIZE_def h5_def h'_def d'')
  have c': "nic_conforms nic (mmio_base d') off regs" using c by (simp add: d'')
  have "regs h5 = (regs h)(RDBAL := ucast (of_nat (?fs ! r) AND 0xFFFFFFFF :: u64),
      RDBAH := ucast (drop_bit 32 (of_nat (?fs ! r)) :: u64), RDLEN := 512, RDH := 0, RDT := 31)"
    by (simp add: h5_def conforms_regs [OF c] rx_regs_def)
  then have rg: "\<exists>rctl x. regs h' = (regs h)(RDBAL := ucast (of_nat (?fs ! r) AND 0xFFFFFFFF :: u64),
      RDBAH := ucast (drop_bit 32 (of_nat (?fs ! r)) :: u64), RDLEN := 512, RDH := 0, RDT := 31,
      RCTL := rctl OR RCTL_EN OR x)"
    unfolding h'_def by (simp add: conforms_regs [OF c'] rx_regs_def) (metis or.assoc)
  let ?s = "\<lparr>drv = d\<lparr>rx_buffers_virt := bufs\<rparr>, mem = m', hw = h'\<rparr>"
  have "rx_buffers_virt d' ! i + 4096 \<le> rx_buffers_virt d' ! j \<or> rx_buffers_virt d' ! j + 4096 \<le> rx_buffers_virt d' ! i"
    if "i < 32" "j < 32" "i \<noteq> j" for i j
    using frames_apart [OF fa, of "?k + i" "?k + j"] n b that by auto
  moreover have "rx_ring_virt d = off + (unat (regs h' RDBAL) + 2 ^ 32 * unat (regs h' RDBAH))"
    using rg split64 [of "of_nat (?fs ! r)"] u [of r] r by auto
  moreover have "regs h' RDLEN = 512" "regs h' RCTL AND RCTL_EN \<noteq> 0" using rg rctl_enabled by auto
  moreover have "rx_buffers_virt d' ! i = off + unat (rd_buffer_addr (rd_heap m' (rx_ring_virt d + 16 * i)))"
    if "i < 32" for i using b u [of "?k + i"] that by simp
  ultimately have "rx_wired (mmio_base d) off regs ?s"
    unfolding rx_wired_def using d'(2) bufs_def by simp
  moreover have p: "rx_pending regs ?s = 0" using rg d(2) by (auto simp: rx_pending_def rpos_def)
  moreover have "rd_status (rx_desc ?s j) = 0" if "j < 32" for j using b that by simp
  ultimately have "rx_inv (mmio_base d) off regs ?s" using rg d(2) by (auto simp: rx_inv_def)
  with i p show ?thesis by (intro exI [of _ bufs] exI [of _ m'] exI [of _ h']) (simp add: Let_def)
qed

lemma E1000_new_ok:
  assumes c: "nic_conforms nic base off regs" and fa: "map_ok (memory_regions fa)"
    and n: "next_frame fa + 35 \<le> length (usable_frames fa)" and f: "\<forall>f \<in> set (usable_frames fa). f < 2 ^ 64"
  shows "\<exists>s. E1000Driver_new nic allocate_frame base off fa m h = Some (s, fa\<lparr>next_frame := next_frame fa + 35\<rparr>) \<and>
    tx_wired off (drv s) \<and> length (mac_address (drv s)) = 6 \<and> rx_inv base off regs s \<and> rx_view regs s = []"
proof -
  let ?k = "next_frame fa" and ?fs = "usable_frames fa"
  let ?z = "\<lambda>p. zero_dma off {p ..< p + 4096}"
  let ?m = "?z (?fs ! (?k + 2)) (?z (?fs ! (?k + 1)) (?z (?fs ! ?k) m))" and ?fa = "fa\<lparr>next_frame := ?k + 3\<rparr>"
  let ?d = "\<lparr>mmio_base = base, mac_address = replicate 6 0, tx_ring_virt = off + ?fs ! ?k,
       tx_buffer_virt = off + ?fs ! (?k + 1), tx_buffer_phys = of_nat (?fs ! (?k + 1)), tx_index = 0,
       rx_ring_virt = off + ?fs ! (?k + 2), rx_buffers_virt = replicate 32 0, rx_index = 0\<rparr>"
  obtain mac h1 where mac: "read_mac_address nic ?d h = (?d\<lparr>mac_address := mac\<rparr>, h1)" "length mac = 6"
    using read_mac_frame [of nic ?d h] by blast
  let ?d1 = "?d\<lparr>mac_address := mac\<rparr>"
  let ?h2 = "init_tx_ring nic (of_nat (?fs ! ?k)) ?d1 h1"
  obtain bufs m' h' where i: "init_rx_ring nic allocate_frame off (of_nat (?fs ! (?k + 2))) ?d1 ?fa ?m ?h2 =
      Some (?d1\<lparr>rx_buffers_virt := bufs\<rparr>, fa\<lparr>next_frame := ?k + 35\<rparr>, m', h')"
    and s: "rx_inv base off regs \<lparr>drv = ?d1\<lparr>rx_buffers_virt := bufs\<rparr>, mem = m', hw = h'\<rparr>"
      "rx_pending regs \<lparr>drv = ?d1\<lparr>rx_buffers_virt := bufs\<rparr>, mem = m', hw = h'\<rparr> = 0"
    using init_rx_ring_ok [of nic ?d1 off regs ?fa "?k + 2" ?m ?h2] c fa n f
    by (auto simp: Let_def add.commute [of "32 :: nat"])
  have "E1000Driver_new nic allocate_frame base off fa m h =
      Some (\<lparr>drv = ?d1\<lparr>rx_buffers_virt := bufs\<rparr>, mem = m', hw = h'\<rparr>, fa\<lparr>next_frame := ?k + 35\<rparr>)"
    unfolding E1000Driver_new_def NUM_RX_DESCRIPTORS_def using n mac i
    by (simp add: dma_page_boot Let_def numeral_2_eq_2 numeral_3_eq_3)
  moreover have "tx_wired off (?d1\<lparr>rx_buffers_virt := bufs\<rparr>)"
    using n f nth_mem [of "?k + 1" ?fs] by (simp add: tx_wired_def NUM_TX_DESCRIPTORS_def unat_of_nat take_bit_nat_def)
  ultimately show ?thesis using s mac(2) by (simp add: rx_view_def)
qed

text \<open>A controller that behaves as the data sheet says, used to show that the hypotheses can hold: its state is the
  receive register file.\<close>

definition ref_nic :: "nat \<Rightarrow> nat \<Rightarrow> (u32 \<Rightarrow> u32) Nic" where
  "ref_nic base off = \<lparr>nic_read = \<lambda>a rg. (rg (of_nat (a - base)), rg),
     nic_write = \<lambda>a v rg. if of_nat (a - base) \<in> rx_regs then rg(of_nat (a - base) := v) else rg,
     nic_frame_in = \<lambda>p (rg, m).
       if rg RCTL AND RCTL_EN = 0 \<or> rg RDH = rg RDT then (rg, m)
       else let a = ring_slot off rg; desc = (rd_heap m a)\<lparr>rd_length := of_nat (length p), rd_status := RD_DD\<rparr>
         in (rg(RDH := of_nat ((unat (rg RDH) + 1) mod (unat (rg RDLEN) div 16))),
             m\<lparr>rd_heap := (rd_heap m)(a := desc), u8_heap := write_bytes (off + unat (rd_buffer_addr desc)) p (u8_heap m)\<rparr>)\<rparr>"

lemma ref_nic_conforms: "nic_conforms (ref_nic base off) base off (\<lambda>rg. rg)"
proof -
  have tx: "r \<notin> rx_regs" if "r \<in> tx_regs" for r
    using that by (auto simp: tx_regs_def rx_regs_def TCTL_def TDBAL_def TDBAH_def TDLEN_def TDH_def TDT_def
        RCTL_def RDBAL_def RDBAH_def RDLEN_def RDH_def RDT_def)
  have "frame_stored off rg p m (m\<lparr>rd_heap := (rd_heap m)(ring_slot off rg := (rd_heap m (ring_slot off rg))
      \<lparr>rd_length := of_nat (length p), rd_status := RD_DD\<rparr>),
      u8_heap := write_bytes (off + unat (rd_buffer_addr (rd_heap m (ring_slot off rg)))) p (u8_heap m)\<rparr>)" for rg p m
    unfolding frame_stored_def
    by (intro exI [of _ "(rd_heap m (ring_slot off rg))\<lparr>rd_length := of_nat (length p), rd_status := RD_DD\<rparr>"])
       (simp add: Let_def RD_DD_def)
  then show ?thesis unfolding nic_conforms_def by (auto simp: ref_nic_def tx Let_def)
qed


definition one_region :: "MemoryRegion list" where
  "one_region = [\<lparr>rstart = 0x1000, rend = 0x1000 + 40 * 4096, rusable = True\<rparr>]"

lemma one_region_frames:
  "usable_frames (BootInfoFrameAllocator_init one_region) = map (\<lambda>i. 0x1000 + 4096 * i) [0..<40]"
proof -
  have "step_by_4096 0x1000 (0x1000 + 40 * 4096) = map (\<lambda>i. 0x1000 + 4096 * i) [0..<40]" by (simp add: step_by_4096_def)
  moreover have "containing_address (0x1000 + 4096 * i) = 0x1000 + 4096 * i" for i
    by (rule containing_aligned) (simp add: dvd_add)
  ultimately show ?thesis by (simp add: usable_frames_def BootInfoFrameAllocator_init_def one_region_def comp_def)
qed


end
