(* ===== verification/Rust_I32.thy ===== *)
theory Rust_I32
  imports Rust_Prelude "HOL-Library.Signed_Division"
begin

text \<open>
  Rust's \<open>i32\<close> as 32-bit words: addition, subtraction and multiplication wrap as in the release build;
  comparisons are signed and division truncates towards zero.
\<close>

type_synonym i32 = "32 word"

definition idiv :: "i32 \<Rightarrow> i32 \<Rightarrow> i32 option" where
  "idiv a b = (if b = 0 \<or> a = 0x80000000 \<and> b = - 1 then None else Some (word_of_int (sint a sdiv sint b)))"

text \<open>Division by a positive number, which cannot panic.\<close>

definition idivp :: "i32 \<Rightarrow> i32 \<Rightarrow> i32" where
  "idivp a b = word_of_int (sint a sdiv sint b)"

definition imax :: "i32 \<Rightarrow> i32 \<Rightarrow> i32" where "imax a b = (if a <s b then b else a)"
definition imin :: "i32 \<Rightarrow> i32 \<Rightarrow> i32" where "imin a b = (if b <s a then b else a)"
definition iabs :: "i32 \<Rightarrow> i32" where "iabs a = (if a <s 0 then - a else a)"

text \<open>The values of the range \<open>a..b\<close>.\<close>

definition irange :: "i32 \<Rightarrow> i32 \<Rightarrow> i32 list" where
  "irange a b = map word_of_int [sint a .. sint b - 1]"

lemma sint_range: "- 2147483648 \<le> sint (a :: i32)" "sint (a :: i32) < 2147483648"
  using sint_greater_eq [of a] sint_less [of a] by simp_all

lemma sint_of_int:
  assumes "- 2147483648 \<le> x" "x < 2147483648"
  shows "sint (word_of_int x :: i32) = x"
  using assms by (simp add: signed_of_int signed_take_bit_int_eq_self)

lemma sint_of_nat: "n < 2147483648 \<Longrightarrow> sint (of_nat n :: i32) = int n"
  using sint_of_int [of "int n"] by simp

lemma irange_member:
  assumes "x \<in> set (irange a b)"
  shows "sint a \<le> sint x" "sint x < sint b"
proof -
  from assms obtain k where k: "x = word_of_int k" "sint a \<le> k" "k \<le> sint b - 1" by (auto simp: irange_def)
  then have "- 2147483648 \<le> k" "k < 2147483648" using sint_range(1) [of a] sint_range(2) [of b] by linarith+
  then have "sint x = k" unfolding k(1) by (rule sint_of_int)
  with k show "sint a \<le> sint x" "sint x < sint b" by simp_all
qed

lemma sint_imax: "sint (imax a b) = max (sint a) (sint b)"
  by (simp add: imax_def word_sless_alt max_def)

lemma sint_imin: "sint (imin a b) = min (sint a) (sint b)"
  by (simp add: imin_def word_sless_alt min_def)

lemma unat_sint: "0 \<le> sint (a :: i32) \<Longrightarrow> int (unat a) = sint a"
proof -
  assume "0 \<le> sint a"
  then have "uint a = sint a" using sint_range(2) [of a] by (simp add: uint_sint take_bit_int_eq_self)
  then show ?thesis by simp
qed

lemma unat_nat_sint: "0 \<le> sint (a :: i32) \<Longrightarrow> unat a = nat (sint a)"
  using unat_sint [of a] by linarith

lemma sint_add: "- 2147483648 \<le> sint a + sint b \<Longrightarrow> sint a + sint b < 2147483648 \<Longrightarrow> sint (a + b :: i32) = sint a + sint b"
  using sint_of_int [of "sint a + sint b"] by simp

lemma filter_upto: "filter (\<lambda>k. lo \<le> k \<and> k < hi) [a..b] = [max a lo .. min b (hi - 1)]" for a b :: int
proof (induction a b rule: upto.induct)
  case (1 i j)
  show ?case
  proof (cases "i \<le> j")
    case True
    then have "filter (\<lambda>k. lo \<le> k \<and> k < hi) [i..j] =
        (if lo \<le> i \<and> i < hi then i # [max (i + 1) lo..min j (hi - 1)] else [max (i + 1) lo..min j (hi - 1)])"
      using 1 by (simp add: upto.simps [of i j])
    also have "\<dots> = [max i lo..min j (hi - 1)]"
    proof (cases "lo \<le> i \<and> i < hi")
      case in_range: True
      then have "[max i lo..min j (hi - 1)] = i # [i + 1..min j (hi - 1)]"
        using True by (subst upto.simps) auto
      with in_range show ?thesis by (simp add: max_def)
    next
      case False
      then consider "i < lo" | "hi \<le> i" "lo \<le> i" by linarith
      then show ?thesis
      proof cases
        case 1
        then have "max (i + 1) lo = max i lo" by simp
        then show ?thesis unfolding if_not_P [OF False] by simp
      next
        case 2
        then show ?thesis unfolding if_not_P [OF False] by simp
      qed
    qed
    finally show ?thesis .
  qed auto
qed

subsection \<open>Loops\<close>

text \<open>\<open>for x in xs \<open>{\<close> body \<open>}\<close>\<close>, with a body that may panic.\<close>

fun for_each :: "'a list \<Rightarrow> ('a \<Rightarrow> 's \<Rightarrow> 's option) \<Rightarrow> 's \<Rightarrow> 's option" where
  "for_each [] body s = Some s"
| "for_each (x # xs) body s = do { s' \<leftarrow> body x s; for_each xs body s' }"

lemma for_each_append: "for_each (xs @ ys) body s = do { s' \<leftarrow> for_each xs body s; for_each ys body s' }"
  by (induction xs arbitrary: s) (auto split: bind_split)

lemma for_each_cong [fundef_cong]:
  "xs = ys \<Longrightarrow> s = t \<Longrightarrow> (\<And>x u. x \<in> set ys \<Longrightarrow> f x u = g x u) \<Longrightarrow> for_each xs f s = for_each ys g t"
  by (induction xs arbitrary: ys s t) (auto split: bind_split)

lemma for_each_skip: "(\<And>x u. x \<in> set xs \<Longrightarrow> body x u = Some u) \<Longrightarrow> for_each xs body s = Some s"
  by (induction xs) auto

lemma for_each_inv:
  assumes "P s" "\<And>x u. x \<in> set xs \<Longrightarrow> P u \<Longrightarrow> \<exists>u'. body x u = Some u' \<and> P u'"
  shows "\<exists>s'. for_each xs body s = Some s' \<and> P s'"
  using assms
proof (induction xs arbitrary: s)
  case (Cons x xs)
  from Cons.prems(2) [of x s] Cons.prems(1) obtain u where "body x s = Some u" "P u" by auto
  with Cons.IH [of u] Cons.prems(2) show ?case by auto
qed simp

lemma for_each_filter:
  assumes "P s" "\<And>x u. x \<in> set xs \<Longrightarrow> \<not> Q x \<Longrightarrow> P u \<Longrightarrow> f x u = Some u"
    "\<And>x u u'. x \<in> set xs \<Longrightarrow> Q x \<Longrightarrow> P u \<Longrightarrow> f x u = Some u' \<Longrightarrow> P u'"
  shows "for_each xs f s = for_each (filter Q xs) f s"
  using assms
proof (induction xs arbitrary: s)
  case (Cons x xs)
  have IH: "for_each xs f u = for_each (filter Q xs) f u" if "P u" for u
    by (rule Cons.IH [OF that]) (blast intro: Cons.prems(2,3) list.set_intros(2))+
  show ?case
  proof (cases "Q x")
    case True
    then have "P u" if "f x s = Some u" for u using Cons.prems(1,3) that by (meson list.set_intros(1))
    with True IH show ?thesis by (auto split: bind_split)
  next
    case False
    then have "f x s = Some s" using Cons.prems(1,2) by simp
    with False IH [OF Cons.prems(1)] show ?thesis by simp
  qed
qed simp

lemma for_each_cong_inv:
  assumes "P s" "\<And>x u. x \<in> set xs \<Longrightarrow> P u \<Longrightarrow> f x u = g x u"
    "\<And>x u u'. x \<in> set xs \<Longrightarrow> P u \<Longrightarrow> g x u = Some u' \<Longrightarrow> P u'"
  shows "for_each xs f s = for_each xs g s"
  using assms
proof (induction xs arbitrary: s)
  case (Cons x xs)
  have IH: "for_each xs f u = for_each xs g u" if "P u" for u
    by (rule Cons.IH [OF that]) (blast intro: Cons.prems(2,3) list.set_intros(2))+
  have "f x s = g x s" using Cons.prems(1,2) by simp
  moreover have "P u" if "g x s = Some u" for u using Cons.prems(1,3) that by (meson list.set_intros(1))
  ultimately show ?case using IH by (auto split: bind_split)
qed simp

lemma irange_clamp:
  fixes a b hi :: i32
  assumes "0 \<le> sint hi"
  shows "filter (\<lambda>x. 0 \<le> sint x \<and> sint x < sint hi) (irange a b) = irange (imax 0 a) (imin b hi)"
proof -
  have "sint (word_of_int k :: i32) = k" if "k \<in> set [sint a .. sint b - 1]" for k
    using that sint_range(1) [of a] sint_range(2) [of b] by (intro sint_of_int) auto
  then have "filter (\<lambda>x. 0 \<le> sint x \<and> sint x < sint hi) (irange a b) =
      map word_of_int (filter (\<lambda>k. 0 \<le> k \<and> k < sint hi) [sint a .. sint b - 1])"
    unfolding irange_def filter_map comp_def by (intro arg_cong [of _ _ "map word_of_int"] filter_cong) auto
  also have "\<dots> = irange (imax 0 a) (imin b hi)"
    unfolding filter_upto irange_def sint_imax sint_imin by (simp add: max.commute min_def)
  finally show ?thesis .
qed

end
