(* ===== verification/Vga_Buffer.thy ===== *)
theory Vga_Buffer
  imports Rust_I32
begin

text \<open>
  The text screen, \<^verbatim>\<open>kernel/src/vga_buffer.rs\<close>: a writer that types into the last row of a buffer of 25 rows of 80
  cells and moves all rows up by one at the end of a line. An index out of the buffer panics (\<open>None\<close>).
\<close>

unbundle bit_operations_syntax

subsection \<open>The writer\<close>

datatype Color = Black | Blue | Green | Cyan | Red | Magenta | Brown | LightGray
  | DarkGray | LightBlue | LightGreen | LightCyan | LightRed | Pink | Yellow | White

fun color_u8 :: "Color \<Rightarrow> u8" where
  "color_u8 Black = 0" | "color_u8 Blue = 1" | "color_u8 Green = 2" | "color_u8 Cyan = 3"
| "color_u8 Red = 4" | "color_u8 Magenta = 5" | "color_u8 Brown = 6" | "color_u8 LightGray = 7"
| "color_u8 DarkGray = 8" | "color_u8 LightBlue = 9" | "color_u8 LightGreen = 10" | "color_u8 LightCyan = 11"
| "color_u8 LightRed = 12" | "color_u8 Pink = 13" | "color_u8 Yellow = 14" | "color_u8 White = 15"

type_synonym ColorCode = u8

definition ColorCode_new :: "Color \<Rightarrow> Color \<Rightarrow> ColorCode" where
  "ColorCode_new foreground background = push_bit 4 (color_u8 background) OR color_u8 foreground"

record ScreenChar =
  ascii_character :: u8
  char_color :: ColorCode

definition BUFFER_HEIGHT :: nat where "BUFFER_HEIGHT = 25"
definition BUFFER_WIDTH :: nat where "BUFFER_WIDTH = 80"

type_synonym Buffer = "ScreenChar list list"

record Writer =
  column_position :: nat
  color_code :: ColorCode
  chars :: Buffer

text \<open>\<open>chars[row][col].read()\<close> and \<open>chars[row][col].write(c)\<close>.\<close>

definition read_cell :: "nat \<Rightarrow> nat \<Rightarrow> Writer \<Rightarrow> ScreenChar option" where
  "read_cell row col w = (if row < length (chars w) \<and> col < length (chars w ! row) then Some (chars w ! row ! col) else None)"

definition write_cell :: "nat \<Rightarrow> nat \<Rightarrow> ScreenChar \<Rightarrow> Writer \<Rightarrow> Writer option" where
  "write_cell row col c w = (if row < length (chars w) \<and> col < length (chars w ! row)
     then Some (w\<lparr>chars := (chars w)[row := (chars w ! row)[col := c]]\<rparr>) else None)"

definition clear_row :: "nat \<Rightarrow> Writer \<Rightarrow> Writer option" where
  "clear_row row w = (let blank = \<lparr>ascii_character = 32, char_color = color_code w\<rparr>
     in for_each [0..<BUFFER_WIDTH] (\<lambda>col. write_cell row col blank) w)"

definition new_line :: "Writer \<Rightarrow> Writer option" where
  "new_line w = do {
     w \<leftarrow> for_each [1..<BUFFER_HEIGHT] (\<lambda>row. for_each [0..<BUFFER_WIDTH] (\<lambda>col w. do {
       character \<leftarrow> read_cell row col w;
       write_cell (row - 1) col character w })) w;
     w \<leftarrow> clear_row (BUFFER_HEIGHT - 1) w;
     Some (w\<lparr>column_position := 0\<rparr>) }"

definition write_byte :: "u8 \<Rightarrow> Writer \<Rightarrow> Writer option" where
  "write_byte byte w =
     (if byte = 10 then new_line w
      else do {
        w \<leftarrow> (if BUFFER_WIDTH \<le> column_position w then new_line w else Some w);
        let row = BUFFER_HEIGHT - 1;
        let col = column_position w;
        w \<leftarrow> write_cell row col \<lparr>ascii_character = byte, char_color = color_code w\<rparr> w;
        Some (w\<lparr>column_position := column_position w + 1\<rparr>) })"

text \<open>What is shown of a byte of a string.\<close>

definition printable :: "u8 \<Rightarrow> bool" where
  "printable byte \<longleftrightarrow> 0x20 \<le> byte \<and> byte \<le> 0x7e"

definition write_string :: "u8 list \<Rightarrow> Writer \<Rightarrow> Writer option" where
  "write_string s = for_each s (\<lambda>byte. if printable byte \<or> byte = 10 then write_byte byte else write_byte 0xfe)"

text \<open>\<open>_print\<close>: the pieces of the formatted text one after the other; writing a piece cannot fail.\<close>

definition vga_print :: "u8 list list \<Rightarrow> Writer \<Rightarrow> Writer option" where
  "vga_print pieces = for_each pieces write_string"

definition initial_writer :: "Buffer \<Rightarrow> Writer" where
  "initial_writer buf = \<lparr>column_position = 0, color_code = ColorCode_new Yellow Black, chars = buf\<rparr>"

subsection \<open>What the writer is to do\<close>

text \<open>A screen is its rows; the end of a line drops the first row and appends a blank one.\<close>

definition writer_ok :: "Writer \<Rightarrow> bool" where
  "writer_ok w \<longleftrightarrow> length (chars w) = 25 \<and> (\<forall>row \<in> set (chars w). length row = 80) \<and> column_position w \<le> 80"

definition blank_row :: "ColorCode \<Rightarrow> ScreenChar list" where
  "blank_row c = replicate 80 \<lparr>ascii_character = 32, char_color = c\<rparr>"

definition scroll :: "Writer \<Rightarrow> Writer" where
  "scroll w = w\<lparr>chars := tl (chars w) @ [blank_row (color_code w)], column_position := 0\<rparr>"

definition put :: "u8 \<Rightarrow> Writer \<Rightarrow> Writer" where
  "put b w = w\<lparr>chars := butlast (chars w) @ [(last (chars w))[column_position w := \<lparr>ascii_character = b, char_color = color_code w\<rparr>]],
     column_position := column_position w + 1\<rparr>"

definition type_byte :: "u8 \<Rightarrow> Writer \<Rightarrow> Writer" where
  "type_byte b w = (if b = 10 then scroll w else put b (if column_position w = 80 then scroll w else w))"

definition shown :: "u8 \<Rightarrow> u8" where
  "shown b = (if printable b \<or> b = 10 then b else 0xfe)"

subsection \<open>The loops\<close>

lemma fill_row:
  assumes "row < length (chars w)" "length (chars w ! row) = 80" "n \<le> 80"
  shows "for_each [0..<n] (\<lambda>col. write_cell row col c) w =
    Some (w\<lparr>chars := (chars w)[row := replicate n c @ drop n (chars w ! row)]\<rparr>)"
  using assms(3)
proof (induction n)
  case (Suc n)
  have "write_cell row n c (w\<lparr>chars := (chars w)[row := replicate n c @ drop n (chars w ! row)]\<rparr>) =
      Some (w\<lparr>chars := (chars w)[row := (replicate n c @ drop n (chars w ! row))[n := c]]\<rparr>)"
    using assms(1,2) Suc.prems by (simp add: write_cell_def)
  moreover have "(replicate n c @ drop n (chars w ! row))[n := c] = replicate (Suc n) c @ drop (Suc n) (chars w ! row)"
    using assms(2) Suc.prems by (simp add: list_update_append Cons_nth_drop_Suc [symmetric] replicate_append_same [symmetric])
  ultimately show ?case using Suc by (simp add: for_each_append)
qed simp

lemma copy_row:
  assumes "Suc row < length (chars w)" "length (chars w ! row) = 80" "length (chars w ! Suc row) = 80" "n \<le> 80"
  shows "for_each [0..<n] (\<lambda>col w. do { character \<leftarrow> read_cell (Suc row) col w; write_cell row col character w }) w =
    Some (w\<lparr>chars := (chars w)[row := take n (chars w ! Suc row) @ drop n (chars w ! row)]\<rparr>)"
  using assms(4)
proof (induction n)
  case (Suc n)
  let ?w = "w\<lparr>chars := (chars w)[row := take n (chars w ! Suc row) @ drop n (chars w ! row)]\<rparr>"
  have "read_cell (Suc row) n ?w = Some (chars w ! Suc row ! n)" using assms Suc.prems by (simp add: read_cell_def)
  moreover have "write_cell row n (chars w ! Suc row ! n) ?w =
      Some (w\<lparr>chars := (chars w)[row := (take n (chars w ! Suc row) @ drop n (chars w ! row))[n := chars w ! Suc row ! n]]\<rparr>)"
    using assms Suc.prems by (simp add: write_cell_def)
  moreover have "(take n (chars w ! Suc row) @ drop n (chars w ! row))[n := chars w ! Suc row ! n] =
      take (Suc n) (chars w ! Suc row) @ drop (Suc n) (chars w ! row)"
    using assms Suc.prems by (simp add: list_update_append Cons_nth_drop_Suc [symmetric] take_Suc_conv_app_nth)
  ultimately show ?case using Suc by (simp add: for_each_append)
qed simp

lemma copy_rows:
  assumes "length (chars w) = 25" "\<forall>row \<in> set (chars w). length row = 80" "n \<le> 24"
  shows "for_each [1..<Suc n] (\<lambda>row. for_each [0..<80] (\<lambda>col w. do {
      character \<leftarrow> read_cell row col w; write_cell (row - 1) col character w })) w =
    Some (w\<lparr>chars := take n (tl (chars w)) @ drop n (chars w)\<rparr>)"
  using assms(3)
proof (induction n)
  case (Suc n)
  let ?rows = "take n (tl (chars w)) @ drop n (chars w)"
  have n: "?rows ! n = chars w ! n" "?rows ! Suc n = chars w ! Suc n" "length ?rows = 25"
    using assms(1) Suc.prems by (simp_all add: nth_append)
  then have "length (?rows ! n) = 80" "length (?rows ! Suc n) = 80" using assms(1,2) Suc.prems by simp_all
  then have "for_each [0..<80] (\<lambda>col w. do { character \<leftarrow> read_cell (Suc n) col w; write_cell n col character w }) (w\<lparr>chars := ?rows\<rparr>) =
      Some (w\<lparr>chars := ?rows[n := chars w ! Suc n]\<rparr>)"
    using copy_row [of n "w\<lparr>chars := ?rows\<rparr>" 80] n assms Suc.prems by simp
  moreover have "?rows[n := chars w ! Suc n] = take (Suc n) (tl (chars w)) @ drop (Suc n) (chars w)"
    using assms(1) Suc.prems
    by (simp add: list_update_append Cons_nth_drop_Suc [symmetric] take_Suc_conv_app_nth nth_tl)
  ultimately show ?case using Suc by (simp add: for_each_append)
qed simp

lemma new_line_scrolls:
  assumes "writer_ok w"
  shows "new_line w = Some (scroll w)" "writer_ok (scroll w)"
proof -
  have w: "length (chars w) = 25" "\<forall>row \<in> set (chars w). length row = 80" using assms by (simp_all add: writer_ok_def)
  let ?rows = "take 24 (tl (chars w)) @ drop 24 (chars w)"
  have rows: "?rows = tl (chars w) @ drop 24 (chars w)" using w(1) by simp
  have last: "drop 24 (chars w) = [chars w ! 24]" using w(1) by (simp add: Cons_nth_drop_Suc [symmetric])
  have "length (chars w ! 24) = 80" using w by simp
  then have "clear_row 24 (w\<lparr>chars := ?rows\<rparr>) = Some (w\<lparr>chars := tl (chars w) @ [blank_row (color_code w)]\<rparr>)"
    unfolding clear_row_def Let_def BUFFER_WIDTH_def rows last
    using w(1) by (subst fill_row) (simp_all add: nth_append list_update_append blank_row_def)
  with copy_rows [OF w, of 24] show "new_line w = Some (scroll w)"
    by (simp add: new_line_def BUFFER_HEIGHT_def BUFFER_WIDTH_def scroll_def)
  show "writer_ok (scroll w)" using w by (cases "chars w") (auto simp: writer_ok_def scroll_def blank_row_def)
qed

lemma write_byte_types:
  assumes "writer_ok w"
  shows "write_byte b w = Some (type_byte b w)" "writer_ok (type_byte b w)"
proof -
  have cell: "write_cell 24 (column_position v) c v = Some (v\<lparr>chars := butlast (chars v) @ [(last (chars v))[column_position v := c]]\<rparr>)"
    if "writer_ok v" "column_position v < 80" for v c
  proof -
    have v: "length (chars v) = 25" "length (chars v ! 24) = 80" "chars v \<noteq> []" using that(1) by (auto simp: writer_ok_def)
    then have "chars v ! 24 = last (chars v)" by (simp add: last_conv_nth)
    moreover have "(chars v)[24 := x] = butlast (chars v) @ [x]" for x
      using v(1) by (cases "chars v" rule: rev_cases) (simp_all add: list_update_append)
    ultimately show ?thesis using v that(2) by (simp add: write_cell_def)
  qed
  have ok: "writer_ok (put b v)" if "writer_ok v" "column_position v < 80" for v
    using that by (cases "chars v" rule: rev_cases) (auto simp: writer_ok_def put_def)
  let ?v = "if column_position w = 80 then scroll w else w"
  have v: "writer_ok ?v" "column_position ?v < 80"
    using assms new_line_scrolls(2) [OF assms] by (auto simp: writer_ok_def scroll_def)
  have "(if 80 \<le> column_position w then new_line w else Some w) = Some ?v"
    using assms new_line_scrolls(1) [OF assms] by (auto simp: writer_ok_def)
  with cell [OF v] show "write_byte b w = Some (type_byte b w)"
    unfolding write_byte_def type_byte_def BUFFER_HEIGHT_def BUFFER_WIDTH_def
    by (simp add: new_line_scrolls(1) [OF assms] put_def Let_def del: if_split cong: if_cong)
  show "writer_ok (type_byte b w)"
    using ok [OF v] new_line_scrolls(2) [OF assms] by (simp add: type_byte_def)
qed

lemma write_string_types:
  assumes "writer_ok w"
  shows "write_string s w = Some (fold type_byte (map shown s) w) \<and> writer_ok (fold type_byte (map shown s) w)"
  using assms
proof (induction s arbitrary: w)
  case (Cons b s)
  have "(if printable b \<or> b = 10 then write_byte b else write_byte 0xfe) w = Some (type_byte (shown b) w)"
    using write_byte_types(1) [OF Cons.prems] by (simp add: shown_def)
  with Cons.IH [OF write_byte_types(2) [OF Cons.prems]] show ?case by (simp add: write_string_def)
qed (simp add: write_string_def)

lemma vga_print_types:
  assumes "writer_ok w"
  shows "vga_print pieces w = Some (fold type_byte (map shown (concat pieces)) w) \<and>
    writer_ok (fold type_byte (map shown (concat pieces)) w)"
  using assms
proof (induction pieces arbitrary: w)
  case (Cons s pieces)
  with write_string_types [OF Cons.prems, of s] show ?case by (simp add: vga_print_def)
qed (simp add: vga_print_def)

text \<open>Typing a line that fits into an empty last row.\<close>

lemma fold_put:
  assumes "writer_ok w" "column_position w + length s \<le> 80" "10 \<notin> set s"
  shows "fold type_byte s w = w\<lparr>column_position := column_position w + length s,
    chars := butlast (chars w) @ [take (column_position w) (last (chars w)) @
      map (\<lambda>b. \<lparr>ascii_character = b, char_color = color_code w\<rparr>) s @ drop (column_position w + length s) (last (chars w))]\<rparr>"
  using assms
proof (induction s arbitrary: w)
  case Nil
  then have "chars w \<noteq> []" by (auto simp: writer_ok_def)
  then show ?case by simp
next
  case (Cons b s)
  have w: "chars w \<noteq> []" "column_position w < 80" using Cons.prems by (auto simp: writer_ok_def)
  moreover from this have "length (last (chars w)) = 80" using Cons.prems by (simp add: writer_ok_def)
  ultimately have w: "chars w \<noteq> []" "length (last (chars w)) = 80" "column_position w < 80" by simp_all
  let ?x = "\<lparr>ascii_character = b, char_color = color_code w\<rparr>"
  have typed: "type_byte b w = put b w" using Cons.prems w by (simp add: type_byte_def)
  have "fold type_byte s (put b w) = (put b w)\<lparr>column_position := column_position (put b w) + length s,
    chars := butlast (chars (put b w)) @ [take (column_position (put b w)) (last (chars (put b w))) @
      map (\<lambda>b. \<lparr>ascii_character = b, char_color = color_code (put b w)\<rparr>) s @ drop (column_position (put b w) + length s) (last (chars (put b w)))]\<rparr>"
    using Cons.IH [of "put b w"] write_byte_types(2) [OF Cons.prems(1), of b] Cons.prems typed by (simp add: put_def)
  moreover have "take (Suc (column_position w)) ((last (chars w))[column_position w := ?x]) = take (column_position w) (last (chars w)) @ [?x]"
    using w by (simp add: take_Suc_conv_app_nth)
  moreover have "drop (Suc (column_position w + length s)) ((last (chars w))[column_position w := ?x]) =
      drop (Suc (column_position w + length s)) (last (chars w))" by simp
  ultimately show ?case unfolding fold_simps comp_apply typed by (simp add: put_def)
qed

subsection \<open>Properties\<close>

text \<open>C37. The screen is a scrolling terminal: from a buffer of 25 rows of 80 cells with the cursor on it, printing any pieces
  of text never leaves the buffer and has exactly the effect of typing their bytes one by one on a list of rows, where the end of
  a line, or a full row, drops the first row and appends a blank one, and bytes that cannot be shown appear as a box.\<close>

theorem vga_print_refines_scrolling:
  assumes "writer_ok w"
  shows "vga_print pieces w = Some (fold type_byte (map shown (concat pieces)) w) \<and>
    writer_ok (fold type_byte (map shown (concat pieces)) w)"
  using assms by (rule vga_print_types)

theorem vga_print_refines_scrolling_witness:
  "vga_print [[72, 105], [10]] (initial_writer (replicate 25 (blank_row 0))) =
    Some (fold type_byte (map shown (concat [[72, 105], [10]])) (initial_writer (replicate 25 (blank_row 0))))"
proof -
  have "writer_ok (initial_writer (replicate 25 (blank_row 0)))" by (simp add: writer_ok_def initial_writer_def blank_row_def)
  then show ?thesis using vga_print_refines_scrolling by blast
qed

text \<open>What is printed on a line of its own is shown: after a line feed, a printable text of at most 80 characters and a line feed,
  the row above the last has the text in the colour of the writer, filled up with blanks, the last row is blank, and the older
  rows are moved up by two.\<close>

theorem vga_println_shows_line:
  assumes "writer_ok w" "\<forall>b \<in> set s. printable b" "length s \<le> 80"
  shows "\<exists>w'. vga_print [[10], s, [10]] w = Some w' \<and>
    chars w' = drop 2 (chars w) @ [map (\<lambda>b. \<lparr>ascii_character = b, char_color = color_code w\<rparr>) s @
      replicate (80 - length s) \<lparr>ascii_character = 32, char_color = color_code w\<rparr>, blank_row (color_code w)]"
proof -
  have shown: "map shown s = s" using assms(2) by (simp add: shown_def map_idI)
  have "10 \<notin> set s" using assms(2) by (auto simp: printable_def)
  moreover have "writer_ok (scroll w)" using new_line_scrolls(2) [OF assms(1)] .
  ultimately have "fold type_byte s (scroll w) = (scroll w)\<lparr>column_position := length s,
      chars := tl (chars w) @ [map (\<lambda>b. \<lparr>ascii_character = b, char_color = color_code w\<rparr>) s @ drop (length s) (blank_row (color_code w))]\<rparr>"
    using fold_put [of "scroll w" s] assms(3) by (simp add: scroll_def)
  moreover have "drop (length s) (blank_row (color_code w)) = replicate (80 - length s) \<lparr>ascii_character = 32, char_color = color_code w\<rparr>"
    by (simp add: blank_row_def)
  moreover have "tl (chars w) \<noteq> []" using assms(1) by (cases "chars w") (auto simp: writer_ok_def)
  moreover have "tl (tl (chars w)) = drop 2 (chars w)" by (simp add: drop_Suc numeral_2_eq_2)
  moreover have "vga_print [[10], s, [10]] w = Some (type_byte 10 (fold type_byte s (type_byte 10 w)))"
    using vga_print_types [OF assms(1), of "[[10], s, [10]]"] shown by (simp add: shown_def)
  ultimately show ?thesis by (simp add: type_byte_def scroll_def)
qed

theorem vga_println_shows_line_witness:
  "\<exists>w'. vga_print [[10], [72, 105], [10]] (initial_writer (replicate 25 (blank_row 0))) = Some w' \<and>
    take 3 (chars w' ! 23) = [\<lparr>ascii_character = 72, char_color = 14\<rparr>, \<lparr>ascii_character = 105, char_color = 14\<rparr>,
      \<lparr>ascii_character = 32, char_color = 14\<rparr>]"
proof -
  let ?w = "initial_writer (replicate 25 (blank_row 0))"
  have "writer_ok ?w" "color_code ?w = 14" by (simp_all add: writer_ok_def initial_writer_def blank_row_def ColorCode_new_def)
  then obtain w' where w': "vga_print [[10], [72, 105], [10]] ?w = Some w'"
    "chars w' = drop 2 (chars ?w) @ [map (\<lambda>b. \<lparr>ascii_character = b, char_color = 14\<rparr>) [72, 105] @
      replicate (80 - length [72 :: u8, 105]) \<lparr>ascii_character = 32, char_color = 14\<rparr>, blank_row 14]"
    using vga_println_shows_line [of ?w "[72, 105]"] by (auto simp: printable_def)
  have "length (drop 2 (chars ?w)) = 23" by (simp add: initial_writer_def)
  then have "chars w' ! 23 = map (\<lambda>b. \<lparr>ascii_character = b, char_color = 14\<rparr>) [72, 105] @ replicate 78 \<lparr>ascii_character = 32, char_color = 14\<rparr>"
    unfolding w'(2) by (simp add: nth_append)
  then show ?thesis using w'(1) by simp
qed

end
