(* ===== verification/Virtqueue.thy ===== *)
theory Virtqueue
  imports Rust_Prelude
begin

text \<open>
  The split virtqueue of \<^verbatim>\<open>kernel/src/virtqueue.rs\<close> and the way the GPU driver uses it. The free
  descriptors are chained through their \<open>next\<close> fields from \<open>free_head\<close>; \<open>free_list\<close> abstracts the chain
  to the list of its indices.
\<close>

subsection \<open>The data structure\<close>

definition VIRTQ_DESC_F_NEXT :: u16 where "VIRTQ_DESC_F_NEXT = 1"
definition VIRTQ_DESC_F_WRITE :: u16 where "VIRTQ_DESC_F_WRITE = 2"

record VirtqDesc =
  vd_addr :: u64
  vd_len :: u32
  vd_flags :: u16
  vd_next :: u16

record VirtqAvail =
  av_flags :: u16
  av_idx :: u16
  av_ring :: "u16 list"
  used_event :: u16

record VirtqUsedElem =
  ue_id :: u32
  ue_len :: u32

record VirtqUsed =
  us_flags :: u16
  us_idx :: u16
  us_ring :: "VirtqUsedElem list"
  avail_event :: u16

record VirtQueue =
  descriptors :: "VirtqDesc list"
  available :: VirtqAvail
  used :: VirtqUsed
  free_head :: u16
  num_free :: u16
  last_used_idx :: u16

definition VirtQueue_empty :: VirtQueue where
  "VirtQueue_empty = \<lparr>descriptors = replicate 64 \<lparr>vd_addr = 0, vd_len = 0, vd_flags = 0, vd_next = 0\<rparr>,
     available = \<lparr>av_flags = 0, av_idx = 0, av_ring = replicate 64 0, used_event = 0\<rparr>,
     used = \<lparr>us_flags = 0, us_idx = 0, us_ring = replicate 64 \<lparr>ue_id = 0, ue_len = 0\<rparr>, avail_event = 0\<rparr>,
     free_head = 0, num_free = 64, last_used_idx = 0\<rparr>"

text \<open>\<open>for i in 0..63 \<open>{\<close> vq.descriptors[i].next = i + 1 \<open>}\<close>\<close>\<close>

fun chain_free :: "nat list \<Rightarrow> VirtQueue \<Rightarrow> VirtQueue option" where
  "chain_free [] vq = Some vq"
| "chain_free (i # is) vq = do {
     d \<leftarrow> aget (descriptors vq) i;
     ds \<leftarrow> aset (descriptors vq) i (d\<lparr>vd_next := of_nat i + 1\<rparr>);
     chain_free is (vq\<lparr>descriptors := ds\<rparr>) }"

definition VirtQueue_new :: "VirtQueue option" where
  "VirtQueue_new = chain_free [0..<63] VirtQueue_empty"

subsection \<open>Driver-side operations\<close>

text \<open>The driver fills its descriptors field by field: \<open>set_desc\<close> leaves \<open>next\<close> alone.\<close>

definition set_desc :: "VirtQueue \<Rightarrow> nat \<Rightarrow> u64 \<Rightarrow> u32 \<Rightarrow> u16 \<Rightarrow> VirtQueue option" where
  "set_desc vq i a l f = do {
     d \<leftarrow> aget (descriptors vq) i;
     ds \<leftarrow> aset (descriptors vq) i (d\<lparr>vd_addr := a, vd_len := l, vd_flags := f\<rparr>);
     Some (vq\<lparr>descriptors := ds\<rparr>) }"

definition set_next :: "VirtQueue \<Rightarrow> nat \<Rightarrow> u16 \<Rightarrow> VirtQueue option" where
  "set_next vq i n = do {
     d \<leftarrow> aget (descriptors vq) i;
     ds \<leftarrow> aset (descriptors vq) i (d\<lparr>vd_next := n\<rparr>);
     Some (vq\<lparr>descriptors := ds\<rparr>) }"

definition next_of :: "VirtQueue \<Rightarrow> nat \<Rightarrow> nat option" where
  "next_of vq i = do { d \<leftarrow> aget (descriptors vq) i; Some (unat (vd_next d)) }"

text \<open>Steps 3 and 4 of every blocking command: take two descriptors off the free list, describe command and
  reply, and put the head into the available ring.\<close>

definition load_pair :: "u64 \<Rightarrow> u32 \<Rightarrow> u64 \<Rightarrow> u32 \<Rightarrow> VirtQueue \<Rightarrow> (VirtQueue \<times> nat \<times> nat) option" where
  "load_pair cmd_phys cmd_len resp_phys resp_len vq = do {
     let head_idx = unat (free_head vq);
     next_idx \<leftarrow> next_of vq head_idx;
     dn \<leftarrow> aget (descriptors vq) next_idx;
     let vq = vq\<lparr>free_head := vd_next dn, num_free := num_free vq - 2\<rparr>;
     vq \<leftarrow> set_desc vq head_idx cmd_phys cmd_len VIRTQ_DESC_F_NEXT;
     vq \<leftarrow> set_next vq head_idx (of_nat next_idx);
     vq \<leftarrow> set_desc vq next_idx resp_phys resp_len VIRTQ_DESC_F_WRITE;
     Some (vq, head_idx, next_idx) }"

definition publish :: "nat \<Rightarrow> VirtQueue \<Rightarrow> VirtQueue option" where
  "publish head_idx vq = do {
     let avail_idx = unat (av_idx (available vq));
     rg \<leftarrow> aset (av_ring (available vq)) (avail_idx mod 64) (of_nat head_idx);
     Some (vq\<lparr>available := (available vq)\<lparr>av_ring := rg, av_idx := av_idx (available vq) + 1\<rparr>\<rparr>) }"

definition reclaim_pair :: "nat \<Rightarrow> nat \<Rightarrow> VirtQueue \<Rightarrow> VirtQueue option" where
  "reclaim_pair head_idx next_idx vq = do {
     vq \<leftarrow> set_next vq next_idx (free_head vq);
     Some (vq\<lparr>free_head := of_nat head_idx, num_free := num_free vq + 2\<rparr>) }"

subsection \<open>The free list\<close>

fun chain :: "VirtqDesc list \<Rightarrow> u16 \<Rightarrow> nat list \<Rightarrow> bool" where
  "chain ds h [] = True"
| "chain ds h (i # is) = (unat h = i \<and> i < length ds \<and> chain ds (vd_next (ds ! i)) is)"

definition vq_shape :: "VirtQueue \<Rightarrow> bool" where
  "vq_shape vq \<longleftrightarrow> length (descriptors vq) = 64 \<and> length (av_ring (available vq)) = 64"

definition free_list :: "VirtQueue \<Rightarrow> nat list \<Rightarrow> bool" where
  "free_list vq xs \<longleftrightarrow> vq_shape vq \<and> chain (descriptors vq) (free_head vq) xs \<and> distinct xs \<and>
     unat (num_free vq) = length xs"

lemma chain_bound: "chain ds h xs \<Longrightarrow> set xs \<subseteq> {..<length ds}"
  by (induction xs arbitrary: h) auto

lemma chain_update:
  "i \<notin> set xs \<Longrightarrow> chain (ds[i := d]) h xs = chain ds h xs"
  by (induction xs arbitrary: h) auto

lemma chain_same_next:
  "vd_next d = vd_next (ds ! i) \<Longrightarrow> i < length ds \<Longrightarrow> chain (ds[i := d]) h xs = chain ds h xs"
  by (induction xs arbitrary: h) (auto simp: nth_list_update)

lemma unat_idx [simp]: "i < 64 \<Longrightarrow> unat (of_nat i :: u16) = i"
  by (simp add: unat_of_nat take_bit_nat_def)

lemma set_desc_in [array_simps]:
  "i < length (descriptors vq) \<Longrightarrow> set_desc vq i a l f =
     Some (vq\<lparr>descriptors := (descriptors vq)[i := (descriptors vq ! i)\<lparr>vd_addr := a, vd_len := l, vd_flags := f\<rparr>]\<rparr>)"
  by (simp add: set_desc_def array_simps)

lemma set_next_in [array_simps]:
  "i < length (descriptors vq) \<Longrightarrow> set_next vq i n =
     Some (vq\<lparr>descriptors := (descriptors vq)[i := (descriptors vq ! i)\<lparr>vd_next := n\<rparr>]\<rparr>)"
  by (simp add: set_next_def array_simps)

lemma next_of_in [array_simps]:
  "i < length (descriptors vq) \<Longrightarrow> next_of vq i = Some (unat (vd_next (descriptors vq ! i)))"
  by (simp add: next_of_def array_simps)

lemma chain_free_nth:
  assumes "set is \<subseteq> {..<length (descriptors vq)}" "distinct is"
  shows "\<exists>ds. chain_free is vq = Some (vq\<lparr>descriptors := ds\<rparr>) \<and> length ds = length (descriptors vq) \<and>
    (\<forall>i < length ds. ds ! i = (if i \<in> set is then (descriptors vq ! i)\<lparr>vd_next := of_nat i + 1\<rparr> else descriptors vq ! i))"
  using assms
proof (induction "is" arbitrary: vq)
  case Nil
  then show ?case by (intro exI [of _ "descriptors vq"]) simp
next
  case (Cons i "is")
  let ?v = "vq\<lparr>descriptors := (descriptors vq)[i := (descriptors vq ! i)\<lparr>vd_next := of_nat i + 1\<rparr>]\<rparr>"
  from Cons.IH [of ?v] Cons.prems obtain ds where ds: "chain_free is ?v = Some (?v\<lparr>descriptors := ds\<rparr>)"
    "length ds = length (descriptors vq)"
    "\<forall>j < length ds. ds ! j = (if j \<in> set is then (descriptors ?v ! j)\<lparr>vd_next := of_nat j + 1\<rparr> else descriptors ?v ! j)"
    by auto
  with Cons.prems show ?case by (intro exI [of _ ds]) (auto simp: array_simps nth_list_update)
qed

lemma chain_upt:
  "n \<le> m \<Longrightarrow> m \<le> length ds \<Longrightarrow> m \<le> 64 \<Longrightarrow> (\<forall>i. n \<le> i \<and> Suc i < m \<longrightarrow> vd_next (ds ! i) = of_nat (Suc i)) \<Longrightarrow>
   chain ds (of_nat n) [n..<m]"
proof (induction "m - n" arbitrary: n)
  case (Suc k)
  then have n: "n < m" by simp
  show ?case
  proof (cases "Suc n = m")
    case True
    with n Suc.prems show ?thesis by (simp add: upt_conv_Cons)
  next
    case False
    with Suc.hyps(2) Suc.prems n have "chain ds (of_nat (Suc n)) [Suc n..<m]" by (intro Suc.hyps(1)) auto
    moreover have "vd_next (ds ! n) = of_nat (Suc n)" using Suc.prems n False by auto
    ultimately show ?thesis using n Suc.prems by (simp add: upt_conv_Cons)
  qed
qed simp

lemma VirtQueue_new_free:
  obtains vq where "VirtQueue_new = Some vq" "free_list vq [0..<64]" "last_used_idx vq = 0" "us_idx (used vq) = 0"
    "av_idx (available vq) = 0"
proof -
  have e: "length (descriptors VirtQueue_empty) = 64" by (simp add: VirtQueue_empty_def)
  then have "set [0..<63] \<subseteq> {..<length (descriptors VirtQueue_empty)}" by auto
  from chain_free_nth [OF this distinct_upt] e obtain ds where
    ds: "VirtQueue_new = Some (VirtQueue_empty\<lparr>descriptors := ds\<rparr>)" "length ds = 64"
      "\<forall>i < 63. vd_next (ds ! i) = of_nat i + 1"
    unfolding VirtQueue_new_def by auto
  have "chain ds (of_nat 0) [0..<64]" by (rule chain_upt) (use ds in auto)
  then have "free_list (VirtQueue_empty\<lparr>descriptors := ds\<rparr>) [0..<64]"
    using ds(2) by (simp add: free_list_def vq_shape_def VirtQueue_empty_def)
  then show ?thesis by (rule that [OF ds(1)]) (simp_all add: VirtQueue_empty_def)
qed

subsection \<open>What the operations do to the free list\<close>

lemma free_listD:
  assumes "free_list vq xs"
  shows "length (descriptors vq) = 64" "length (av_ring (available vq)) = 64" "distinct xs" "set xs \<subseteq> {..<64}"
    "chain (descriptors vq) (free_head vq) xs" "unat (num_free vq) = length xs"
  using assms chain_bound [of "descriptors vq" "free_head vq" xs] by (auto simp: free_list_def vq_shape_def)

lemma load_pair_ok:
  assumes f: "free_list vq (a # b # rest)"
  shows "\<exists>vq'. load_pair cp cl rp rl vq = Some (vq', a, b) \<and> free_list vq' rest \<and>
    descriptors vq' ! a = \<lparr>vd_addr = cp, vd_len = cl, vd_flags = VIRTQ_DESC_F_NEXT, vd_next = of_nat b\<rparr> \<and>
    vd_addr (descriptors vq' ! b) = rp \<and> vd_len (descriptors vq' ! b) = rl \<and>
    vd_flags (descriptors vq' ! b) = VIRTQ_DESC_F_WRITE \<and>
    (\<forall>i. i \<noteq> a \<and> i \<noteq> b \<longrightarrow> descriptors vq' ! i = descriptors vq ! i) \<and>
    available vq' = available vq \<and> used vq' = used vq \<and> last_used_idx vq' = last_used_idx vq"
proof -
  note d = free_listD [OF f]
  let ?ds = "descriptors vq"
  have ab: "a < 64" "b < 64" "a \<noteq> b" "unat (free_head vq) = a" "unat (vd_next (?ds ! a)) = b"
    "chain ?ds (vd_next (?ds ! b)) rest" "a \<notin> set rest" "b \<notin> set rest" "distinct rest"
    using d by auto
  let ?a = "(?ds ! a)\<lparr>vd_addr := cp, vd_len := cl, vd_flags := VIRTQ_DESC_F_NEXT, vd_next := of_nat b\<rparr>"
  let ?b = "(?ds ! b)\<lparr>vd_addr := rp, vd_len := rl, vd_flags := VIRTQ_DESC_F_WRITE\<rparr>"
  define vq' where "vq' = vq\<lparr>descriptors := ?ds[a := ?a, b := ?b], free_head := vd_next (?ds ! b), num_free := num_free vq - 2\<rparr>"
  have l: "load_pair cp cl rp rl vq = Some (vq', a, b)"
    using ab d(1) by (simp add: load_pair_def array_simps vq'_def)
  have "2 \<le> num_free vq" using d(6) by (simp add: word_le_nat_alt)
  then have "unat (num_free vq - 2) = length rest" using d(6) by (simp add: unat_sub)
  then have "free_list vq' rest"
    using ab d by (simp add: free_list_def vq_shape_def vq'_def chain_update)
  moreover have "descriptors vq' ! a = \<lparr>vd_addr = cp, vd_len = cl, vd_flags = VIRTQ_DESC_F_NEXT, vd_next = of_nat b\<rparr> \<and>
    vd_addr (descriptors vq' ! b) = rp \<and> vd_len (descriptors vq' ! b) = rl \<and>
    vd_flags (descriptors vq' ! b) = VIRTQ_DESC_F_WRITE \<and>
    (\<forall>i. i \<noteq> a \<and> i \<noteq> b \<longrightarrow> descriptors vq' ! i = descriptors vq ! i) \<and>
    available vq' = available vq \<and> used vq' = used vq \<and> last_used_idx vq' = last_used_idx vq"
    using ab d(1) by (simp add: vq'_def)
  ultimately show ?thesis using l by blast
qed

lemma publish_ok:
  assumes "vq_shape vq"
  shows "\<exists>rg. publish i vq = Some (vq\<lparr>available := (available vq)\<lparr>av_ring := rg, av_idx := av_idx (available vq) + 1\<rparr>\<rparr>) \<and>
    rg = (av_ring (available vq))[unat (av_idx (available vq)) mod 64 := of_nat i]"
  using assms by (simp add: publish_def vq_shape_def array_simps)

lemma free_list_frame:
  "descriptors vq' = descriptors vq \<Longrightarrow> free_head vq' = free_head vq \<Longrightarrow> num_free vq' = num_free vq \<Longrightarrow>
   length (av_ring (available vq')) = length (av_ring (available vq)) \<Longrightarrow> free_list vq' xs = free_list vq xs"
  by (simp add: free_list_def vq_shape_def)

lemma reclaim_pair_ok:
  assumes f: "free_list vq rest" and ab: "a < 64" "b < 64" "a \<noteq> b" "a \<notin> set rest" "b \<notin> set rest"
    and n: "vd_next (descriptors vq ! a) = of_nat b"
  shows "\<exists>vq'. reclaim_pair a b vq = Some vq' \<and> free_list vq' (a # b # rest) \<and>
    vq' = vq\<lparr>descriptors := descriptors vq', free_head := of_nat a, num_free := num_free vq + 2\<rparr>"
proof -
  note d = free_listD [OF f]
  let ?ds = "(descriptors vq)[b := (descriptors vq ! b)\<lparr>vd_next := free_head vq\<rparr>]"
  let ?v = "vq\<lparr>descriptors := ?ds, free_head := of_nat a, num_free := num_free vq + 2\<rparr>"
  have "distinct (a # b # rest)" "set (a # b # rest) \<subseteq> {..<64}" using d ab by auto
  then have "length (a # b # rest) \<le> 64" by (metis card_lessThan card_mono distinct_card finite_lessThan)
  then have "unat (num_free vq + 2) = length rest + 2" using d(6) by (simp add: unat_word_ariths)
  then have "free_list ?v (a # b # rest)"
    using d ab n by (simp add: free_list_def vq_shape_def chain_update)
  moreover have "reclaim_pair a b vq = Some ?v" using ab d(1) by (simp add: reclaim_pair_def array_simps)
  ultimately show ?thesis by (intro exI [of _ ?v]) simp
qed

end
