(* ===== verification/Virtio_Net.thy ===== *)
theory Virtio_Net
  imports Virtqueue E1000
begin

text \<open>
  The VirtIO network driver, \<^verbatim>\<open>kernel/src/virtio_net.rs\<close>. It is not part of the build yet: no module declaration includes the file.
  The driver shares two virtqueues and byte memory with the device, kept as separate stores; what the device does when a doorbell is
  rung is a parameter. The checksum routine is textually that of \<^verbatim>\<open>e1000.rs\<close>.
\<close>

subsection \<open>State\<close>

record VirtioNetDriver =
  net_mmio_base :: nat
  net_mac_address :: bytes
  rx_queue_virt :: "nat option"
  rx_notify_addr :: "nat option"
  tx_queue_virt :: "nat option"
  tx_notify_addr :: "nat option"
  rx_last_used :: u16

definition VirtioNetDriver_new :: "nat \<Rightarrow> VirtioNetDriver" where
  "VirtioNetDriver_new base = \<lparr>net_mmio_base = base, net_mac_address = replicate 6 0, rx_queue_virt = None, rx_notify_addr = None,
     tx_queue_virt = None, tx_notify_addr = None, rx_last_used = 0\<rparr>"

record net_mem =
  nq_heap :: "nat \<Rightarrow> VirtQueue"
  ram :: "nat \<Rightarrow> u8"

record 'd NetDevice =
  nd_notify :: "nat \<Rightarrow> u16 \<Rightarrow> 'd \<times> net_mem \<Rightarrow> 'd \<times> net_mem"

record 'd net_state =
  ndrv :: VirtioNetDriver
  nmem :: net_mem
  ndev :: 'd

text \<open>The size of \<open>VirtioNetHeader\<close>: two bytes and five half-words.\<close>

definition NET_HEADER_SIZE :: nat where "NET_HEADER_SIZE = 12"

definition put_nq :: "nat \<Rightarrow> VirtQueue \<Rightarrow> 'd net_state \<Rightarrow> 'd net_state" where
  "put_nq q vq s = s\<lparr>nmem := (nmem s)\<lparr>nq_heap := (nq_heap (nmem s))(q := vq)\<rparr>\<rparr>"

definition net_doorbell :: "'d NetDevice \<Rightarrow> nat option \<Rightarrow> u16 \<Rightarrow> 'd net_state \<Rightarrow> 'd net_state" where
  "net_doorbell nd addr queue s = (case addr of
       None \<Rightarrow> s
     | Some n \<Rightarrow> (let (d, m) = nd_notify nd n queue (ndev s, nmem s) in s\<lparr>ndev := d, nmem := m\<rparr>))"

subsection \<open>Sending and receiving\<close>

definition NET_TX_PHYS :: nat where "NET_TX_PHYS = 0x3000000"
definition NET_TX_VIRT :: nat where "NET_TX_VIRT = NET_TX_PHYS + 0xFFFF800000000000"

definition net_transmit_packet :: "'d NetDevice \<Rightarrow> bytes \<Rightarrow> 'd net_state \<Rightarrow> 'd net_state option" where
  "net_transmit_packet nd payload s = do {
     q \<leftarrow> tx_queue_virt (ndrv s);
     let vq = nq_heap (nmem s) q;
     if num_free vq = 0 then Some s
     else do {
       let s = s\<lparr>nmem := (nmem s)\<lparr>ram := write_bytes NET_TX_VIRT (replicate NET_HEADER_SIZE 0) (ram (nmem s))\<rparr>\<rparr>;
       let s = s\<lparr>nmem := (nmem s)\<lparr>ram := write_bytes (NET_TX_VIRT + NET_HEADER_SIZE) payload (ram (nmem s))\<rparr>\<rparr>;
       let total_len = NET_HEADER_SIZE + length payload;
       let head_idx = unat (free_head vq);
       desc \<leftarrow> aget (descriptors vq) head_idx;
       let vq = vq\<lparr>free_head := vd_next desc, num_free := num_free vq - 1\<rparr>;
       vq \<leftarrow> set_desc vq head_idx (of_nat NET_TX_PHYS) (of_nat total_len) 0;
       vq \<leftarrow> publish head_idx vq;
       let s = net_doorbell nd (tx_notify_addr (ndrv s)) 1 (put_nq q vq s);
       let vq = nq_heap (nmem s) q;
       vq \<leftarrow> set_next vq head_idx (free_head vq);
       Some (put_nq q (vq\<lparr>free_head := of_nat head_idx, num_free := num_free vq + 1\<rparr>) s) } }"

text \<open>The slice that is returned, as its address and length: it refers to the buffer, which the caller reads later.\<close>

definition net_poll_receive :: "'d NetDevice \<Rightarrow> 'd net_state \<Rightarrow> ((nat \<times> nat) option \<times> 'd net_state) option" where
  "net_poll_receive nd s = (case rx_queue_virt (ndrv s) of
       None \<Rightarrow> Some (None, s)
     | Some q \<Rightarrow> (let vq = nq_heap (nmem s) q; last_used = rx_last_used (ndrv s) in
         if last_used \<noteq> us_idx (used vq) then do {
           used_elem \<leftarrow> aget (us_ring (used vq)) (unat (last_used mod 64));
           let desc_idx = unat (ue_id used_elem);
           let len = unat (ue_len used_elem);
           let s = s\<lparr>ndrv := (ndrv s)\<lparr>rx_last_used := last_used + 1\<rparr>\<rparr>;
           desc \<leftarrow> aget (descriptors vq) desc_idx;
           let buf_virt = vd_addr desc + 0xFFFF800000000000;
           let packet_len = len - NET_HEADER_SIZE;
           let packet_data = (unat (buf_virt + of_nat NET_HEADER_SIZE), packet_len);
           vq \<leftarrow> publish desc_idx vq;
           Some (Some packet_data, net_doorbell nd (rx_notify_addr (ndrv s)) 0 (put_nq q vq s)) }
         else Some (None, s)))"

subsection \<open>Packets\<close>

definition net_ping_payload :: bytes where
  "net_ping_payload = map of_char ''PolymorphOS VirtIO Ping!''"

definition net_ping_packet :: "bytes \<Rightarrow> bytes \<Rightarrow> bytes \<Rightarrow> bytes \<Rightarrow> bytes option" where
  "net_ping_packet mac dest_mac dest_ip source_ip = do {
     let payload = net_ping_payload;
     let packet_size = 42 + length payload;
     let packet = replicate packet_size 0;
     packet \<leftarrow> copy_range packet 0 6 dest_mac;
     packet \<leftarrow> copy_range packet 6 12 mac;
     packet \<leftarrow> aset packet 12 0x08; packet \<leftarrow> aset packet 13 0x00;
     packet \<leftarrow> aset packet 14 0x45; packet \<leftarrow> aset packet 15 0x00;
     let ip_len = (of_nat (20 + 8 + length payload) :: u16);
     packet \<leftarrow> aset packet 16 (ucast (drop_bit 8 ip_len)); packet \<leftarrow> aset packet 17 (ucast (ip_len AND 0xFF));
     packet \<leftarrow> aset packet 18 0x12; packet \<leftarrow> aset packet 19 0x34;
     packet \<leftarrow> aset packet 20 0x40; packet \<leftarrow> aset packet 21 0x00;
     packet \<leftarrow> aset packet 22 0x40;
     packet \<leftarrow> aset packet 23 0x01;
     packet \<leftarrow> copy_range packet 26 30 source_ip;
     packet \<leftarrow> copy_range packet 30 34 dest_ip;
     packet \<leftarrow> aset packet 24 0; packet \<leftarrow> aset packet 25 0;
     header \<leftarrow> slice packet 14 34;
     let ip_csum = calculate_checksum header;
     packet \<leftarrow> aset packet 24 (ucast (drop_bit 8 ip_csum)); packet \<leftarrow> aset packet 25 (ucast (ip_csum AND 0xFF));
     packet \<leftarrow> aset packet 34 0x08; packet \<leftarrow> aset packet 35 0x00;
     packet \<leftarrow> aset packet 38 0x00; packet \<leftarrow> aset packet 39 0x01;
     packet \<leftarrow> aset packet 40 0x00; packet \<leftarrow> aset packet 41 0x01;
     packet \<leftarrow> copy_range packet 42 (42 + length payload) payload;
     packet \<leftarrow> aset packet 36 0; packet \<leftarrow> aset packet 37 0;
     icmp \<leftarrow> slice packet 34 packet_size;
     let icmp_csum = calculate_checksum icmp;
     packet \<leftarrow> aset packet 36 (ucast (drop_bit 8 icmp_csum)); packet \<leftarrow> aset packet 37 (ucast (icmp_csum AND 0xFF));
     Some packet }"

definition net_send_ping :: "'d NetDevice \<Rightarrow> bytes \<Rightarrow> bytes \<Rightarrow> bytes \<Rightarrow> 'd net_state \<Rightarrow> 'd net_state option" where
  "net_send_ping nd dest_mac dest_ip source_ip s = do {
     packet \<leftarrow> net_ping_packet (net_mac_address (ndrv s)) dest_mac dest_ip source_ip;
     net_transmit_packet nd packet s }"

definition net_arp_packet :: "bytes \<Rightarrow> bytes \<Rightarrow> bytes \<Rightarrow> bytes option" where
  "net_arp_packet mac target_ip source_ip = do {
     let packet = replicate 42 0;
     packet \<leftarrow> copy_range packet 0 6 (replicate 6 0xFF);
     packet \<leftarrow> copy_range packet 6 12 mac;
     packet \<leftarrow> aset packet 12 0x08; packet \<leftarrow> aset packet 13 0x06;
     packet \<leftarrow> aset packet 14 0x00; packet \<leftarrow> aset packet 15 0x01;
     packet \<leftarrow> aset packet 16 0x08; packet \<leftarrow> aset packet 17 0x00;
     packet \<leftarrow> aset packet 18 0x06; packet \<leftarrow> aset packet 19 0x04;
     packet \<leftarrow> aset packet 20 0x00; packet \<leftarrow> aset packet 21 0x01;
     packet \<leftarrow> copy_range packet 22 28 mac;
     packet \<leftarrow> copy_range packet 28 32 source_ip;
     packet \<leftarrow> copy_range packet 32 38 (replicate 6 0x00);
     packet \<leftarrow> copy_range packet 38 42 target_ip;
     Some packet }"

definition net_send_arp_request :: "'d NetDevice \<Rightarrow> bytes \<Rightarrow> bytes \<Rightarrow> 'd net_state \<Rightarrow> 'd net_state option" where
  "net_send_arp_request nd target_ip source_ip s = do {
     packet \<leftarrow> net_arp_packet (net_mac_address (ndrv s)) target_ip source_ip;
     net_transmit_packet nd packet s }"

subsection \<open>The packets built\<close>

definition net_ip_header0 :: "bytes \<Rightarrow> bytes \<Rightarrow> bytes" where
  "net_ip_header0 source_ip dest_ip = [0x45, 0, 0, 52, 0x12, 0x34, 0x40, 0, 0x40, 1, 0, 0] @ source_ip @ dest_ip"

definition net_icmp_echo0 :: bytes where
  "net_icmp_echo0 = [8, 0, 0, 0, 0, 1, 0, 1] @ net_ping_payload"

lemma net_ping_payload_eval:
  "net_ping_payload = [80, 111, 108, 121, 109, 111, 114, 112, 104, 79, 83, 32, 86, 105, 114, 116, 73, 79, 32, 80, 105, 110, 103, 33]"
  by (simp add: net_ping_payload_def)

lemma net_ping_packet_eq:
  assumes "length mac = 6" "length dest_mac = 6" "length dest_ip = 4" "length source_ip = 4"
  shows "net_ping_packet mac dest_mac dest_ip source_ip = Some (dest_mac @ mac @ [0x08, 0x00] @
    put_be16 10 (calculate_checksum (net_ip_header0 source_ip dest_ip)) (net_ip_header0 source_ip dest_ip) @
    put_be16 2 (calculate_checksum net_icmp_echo0) net_icmp_echo0)"
proof -
  from list6 [OF assms(1)] list6 [OF assms(2)] obtain m0 m1 m2 m3 m4 m5 d0 d1 d2 d3 d4 d5
    where "mac = [m0, m1, m2, m3, m4, m5]" "dest_mac = [d0, d1, d2, d3, d4, d5]" by blast
  moreover from list4 [OF assms(3)] list4 [OF assms(4)] obtain p0 p1 p2 p3 q0 q1 q2 q3
    where "dest_ip = [p0, p1, p2, p3]" "source_ip = [q0, q1, q2, q3]" by blast
  ultimately show ?thesis
    unfolding net_ping_packet_def
    by (simp add: packet_simps net_ping_payload_eval net_ip_header0_def net_icmp_echo0_def put_be16_def Let_def)
qed

text \<open>The request is the one of the other driver.\<close>

lemma net_arp_packet_eq: "net_arp_packet mac target_ip source_ip = arp_packet mac target_ip source_ip"
  unfolding net_arp_packet_def arp_packet_def ..

subsection \<open>Transmitting\<close>

text \<open>A device that looks at the memory only after the doorbell has returned.\<close>

definition deferred :: "'d NetDevice \<Rightarrow> bool" where
  "deferred nd \<longleftrightarrow> (\<forall>n queue d m. snd (nd_notify nd n queue (d, m)) = m)"

lemma deferred_doorbell:
  assumes "deferred nd"
  obtains d where "net_doorbell nd addr queue s = s\<lparr>ndev := d\<rparr>"
proof (cases addr)
  case (Some n)
  have "snd (nd_notify nd n queue (ndev s, nmem s)) = nmem s" using assms by (simp add: deferred_def)
  then have "net_doorbell nd addr queue s = s\<lparr>ndev := fst (nd_notify nd n queue (ndev s, nmem s))\<rparr>"
    by (simp add: net_doorbell_def Some case_prod_beta)
  then show ?thesis by (rule that)
qed (use that [of "ndev s"] in \<open>simp add: net_doorbell_def\<close>)

definition posted :: "nat \<Rightarrow> bytes \<Rightarrow> VirtQueue \<Rightarrow> VirtQueue" where
  "posted h payload vq = vq\<lparr>
     descriptors := (descriptors vq)[h := (descriptors vq ! h)\<lparr>vd_addr := 0x3000000, vd_len := of_nat (12 + length payload), vd_flags := 0\<rparr>],
     available := (available vq)\<lparr>av_ring := (av_ring (available vq))[unat (av_idx (available vq)) mod 64 := of_nat h],
       av_idx := av_idx (available vq) + 1\<rparr>\<rparr>"

lemma posted_free_list:
  assumes "free_list vq (h # rest)"
  shows "free_list (posted h payload vq) (h # rest)"
proof -
  note d = free_listD [OF assms]
  have "h < length (descriptors vq)" using d(1,4) by simp
  then show ?thesis using assms unfolding free_list_def posted_def vq_shape_def by (simp add: chain_same_next del: chain.simps)
qed

lemma net_transmit_deferred:
  assumes "deferred nd" "tx_queue_virt (ndrv s) = Some q" "free_list (nq_heap (nmem s) q) (h # rest)"
  shows "\<exists>d. net_transmit_packet nd payload s = Some (s\<lparr>ndev := d, nmem := \<lparr>nq_heap = (nq_heap (nmem s))(q := posted h payload (nq_heap (nmem s) q)),
    ram = write_bytes NET_TX_VIRT (replicate 12 0 @ payload) (ram (nmem s))\<rparr>\<rparr>)"
proof -
  let ?vq = "nq_heap (nmem s) q"
  note f = free_listD [OF assms(3)]
  have h: "unat (free_head ?vq) = h" "h < 64" "num_free ?vq \<noteq> 0" using f by auto
  have fh: "free_head ?vq = of_nat h" unfolding h(1) [symmetric] by simp
  define ds where "ds = (descriptors ?vq)[h := (descriptors ?vq ! h)\<lparr>vd_addr := 0x3000000, vd_len := of_nat (12 + length payload), vd_flags := 0\<rparr>]"
  define v1 where "v1 = ?vq\<lparr>free_head := vd_next (descriptors ?vq ! h), num_free := num_free ?vq - 1, descriptors := ds,
     available := (available ?vq)\<lparr>av_ring := (av_ring (available ?vq))[unat (av_idx (available ?vq)) mod 64 := of_nat h],
       av_idx := av_idx (available ?vq) + 1\<rparr>\<rparr>"
  define m where "m = (nmem s)\<lparr>ram := write_bytes NET_TX_VIRT (replicate 12 0 @ payload) (ram (nmem s))\<rparr>"
  obtain d where d: "net_doorbell nd (tx_notify_addr (ndrv s)) 1 (put_nq q v1 (s\<lparr>nmem := m\<rparr>)) = (put_nq q v1 (s\<lparr>nmem := m\<rparr>))\<lparr>ndev := d\<rparr>"
    by (rule deferred_doorbell [OF assms(1)])
  have len: "length ds = 64" "vd_next (ds ! h) = vd_next (descriptors ?vq ! h)" using f(1) h(2) by (simp_all add: ds_def)
  have res: "v1\<lparr>descriptors := ds[h := (ds ! h)\<lparr>vd_next := vd_next (descriptors ?vq ! h)\<rparr>], free_head := of_nat h, num_free := num_free v1 + 1\<rparr> =
      posted h payload ?vq"
  proof -
    have "(ds ! h)\<lparr>vd_next := vd_next (descriptors ?vq ! h)\<rparr> = ds ! h" unfolding len(2) [symmetric] by simp
    then have same: "ds[h := (ds ! h)\<lparr>vd_next := vd_next (descriptors ?vq ! h)\<rparr>] = ds" by simp
    show ?thesis unfolding same by (rule VirtQueue.equality) (simp_all add: v1_def posted_def ds_def fh)
  qed
  have "net_transmit_packet nd payload s = Some (put_nq q (posted h payload ?vq) ((put_nq q v1 (s\<lparr>nmem := m\<rparr>))\<lparr>ndev := d\<rparr>))"
  proof -
    have w: "write_bytes (NET_TX_VIRT + 12) payload (write_bytes NET_TX_VIRT (replicate 12 0) r) = write_bytes NET_TX_VIRT (replicate 12 0 @ payload) r" for r
      using write_bytes_append [of NET_TX_VIRT "replicate 12 0" payload r] by simp
    have p: "publish h (?vq\<lparr>free_head := vd_next (descriptors ?vq ! h), num_free := num_free ?vq - 1, descriptors := ds\<rparr>) = Some v1"
      using f(2) by (simp add: publish_def array_simps v1_def)
    have n: "nq_heap (nmem ((put_nq q v1 (s\<lparr>nmem := m\<rparr>))\<lparr>ndev := d\<rparr>)) q = v1" by (simp add: put_nq_def)
    have x: "set_next v1 h (free_head v1) = Some (v1\<lparr>descriptors := ds[h := (ds ! h)\<lparr>vd_next := vd_next (descriptors ?vq ! h)\<rparr>]\<rparr>)"
      using len(1) h(2) by (simp add: v1_def array_simps)
    have e: "v1\<lparr>descriptors := ds[h := (ds ! h)\<lparr>vd_next := vd_next (descriptors ?vq ! h)\<rparr>], free_head := of_nat h, num_free := num_free v1 + 1\<rparr> =
        (v1\<lparr>descriptors := ds[h := (ds ! h)\<lparr>vd_next := vd_next (descriptors ?vq ! h)\<rparr>]\<rparr>)\<lparr>free_head := of_nat h,
          num_free := num_free (v1\<lparr>descriptors := ds[h := (ds ! h)\<lparr>vd_next := vd_next (descriptors ?vq ! h)\<rparr>]\<rparr>) + 1\<rparr>" by simp
    have a: "aget (descriptors ?vq) h = Some (descriptors ?vq ! h)" using f(1) h(2) by (simp add: array_simps)
    have sd: "set_desc (?vq\<lparr>free_head := vd_next (descriptors ?vq ! h), num_free := num_free ?vq - 1\<rparr>) h (of_nat NET_TX_PHYS)
        (of_nat (NET_HEADER_SIZE + length payload)) 0 =
        Some (?vq\<lparr>free_head := vd_next (descriptors ?vq ! h), num_free := num_free ?vq - 1, descriptors := ds\<rparr>)"
      using f(1) h(2) by (simp add: array_simps ds_def NET_TX_PHYS_def NET_HEADER_SIZE_def)
    have mm: "s\<lparr>nmem := (nmem s)\<lparr>ram := write_bytes NET_TX_VIRT (replicate 12 0 @ payload) (ram (nmem s))\<rparr>\<rparr> = s\<lparr>nmem := m\<rparr>"
      by (simp add: m_def)
    show ?thesis
      unfolding net_transmit_packet_def assms(2) Let_def bind.simps h(1) a sd p
      using d x n h(3) by (simp add: w mm NET_HEADER_SIZE_def res [symmetric] e [symmetric])
  qed
  then show ?thesis by (intro exI [of _ d]) (simp add: put_nq_def m_def)
qed

text \<open>C40. The network driver loses frames: it uses one buffer for all frames and takes the descriptor back without waiting for the
  device. Two frames sent before the device looks at the queue end up as two entries of the ring with the same descriptor, and the
  buffer holds the second frame only; every time the queue looks as free as before.\<close>

theorem virtio_net_overwrites:
  assumes "deferred nd" "tx_queue_virt (ndrv s) = Some q" "free_list (nq_heap (nmem s) q) (h # rest)"
  shows "\<exists>s1 s2 vq. net_transmit_packet nd first s = Some s1 \<and> net_transmit_packet nd second s1 = Some s2 \<and>
    vq = nq_heap (nmem s2) q \<and> free_list vq (h # rest) \<and>
    (let i = av_idx (available (nq_heap (nmem s) q)) in av_idx (available vq) = i + 2 \<and>
       av_ring (available vq) ! (unat i mod 64) = of_nat h \<and> av_ring (available vq) ! (unat (i + 1) mod 64) = of_nat h) \<and>
    vd_addr (descriptors vq ! h) = of_nat NET_TX_PHYS \<and>
    read_bytes (ram (nmem s2)) NET_TX_VIRT (12 + length second) = replicate 12 0 @ second"
proof -
  let ?vq = "nq_heap (nmem s) q"
  note f = free_listD [OF assms(3)]
  from net_transmit_deferred [OF assms, of first] obtain d1 where
    t1: "net_transmit_packet nd first s = Some (s\<lparr>ndev := d1, nmem := \<lparr>nq_heap = (nq_heap (nmem s))(q := posted h first ?vq),
      ram = write_bytes NET_TX_VIRT (replicate 12 0 @ first) (ram (nmem s))\<rparr>\<rparr>)" by blast
  let ?s1 = "s\<lparr>ndev := d1, nmem := \<lparr>nq_heap = (nq_heap (nmem s))(q := posted h first ?vq),
      ram = write_bytes NET_TX_VIRT (replicate 12 0 @ first) (ram (nmem s))\<rparr>\<rparr>"
  have w: "tx_queue_virt (ndrv ?s1) = Some q" "free_list (nq_heap (nmem ?s1) q) (h # rest)"
    using assms(2) posted_free_list [OF assms(3)] by simp_all
  from net_transmit_deferred [OF assms(1) w, of second] obtain d2 where
    t2: "net_transmit_packet nd second ?s1 = Some (?s1\<lparr>ndev := d2, nmem := \<lparr>nq_heap = (nq_heap (nmem ?s1))(q := posted h second (nq_heap (nmem ?s1) q)),
      ram = write_bytes NET_TX_VIRT (replicate 12 0 @ second) (ram (nmem ?s1))\<rparr>\<rparr>)" by blast
  have len: "12 + length second = length (replicate 12 0 @ second)" by simp
  have h: "h < 64" using f(4) by simp
  define vq where "vq = posted h second (posted h first ?vq)"
  have v: "free_list vq (h # rest)" unfolding vq_def by (intro posted_free_list assms(3))
  have r: "av_idx (available vq) = av_idx (available ?vq) + 2" "vd_addr (descriptors vq ! h) = of_nat NET_TX_PHYS"
    "av_ring (available vq) ! (unat (av_idx (available ?vq)) mod 64) = of_nat h"
    "av_ring (available vq) ! (unat (av_idx (available ?vq) + 1) mod 64) = of_nat h"
    using f(1,2) h by (simp_all add: vq_def posted_def NET_TX_PHYS_def nth_list_update)
  show ?thesis
    by (intro exI [of _ ?s1] exI [of _ "?s1\<lparr>ndev := d2, nmem := \<lparr>nq_heap = (nq_heap (nmem ?s1))(q := posted h second (nq_heap (nmem ?s1) q)),
      ram = write_bytes NET_TX_VIRT (replicate 12 0 @ second) (ram (nmem ?s1))\<rparr>\<rparr>"] exI [of _ vq] conjI t1 t2)
      (use v r read_write_bytes [of NET_TX_VIRT "replicate 12 0 @ second", folded len] in \<open>simp_all add: vq_def Let_def\<close>)
qed

text \<open>A fresh queue and a device that only counts doorbells.\<close>

definition counting_nic :: "nat NetDevice" where
  "counting_nic = \<lparr>nd_notify = \<lambda>n queue (d, m). (Suc d, m)\<rparr>"

definition demo_net :: "nat net_state" where
  "demo_net = \<lparr>ndrv = (VirtioNetDriver_new 0)\<lparr>tx_queue_virt := Some 0x1000, tx_notify_addr := Some 0x2000\<rparr>,
     nmem = \<lparr>nq_heap = \<lambda>_. the VirtQueue_new, ram = \<lambda>_. 0\<rparr>, ndev = 0\<rparr>"

theorem virtio_net_overwrites_witness:
  "\<exists>s1 s2. net_transmit_packet counting_nic [1, 2, 3] demo_net = Some s1 \<and> net_transmit_packet counting_nic [9] s1 = Some s2 \<and>
    av_idx (available (nq_heap (nmem s2) 0x1000)) = 2 \<and> read_bytes (ram (nmem s2)) NET_TX_VIRT 13 = replicate 12 0 @ [9]"
proof -
  obtain vq where v: "VirtQueue_new = Some vq" "free_list vq [0..<64]" "av_idx (available vq) = 0" by (rule VirtQueue_new_free)
  have "deferred counting_nic" by (simp add: deferred_def counting_nic_def)
  moreover have "tx_queue_virt (ndrv demo_net) = Some 0x1000" by (simp add: demo_net_def)
  moreover have nq: "nq_heap (nmem demo_net) 0x1000 = vq" unfolding demo_net_def v(1) by simp
  moreover have "[0..<64] = 0 # [1..<64]" unfolding One_nat_def by (rule upt_conv_Cons) simp
  ultimately have d: "deferred counting_nic" "tx_queue_virt (ndrv demo_net) = Some 0x1000" "free_list (nq_heap (nmem demo_net) 0x1000) (0 # [1..<64])"
    using v(2) by (simp_all only:)
  have n: "12 + length [9 :: u8] = 13" by simp
  from virtio_net_overwrites [OF d, of "[1, 2, 3]" "[9]"] obtain s1 s2 where
    "net_transmit_packet counting_nic [1, 2, 3] demo_net = Some s1" "net_transmit_packet counting_nic [9] s1 = Some s2"
    "av_idx (available (nq_heap (nmem s2) 0x1000)) = 0 + 2" "read_bytes (ram (nmem s2)) NET_TX_VIRT 13 = replicate 12 0 @ [9]"
    unfolding nq v(3) n Let_def by blast
  then show ?thesis unfolding add_0 by blast
qed

subsection \<open>Receiving\<close>

text \<open>The outcome of a poll: nothing new, the next frame with its buffer offered to the device again, or a panic when the device names a
  descriptor that the queue does not have.\<close>

lemma net_poll_receive_outcome:
  assumes "deferred nd" "rx_queue_virt (ndrv s) = Some q" "vq = nq_heap (nmem s) q" "vq_shape vq" "length (us_ring (used vq)) = 64"
    "elem = us_ring (used vq) ! unat (rx_last_used (ndrv s) mod 64)"
  shows "(rx_last_used (ndrv s) = us_idx (used vq) \<longrightarrow> net_poll_receive nd s = Some (None, s)) \<and>
    (rx_last_used (ndrv s) \<noteq> us_idx (used vq) \<longrightarrow>
      (if unat (ue_id elem) < 64
       then \<exists>s' vq'. net_poll_receive nd s = Some (Some (unat (vd_addr (descriptors vq ! unat (ue_id elem)) + 0xFFFF80000000000C), unat (ue_len elem) - 12), s') \<and>
         publish (unat (ue_id elem)) vq = Some vq' \<and> nq_heap (nmem s') = (nq_heap (nmem s))(q := vq') \<and> ram (nmem s') = ram (nmem s) \<and>
         rx_last_used (ndrv s') = rx_last_used (ndrv s) + 1
       else net_poll_receive nd s = None))"
proof -
  let ?s = "s\<lparr>ndrv := (ndrv s)\<lparr>rx_last_used := rx_last_used (ndrv s) + 1\<rparr>\<rparr>"
  have "unat (rx_last_used (ndrv s) mod 64) < 64" by (simp add: unat_mod)
  then have e: "aget (us_ring (used vq)) (unat (rx_last_used (ndrv s) mod 64)) = Some elem" using assms(5,6) by (simp add: array_simps)
  obtain vq' where v: "publish (unat (ue_id elem)) vq = Some vq'" using publish_ok [OF assms(4)] by blast
  obtain d where d: "net_doorbell nd (rx_notify_addr (ndrv ?s)) 0 (put_nq q vq' ?s) = (put_nq q vq' ?s)\<lparr>ndev := d\<rparr>"
    by (rule deferred_doorbell [OF assms(1)])
  have l: "length (descriptors vq) = 64" using assms(4) by (simp add: vq_shape_def)
  show ?thesis
  proof (cases "unat (ue_id elem) < 64")
    case True
    then have a: "aget (descriptors vq) (unat (ue_id elem)) = Some (descriptors vq ! unat (ue_id elem))" using l by (simp add: array_simps)
    show ?thesis
      using True e v d a unfolding net_poll_receive_def assms(2) option.case assms(3) [symmetric] Let_def
      by (auto simp: NET_HEADER_SIZE_def put_nq_def algebra_simps)
  next
    case False
    then have "aget (descriptors vq) (unat (ue_id elem)) = None" using l by (simp add: aget_def)
    with e False show ?thesis
      unfolding net_poll_receive_def assms(2) option.case assms(3) [symmetric] Let_def by simp
  qed
qed

end
