(* ===== verification/Linked_List.thy ===== *)
theory Linked_List
  imports Alloc_Spec
begin

text \<open>
  The linked-list allocator, \<^verbatim>\<open>kernel/src/allocator/linked_list.rs\<close>: a list of the free regions, whose nodes lie in the free memory
  itself. The kernel has it as an alternative to its own allocator. A node owns its successor, so the chain behind the head is a
  list; nobody else writes to a free region, since live allocations never overlap one (proved below). The helper \<open>align_up\<close>, which
  the module imports from its parent, is not in the repository: it is a parameter, assumed to round up as its name says.
\<close>

subsection \<open>Regions\<close>

type_synonym align_fun = "nat \<Rightarrow> nat \<Rightarrow> nat"

definition align_up_ok :: "align_fun \<Rightarrow> bool" where
  "align_up_ok align_up \<longleftrightarrow>
     (\<forall>addr k. addr + 2 ^ k \<le> 2 ^ 64 \<longrightarrow> align_up addr (2 ^ k) = (addr + (2 ^ k - 1)) div 2 ^ k * 2 ^ k)"

record ListNode =
  start_addr :: nat
  region_size :: nat

record LinkedListAllocator =
  chain :: "ListNode list"

definition end_addr :: "ListNode \<Rightarrow> nat" where
  "end_addr n = uadd (start_addr n) (region_size n)"

definition LinkedListAllocator_new :: LinkedListAllocator where
  "LinkedListAllocator_new = \<lparr>chain = []\<rparr>"

text \<open>A node has two words: 16 bytes, aligned to 8. The first assertion and the second are the two branches that panic.\<close>

definition NODE_SIZE :: nat where "NODE_SIZE = 16"
definition NODE_ALIGN :: nat where "NODE_ALIGN = 8"

definition add_free_region :: "align_fun \<Rightarrow> nat \<Rightarrow> nat \<Rightarrow> LinkedListAllocator \<Rightarrow> LinkedListAllocator option" where
  "add_free_region align_up addr sz a =
     (if align_up addr NODE_ALIGN \<noteq> addr then None
      else if sz < NODE_SIZE then None
      else Some (a\<lparr>chain := \<lparr>start_addr = addr, region_size = sz\<rparr> # chain a\<rparr>))"

definition ll_init :: "align_fun \<Rightarrow> nat \<Rightarrow> nat \<Rightarrow> LinkedListAllocator \<Rightarrow> LinkedListAllocator option" where
  "ll_init align_up heap_start heap_size a = add_free_region align_up heap_start heap_size a"

definition alloc_from_region :: "align_fun \<Rightarrow> ListNode \<Rightarrow> nat \<Rightarrow> nat \<Rightarrow> (unit, nat) result" where
  "alloc_from_region align_up region sz al = (
     let alloc_start = align_up (start_addr region) al in
     if alloc_start + sz \<ge> 2 ^ 64 then Err ()
     else let alloc_end = alloc_start + sz in
       if alloc_end > end_addr region then Err ()
       else let excess_size = end_addr region - alloc_end in
         if excess_size > 0 \<and> excess_size < NODE_SIZE then Err () else Ok alloc_start)"

text \<open>The search, which unlinks the region it returns.\<close>

fun find_in :: "align_fun \<Rightarrow> nat \<Rightarrow> nat \<Rightarrow> ListNode list \<Rightarrow> (ListNode \<times> nat) option \<times> ListNode list" where
  "find_in align_up sz al [] = (None, [])"
| "find_in align_up sz al (region # rest) = (case alloc_from_region align_up region sz al of
       Ok alloc_start \<Rightarrow> (Some (region, alloc_start), rest)
     | Err _ \<Rightarrow> (let (r, rest) = find_in align_up sz al rest in (r, region # rest)))"

definition find_region :: "align_fun \<Rightarrow> nat \<Rightarrow> nat \<Rightarrow> LinkedListAllocator \<Rightarrow> (ListNode \<times> nat) option \<times> LinkedListAllocator" where
  "find_region align_up sz al a = (let (r, c) = find_in align_up sz al (chain a) in (r, a\<lparr>chain := c\<rparr>))"

text \<open>\<open>Layout::align_to\<close>, an error when the size rounded up leaves the range, and \<open>Layout::pad_to_align\<close>.\<close>

definition align_to :: "nat \<Rightarrow> Layout \<Rightarrow> Layout option" where
  "align_to al l = (let m = max (lalign l) al in if lsize l + (m - 1) < 2 ^ 63 then Some (l\<lparr>lalign := m\<rparr>) else None)"

definition pad_to_align :: "Layout \<Rightarrow> Layout" where
  "pad_to_align l = l\<lparr>lsize := (lsize l + (lalign l - 1)) div lalign l * lalign l\<rparr>"

definition size_align :: "Layout \<Rightarrow> (nat \<times> nat) option" where
  "size_align l = do {
     l \<leftarrow> align_to NODE_ALIGN l;
     let l = pad_to_align l;
     Some (max (lsize l) NODE_SIZE, lalign l) }"

subsection \<open>The allocator\<close>

definition ll_alloc :: "align_fun \<Rightarrow> LinkedListAllocator alloc_fun" where
  "ll_alloc align_up a l = do {
     (sz, al) \<leftarrow> size_align l;
     (case find_region align_up sz al a of
        (None, a) \<Rightarrow> Some (0, a)
      | (Some (region, alloc_start), a) \<Rightarrow>
          if alloc_start + sz \<ge> 2 ^ 64 then None
          else do {
            let alloc_end = alloc_start + sz;
            let excess_size = usub (end_addr region) alloc_end;
            a \<leftarrow> if excess_size > 0 then add_free_region align_up alloc_end excess_size a else Some a;
            Some (alloc_start, a) }) }"

definition ll_dealloc :: "align_fun \<Rightarrow> LinkedListAllocator dealloc_fun" where
  "ll_dealloc align_up a p l = do {
     (sz, _) \<leftarrow> size_align l;
     add_free_region align_up p sz a }"

subsection \<open>Rounding\<close>

lemma round_up:
  fixes m x :: nat
  assumes "0 < m"
  shows "m dvd (x + (m - 1)) div m * m" "x \<le> (x + (m - 1)) div m * m" "(x + (m - 1)) div m * m < x + m"
    "m dvd x \<Longrightarrow> (x + (m - 1)) div m * m = x"
proof -
  have "(x + (m - 1)) div m * m + (x + (m - 1)) mod m = x + (m - 1)" by simp
  moreover have "(x + (m - 1)) mod m < m" using assms by simp
  ultimately show b: "x \<le> (x + (m - 1)) div m * m" "(x + (m - 1)) div m * m < x + m" using assms by linarith+
  assume "m dvd x"
  then obtain k where k: "x = k * m" by (metis dvd_def mult.commute)
  with b have "k * m \<le> (x + (m - 1)) div m * m" "(x + (m - 1)) div m * m < Suc k * m" by simp_all
  then have "(x + (m - 1)) div m = k" using assms by (metis le_antisym less_Suc_eq_le mult_le_cancel2 mult_less_cancel2)
  with k show "(x + (m - 1)) div m * m = x" by simp
qed simp

lemma align_up_pow:
  assumes "align_up_ok align_up" "x < 2 ^ 63" "k \<le> 63"
  shows "2 ^ k dvd align_up x (2 ^ k)" "x \<le> align_up x (2 ^ k)" "2 ^ k dvd x \<Longrightarrow> align_up x (2 ^ k) = x"
proof -
  have "(2 :: nat) ^ k \<le> 2 ^ 63" using assms(3) by (intro power_increasing) auto
  then have "x + 2 ^ k \<le> 2 ^ 64" using assms(2) by simp
  then have "align_up x (2 ^ k) = (x + (2 ^ k - 1)) div 2 ^ k * 2 ^ k" using assms(1) unfolding align_up_ok_def by blast
  then show "2 ^ k dvd align_up x (2 ^ k)" "x \<le> align_up x (2 ^ k)" "2 ^ k dvd x \<Longrightarrow> align_up x (2 ^ k) = x"
    using round_up [of "2 ^ k" x] by simp_all
qed

lemma align_up_node:
  assumes "align_up_ok align_up" "x < 2 ^ 63"
  shows "align_up x NODE_ALIGN = x \<longleftrightarrow> 8 dvd x"
  using align_up_pow [OF assms, of 3] by (auto simp: NODE_ALIGN_def)

text \<open>An adjusted layout: a size that holds a node and the request, and an alignment that is a power of two and a multiple of both.\<close>

lemma size_alignD:
  assumes "layout_valid l" "0 < lsize l" "size_align l = Some (sz, al)"
  shows "lsize l \<le> sz" "16 \<le> sz" "8 dvd sz" "8 dvd al" "lalign l dvd al" "\<exists>k \<le> 63. al = 2 ^ k" "sz < 2 ^ 63"
proof -
  obtain j where j: "lalign l = 2 ^ j" using assms(1) by (auto simp: layout_valid_def)
  define k where "k = max j 3"
  have m: "max (lalign l) 8 = 2 ^ k"
  proof (cases "j \<le> 3")
    case True
    then have "(2 :: nat) ^ j \<le> 2 ^ 3" by (intro power_increasing) auto
    with True show ?thesis by (simp add: j k_def)
  next
    case False
    then have "(2 :: nat) ^ 3 \<le> 2 ^ j" by (intro power_increasing) auto
    with False show ?thesis by (simp add: j k_def)
  qed
  have r: "lsize l + (2 ^ k - 1) < 2 ^ 63" "al = 2 ^ k" "sz = max ((lsize l + (2 ^ k - 1)) div 2 ^ k * 2 ^ k) 16"
    using assms(3) m by (auto simp: size_align_def align_to_def pad_to_align_def NODE_ALIGN_def NODE_SIZE_def Let_def split: bind_splits if_splits)
  have "(2 :: nat) ^ k \<le> 2 ^ 63" using r(1) by simp
  then have k: "k \<le> 63" by (rule power_le_imp_le_exp [rotated]) simp
  then show "\<exists>k \<le> 63. al = 2 ^ k" using r(2) by blast
  have d: "(2 :: nat) ^ 3 dvd 2 ^ k" by (rule le_imp_power_dvd) (simp add: k_def)
  then show "8 dvd al" using r(2) by simp
  show "lalign l dvd al" unfolding j r(2) by (rule le_imp_power_dvd) (simp add: k_def)
  note u = round_up [of "2 ^ k" "lsize l"]
  have "(8 :: nat) dvd 2 ^ k" using d by simp
  then have "(8 :: nat) dvd (lsize l + (2 ^ k - 1)) div 2 ^ k * 2 ^ k" by (rule dvd_mult)
  then show "8 dvd sz" unfolding r(3) by (auto simp: max_def)
  show "lsize l \<le> sz" "16 \<le> sz" using u(2) r(3) by simp_all
  have "(lsize l + (2 ^ k - 1)) div 2 ^ k * 2 ^ k \<le> lsize l + (2 ^ k - 1)" by simp
  then have "(lsize l + (2 ^ k - 1)) div 2 ^ k * 2 ^ k < 2 ^ 63" using r(1) by (rule le_less_trans)
  then show "sz < 2 ^ 63" unfolding r(3) max_less_iff_conj by (rule conjI) simp
qed

subsection \<open>The invariant\<close>

definition region :: "ListNode \<Rightarrow> nat set" where
  "region n = {start_addr n ..< start_addr n + region_size n}"

definition node_ok :: "ListNode \<Rightarrow> bool" where
  "node_ok n \<longleftrightarrow> 0 < start_addr n \<and> 8 dvd start_addr n \<and> 16 \<le> region_size n \<and> start_addr n + region_size n < 2 ^ 63"

definition ll_inv :: "LinkedListAllocator \<Rightarrow> bool" where
  "ll_inv a \<longleftrightarrow> list_all node_ok (chain a) \<and> sorted_wrt (\<lambda>m n. region m \<inter> region n = {}) (chain a)"

definition ll_avail :: "LinkedListAllocator \<Rightarrow> nat set" where
  "ll_avail a = (\<Union>n \<in> set (chain a). region n)"

definition ll_ext :: "nat \<Rightarrow> Layout \<Rightarrow> nat set" where
  "ll_ext p l = {p ..< p + (case size_align l of None \<Rightarrow> 0 | Some (sz, al) \<Rightarrow> sz)}"

definition ll_owned :: "LinkedListAllocator \<Rightarrow> nat \<Rightarrow> Layout \<Rightarrow> bool" where
  "ll_owned a p l \<longleftrightarrow> layout_valid l \<and> 0 < lsize l \<and> 0 < p \<and> 8 dvd p \<and> lalign l dvd p \<and>
     (\<exists>sz al. size_align l = Some (sz, al) \<and> p + sz < 2 ^ 63)"

lemma end_addr_ok: "node_ok n \<Longrightarrow> end_addr n = start_addr n + region_size n"
  by (simp add: node_ok_def end_addr_def usize_simps)

lemma add_free_region_ok:
  assumes "align_up_ok align_up" "node_ok \<lparr>start_addr = p, region_size = sz\<rparr>"
  shows "add_free_region align_up p sz a = Some (a\<lparr>chain := \<lparr>start_addr = p, region_size = sz\<rparr> # chain a\<rparr>)"
  using assms align_up_node [OF assms(1), of p] by (simp add: add_free_region_def node_ok_def NODE_SIZE_def)

lemma region_node: "region \<lparr>start_addr = p, region_size = sz\<rparr> = {p ..< p + sz}"
  by (simp add: region_def)

lemma add_free_region_inv:
  assumes "ll_inv a" "node_ok \<lparr>start_addr = p, region_size = sz\<rparr>" "{p ..< p + sz} \<inter> ll_avail a = {}"
  shows "ll_inv (a\<lparr>chain := \<lparr>start_addr = p, region_size = sz\<rparr> # chain a\<rparr>)"
    "ll_avail (a\<lparr>chain := \<lparr>start_addr = p, region_size = sz\<rparr> # chain a\<rparr>) = ll_avail a \<union> {p ..< p + sz}"
  using assms by (auto simp: ll_inv_def ll_avail_def region_node)

lemma find_in_spec:
  "find_in align_up sz al rs = (r, rs') \<Longrightarrow> case r of
      None \<Rightarrow> rs' = rs \<and> (\<forall>n \<in> set rs. alloc_from_region align_up n sz al = Err ())
    | Some (n, s) \<Rightarrow> alloc_from_region align_up n sz al = Ok s \<and> (\<exists>xs ys. rs = xs @ n # ys \<and> rs' = xs @ ys \<and>
        (\<forall>m \<in> set xs. alloc_from_region align_up m sz al = Err ()))"
proof (induction rs arbitrary: rs')
  case (Cons n rs)
  obtain r1 rs1 where f: "find_in align_up sz al rs = (r1, rs1)" by fastforce
  show ?case
  proof (cases "alloc_from_region align_up n sz al")
    case (Inl e)
    with Cons.prems f have "r = r1" "rs' = n # rs1" by simp_all
    note IH = Cons.IH [OF f [folded \<open>r = r1\<close>]]
    show ?thesis
    proof (cases r)
      case None
      with IH Inl \<open>rs' = n # rs1\<close> show ?thesis by simp
    next
      case (Some y)
      then obtain m s where y: "r = Some (m, s)" by (cases y) simp
      with IH obtain xs ys where "alloc_from_region align_up m sz al = Ok s" "rs = xs @ m # ys" "rs1 = xs @ ys"
        "\<forall>m \<in> set xs. alloc_from_region align_up m sz al = Err ()" by auto
      with y Inl \<open>rs' = n # rs1\<close> show ?thesis by (simp add: exI [of _ "n # xs"])
    qed
  next
    case (Inr s)
    with Cons.prems have "r = Some (n, s)" "rs' = rs" by simp_all
    with Inr show ?thesis by (simp add: exI [of _ "[] :: ListNode list"])
  qed
qed simp

text \<open>What an allocation does: it takes the first region that fits, gives back the rest behind the block, and loses what the alignment
  skips in front of it.\<close>

definition remainder :: "ListNode \<Rightarrow> nat \<Rightarrow> nat \<Rightarrow> ListNode list" where
  "remainder n s sz = (if s + sz < start_addr n + region_size n
     then [\<lparr>start_addr = s + sz, region_size = start_addr n + region_size n - (s + sz)\<rparr>] else [])"

lemma alloc_from_region_ok:
  assumes "align_up_ok align_up" "node_ok n" "alloc_from_region align_up n sz al = Ok s" "al = 2 ^ k" "k \<le> 63"
  shows "al dvd s" "start_addr n \<le> s" "s + sz \<le> start_addr n + region_size n"
    "s + sz < start_addr n + region_size n \<Longrightarrow> s + sz + 16 \<le> start_addr n + region_size n"
proof -
  have "start_addr n < 2 ^ 63" using assms(2) by (simp add: node_ok_def)
  from align_up_pow [OF assms(1) this assms(5)] assms(3) show "al dvd s" "start_addr n \<le> s"
    by (auto simp: alloc_from_region_def Let_def assms(4) split: if_splits)
  show "s + sz \<le> start_addr n + region_size n"
    "s + sz < start_addr n + region_size n \<Longrightarrow> s + sz + 16 \<le> start_addr n + region_size n"
    using assms(3) by (auto simp: alloc_from_region_def Let_def end_addr_ok [OF assms(2)] NODE_SIZE_def split: if_splits)
qed

lemma ll_alloc_cases:
  assumes "align_up_ok align_up" "ll_inv a" "layout_valid l" "0 < lsize l"
  obtains (too_large) "size_align l = None" "ll_alloc align_up a l = None"
  | (full) sz al where "size_align l = Some (sz, al)" "ll_alloc align_up a l = Some (0, a)"
      "\<forall>n \<in> set (chain a). alloc_from_region align_up n sz al = Err ()"
  | (found) sz al xs n ys s where "size_align l = Some (sz, al)" "chain a = xs @ n # ys" "node_ok n"
      "ll_alloc align_up a l = Some (s, a\<lparr>chain := remainder n s sz @ xs @ ys\<rparr>)" "lalign l dvd s" "8 dvd s"
      "start_addr n \<le> s" "s + sz \<le> start_addr n + region_size n" "list_all node_ok (remainder n s sz)"
      "\<forall>m \<in> set xs. alloc_from_region align_up m sz al = Err ()"
proof (cases "size_align l")
  case None
  then show ?thesis using too_large by (simp add: ll_alloc_def)
next
  case (Some x)
  then obtain sz al where sa: "size_align l = Some (sz, al)" by (cases x) simp
  note sd = size_alignD [OF assms(3,4) sa]
  obtain k where k: "al = 2 ^ k" "k \<le> 63" using sd(6) by blast
  obtain r c where f: "find_in align_up sz al (chain a) = (r, c)" by fastforce
  show ?thesis
  proof (cases r)
    case None
    with find_in_spec [OF f] f sa show ?thesis using full by (simp add: ll_alloc_def find_region_def)
  next
    case (Some y)
    then obtain n s where y: "r = Some (n, s)" by (cases y) simp
    with find_in_spec [OF f] obtain xs ys where c: "alloc_from_region align_up n sz al = Ok s" "chain a = xs @ n # ys" "c = xs @ ys"
      "\<forall>m \<in> set xs. alloc_from_region align_up m sz al = Err ()" by auto
    have n: "node_ok n" using assms(2) c(2) by (simp add: ll_inv_def)
    note r = alloc_from_region_ok [OF assms(1) n c(1) k]
    have s: "lalign l dvd s" "8 dvd s" using sd(4,5) r(1) by (auto intro: dvd_trans)
    have b: "start_addr n + region_size n < 2 ^ 63" "0 < start_addr n" using n by (simp_all add: node_ok_def)
    have ro: "list_all node_ok (remainder n s sz)"
    proof (cases "s + sz < start_addr n + region_size n")
      case True
      have "8 dvd s + sz" using s(2) sd(3) by (rule dvd_add)
      moreover have "16 \<le> start_addr n + region_size n - (s + sz)" using r(4) [OF True] by simp
      moreover have "0 < s + sz" "s + sz + (start_addr n + region_size n - (s + sz)) = start_addr n + region_size n"
        using r(2,3) b(2) by simp_all
      ultimately show ?thesis using True b(1) by (simp add: remainder_def node_ok_def)
    qed (simp add: remainder_def)
    let ?e = "start_addr n + region_size n - (s + sz)"
    have "usub (end_addr n) (s + sz) = ?e" using r(3) b end_addr_ok [OF n] by (simp add: usize_simps)
    moreover have "\<not> 2 ^ 64 \<le> s + sz" using r(3) b(1) by simp
    moreover have "(if 0 < ?e then add_free_region align_up (s + sz) ?e (a\<lparr>chain := xs @ ys\<rparr>) else Some (a\<lparr>chain := xs @ ys\<rparr>)) =
        Some (a\<lparr>chain := remainder n s sz @ xs @ ys\<rparr>)"
      using ro add_free_region_ok [OF assms(1), of "s + sz" ?e "a\<lparr>chain := xs @ ys\<rparr>"]
      by (cases "s + sz < start_addr n + region_size n") (simp_all add: remainder_def)
    moreover have "find_region align_up sz al a = (Some (n, s), a\<lparr>chain := xs @ ys\<rparr>)"
      using f y c(3) by (simp add: find_region_def)
    ultimately have "ll_alloc align_up a l = Some (s, a\<lparr>chain := remainder n s sz @ xs @ ys\<rparr>)"
      unfolding ll_alloc_def Let_def by (simp add: sa split: if_splits)
    from found [OF sa c(2) n this s r(2,3) ro c(4)] show ?thesis .
  qed
qed

subsection \<open>The contract\<close>

lemma remainder_region: "(\<Union>m \<in> set (remainder n s sz). region m) = {s + sz ..< start_addr n + region_size n}"
  by (auto simp: remainder_def region_node)

lemma split_region:
  assumes "ll_inv a" "chain a = xs @ n # ys" "start_addr n \<le> s" "s + sz \<le> start_addr n + region_size n"
    "list_all node_ok (remainder n s sz)"
  shows "ll_inv (a\<lparr>chain := remainder n s sz @ xs @ ys\<rparr>)" "{s ..< s + sz} \<subseteq> ll_avail a"
    "ll_avail (a\<lparr>chain := remainder n s sz @ xs @ ys\<rparr>) = ll_avail a - {start_addr n ..< s + sz}"
proof -
  have sw: "sorted_wrt (\<lambda>m n. region m \<inter> region n = {}) (xs @ n # ys)" and ok: "list_all node_ok (xs @ n # ys)"
    using assms(1) by (auto simp: ll_inv_def assms(2))
  have rest: "region m \<inter> region n = {}" if "m \<in> set (xs @ ys)" for m
    using sw that by (auto simp: sorted_wrt_append)
  have sub: "{s + sz ..< start_addr n + region_size n} \<subseteq> region n" "{s ..< s + sz} \<subseteq> region n"
    "region n - {start_addr n ..< s + sz} = {s + sz ..< start_addr n + region_size n}" using assms(3,4) by (auto simp: region_def)
  have rs: "region m \<subseteq> region n" if "m \<in> set (remainder n s sz)" for m
    using that remainder_region [of n s sz] sub(1) by blast
  have "sorted_wrt (\<lambda>m n. region m \<inter> region n = {}) (remainder n s sz)" by (simp add: remainder_def)
  moreover have "region m \<inter> region m' = {}" if "m \<in> set (remainder n s sz)" "m' \<in> set (xs @ ys)" for m m'
    using rs [OF that(1)] rest [OF that(2)] by blast
  moreover have "sorted_wrt (\<lambda>m n. region m \<inter> region n = {}) (xs @ ys)" using sw by (auto simp: sorted_wrt_append)
  ultimately have "sorted_wrt (\<lambda>m n. region m \<inter> region n = {}) (remainder n s sz @ xs @ ys)"
    unfolding sorted_wrt_append [of _ "remainder n s sz"] by blast
  then show "ll_inv (a\<lparr>chain := remainder n s sz @ xs @ ys\<rparr>)" using ok assms(5) by (simp add: ll_inv_def)
  have av: "ll_avail a = region n \<union> (\<Union>m \<in> set (xs @ ys). region m)" by (auto simp: ll_avail_def assms(2))
  then show "{s ..< s + sz} \<subseteq> ll_avail a" using sub(2) by blast
  have "ll_avail (a\<lparr>chain := remainder n s sz @ xs @ ys\<rparr>) = {s + sz ..< start_addr n + region_size n} \<union> (\<Union>m \<in> set (xs @ ys). region m)"
    using remainder_region [of n s sz] by (auto simp: ll_avail_def)
  moreover have "(\<Union>m \<in> set (xs @ ys). region m) - {start_addr n ..< s + sz} = (\<Union>m \<in> set (xs @ ys). region m)"
  proof -
    have "{start_addr n ..< s + sz} \<subseteq> region n" using assms(4) by (auto simp: region_def)
    then show ?thesis using rest by blast
  qed
  ultimately show "ll_avail (a\<lparr>chain := remainder n s sz @ xs @ ys\<rparr>) = ll_avail a - {start_addr n ..< s + sz}"
    unfolding av sub(3) [symmetric] by blast
qed

lemma ll_ext_Some: "size_align l = Some (sz, al) \<Longrightarrow> ll_ext p l = {p ..< p + sz}"
  by (simp add: ll_ext_def)

lemma ll_owned_node:
  assumes "ll_owned a p l"
  obtains sz al where "size_align l = Some (sz, al)" "node_ok \<lparr>start_addr = p, region_size = sz\<rparr>"
proof -
  from assms obtain sz al where o: "layout_valid l" "0 < lsize l" "0 < p" "8 dvd p" "size_align l = Some (sz, al)" "p + sz < 2 ^ 63"
    by (auto simp: ll_owned_def)
  then show ?thesis using that [OF o(5)] size_alignD(2) [OF o(1,2,5)] by (simp add: node_ok_def)
qed

lemma linked_list_interface:
  assumes "align_up_ok align_up"
  shows "heap_interface (ll_alloc align_up) (ll_dealloc align_up) ll_inv ll_avail ll_ext ll_owned"
proof unfold_locales
  fix a a' :: LinkedListAllocator and l p
  assume inv: "ll_inv a"
  { assume l: "layout_valid l" "0 < lsize l"
    { assume al: "ll_alloc align_up a l = Some (p, a')" "p \<noteq> 0"
      from assms inv l show "ll_inv a' \<and> ll_ext p l \<subseteq> ll_avail a \<and> ll_avail a' \<subseteq> ll_avail a - ll_ext p l \<and> ll_owned a' p l \<and>
        (\<forall>q m. ll_owned a q m \<longrightarrow> ll_owned a' q m)"
      proof (cases rule: ll_alloc_cases)
        case (found sz k xs n ys s)
        then have a': "p = s" "a' = a\<lparr>chain := remainder n s sz @ xs @ ys\<rparr>" using al(1) by simp_all
        have "ll_owned a' p l" using found l al(2) a' by (auto simp: ll_owned_def node_ok_def)
        moreover have "ll_ext p l \<subseteq> {start_addr n ..< s + sz}" using found a' by (auto simp: ll_ext_Some)
        ultimately show ?thesis
          using split_region [OF inv found(2,7,8,9)] ll_ext_Some [OF found(1)] a' by (auto simp: ll_owned_def)
      qed (use al in auto) }
    { assume al: "ll_alloc align_up a l = Some (0, a')"
      from assms inv l show "a' = a"
      proof (cases rule: ll_alloc_cases)
        case (found sz k xs n ys s)
        then show ?thesis using al by (auto simp: node_ok_def)
      qed (use al in auto) } }
  { assume o: "ll_owned a p l" "ll_ext p l \<inter> ll_avail a = {}"
    from o(1) obtain sz al where sa: "size_align l = Some (sz, al)" "node_ok \<lparr>start_addr = p, region_size = sz\<rparr>"
      by (rule ll_owned_node)
    with add_free_region_inv [OF inv sa(2)] o(2) add_free_region_ok [OF assms sa(2), of a]
    show "\<exists>a'. ll_dealloc align_up a p l = Some a' \<and> ll_inv a' \<and> ll_avail a' \<subseteq> ll_avail a \<union> ll_ext p l \<and>
        (\<forall>q m. ll_owned a q m \<longrightarrow> ll_owned a' q m)" by (auto simp: ll_dealloc_def ll_ext_Some ll_owned_def) }
qed

locale rounding =
  fixes align_up :: align_fun
  assumes rounds_up: "align_up_ok align_up"

sublocale rounding \<subseteq> ll: heap_interface "ll_alloc align_up" "ll_dealloc align_up" ll_inv ll_avail ll_ext ll_owned
  by (rule linked_list_interface [OF rounds_up])

lemma size_align_None:
  assumes "layout_valid l"
  shows "size_align l = None \<longleftrightarrow> 2 ^ 63 \<le> lsize l + 7"
proof -
  have "lsize l + (lalign l - 1) < 2 ^ 63" using assms by (simp add: layout_valid_def)
  then show ?thesis
    by (cases "lalign l \<le> 8") (auto simp: size_align_def align_to_def NODE_ALIGN_def Let_def max_def)
qed

context rounding
begin

lemma alloc_panics:
  assumes "ll_inv a" "layout_valid l" "0 < lsize l"
  shows "ll_alloc align_up a l = None \<longleftrightarrow> 2 ^ 63 \<le> lsize l + 7"
proof -
  have "ll_alloc align_up a l = None \<longleftrightarrow> size_align l = None"
    using rounds_up assms by (cases rule: ll_alloc_cases) auto
  then show ?thesis unfolding size_align_None [OF assms(2)] .
qed

lemma init_inv:
  assumes "ll_init align_up start sz LinkedListAllocator_new = Some a0" "0 < start" "start + sz < 2 ^ 63"
  shows "ll_inv a0 \<and> ll_avail a0 = {start ..< start + sz}"
  using assms align_up_node [OF rounds_up, of start]
  by (auto simp: ll_init_def add_free_region_def LinkedListAllocator_new_def ll_inv_def ll_avail_def node_ok_def region_node NODE_SIZE_def
      split: if_splits)

text \<open>A block that is freed right away comes back, but for the gap in front of it.\<close>

lemma alloc_then_dealloc:
  assumes "ll_inv a" "layout_valid l" "0 < lsize l" "ll_alloc align_up a l = Some (p, a')" "p \<noteq> 0"
  shows "\<exists>n \<in> set (chain a). \<exists>a''. start_addr n \<le> p \<and> p \<in> region n \<and> ll_dealloc align_up a' p l = Some a'' \<and>
    ll_avail a'' = ll_avail a - {start_addr n ..< p}"
  using rounds_up assms(1-3)
proof (cases rule: ll_alloc_cases)
  case (found sz k xs n ys s)
  then have a': "p = s" "a' = a\<lparr>chain := remainder n s sz @ xs @ ys\<rparr>" using assms(4) by simp_all
  note sp = split_region [OF assms(1) found(2,7,8,9), folded a'(2)]
  have ok: "node_ok \<lparr>start_addr = p, region_size = sz\<rparr>"
    using found(3,6,7,8) size_alignD(2) [OF assms(2,3) found(1)] a'(1) by (simp add: node_ok_def)
  have d: "{p ..< p + sz} \<inter> ll_avail a' = {}" using sp(3) found(7) a'(1) by auto
  have "ll_avail a' \<union> {p ..< p + sz} = ll_avail a - {start_addr n ..< p}"
    using sp(2,3) found(7) a'(1) by auto
  moreover have "p \<in> region n" using found(7,8) size_alignD(2) [OF assms(2,3) found(1)] a'(1) by (auto simp: region_def)
  ultimately show ?thesis
    using add_free_region_ok [OF rounds_up ok, of a'] add_free_region_inv(2) [OF sp(1) ok d] found(1,2,7) a'(1)
    by (intro bexI [of _ n]) (auto simp: ll_dealloc_def)
qed (use assms in auto)

end

subsection \<open>Properties\<close>

lemma ll_owned_bytes: "ll_owned a p l \<Longrightarrow> {p ..< p + lsize l} \<subseteq> ll_ext p l"
  using size_alignD(1) by (fastforce simp: ll_owned_def ll_ext_Some)

text \<open>C35. The linked-list allocator is a safe heap: over every sequence of allocations and releases, live allocations are disjoint,
  inside the heap and aligned, each can be freed without panic, and an allocation panics exactly for a request within seven bytes of
  the largest size.\<close>

theorem linked_list_heap_safe:
  assumes "align_up_ok align_up" "ll_init align_up start sz LinkedListAllocator_new = Some a0" "0 < start" "start + sz < 2 ^ 63"
    "heap_reach (ll_alloc align_up) (ll_dealloc align_up) a0 (a, L)"
  shows "live_disjoint (\<lambda>p l. {p ..< p + lsize l}) L \<and>
    (\<forall>(p, l) \<in> set L. start \<le> p \<and> p + lsize l \<le> start + sz \<and> lalign l dvd p \<and> (\<exists>a'. ll_dealloc align_up a p l = Some a')) \<and>
    (\<forall>l. layout_valid l \<and> 0 < lsize l \<longrightarrow> (ll_alloc align_up a l = None \<longleftrightarrow> 2 ^ 63 \<le> lsize l + 7))"
proof -
  have R: "rounding align_up" using assms(1) by (rule rounding.intro)
  note i = rounding.init_inv [OF R assms(2-4)]
  have H: "heap_interface (ll_alloc align_up) (ll_dealloc align_up) ll_inv ll_avail ll_ext ll_owned"
    by (rule linked_list_interface [OF assms(1)])
  from heap_interface.reach_consistent [OF H assms(5)] i
  have c: "ll_inv a" "live_disjoint ll_ext L" "\<forall>(p, l) \<in> set L. ll_owned a p l"
    by (auto simp: heap_interface.consistent_def [OF H])
  have "live_disjoint (\<lambda>p l. {p ..< p + lsize l}) L"
    by (rule live_disjoint_mono [OF c(2)]) (use c(3) ll_owned_bytes in blast)
  moreover have "start \<le> p \<and> p + lsize l \<le> start + sz \<and> lalign l dvd p \<and> (\<exists>a'. ll_dealloc align_up a p l = Some a')"
    if "(p, l) \<in> set L" for p l
  proof -
    from heap_interface.reach_frees [OF H assms(5) _ that] i
    have f: "ll_owned a p l" "ll_ext p l \<subseteq> {start ..< start + sz}" "\<exists>a'. ll_dealloc align_up a p l = Some a'" by auto
    have "{p ..< p + lsize l} \<subseteq> {start ..< start + sz}" using ll_owned_bytes [OF f(1)] f(2) by blast
    moreover have "0 < lsize l" using f(1) by (simp add: ll_owned_def)
    ultimately show ?thesis using f(1,3) by (simp add: ll_owned_def ivl_subset)
  qed
  ultimately show ?thesis using rounding.alloc_panics [OF R c(1)] by blast
qed

text \<open>A rounding function, and a heap of 256 bytes with one allocation of 24 bytes aligned to 64.\<close>

definition demo_align_up :: align_fun where
  "demo_align_up addr al = (addr + (al - 1)) div al * al"

interpretation demo_rounding: rounding demo_align_up
  by unfold_locales (simp add: align_up_ok_def demo_align_up_def)

definition demo_layout :: Layout where
  "demo_layout = \<lparr>lsize = 24, lalign = 64\<rparr>"

lemma demo_layout_ok: "layout_valid demo_layout" "0 < lsize demo_layout" "size_align demo_layout = Some (64, 64)"
  by (auto simp: layout_valid_def demo_layout_def size_align_def align_to_def pad_to_align_def NODE_ALIGN_def NODE_SIZE_def
      intro!: exI [of _ 6])

lemma demo_init: "ll_init demo_align_up 0x1008 256 LinkedListAllocator_new = Some \<lparr>chain = [\<lparr>start_addr = 0x1008, region_size = 256\<rparr>]\<rparr>"
  by (simp add: ll_init_def add_free_region_def demo_align_up_def NODE_ALIGN_def NODE_SIZE_def LinkedListAllocator_new_def)

lemma demo_alloc: "ll_alloc demo_align_up \<lparr>chain = [\<lparr>start_addr = 0x1008, region_size = 256\<rparr>]\<rparr> demo_layout =
  Some (0x1040, \<lparr>chain = [\<lparr>start_addr = 0x1080, region_size = 136\<rparr>]\<rparr>)"
  by (simp add: ll_alloc_def demo_layout_ok find_region_def alloc_from_region_def end_addr_def usize_simps demo_align_up_def NODE_SIZE_def
      NODE_ALIGN_def add_free_region_def Let_def)

theorem linked_list_heap_safe_witness:
  "lalign demo_layout dvd 0x1040 \<and>
   (\<exists>a'. ll_dealloc demo_align_up \<lparr>chain = [\<lparr>start_addr = 0x1080, region_size = 136\<rparr>]\<rparr> 0x1040 demo_layout = Some a')"
proof -
  have "heap_reach (ll_alloc demo_align_up) (ll_dealloc demo_align_up) \<lparr>chain = [\<lparr>start_addr = 0x1008, region_size = 256\<rparr>]\<rparr>
      (\<lparr>chain = [\<lparr>start_addr = 0x1080, region_size = 136\<rparr>]\<rparr>, [(0x1040, demo_layout)])"
    by (rule heap_reach.step [OF heap_reach.start], rule heap_step.allocated) (simp_all add: demo_layout_ok demo_alloc)
  from linked_list_heap_safe [OF demo_rounding.rounds_up demo_init _ _ this] show ?thesis by simp
qed

text \<open>The linked-list allocator loses memory: a block that is allocated and freed again leaves exactly the bytes that were free
  before, less those that the alignment skipped in front of the block.\<close>

theorem linked_list_loses_gap:
  assumes "align_up_ok align_up" "ll_inv a" "layout_valid l" "0 < lsize l" "ll_alloc align_up a l = Some (p, a')" "p \<noteq> 0"
  shows "\<exists>n \<in> set (chain a). \<exists>a''. start_addr n \<le> p \<and> p \<in> region n \<and> ll_dealloc align_up a' p l = Some a'' \<and>
    ll_avail a'' = ll_avail a - {start_addr n ..< p}"
  by (rule rounding.alloc_then_dealloc [OF rounding.intro [OF assms(1)] assms(2-6)])

theorem linked_list_loses_gap_witness:
  "\<exists>a''. ll_dealloc demo_align_up \<lparr>chain = [\<lparr>start_addr = 0x1080, region_size = 136\<rparr>]\<rparr> 0x1040 demo_layout = Some a'' \<and>
    ll_avail a'' = {0x1008 ..< 0x1108} - {0x1008 ..< 0x1040}"
proof -
  let ?a = "\<lparr>chain = [\<lparr>start_addr = 0x1008, region_size = 256\<rparr>]\<rparr>"
  have "ll_inv ?a" by (simp add: ll_inv_def node_ok_def)
  from linked_list_loses_gap [OF demo_rounding.rounds_up this demo_layout_ok(1,2) demo_alloc]
  show ?thesis by (auto simp: ll_avail_def region_def)
qed

end
