(* ===== verification/Fixed_Size_Block.thy ===== *)
theory Fixed_Size_Block
  imports Linked_List "HOL-Library.Multiset"
begin

text \<open>
  The fixed-size-block allocator, \<^verbatim>\<open>kernel/src/allocator/fixed_size_block.rs\<close>: nine lists of free blocks in front of a fallback heap
  (the linked_list_allocator crate), another alternative to the kernel's allocator. The fallback heap is a parameter that meets
  \<open>heap_interface\<close>; then so does the allocator built on it. As the nodes of a list lie in the free blocks, a list is the list of the
  addresses of its blocks.
\<close>

subsection \<open>Blocks\<close>

definition BLOCK_SIZES :: "nat list" where
  "BLOCK_SIZES = [8, 16, 32, 64, 128, 256, 512, 1024, 2048]"

definition list_index :: "Layout \<Rightarrow> nat option" where
  "list_index l = (let required_block_size = max (lsize l) (lalign l) in position (\<lambda>s. s \<ge> required_block_size) BLOCK_SIZES)"

record 'h FixedSizeBlockAllocator =
  list_heads :: "nat list list"
  fallback_allocator :: 'h

definition FixedSizeBlockAllocator_new :: "'h \<Rightarrow> 'h FixedSizeBlockAllocator" where
  "FixedSizeBlockAllocator_new fallback_empty = \<lparr>list_heads = replicate (length BLOCK_SIZES) [], fallback_allocator = fallback_empty\<rparr>"

definition fixed_init :: "(nat \<Rightarrow> nat \<Rightarrow> 'h \<Rightarrow> 'h option) \<Rightarrow> nat \<Rightarrow> nat \<Rightarrow> 'h FixedSizeBlockAllocator \<Rightarrow> 'h FixedSizeBlockAllocator option" where
  "fixed_init finit start sz a = do {
     h \<leftarrow> finit start sz (fallback_allocator a);
     Some (a\<lparr>fallback_allocator := h\<rparr>) }"

text \<open>The fallback heap answers null when it is full.\<close>

definition fallback_alloc :: "'h alloc_fun \<Rightarrow> 'h FixedSizeBlockAllocator alloc_fun" where
  "fallback_alloc allocate_first_fit a l = do {
     (p, h) \<leftarrow> allocate_first_fit (fallback_allocator a) l;
     Some (p, a\<lparr>fallback_allocator := h\<rparr>) }"

definition block_layout :: "nat \<Rightarrow> Layout" where
  "block_layout index = \<lparr>lsize = BLOCK_SIZES ! index, lalign = BLOCK_SIZES ! index\<rparr>"

definition fixed_alloc :: "'h alloc_fun \<Rightarrow> 'h FixedSizeBlockAllocator alloc_fun" where
  "fixed_alloc allocate_first_fit a l = (case list_index l of
       Some index \<Rightarrow> (case list_heads a ! index of
           node # rest \<Rightarrow> Some (node, a\<lparr>list_heads := (list_heads a)[index := rest]\<rparr>)
         | [] \<Rightarrow> fallback_alloc allocate_first_fit a (block_layout index))
     | None \<Rightarrow> fallback_alloc allocate_first_fit a l)"

text \<open>A node of these lists is one pointer: 8 bytes, aligned to 8.\<close>

definition fixed_dealloc :: "'h dealloc_fun \<Rightarrow> 'h FixedSizeBlockAllocator dealloc_fun" where
  "fixed_dealloc deallocate a p l = (case list_index l of
       Some index \<Rightarrow>
         if BLOCK_SIZES ! index < 8 then None
         else Some (a\<lparr>list_heads := (list_heads a)[index := p # list_heads a ! index]\<rparr>)
     | None \<Rightarrow>
         if p = 0 then None
         else do {
           h \<leftarrow> deallocate (fallback_allocator a) p l;
           Some (a\<lparr>fallback_allocator := h\<rparr>) })"

subsection \<open>The block of a request\<close>

lemma block_sizes_length: "length BLOCK_SIZES = 9"
  by (simp add: BLOCK_SIZES_def)

lemma block_size_pow: "i < 9 \<Longrightarrow> BLOCK_SIZES ! i = 2 ^ (i + 3)"
  by (auto simp: BLOCK_SIZES_def less_Suc_eq numeral_eq_Suc)

lemma block_layout_valid:
  assumes "i < 9"
  shows "layout_valid (block_layout i)" "0 < lsize (block_layout i)" "8 \<le> BLOCK_SIZES ! i"
proof -
  have "(2 :: nat) ^ (i + 3) \<le> 2 ^ 11" "(2 :: nat) ^ 3 \<le> 2 ^ (i + 3)" using assms by (intro power_increasing; simp)+
  then show "layout_valid (block_layout i)" "0 < lsize (block_layout i)" "8 \<le> BLOCK_SIZES ! i"
    using block_size_pow [OF assms] by (auto simp: layout_valid_def block_layout_def)
qed

lemma list_index_block:
  assumes "list_index l = Some i"
  shows "i < 9" "lsize l \<le> BLOCK_SIZES ! i" "lalign l \<le> BLOCK_SIZES ! i"
  using assms by (auto simp: list_index_def position_iff Let_def block_sizes_length)

lemma list_index_align:
  assumes "list_index l = Some i" "layout_valid l"
  shows "lalign l dvd BLOCK_SIZES ! i"
proof -
  obtain k where k: "lalign l = 2 ^ k" using assms(2) by (auto simp: layout_valid_def)
  note b = list_index_block [OF assms(1)]
  have "(2 :: nat) ^ k \<le> 2 ^ (i + 3)" using b(3) block_size_pow [OF b(1)] k by simp
  then have "k \<le> i + 3" by (rule power_le_imp_le_exp [rotated]) simp
  then show ?thesis unfolding k block_size_pow [OF b(1)] by (rule le_imp_power_dvd)
qed

definition served :: "Layout \<Rightarrow> Layout" where
  "served l = (case list_index l of Some i \<Rightarrow> block_layout i | None \<Rightarrow> l)"

lemma served_ok:
  assumes "layout_valid l" "0 < lsize l"
  shows "layout_valid (served l)" "0 < lsize (served l)" "lsize l \<le> lsize (served l)" "lalign l dvd lalign (served l)"
proof -
  consider "served l = l" | i where "list_index l = Some i" "served l = block_layout i"
    unfolding served_def by (cases "list_index l") auto
  then have "layout_valid (served l) \<and> 0 < lsize (served l) \<and> lsize l \<le> lsize (served l) \<and> lalign l dvd lalign (served l)"
  proof cases
    case 2
    note b = list_index_block [OF 2(1)] and v = block_layout_valid [OF list_index_block(1) [OF 2(1)]]
    from v b(2) list_index_align [OF 2(1) assms(1)] show ?thesis unfolding 2(2) by (simp add: block_layout_def)
  qed (use assms in simp)
  then show "layout_valid (served l)" "0 < lsize (served l)" "lsize l \<le> lsize (served l)" "lalign l dvd lalign (served l)" by simp_all
qed

subsection \<open>The blocks on the lists\<close>

definition listed :: "nat list list \<Rightarrow> (nat \<times> Layout) list" where
  "listed hs = concat (map (\<lambda>i. map (\<lambda>p. (p, block_layout i)) (hs ! i)) [0..<9])"

lemma listed_split:
  assumes "length hs = 9" "i < 9"
  obtains xs ys where "\<And>v. listed (hs[i := v]) = xs @ map (\<lambda>p. (p, block_layout i)) v @ ys"
    "listed hs = xs @ map (\<lambda>p. (p, block_layout i)) (hs ! i) @ ys"
proof -
  let ?f = "\<lambda>hs j. map (\<lambda>p. (p, block_layout j)) (hs ! j)"
  have u: "[0..<9] = [0..<i] @ i # [Suc i..<9]"
    using assms(2) upt_add_eq_append [of 0 i "9 - i"] by (simp add: upt_conv_Cons)
  have m: "map (?f (hs[i := v])) [0..<i] = map (?f hs) [0..<i]" "map (?f (hs[i := v])) [Suc i..<9] = map (?f hs) [Suc i..<9]" for v
    by auto
  have e: "listed (hs[i := v]) = concat (map (?f hs) [0..<i]) @ map (\<lambda>p. (p, block_layout i)) v @ concat (map (?f hs) [Suc i..<9])" for v
    unfolding listed_def u map_append list.map m concat_append concat.simps using assms by simp
  from that [OF e] e [of "hs ! i"] show ?thesis by simp
qed

lemma live_disjoint_mset:
  "live_disjoint ext L \<Longrightarrow> mset L = mset L' \<Longrightarrow> live_disjoint ext L' \<and> live_bytes ext L' = live_bytes ext L"
proof (induction L' arbitrary: L)
  case (Cons y L')
  obtain p l where y: "y = (p, l)" by fastforce
  have "y \<in> set L" using Cons.prems(2) by (metis list.set_intros(1) mset_eq_setD)
  note r = live_disjoint_remove1 [OF Cons.prems(1) this [unfolded y]]
  have "mset (remove1 y L) = mset L'" using Cons.prems(2) by simp
  from Cons.IH [OF _ this] r y have "live_disjoint ext L'" "live_bytes ext L' = live_bytes ext L - ext p l" by auto
  moreover have "ext p l \<subseteq> live_bytes ext L" using \<open>y \<in> set L\<close> y by (auto simp: live_bytes_def)
  ultimately show ?case unfolding y live_disjoint_Cons by auto
qed simp

subsection \<open>The contract, from that of the fallback heap\<close>

locale fallback_heap = heap_interface fal fde finv favail fext fowned
  for fal :: "'h alloc_fun" and fde :: "'h dealloc_fun" and finv :: "'h \<Rightarrow> bool" and favail :: "'h \<Rightarrow> nat set"
    and fext :: "nat \<Rightarrow> Layout \<Rightarrow> nat set" and fowned :: "'h \<Rightarrow> nat \<Rightarrow> Layout \<Rightarrow> bool" +
  assumes owned_covers: "fowned h p l \<Longrightarrow> {p ..< p + lsize l} \<subseteq> fext p l"
    and owned_aligned: "fowned h p l \<Longrightarrow> lalign l dvd p"
begin

lemma consistent_mset:
  assumes "consistent h L" "mset L = mset L'"
  shows "consistent h L'" "live_bytes fext L' = live_bytes fext L"
  using assms live_disjoint_mset [of fext L L'] mset_eq_setD [OF assms(2)] by (auto simp: consistent_def)

lemma consistent_Cons:
  "consistent h ((p, l) # L) \<longleftrightarrow> consistent h L \<and> fowned h p l \<and> fext p l \<inter> (favail h \<union> live_bytes fext L) = {}"
  by (auto simp: consistent_def live_disjoint_Cons simp del: live_disjoint.simps)

definition fixed_inv :: "'h FixedSizeBlockAllocator \<Rightarrow> bool" where
  "fixed_inv a \<longleftrightarrow> length (list_heads a) = 9 \<and> consistent (fallback_allocator a) (listed (list_heads a)) \<and>
     (\<forall>(p, l) \<in> set (listed (list_heads a)). p \<noteq> 0)"

definition fixed_avail :: "'h FixedSizeBlockAllocator \<Rightarrow> nat set" where
  "fixed_avail a = favail (fallback_allocator a) \<union> live_bytes fext (listed (list_heads a))"

definition fixed_ext :: "nat \<Rightarrow> Layout \<Rightarrow> nat set" where
  "fixed_ext p l = fext p (served l)"

definition fixed_owned :: "'h FixedSizeBlockAllocator \<Rightarrow> nat \<Rightarrow> Layout \<Rightarrow> bool" where
  "fixed_owned a p l \<longleftrightarrow> p \<noteq> 0 \<and> layout_valid l \<and> 0 < lsize l \<and> fowned (fallback_allocator a) p (served l)"

text \<open>Moving a block on or off a list.\<close>

lemma list_block:
  assumes "length hs = 9" "i < 9" "v = p # hs ! i \<or> p # v = hs ! i" "big = (if v = p # hs ! i then hs[i := v] else hs)"
    "small = (if v = p # hs ! i then hs else hs[i := v])"
  shows "consistent h (listed big) \<longleftrightarrow> consistent h ((p, block_layout i) # listed small)"
    "consistent h (listed big) \<Longrightarrow> live_bytes fext (listed big) = fext p (block_layout i) \<union> live_bytes fext (listed small)"
    "set (listed big) = insert (p, block_layout i) (set (listed small))"
proof -
  obtain xs ys where l: "\<And>v. listed (hs[i := v]) = xs @ map (\<lambda>p. (p, block_layout i)) v @ ys"
    "listed hs = xs @ map (\<lambda>p. (p, block_layout i)) (hs ! i) @ ys" using listed_split [OF assms(1,2)] by metis
  have m: "mset ((p, block_layout i) # listed small) = mset (listed big)"
  proof (cases "v = p # hs ! i")
    case True
    then show ?thesis unfolding assms(4,5) using l by simp
  next
    case False
    then have "hs ! i = p # v" using assms(3) by simp
    with False show ?thesis unfolding assms(4,5) using l by simp
  qed
  show "consistent h (listed big) \<longleftrightarrow> consistent h ((p, block_layout i) # listed small)"
    using consistent_mset(1) [OF _ m] consistent_mset(1) [OF _ m [symmetric]] by blast
  show "set (listed big) = insert (p, block_layout i) (set (listed small))" using mset_eq_setD [OF m] by simp
  assume "consistent h (listed big)"
  from consistent_mset(2) [OF this m [symmetric]]
  show "live_bytes fext (listed big) = fext p (block_layout i) \<union> live_bytes fext (listed small)" by simp
qed

lemma take_block:
  assumes "fixed_inv a" "i < 9" "list_heads a ! i = p # rest" "a' = a\<lparr>list_heads := (list_heads a)[i := rest]\<rparr>"
  shows "fixed_inv a'" "p \<noteq> 0" "fowned (fallback_allocator a) p (block_layout i)"
    "fixed_avail a = fext p (block_layout i) \<union> fixed_avail a'" "fext p (block_layout i) \<inter> fixed_avail a' = {}"
proof -
  have ne: "rest \<noteq> p # list_heads a ! i" unfolding assms(3) using arg_cong [of rest "p # p # rest" length] by auto
  have len: "length (list_heads a) = 9" using assms(1) by (simp add: fixed_inv_def)
  note b = list_block [OF len assms(2), of rest p "list_heads a" "list_heads a'"]
  have c: "consistent (fallback_allocator a) ((p, block_layout i) # listed (list_heads a'))"
    "set (listed (list_heads a)) = insert (p, block_layout i) (set (listed (list_heads a')))"
    "live_bytes fext (listed (list_heads a)) = fext p (block_layout i) \<union> live_bytes fext (listed (list_heads a'))"
    using b assms ne by (auto simp: fixed_inv_def)
  then show "fixed_inv a'" "p \<noteq> 0" using assms(1,4) by (auto simp: fixed_inv_def consistent_Cons)
  show "fowned (fallback_allocator a) p (block_layout i)" "fixed_avail a = fext p (block_layout i) \<union> fixed_avail a'"
    "fext p (block_layout i) \<inter> fixed_avail a' = {}"
    using c assms(4) by (auto simp: consistent_Cons fixed_avail_def)
qed

lemma put_block:
  assumes "fixed_inv a" "i < 9" "p \<noteq> 0" "fowned (fallback_allocator a) p (block_layout i)" "fext p (block_layout i) \<inter> fixed_avail a = {}"
    "a' = a\<lparr>list_heads := (list_heads a)[i := p # list_heads a ! i]\<rparr>"
  shows "fixed_inv a'" "fixed_avail a' = fixed_avail a \<union> fext p (block_layout i)"
proof -
  have len: "length (list_heads a) = 9" using assms(1) by (simp add: fixed_inv_def)
  note b = list_block [OF len assms(2), of "p # list_heads a ! i" p "list_heads a'" "list_heads a"]
  have c: "consistent (fallback_allocator a) (listed (list_heads a'))"
    "set (listed (list_heads a')) = insert (p, block_layout i) (set (listed (list_heads a)))"
    "live_bytes fext (listed (list_heads a')) = fext p (block_layout i) \<union> live_bytes fext (listed (list_heads a))"
    using b assms by (auto simp: fixed_inv_def consistent_Cons fixed_avail_def)
  then show "fixed_inv a'" "fixed_avail a' = fixed_avail a \<union> fext p (block_layout i)"
    using assms by (auto simp: fixed_inv_def fixed_avail_def)
qed

lemma fallback_mono:
  assumes "fixed_inv a" "finv h" "favail h \<inter> live_bytes fext (listed (list_heads a)) = {}"
    "\<forall>q m. fowned (fallback_allocator a) q m \<longrightarrow> fowned h q m"
  shows "fixed_inv (a\<lparr>fallback_allocator := h\<rparr>)"
  using assms by (auto simp: fixed_inv_def consistent_def)

lemma fallback_alloc_ok:
  assumes "fixed_inv a" "layout_valid l" "0 < lsize l" "fallback_alloc fal a l = Some (p, a')"
  shows "if p = 0 then a' = a else fixed_inv a' \<and> fext p l \<subseteq> fixed_avail a \<and> fixed_avail a' \<subseteq> fixed_avail a - fext p l \<and>
    fowned (fallback_allocator a') p l \<and> (\<forall>q m. fowned (fallback_allocator a) q m \<longrightarrow> fowned (fallback_allocator a') q m)"
proof -
  from assms(4) obtain h where h: "fal (fallback_allocator a) l = Some (p, h)" "a' = a\<lparr>fallback_allocator := h\<rparr>"
    by (auto simp: fallback_alloc_def split: bind_splits)
  have c: "finv (fallback_allocator a)" "favail (fallback_allocator a) \<inter> live_bytes fext (listed (list_heads a)) = {}"
    using assms(1) by (simp_all add: fixed_inv_def consistent_def)
  show ?thesis
  proof (cases "p = 0")
    case True
    then show ?thesis using alloc_refuses [OF c(1) assms(2,3), of h] h by simp
  next
    case False
    note t = alloc_takes [OF c(1) assms(2,3) h(1) False]
    have "fixed_inv a'" unfolding h(2) by (rule fallback_mono [OF assms(1)]) (use t c in auto)
    with t c(2) h(2) False show ?thesis by (auto simp: fixed_avail_def)
  qed
qed

lemma fixed_alloc_ok:
  assumes "fixed_inv a" "layout_valid l" "0 < lsize l" "fixed_alloc fal a l = Some (p, a')"
  shows "if p = 0 then a' = a else fixed_inv a' \<and> fixed_ext p l \<subseteq> fixed_avail a \<and> fixed_avail a' \<subseteq> fixed_avail a - fixed_ext p l \<and>
    fixed_owned a' p l \<and> (\<forall>q m. fixed_owned a q m \<longrightarrow> fixed_owned a' q m)"
proof (cases "\<exists>i node rest. list_index l = Some i \<and> list_heads a ! i = node # rest")
  case True
  then obtain i rest where i: "list_index l = Some i" "list_heads a ! i = p # rest" "a' = a\<lparr>list_heads := (list_heads a)[i := rest]\<rparr>"
    using assms(4) by (auto simp: fixed_alloc_def)
  note t = take_block [OF assms(1) list_index_block(1) [OF i(1)] i(2,3)]
  have "served l = block_layout i" using i(1) by (simp add: served_def)
  with t assms(2,3) i(3) show ?thesis unfolding fixed_owned_def fixed_ext_def by auto
next
  case False
  then have "fallback_alloc fal a (served l) = Some (p, a')"
    using assms(4) by (auto simp: fixed_alloc_def served_def split: option.splits list.splits)
  from fallback_alloc_ok [OF assms(1) served_ok(1,2) [OF assms(2,3)] this] assms(2,3) show ?thesis
    unfolding fixed_owned_def fixed_ext_def by auto
qed

lemma fixed_dealloc_ok:
  assumes "fixed_inv a" "fixed_owned a p l" "fixed_ext p l \<inter> fixed_avail a = {}"
  shows "\<exists>a'. fixed_dealloc fde a p l = Some a' \<and> fixed_inv a' \<and> fixed_avail a' \<subseteq> fixed_avail a \<union> fixed_ext p l \<and>
    (\<forall>q m. fixed_owned a q m \<longrightarrow> fixed_owned a' q m)"
proof (cases "list_index l")
  case (Some i)
  then have s: "served l = block_layout i" "i < 9" using list_index_block by (auto simp: served_def)
  have "p \<noteq> 0" "fowned (fallback_allocator a) p (block_layout i)" "fext p (block_layout i) \<inter> fixed_avail a = {}"
    using assms(2,3) s(1) by (simp_all add: fixed_owned_def fixed_ext_def)
  note b = put_block [OF assms(1) s(2) this refl]
  have "\<not> BLOCK_SIZES ! i < 8" using block_layout_valid(3) [OF s(2)] by simp
  with Some b s(1) show ?thesis by (auto simp: fixed_dealloc_def fixed_owned_def fixed_ext_def)
next
  case None
  then have s: "served l = l" by (simp add: served_def)
  have c: "finv (fallback_allocator a)" "favail (fallback_allocator a) \<inter> live_bytes fext (listed (list_heads a)) = {}"
    using assms(1) by (simp_all add: fixed_inv_def consistent_def)
  have o: "fowned (fallback_allocator a) p l" "fext p l \<inter> favail (fallback_allocator a) = {}"
    "fext p l \<inter> live_bytes fext (listed (list_heads a)) = {}" "p \<noteq> 0"
    using assms(2,3) s by (auto simp: fixed_owned_def fixed_ext_def fixed_avail_def)
  from dealloc_returns [OF c(1) o(1,2)] obtain h where h: "fde (fallback_allocator a) p l = Some h" "finv h"
    "favail h \<subseteq> favail (fallback_allocator a) \<union> fext p l" "\<forall>q m. fowned (fallback_allocator a) q m \<longrightarrow> fowned h q m" by blast
  have "fixed_inv (a\<lparr>fallback_allocator := h\<rparr>)" by (rule fallback_mono [OF assms(1) h(2) _ h(4)]) (use h(3) c(2) o(3) in blast)
  with None h o(4) s show ?thesis by (auto simp: fixed_dealloc_def fixed_owned_def fixed_ext_def fixed_avail_def)
qed

end

sublocale fallback_heap \<subseteq> fixed: heap_interface "fixed_alloc fal" "fixed_dealloc fde" fixed_inv fixed_avail fixed_ext fixed_owned
proof unfold_locales
  fix a a' l p
  assume inv: "fixed_inv a"
  { assume l: "layout_valid l" "0 < lsize l"
    { assume "fixed_alloc fal a l = Some (p, a')" "p \<noteq> 0"
      with fixed_alloc_ok [OF inv l] show "fixed_inv a' \<and> fixed_ext p l \<subseteq> fixed_avail a \<and> fixed_avail a' \<subseteq> fixed_avail a - fixed_ext p l \<and>
        fixed_owned a' p l \<and> (\<forall>q m. fixed_owned a q m \<longrightarrow> fixed_owned a' q m)" by force }
    { assume "fixed_alloc fal a l = Some (0, a')" with fixed_alloc_ok [OF inv l] show "a' = a" by force } }
qed (rule fixed_dealloc_ok)

context fallback_heap
begin

lemma fixed_start:
  assumes "finv h0"
  shows "fixed_inv (FixedSizeBlockAllocator_new h0)" "fixed_avail (FixedSizeBlockAllocator_new h0) = favail h0"
proof -
  have "listed (list_heads (FixedSizeBlockAllocator_new h0)) = []"
    by (simp add: listed_def FixedSizeBlockAllocator_new_def block_sizes_length concat_eq_Nil_conv)
  then show "fixed_inv (FixedSizeBlockAllocator_new h0)" "fixed_avail (FixedSizeBlockAllocator_new h0) = favail h0"
    using assms by (simp_all add: fixed_inv_def fixed_avail_def consistent_def FixedSizeBlockAllocator_new_def block_sizes_length)
qed

lemma fixed_owned_bytes:
  assumes "fixed_owned a p l"
  shows "{p ..< p + lsize l} \<subseteq> fixed_ext p l" "lalign l dvd p"
proof -
  have o: "fowned (fallback_allocator a) p (served l)" "layout_valid l" "0 < lsize l" using assms by (simp_all add: fixed_owned_def)
  note s = served_ok [OF o(2,3)]
  have "{p ..< p + lsize l} \<subseteq> {p ..< p + lsize (served l)}" using s(3) by auto
  then show "{p ..< p + lsize l} \<subseteq> fixed_ext p l" using owned_covers [OF o(1)] unfolding fixed_ext_def by blast
  show "lalign l dvd p" using s(4) owned_aligned [OF o(1)] by (rule dvd_trans)
qed

lemma fixed_safe:
  assumes "finv h0" "heap_reach (fixed_alloc fal) (fixed_dealloc fde) (FixedSizeBlockAllocator_new h0) (a, L)"
  shows "live_disjoint (\<lambda>p l. {p ..< p + lsize l}) L \<and>
    (\<forall>(p, l) \<in> set L. {p ..< p + lsize l} \<subseteq> favail h0 \<and> lalign l dvd p \<and> (\<exists>a'. fixed_dealloc fde a p l = Some a'))"
proof -
  note i = fixed_start [OF assms(1)]
  from fixed.reach_consistent [OF assms(2) i(1)]
  have c: "live_disjoint fixed_ext L" "\<forall>(p, l) \<in> set L. fixed_owned a p l" by (auto simp: fixed.consistent_def)
  have "live_disjoint (\<lambda>p l. {p ..< p + lsize l}) L"
    by (rule live_disjoint_mono [OF c(1)]) (use c(2) fixed_owned_bytes(1) in blast)
  moreover have "{p ..< p + lsize l} \<subseteq> favail h0 \<and> lalign l dvd p \<and> (\<exists>a'. fixed_dealloc fde a p l = Some a')" if "(p, l) \<in> set L" for p l
    using fixed.reach_frees [OF assms(2) i(1) that] fixed_owned_bytes [of a p l] i(2) by blast
  ultimately show ?thesis by blast
qed

end

subsection \<open>Properties\<close>

text \<open>C36. The fixed-size-block allocator turns a safe heap into a safe heap: on every fallback heap that meets the contract, over every
  sequence of allocations and releases, live allocations are disjoint, aligned, inside the memory of the fallback heap, and can be
  freed without panic.\<close>

theorem fixed_size_heap_safe:
  assumes "fallback_heap fal fde finv favail fext fowned" "finv h0"
    "heap_reach (fixed_alloc fal) (fixed_dealloc fde) (FixedSizeBlockAllocator_new h0) (a, L)"
  shows "live_disjoint (\<lambda>p l. {p ..< p + lsize l}) L \<and>
    (\<forall>(p, l) \<in> set L. {p ..< p + lsize l} \<subseteq> favail h0 \<and> lalign l dvd p \<and> (\<exists>a'. fixed_dealloc fde a p l = Some a'))"
  by (rule fallback_heap.fixed_safe [OF assms])

text \<open>The linked-list allocator of this kernel as the fallback heap.\<close>

interpretation fixed_on_list: fallback_heap "ll_alloc demo_align_up" "ll_dealloc demo_align_up" ll_inv ll_avail ll_ext ll_owned
  by unfold_locales (rule ll_owned_bytes, assumption, simp add: ll_owned_def)

definition small_layout :: Layout where
  "small_layout = \<lparr>lsize = 24, lalign = 8\<rparr>"

lemma small_layout_ok: "layout_valid small_layout" "0 < lsize small_layout" "list_index small_layout = Some 2"
  "size_align (block_layout 2) = Some (32, 32)"
proof -
  show "layout_valid small_layout" "0 < lsize small_layout"
    by (auto simp: layout_valid_def small_layout_def intro!: exI [of _ 3])
  show "list_index small_layout = Some 2" by (simp add: small_layout_def list_index_def BLOCK_SIZES_def)
  have "block_layout 2 = \<lparr>lsize = 32, lalign = 32\<rparr>" by (simp add: block_layout_def BLOCK_SIZES_def)
  then show "size_align (block_layout 2) = Some (32, 32)"
    by (simp add: size_align_def align_to_def pad_to_align_def NODE_ALIGN_def NODE_SIZE_def)
qed

lemma small_alloc:
  "fixed_alloc (ll_alloc demo_align_up) (FixedSizeBlockAllocator_new \<lparr>chain = [\<lparr>start_addr = 0x1008, region_size = 256\<rparr>]\<rparr>) small_layout =
    Some (0x1020, FixedSizeBlockAllocator_new \<lparr>chain = [\<lparr>start_addr = 0x1040, region_size = 200\<rparr>]\<rparr>)"
  by (simp add: fixed_alloc_def small_layout_ok FixedSizeBlockAllocator_new_def block_sizes_length fallback_alloc_def ll_alloc_def
      find_region_def alloc_from_region_def end_addr_def usize_simps demo_align_up_def NODE_SIZE_def NODE_ALIGN_def add_free_region_def Let_def)

theorem fixed_size_heap_safe_witness:
  "{0x1020 ..< 0x1038} \<subseteq> {0x1008 ..< (0x1108 :: nat)} \<and>
   (\<exists>a'. fixed_dealloc (ll_dealloc demo_align_up) (FixedSizeBlockAllocator_new \<lparr>chain = [\<lparr>start_addr = 0x1040, region_size = 200\<rparr>]\<rparr>)
      0x1020 small_layout = Some a')"
proof -
  let ?h = "\<lparr>chain = [\<lparr>start_addr = 0x1008, region_size = 256\<rparr>]\<rparr>"
  have h: "ll_inv ?h" "ll_avail ?h = {0x1008 ..< 0x1108}" by (auto simp: ll_inv_def node_ok_def ll_avail_def region_def)
  have "heap_reach (fixed_alloc (ll_alloc demo_align_up)) (fixed_dealloc (ll_dealloc demo_align_up)) (FixedSizeBlockAllocator_new ?h)
      (FixedSizeBlockAllocator_new \<lparr>chain = [\<lparr>start_addr = 0x1040, region_size = 200\<rparr>]\<rparr>, [(0x1020, small_layout)])"
    by (rule heap_reach.step [OF heap_reach.start], rule heap_step.allocated) (simp_all add: small_layout_ok small_alloc)
  from fixed_size_heap_safe [OF fixed_on_list.fallback_heap_axioms h(1) this] h(2) show ?thesis
    by (simp add: small_layout_def)
qed

end
