(* ===== verification/Bump.thy ===== *)
theory Bump
  imports Linked_List
begin

text \<open>
  The bump allocator, \<^verbatim>\<open>kernel/src/allocator/bump.rs\<close>, the third alternative to the kernel's allocator: allocations move a pointer
  forward, and the whole heap is free again when the last allocation is released. Rounding is the parameter of \<open>Linked_List\<close>.
\<close>

subsection \<open>State and operations\<close>

record BumpAllocator =
  bump_start :: nat
  bump_end :: nat
  bump_next :: nat
  allocations :: nat

definition BumpAllocator_new :: BumpAllocator where
  "BumpAllocator_new = \<lparr>bump_start = 0, bump_end = 0, bump_next = 0, allocations = 0\<rparr>"

definition saturating_add :: "nat \<Rightarrow> nat \<Rightarrow> nat" where
  "saturating_add a b = min (a + b) (2 ^ 64 - 1)"

definition bump_init :: "nat \<Rightarrow> nat \<Rightarrow> BumpAllocator \<Rightarrow> BumpAllocator" where
  "bump_init heap_start heap_size a =
     a\<lparr>bump_start := heap_start, bump_end := saturating_add heap_start heap_size, bump_next := heap_start\<rparr>"

definition bump_alloc :: "align_fun \<Rightarrow> BumpAllocator alloc_fun" where
  "bump_alloc align_up bump l = (
     let alloc_start = align_up (bump_next bump) (lalign l) in
     if alloc_start + lsize l \<ge> 2 ^ 64 then Some (0, bump)
     else let alloc_end = alloc_start + lsize l in
       if alloc_end > bump_end bump then Some (0, bump)
       else Some (alloc_start, bump\<lparr>bump_next := alloc_end, allocations := uadd (allocations bump) 1\<rparr>))"

definition bump_dealloc :: "BumpAllocator dealloc_fun" where
  "bump_dealloc bump p l = (
     let bump = bump\<lparr>allocations := usub (allocations bump) 1\<rparr> in
     Some (if allocations bump = 0 then bump\<lparr>bump_next := bump_start bump\<rparr> else bump))"

subsection \<open>The invariant\<close>

text \<open>The counter counts the live allocations, and all of them lie below the pointer.\<close>

definition bump_inv :: "BumpAllocator \<Rightarrow> (nat \<times> Layout) list \<Rightarrow> bool" where
  "bump_inv b L \<longleftrightarrow> 0 < bump_start b \<and> bump_start b \<le> bump_next b \<and> bump_next b \<le> bump_end b \<and> bump_end b < 2 ^ 63 \<and>
     allocations b = length L \<and> length L \<le> bump_next b - bump_start b \<and> live_disjoint (\<lambda>p l. {p ..< p + lsize l}) L \<and>
     (\<forall>(p, l) \<in> set L. bump_start b \<le> p \<and> p + lsize l \<le> bump_next b \<and> lalign l dvd p)"

lemma bump_alloc_inv:
  assumes "align_up_ok align_up" "bump_inv b L" "layout_valid l" "0 < lsize l" "bump_alloc align_up b l = Some (p, b')"
  shows "if p = 0 then b' = b else bump_inv b' ((p, l) # L)"
proof (cases "b' = b")
  case False
  obtain k where k: "lalign l = 2 ^ k" using assms(3) by (auto simp: layout_valid_def)
  have "(2 :: nat) ^ k \<le> 2 ^ 63" using assms(3) k layout_validD(3) by metis
  then have "k \<le> 63" by (rule power_le_imp_le_exp [rotated]) simp
  moreover have i: "0 < bump_start b" "bump_start b \<le> bump_next b" "bump_next b < 2 ^ 63" "length L \<le> bump_next b - bump_start b"
    "allocations b = length L" "bump_end b < 2 ^ 63" "live_disjoint (\<lambda>p l. {p ..< p + lsize l}) L"
    "\<forall>(p, l) \<in> set L. bump_start b \<le> p \<and> p + lsize l \<le> bump_next b \<and> lalign l dvd p"
    using assms(2) by (simp_all add: bump_inv_def)
  ultimately have al: "lalign l dvd align_up (bump_next b) (lalign l)" "bump_next b \<le> align_up (bump_next b) (lalign l)"
    using align_up_pow(1,2) [OF assms(1) i(3)] unfolding k by simp_all
  have p: "p = align_up (bump_next b) (lalign l)" "p + lsize l \<le> bump_end b"
    "b' = b\<lparr>bump_next := p + lsize l, allocations := uadd (allocations b) 1\<rparr>"
    using assms(5) False by (auto simp: bump_alloc_def Let_def split: if_splits)
  have c: "uadd (allocations b) 1 = Suc (length L)" using i(3-5) by (simp add: usize_simps)
  have "{p ..< p + lsize l} \<inter> live_bytes (\<lambda>p l. {p ..< p + lsize l}) L = {}"
    using i(8) al(2) unfolding p(1) [symmetric] by (fastforce simp: live_bytes_def)
  then have "live_disjoint (\<lambda>p l. {p ..< p + lsize l}) ((p, l) # L)" using i(7) by (simp only: live_disjoint_Cons)
  moreover have "\<forall>(q, m) \<in> set ((p, l) # L). bump_start b \<le> q \<and> q + lsize m \<le> p + lsize l \<and> lalign m dvd q"
    using i(2,8) al unfolding p(1) [symmetric] by fastforce
  moreover have "bump_start b \<le> p" "bump_next b \<le> p" "0 < p" using i(1,2) al(2) p(1) by simp_all
  ultimately show ?thesis
    using i p(2,3) c assms(4) by (simp add: bump_inv_def del: live_disjoint.simps)
next
  case True
  have "p = 0"
  proof (rule ccontr)
    assume "p \<noteq> 0"
    then have "b' = b\<lparr>bump_next := p + lsize l, allocations := uadd (allocations b) 1\<rparr>"
      using assms(5) by (auto simp: bump_alloc_def Let_def split: if_splits)
    then have "allocations b' = uadd (allocations b) 1" by simp
    moreover have "uadd (allocations b) 1 = allocations b + 1" by (rule uadd_small) (use assms(2) in \<open>auto simp: bump_inv_def\<close>)
    ultimately show False using True by simp
  qed
  with True show ?thesis by simp
qed

lemma bump_dealloc_inv:
  assumes "bump_inv b L" "(p, l) \<in> set L" "bump_dealloc b p l = Some b'"
  shows "bump_inv b' (remove1 (p, l) L) \<and> (remove1 (p, l) L = [] \<longrightarrow> bump_next b' = bump_start b')"
proof -
  have n: "allocations b = length L" "0 < length L" "length L \<le> bump_next b - bump_start b" "bump_next b < 2 ^ 63"
    using assms(1,2) by (auto simp: bump_inv_def)
  have c: "usub (allocations b) 1 = length (remove1 (p, l) L)" 
  proof -
    have "1 \<le> length L" "length L < 2 ^ 64" using n by (simp_all add: Suc_le_eq)
    then have "usub (length L) 1 = length L - 1" by (rule usub_small)
    then show ?thesis using n(1) assms(2) by (simp add: length_remove1)
  qed
  have sub: "set (remove1 (p, l) L) \<subseteq> set L" by (rule set_remove1_subset)
  have d: "live_disjoint (\<lambda>p l. {p ..< p + lsize l}) (remove1 (p, l) L)"
    using live_disjoint_remove1 [OF _ assms(2)] assms(1) by (simp add: bump_inv_def)
  show ?thesis
  proof (cases "remove1 (p, l) L = []")
    case True
    then have "b' = b\<lparr>allocations := 0, bump_next := bump_start b\<rparr>" using assms(3) c by (simp add: bump_dealloc_def)
    with True assms(1) show ?thesis by (simp add: bump_inv_def)
  next
    case False
    then have "b' = b\<lparr>allocations := length (remove1 (p, l) L)\<rparr>" using assms(3) c by (simp add: bump_dealloc_def)
    moreover have "length (remove1 (p, l) L) \<le> length L" by (simp add: length_remove1)
    ultimately show ?thesis using False assms(1) sub d by (auto simp: bump_inv_def)
  qed
qed

lemma bump_init_inv:
  assumes "0 < start" "start + sz < 2 ^ 63"
  shows "bump_inv (bump_init start sz BumpAllocator_new) []"
  using assms by (simp add: bump_inv_def bump_init_def BumpAllocator_new_def saturating_add_def)

lemma bump_reach_inv:
  assumes "align_up_ok align_up" "heap_reach (bump_alloc align_up) bump_dealloc b0 (b, L)" "bump_inv b0 []" "bump_next b0 = bump_start b0"
  shows "bump_inv b L \<and> bump_start b = bump_start b0 \<and> bump_end b = bump_end b0 \<and> (L = [] \<longrightarrow> bump_next b = bump_start b)"
  using assms(2)
proof (induction "(b, L)" arbitrary: b L rule: heap_reach.induct)
  case (step s)
  obtain c M where s: "s = (c, M)" by fastforce
  with step have st: "heap_step (bump_alloc align_up) bump_dealloc (c, M) (b, L)" by simp
  note IH = step.hyps(2) [OF s]
  from st show ?case
  proof (cases rule: heap_stepE)
    case (allocated l p d)
    have "bump_start d = bump_start c" "bump_end d = bump_end c"
      using allocated(4) by (auto simp: bump_alloc_def Let_def split: if_splits)
    with bump_alloc_inv [OF assms(1) _ allocated(2-4)] IH allocated show ?thesis by auto
  next
    case (refused l d)
    with bump_alloc_inv [OF assms(1) _ refused(2-4)] IH show ?thesis by auto
  next
    case (freed p l d)
    have "bump_start d = bump_start c" "bump_end d = bump_end c"
      using freed(3) by (auto simp: bump_dealloc_def Let_def)
    with bump_dealloc_inv [OF _ freed(2,3)] IH freed show ?thesis by auto
  qed
qed (use assms in simp)

subsection \<open>Properties\<close>

text \<open>C38. The bump allocator is a safe heap: over every sequence of allocations and releases, live allocations are disjoint, inside the
  heap and aligned, no operation panics, the counter is the number of live allocations (so it never wraps below zero), and whenever
  none is left the whole heap is available again.\<close>

theorem bump_heap_safe:
  assumes "align_up_ok align_up" "0 < start" "start + sz < 2 ^ 63"
    "heap_reach (bump_alloc align_up) bump_dealloc (bump_init start sz BumpAllocator_new) (b, L)"
  shows "live_disjoint (\<lambda>p l. {p ..< p + lsize l}) L \<and>
    (\<forall>(p, l) \<in> set L. start \<le> p \<and> p + lsize l \<le> start + sz \<and> lalign l dvd p) \<and>
    allocations b = length L \<and> (L = [] \<longrightarrow> b = bump_init start sz BumpAllocator_new) \<and>
    (\<forall>p l. bump_alloc align_up b l \<noteq> None \<and> bump_dealloc b p l \<noteq> None)"
proof -
  let ?b0 = "bump_init start sz BumpAllocator_new"
  have b0: "bump_next ?b0 = bump_start ?b0" "bump_start ?b0 = start" "bump_end ?b0 = start + sz" "allocations ?b0 = 0"
    using assms(3) by (simp_all add: bump_init_def saturating_add_def BumpAllocator_new_def)
  note r = bump_reach_inv [OF assms(1,4) bump_init_inv [OF assms(2,3)] b0(1)]
  have "L = [] \<longrightarrow> b = ?b0" using r b0 by (auto simp: bump_inv_def)
  moreover have "bump_alloc align_up b l \<noteq> None" "bump_dealloc b p l \<noteq> None" for p l
    by (simp_all add: bump_alloc_def bump_dealloc_def Let_def)
  moreover have "start \<le> p \<and> p + lsize l \<le> start + sz \<and> lalign l dvd p" if "(p, l) \<in> set L" for p l
    using r b0 that by (fastforce simp: bump_inv_def)
  ultimately show ?thesis using r by (auto simp: bump_inv_def)
qed

lemma demo_bump_alloc: "bump_alloc demo_align_up (bump_init 0x1008 256 BumpAllocator_new) demo_layout =
  Some (0x1040, (bump_init 0x1008 256 BumpAllocator_new)\<lparr>bump_next := 0x1058, allocations := 1\<rparr>)"
  by (simp add: bump_alloc_def bump_init_def BumpAllocator_new_def saturating_add_def demo_align_up_def demo_layout_def usize_simps)

theorem bump_heap_safe_witness:
  "lalign demo_layout dvd 0x1040 \<and> 0x1040 + lsize demo_layout \<le> 0x1008 + 256 \<and>
   allocations ((bump_init 0x1008 256 BumpAllocator_new)\<lparr>bump_next := 0x1058, allocations := 1\<rparr>) = length [(0x1040 :: nat, demo_layout)]"
proof -
  have "heap_reach (bump_alloc demo_align_up) bump_dealloc (bump_init 0x1008 256 BumpAllocator_new)
      ((bump_init 0x1008 256 BumpAllocator_new)\<lparr>bump_next := 0x1058, allocations := 1\<rparr>, [(0x1040, demo_layout)])"
    by (rule heap_reach.step [OF heap_reach.start], rule heap_step.allocated) (simp_all add: demo_layout_ok demo_bump_alloc)
  from bump_heap_safe [OF demo_rounding.rounds_up _ _ this] show ?thesis by simp
qed

end
