(* ===== verification/Executor.thy ===== *)
theory Executor
  imports Rust_Prelude
begin

text \<open>
  The cooperative scheduler: \<^verbatim>\<open>kernel/src/task/mod.rs\<close> (tasks, task ids, \<open>yield_now\<close>),
  \<^verbatim>\<open>kernel/src/task/executor.rs\<close> (the executor with its ready queue and wakers) and
  \<^verbatim>\<open>kernel/src/task/simple_executor.rs\<close>. What a task does when it is polled is a parameter
  \<open>F\<close>: from the future, the waker it gets and the rest of the machine it gives whether it is
  finished, the future and the machine afterwards, and the tasks it woke, in order.
\<close>

subsection \<open>Tasks\<close>

type_synonym TaskId = u64

datatype pollr = Finished | Blocked

record 'f Task =
  tid :: TaskId
  future :: 'f

type_synonym ('f, 'env) poll_fun = "'f \<Rightarrow> TaskId \<Rightarrow> 'env \<Rightarrow> pollr \<times> 'f \<times> TaskId list \<times> 'env"

text \<open>\<open>NEXT_ID.fetch_add(1)\<close>: the id and the counter afterwards.\<close>

definition TaskId_new :: "u64 \<Rightarrow> TaskId \<times> u64" where
  "TaskId_new next_id = (next_id, next_id + 1)"

definition Task_new :: "'f \<Rightarrow> u64 \<Rightarrow> 'f Task \<times> u64" where
  "Task_new fut next_id = (let (i, n) = TaskId_new next_id in (\<lparr>tid = i, future = fut\<rparr>, n))"

record YieldNow =
  yielded :: bool

definition yield_now :: YieldNow where
  "yield_now = \<lparr>yielded = False\<rparr>"

definition YieldNow_poll :: "YieldNow \<Rightarrow> TaskId \<Rightarrow> pollr \<times> YieldNow \<times> TaskId list" where
  "YieldNow_poll y waker =
     (if yielded y then (Finished, y, []) else (Blocked, y\<lparr>yielded := True\<rparr>, [waker]))"

subsection \<open>The executor\<close>

text \<open>The bounded lock-free queue of the crossbeam crate is a parameter: \<open>push\<close> fails when it is full.\<close>

record 'q ArrayQueue =
  aq_new :: "nat \<Rightarrow> 'q"
  aq_push :: "TaskId \<Rightarrow> 'q \<Rightarrow> 'q option"
  aq_pop :: "'q \<Rightarrow> (TaskId \<times> 'q) option"
  aq_is_empty :: "'q \<Rightarrow> bool"

definition array_queue :: "'q ArrayQueue \<Rightarrow> ('q \<Rightarrow> TaskId list) \<Rightarrow> nat \<Rightarrow> bool" where
  "array_queue Q view cap \<longleftrightarrow>
     view (aq_new Q cap) = [] \<and>
     (\<forall>t q. if length (view q) < cap then \<exists>q'. aq_push Q t q = Some q' \<and> view q' = view q @ [t]
            else aq_push Q t q = None) \<and>
     (\<forall>q. case view q of [] \<Rightarrow> aq_pop Q q = None
          | t # ts \<Rightarrow> \<exists>q'. aq_pop Q q = Some (t, q') \<and> view q' = ts) \<and>
     (\<forall>q. aq_is_empty Q q \<longleftrightarrow> view q = [])"

definition list_queue :: "nat \<Rightarrow> TaskId list ArrayQueue" where
  "list_queue cap = \<lparr>aq_new = \<lambda>_. [],
     aq_push = \<lambda>t q. if length q < cap then Some (q @ [t]) else None,
     aq_pop = \<lambda>q. case q of [] \<Rightarrow> None | t # ts \<Rightarrow> Some (t, ts), aq_is_empty = \<lambda>q. q = []\<rparr>"

lemma list_queue_ok: "array_queue (list_queue cap) (\<lambda>q. q) cap"
  by (simp add: array_queue_def list_queue_def split: list.splits)

text \<open>A cached waker is the id of the task it wakes; the ready queue it pushes to is the one of the executor.\<close>

record ('f, 'q) MictExecutor =
  process_registry :: "TaskId \<rightharpoonup> 'f Task"
  ready_queue :: 'q
  waker_cache :: "TaskId \<rightharpoonup> TaskId"
  current_tick :: u64

definition MictExecutor_new :: "'q ArrayQueue \<Rightarrow> ('f, 'q) MictExecutor" where
  "MictExecutor_new Q = \<lparr>process_registry = Map.empty, ready_queue = aq_new Q 100,
     waker_cache = Map.empty, current_tick = 0\<rparr>"

definition spawn :: "'q ArrayQueue \<Rightarrow> 'f Task \<Rightarrow> ('f, 'q) MictExecutor \<Rightarrow> ('f, 'q) MictExecutor option" where
  "spawn Q task ex =
     (if process_registry ex (tid task) \<noteq> None then None
      else do {
        q \<leftarrow> aq_push Q (tid task) (ready_queue ex);
        Some (ex\<lparr>process_registry := (process_registry ex)(tid task \<mapsto> task), ready_queue := q\<rparr>)
      })"

definition wake_task :: "'q ArrayQueue \<Rightarrow> TaskId \<Rightarrow> 'q \<Rightarrow> 'q option" where
  "wake_task Q waker q = aq_push Q waker q"

fun wake_all :: "'q ArrayQueue \<Rightarrow> TaskId list \<Rightarrow> 'q \<Rightarrow> 'q option" where
  "wake_all Q [] q = Some q"
| "wake_all Q (w # ws) q = do { q' \<leftarrow> wake_task Q w q; wake_all Q ws q' }"

text \<open>The body of the loop for a task id taken from the queue.\<close>

definition run_task :: "'q ArrayQueue \<Rightarrow> ('f, 'env) poll_fun \<Rightarrow> TaskId \<Rightarrow> ('f, 'q) MictExecutor \<Rightarrow> 'env \<Rightarrow>
    (('f, 'q) MictExecutor \<times> 'env) option" where
  "run_task Q F task_id ex env = (case process_registry ex task_id of
       None \<Rightarrow> Some (ex, env)
     | Some task \<Rightarrow>
         let cache = (case waker_cache ex task_id of
                        None \<Rightarrow> (waker_cache ex)(task_id \<mapsto> task_id) | Some _ \<Rightarrow> waker_cache ex);
             waker = the (cache task_id);
             (r, fut, woken, env') = F (future task) waker env
         in do {
           q \<leftarrow> wake_all Q woken (ready_queue ex);
           Some (case r of
               Finished \<Rightarrow> ex\<lparr>process_registry := (process_registry ex)(task_id := None), ready_queue := q,
                            waker_cache := cache(task_id := None)\<rparr>
             | Blocked \<Rightarrow> ex\<lparr>process_registry := (process_registry ex)(task_id \<mapsto> task\<lparr>future := fut\<rparr>),
                            ready_queue := q, waker_cache := cache\<rparr>, env')
         })"

text \<open>The loop itself; \<open>None\<close> is a panic or a loop that never ends.\<close>

partial_function (option) run_ready_tasks :: "'q ArrayQueue \<Rightarrow> ('f, 'env) poll_fun \<Rightarrow> ('f, 'q) MictExecutor \<Rightarrow> 'env \<Rightarrow>
    (('f, 'q) MictExecutor \<times> 'env) option" where
  "run_ready_tasks Q F ex env = (case aq_pop Q (ready_queue ex) of
       None \<Rightarrow> Some (ex, env)
     | Some (task_id, q) \<Rightarrow>
         (case run_task Q F task_id (ex\<lparr>ready_queue := q\<rparr>) env of
            None \<Rightarrow> None
          | Some s \<Rightarrow> run_ready_tasks Q F (fst s) (snd s)))"

text \<open>What \<open>sleep_if_idle\<close> does to the processor.\<close>

datatype cpu_op = Disable_interrupts | Enable_interrupts | Enable_and_hlt

definition sleep_if_idle :: "'q ArrayQueue \<Rightarrow> ('f, 'q) MictExecutor \<Rightarrow> cpu_op list" where
  "sleep_if_idle Q ex = [Disable_interrupts,
     if aq_is_empty Q (ready_queue ex) then Enable_and_hlt else Enable_interrupts]"

text \<open>One iteration of the endless loop of \<open>run\<close>.\<close>

definition run_tick :: "'q ArrayQueue \<Rightarrow> ('f, 'env) poll_fun \<Rightarrow> ('f, 'q) MictExecutor \<Rightarrow> 'env \<Rightarrow>
    (('f, 'q) MictExecutor \<times> 'env \<times> cpu_op list) option" where
  "run_tick Q F ex env = do {
     (ex', env') \<leftarrow> run_ready_tasks Q F (ex\<lparr>current_tick := current_tick ex + 1\<rparr>) env;
     Some (ex', env', sleep_if_idle Q ex')
   }"

subsection \<open>The simple executor\<close>

text \<open>Its waker does nothing, so what a task wakes is dropped.\<close>

partial_function (option) simple_run :: "('f, 'env) poll_fun \<Rightarrow> TaskId \<Rightarrow> 'f Task list \<Rightarrow> 'env \<Rightarrow> 'env option" where
  "simple_run F dummy_waker task_queue env = (case task_queue of
       [] \<Rightarrow> Some env
     | task # rest \<Rightarrow>
         (case F (future task) dummy_waker env of (r, fut, _, env') \<Rightarrow>
            (case r of
               Finished \<Rightarrow> simple_run F dummy_waker rest env'
             | Blocked \<Rightarrow> simple_run F dummy_waker (rest @ [task\<lparr>future := fut\<rparr>]) env')))"

definition simple_spawn :: "'f Task \<Rightarrow> 'f Task list \<Rightarrow> 'f Task list" where
  "simple_spawn task task_queue = task_queue @ [task]"

subsection \<open>The physics task\<close>

text \<open>\<open>physics_tick_task\<close> of \<^verbatim>\<open>kernel/src/main.rs\<close>: an endless loop that looks at the engine, perhaps draws a frame
  (together the parameter \<open>frame\<close>), and then awaits \<open>yield_now()\<close> on both branches. The future is \<open>None\<close>
  before its first poll and otherwise the \<open>YieldNow\<close> it waits for.\<close>

definition physics_poll :: "('env \<Rightarrow> 'env) \<Rightarrow> YieldNow option \<Rightarrow> TaskId \<Rightarrow> 'env \<Rightarrow>
    pollr \<times> YieldNow option \<times> TaskId list \<times> 'env" where
  "physics_poll frame st waker env = (
     let restart = (\<lambda>ws. case YieldNow_poll yield_now waker of (r, y, ws') \<Rightarrow> (r, Some y, ws @ ws', frame env)) in
     case st of
       None \<Rightarrow> restart []
     | Some y \<Rightarrow> (case YieldNow_poll y waker of
           (Finished, _, ws) \<Rightarrow> restart ws
         | (Blocked, y', ws) \<Rightarrow> (Blocked, Some y', ws, env)))"

subsection \<open>The queue and the wakers\<close>

lemma array_queue_laws:
  assumes "array_queue Q view cap"
  shows "if length (view q) < cap then \<exists>q'. aq_push Q t q = Some q' \<and> view q' = view q @ [t] else aq_push Q t q = None"
    "case view q of [] \<Rightarrow> aq_pop Q q = None | t # ts \<Rightarrow> \<exists>q'. aq_pop Q q = Some (t, q') \<and> view q' = ts"
    "aq_is_empty Q q \<longleftrightarrow> view q = []" "view (aq_new Q cap) = []"
  using assms unfolding array_queue_def by blast+

lemma aq_push_ok:
  "array_queue Q view cap \<Longrightarrow> length (view q) < cap \<Longrightarrow> \<exists>q'. aq_push Q t q = Some q' \<and> view q' = view q @ [t]"
  using array_queue_laws(1) [of Q view cap q t] by simp

lemma aq_push_Some:
  "array_queue Q view cap \<Longrightarrow> aq_push Q t q = Some q' \<Longrightarrow> view q' = view q @ [t]"
  using array_queue_laws(1) [of Q view cap q t] by (auto split: if_splits)

lemma aq_pop_cases:
  assumes "array_queue Q view cap"
  obtains (empty) "view q = []" "aq_pop Q q = None"
  | (item) t q' where "view q = t # view q'" "aq_pop Q q = Some (t, q')"
  using array_queue_laws(2) [OF assms, of q] by (cases "view q") auto

lemma wake_all_ok:
  assumes "array_queue Q view cap" "length (view q) + length ws \<le> cap"
  shows "\<exists>q'. wake_all Q ws q = Some q' \<and> view q' = view q @ ws"
  using assms(2)
proof (induction ws arbitrary: q)
  case (Cons w ws)
  then obtain q1 where q1: "aq_push Q w q = Some q1" "view q1 = view q @ [w]"
    using aq_push_ok [OF assms(1), of q w] by auto
  with Cons.IH [of q1] Cons.prems show ?case by (auto simp: wake_task_def)
qed simp

lemma wake_all_Some:
  assumes "array_queue Q view cap" "wake_all Q ws q = Some q'"
  shows "view q' = view q @ ws"
  using assms(2)
proof (induction ws arbitrary: q)
  case (Cons w ws)
  then obtain q1 where "aq_push Q w q = Some q1" "wake_all Q ws q1 = Some q'"
    by (auto simp: wake_task_def split: bind_splits)
  with Cons.IH aq_push_Some [OF assms(1)] show ?case by fastforce
qed simp

subsection \<open>The loop\<close>

text \<open>An invariant of the body of the loop holds when the loop returns, and then the queue is empty.\<close>

lemma run_ready_preserves:
  assumes "run_ready_tasks Q F ex env = Some (ex', env')" "I ex env"
    and step: "\<And>ex env t q ex1 env1. I ex env \<Longrightarrow> aq_pop Q (ready_queue ex) = Some (t, q) \<Longrightarrow>
      run_task Q F t (ex\<lparr>ready_queue := q\<rparr>) env = Some (ex1, env1) \<Longrightarrow> I ex1 env1"
  shows "I ex' env' \<and> aq_pop Q (ready_queue ex') = None"
proof -
  let ?P = "\<lambda>Q' F' ex env r. Q' = Q \<longrightarrow> F' = F \<longrightarrow> I ex env \<longrightarrow>
    I (fst r) (snd r) \<and> aq_pop Q (ready_queue (fst r)) = None"
  have "?P Q F ex env (ex', env')"
  proof (rule run_ready_tasks.raw_induct [where P = ?P])
    fix run :: "'b ArrayQueue \<Rightarrow> ('a, 'c) poll_fun \<Rightarrow> ('a, 'b) MictExecutor \<Rightarrow> 'c \<Rightarrow> (('a, 'b) MictExecutor \<times> 'c) option"
      and Q' F' ex env r
    assume IH: "\<And>Q' F' ex env r. run Q' F' ex env = Some r \<Longrightarrow> ?P Q' F' ex env r"
      and eq: "(case aq_pop Q' (ready_queue ex) of None \<Rightarrow> Some (ex, env)
        | Some (task_id, q) \<Rightarrow> (case run_task Q' F' task_id (ex\<lparr>ready_queue := q\<rparr>) env of
            None \<Rightarrow> None | Some s \<Rightarrow> run Q' F' (fst s) (snd s))) = Some r"
    show "?P Q' F' ex env r"
    proof (intro impI)
      assume [simp]: "Q' = Q" "F' = F" and I: "I ex env"
      show "I (fst r) (snd r) \<and> aq_pop Q (ready_queue (fst r)) = None"
      proof (cases "aq_pop Q (ready_queue ex)")
        case None
        with eq I show ?thesis by auto
      next
        case (Some p)
        obtain t q where p: "p = (t, q)" by fastforce
        with Some eq obtain e1 v1 where s: "run_task Q F t (ex\<lparr>ready_queue := q\<rparr>) env = Some (e1, v1)"
          "run Q F e1 v1 = Some r" by (auto split: option.splits)
        from step [OF I _ s(1)] Some p IH [OF s(2)] show ?thesis by simp
      qed
    qed
  qed (rule assms(1))
  with assms(2) show ?thesis by simp
qed

subsection \<open>The tables of the executor\<close>

definition exec_inv :: "('f, 'q) MictExecutor \<Rightarrow> bool" where
  "exec_inv ex \<longleftrightarrow> (\<forall>k t. process_registry ex k = Some t \<longrightarrow> tid t = k) \<and>
     (\<forall>k w. waker_cache ex k = Some w \<longrightarrow> w = k \<and> process_registry ex k \<noteq> None)"

lemma exec_inv_new: "exec_inv (MictExecutor_new Q)"
  by (simp add: exec_inv_def MictExecutor_new_def)

lemma exec_inv_queue [simp]: "exec_inv (ex\<lparr>ready_queue := q\<rparr>) = exec_inv ex"
  "exec_inv (ex\<lparr>current_tick := n\<rparr>) = exec_inv ex"
  by (simp_all add: exec_inv_def)

lemma spawn_inv: "spawn Q task ex = Some ex' \<Longrightarrow> exec_inv ex \<Longrightarrow> exec_inv ex'"
  by (auto simp: spawn_def exec_inv_def split: if_splits bind_splits)

text \<open>The waker a task is polled with is always its own.\<close>

lemma run_task_eq:
  assumes "exec_inv ex" "process_registry ex t = Some task" "F (future task) t env = (r, fut, woken, env')"
  shows "run_task Q F t ex env = do {
      q \<leftarrow> wake_all Q woken (ready_queue ex);
      Some (case r of
          Finished \<Rightarrow> ex\<lparr>process_registry := (process_registry ex)(t := None), ready_queue := q,
                       waker_cache := (waker_cache ex)(t := None)\<rparr>
        | Blocked \<Rightarrow> ex\<lparr>process_registry := (process_registry ex)(t \<mapsto> task\<lparr>future := fut\<rparr>),
                       ready_queue := q, waker_cache := (waker_cache ex)(t \<mapsto> t)\<rparr>, env') }"
proof (cases "waker_cache ex t")
  case None
  with assms show ?thesis by (cases r) (simp_all add: run_task_def)
next
  case (Some w)
  with assms(1) have "w = t" "(waker_cache ex)(t \<mapsto> t) = waker_cache ex"
    using Some by (auto simp: exec_inv_def intro!: map_upd_triv)
  with Some assms show ?thesis by (cases r) (simp_all add: run_task_def)
qed

lemma run_task_inv:
  assumes "exec_inv ex" "run_task Q F t ex env = Some (ex', env')"
  shows "exec_inv ex'"
proof (cases "process_registry ex t")
  case None
  with assms show ?thesis by (simp add: run_task_def)
next
  case (Some task)
  obtain r fut woken env1 where F: "F (future task) t env = (r, fut, woken, env1)" by (metis prod_cases4)
  have "tid task = t" using assms(1) Some by (simp add: exec_inv_def)
  with assms show ?thesis
    unfolding run_task_eq [where F = F, OF assms(1) Some F]
    by (cases r) (auto simp: exec_inv_def split: bind_splits if_splits)
qed


text \<open>The ready loop ends when the tasks do not keep waking one another: if every poll pays for the tasks it wakes
  out of a finite budget, and the budget and the queued ids fit the queue, then the loop returns
  without a panic and with an empty queue.\<close>

theorem run_ready_tasks_returns:
  fixes budget :: "'env \<Rightarrow> nat"
  assumes "array_queue Q view cap" "exec_inv ex"
    "\<forall>fut w env r fut' ws env'. F fut w env = (r, fut', ws, env') \<longrightarrow> budget env' + length ws \<le> budget env"
    "length (view (ready_queue ex)) + budget env \<le> cap"
  shows "\<exists>ex' env'. run_ready_tasks Q F ex env = Some (ex', env') \<and> view (ready_queue ex') = []"
  using assms(2,4)
proof (induction "length (view (ready_queue ex)) + budget env" arbitrary: ex env rule: less_induct)
  case less
  show ?case
  proof (cases rule: aq_pop_cases [OF assms(1), of "ready_queue ex"])
    case 1
    then show ?thesis by (subst run_ready_tasks.simps) simp
  next
    case (2 t q)
    let ?ex = "ex\<lparr>ready_queue := q\<rparr>"
    have "\<exists>e v. run_task Q F t ?ex env = Some (e, v) \<and> exec_inv e \<and>
        length (view (ready_queue e)) + budget v < length (view (ready_queue ex)) + budget env"
    proof (cases "process_registry ?ex t")
      case None
      with 2 less.prems show ?thesis by (simp add: run_task_def)
    next
      case (Some task)
      obtain r fut woken v where F: "F (future task) t env = (r, fut, woken, v)" by (metis prod_cases4)
      have b: "budget v + length woken \<le> budget env" using assms(3) F by blast
      have "length (view q) + length woken \<le> cap" using b less.prems(2) 2(1) by simp
      from wake_all_ok [OF assms(1) this] obtain q' where q': "wake_all Q woken q = Some q'" "view q' = view q @ woken"
        by blast
      have "exec_inv ?ex" using less.prems(1) by simp
      from run_task_eq [where Q = Q and F = F, OF this Some F] q'(1) obtain e where e: "run_task Q F t ?ex env = Some (e, v)" "ready_queue e = q'"
        by (cases r) auto
      with run_task_inv [OF \<open>exec_inv ?ex\<close> e(1)] q'(2) b 2(1) show ?thesis by auto
    qed
    then obtain e v where e: "run_task Q F t ?ex env = Some (e, v)" "exec_inv e"
      "length (view (ready_queue e)) + budget v < length (view (ready_queue ex)) + budget env" by blast
    from less.hyps [OF e(3,2)] e(3) less.prems(2) 2(2) e(1) show ?thesis by (subst run_ready_tasks.simps) simp
  qed
qed

text \<open>A task that always yields starves the idle check: once a task that is never finished and wakes itself
  at every poll is in the ready queue, the ready loop never returns (it runs forever or panics), so
  the processor is never put to sleep.\<close>

lemma self_waking_task_starves_idle:
  assumes "array_queue Q view cap" "exec_inv ex" "t \<in> set (view (ready_queue ex))"
    "process_registry ex t = Some task" "future task \<in> Y"
    "\<forall>fut \<in> Y. \<forall>env. \<exists>fut' ws env'. F fut t env = (Blocked, fut', ws, env') \<and> fut' \<in> Y \<and> t \<in> set ws"
  shows "run_ready_tasks Q F ex env = None"
proof (rule ccontr)
  assume "run_ready_tasks Q F ex env \<noteq> None"
  then obtain ex' env' where run: "run_ready_tasks Q F ex env = Some (ex', env')" by auto
  let ?I = "\<lambda>e v. exec_inv e \<and> t \<in> set (view (ready_queue e)) \<and>
    (\<exists>task. process_registry e t = Some task \<and> future task \<in> Y)"
  have "?I ex' env' \<and> aq_pop Q (ready_queue ex') = None"
  proof (rule run_ready_preserves [OF run])
    show "?I ex env" using assms(2-5) by blast
  next
    fix e v u q e1 v1
    assume I: "?I e v" and pop: "aq_pop Q (ready_queue e) = Some (u, q)"
      and r: "run_task Q F u (e\<lparr>ready_queue := q\<rparr>) v = Some (e1, v1)"
    have q: "view (ready_queue e) = u # view q"
      using pop by (cases rule: aq_pop_cases [OF assms(1), of "ready_queue e"]) auto
    have inv: "exec_inv (e\<lparr>ready_queue := q\<rparr>)" using I by simp
    show "?I e1 v1"
    proof (cases "process_registry (e\<lparr>ready_queue := q\<rparr>) u")
      case None
      with I q r show ?thesis by (auto simp: run_task_def)
    next
      case (Some task')
      obtain r' fut ws v' where F: "F (future task') u v = (r', fut, ws, v')" by (metis prod_cases4)
      from r [unfolded run_task_eq [where F = F, OF inv Some F]] obtain q' where q': "wake_all Q ws q = Some q'"
        "e1 = (case r' of
            Finished \<Rightarrow> e\<lparr>process_registry := (process_registry e)(u := None), ready_queue := q',
                         waker_cache := (waker_cache e)(u := None)\<rparr>
          | Blocked \<Rightarrow> e\<lparr>process_registry := (process_registry e)(u \<mapsto> task'\<lparr>future := fut\<rparr>),
                         ready_queue := q', waker_cache := (waker_cache e)(u \<mapsto> u)\<rparr>)"
        by (auto split: bind_splits pollr.splits)
      have "view q' = view q @ ws" by (rule wake_all_Some [OF assms(1) q'(1)])
      moreover have "u = t \<longrightarrow> r' = Blocked \<and> fut \<in> Y \<and> t \<in> set ws"
      proof
        assume u: "u = t"
        with I Some have "future task' \<in> Y" by auto
        with assms(6) obtain fut' ws' env' where "F (future task') t v = (Blocked, fut', ws', env')" "fut' \<in> Y" "t \<in> set ws'"
          by blast
        with F u show "r' = Blocked \<and> fut \<in> Y \<and> t \<in> set ws" by simp
      qed
      ultimately show ?thesis
        using run_task_inv [OF inv r] I q q'(2) by (cases r') auto
    qed
  qed
  then show False by (cases rule: aq_pop_cases [OF assms(1), of "ready_queue ex'"]) auto
qed

text \<open>The physics task of the kernel is such a task: between two polls it waits for a \<open>YieldNow\<close> that has yielded.\<close>

lemma physics_always_yields:
  "fut \<in> {None, Some \<lparr>yielded = True\<rparr>} \<Longrightarrow>
   physics_poll frame fut w env = (Blocked, Some \<lparr>yielded = True\<rparr>, [w], frame env)"
  by (auto simp: physics_poll_def YieldNow_poll_def yield_now_def)

definition physics_executor :: "(YieldNow option, TaskId list) MictExecutor" where
  "physics_executor = \<lparr>process_registry = [3 \<mapsto> \<lparr>tid = 3, future = None\<rparr>], ready_queue = [3],
     waker_cache = Map.empty, current_tick = 0\<rparr>"

lemma physics_task_starves_idle:
  "spawn (list_queue 100) \<lparr>tid = 3, future = None\<rparr> (MictExecutor_new (list_queue 100)) = Some physics_executor \<and>
   run_ready_tasks (list_queue 100) (physics_poll Suc) physics_executor 0 = None"
proof -
  have "exec_inv physics_executor" by (simp add: exec_inv_def physics_executor_def)
  moreover have "process_registry physics_executor 3 = Some \<lparr>tid = 3, future = None\<rparr>"
    by (simp add: physics_executor_def)
  ultimately have "run_ready_tasks (list_queue 100) (physics_poll Suc) physics_executor 0 = None"
    by (intro self_waking_task_starves_idle [OF list_queue_ok, where Y = "{None, Some \<lparr>yielded = True\<rparr>}" and t = 3])
      (auto simp: physics_always_yields physics_executor_def)
  moreover have "spawn (list_queue 100) \<lparr>tid = 3, future = None\<rparr> (MictExecutor_new (list_queue 100)) = Some physics_executor"
    by (simp add: spawn_def MictExecutor_new_def list_queue_def physics_executor_def)
  ultimately show ?thesis by blast
qed

text \<open>A task that finishes at its first poll, for the witnesses.\<close>

definition one_shot :: "(unit, nat) poll_fun" where
  "one_shot f w n = (Finished, f, [], Suc n)"

definition one_task :: "(unit, TaskId list) MictExecutor" where
  "one_task = \<lparr>process_registry = [5 \<mapsto> \<lparr>tid = 5, future = ()\<rparr>], ready_queue = [5, 9],
     waker_cache = Map.empty, current_tick = 0\<rparr>"

lemma one_task_facts: "exec_inv one_task" "length (ready_queue one_task) + 0 \<le> 100"
  by (simp_all add: exec_inv_def one_task_def)

theorem run_ready_tasks_returns_witness:
  "\<exists>ex' n. run_ready_tasks (list_queue 100) one_shot one_task 0 = Some (ex', n) \<and> ready_queue ex' = []"
  using run_ready_tasks_returns [OF list_queue_ok one_task_facts(1), where F = one_shot and budget = "\<lambda>_. 0" and env = 0]
    one_task_facts(2) by (simp add: one_shot_def)

lemma one_task_run:
  "run_tick (list_queue 100) one_shot one_task 0 = Some (\<lparr>process_registry = Map.empty, ready_queue = [],
     waker_cache = Map.empty, current_tick = 1\<rparr>, 1, [Disable_interrupts, Enable_and_hlt])"
  by (simp add: run_tick_def run_ready_tasks.simps run_task_def one_shot_def one_task_def list_queue_def sleep_if_idle_def)


text \<open>Creating tasks one after the other and spawning them, as the boot code does.\<close>

fun spawn_all :: "'q ArrayQueue \<Rightarrow> 'f list \<Rightarrow> u64 \<Rightarrow> ('f, 'q) MictExecutor \<Rightarrow> ('f, 'q) MictExecutor option" where
  "spawn_all Q [] next_id ex = Some ex"
| "spawn_all Q (f # fs) next_id ex =
     (let (task, next_id') = Task_new f next_id in do { ex' \<leftarrow> spawn Q task ex; spawn_all Q fs next_id' ex' })"

lemma spawn_all_ok:
  assumes "array_queue Q view cap" "unat n + length fs < 2 ^ 64" "length (view (ready_queue ex)) + length fs \<le> cap"
    "\<forall>k. process_registry ex k \<noteq> None \<longrightarrow> k < n"
  shows "\<exists>ex'. spawn_all Q fs n ex = Some ex' \<and>
    view (ready_queue ex') = view (ready_queue ex) @ map (\<lambda>i. n + of_nat i) [0..<length fs] \<and>
    (\<forall>i < length fs. process_registry ex' (n + of_nat i) = Some \<lparr>tid = n + of_nat i, future = fs ! i\<rparr>) \<and>
    (\<forall>k. k < n \<longrightarrow> process_registry ex' k = process_registry ex k)"
  using assms(2-4)
proof (induction fs arbitrary: n ex)
  case (Cons f fs)
  have n1: "unat (n + 1) = unat n + 1" using Cons.prems(1) unat_add_of_nat [of n 1] by simp
  then have lt: "n < n + 1" by (simp add: word_less_nat_alt)
  obtain q where q: "aq_push Q n (ready_queue ex) = Some q" "view q = view (ready_queue ex) @ [n]"
    using aq_push_ok [OF assms(1), of "ready_queue ex" n] Cons.prems(2) by auto
  define ex1 where "ex1 = ex\<lparr>process_registry := (process_registry ex)(n \<mapsto> \<lparr>tid = n, future = f\<rparr>), ready_queue := q\<rparr>"
  have "process_registry ex n = None" using Cons.prems(3) by blast
  then have sp: "spawn_all Q (f # fs) n ex = spawn_all Q fs (n + 1) ex1"
    using q(1) by (simp add: Task_new_def TaskId_new_def spawn_def ex1_def)
  have "\<forall>k. process_registry ex1 k \<noteq> None \<longrightarrow> k < n + 1"
    using Cons.prems(3) lt by (auto simp: ex1_def dest: less_trans)
  with Cons.IH [of "n + 1" ex1] Cons.prems(1,2) n1 q obtain ex' where ex': "spawn_all Q fs (n + 1) ex1 = Some ex'"
    "view (ready_queue ex') = view (ready_queue ex) @ n # map (\<lambda>i. n + 1 + of_nat i) [0..<length fs]"
    "\<forall>i < length fs. process_registry ex' (n + 1 + of_nat i) = Some \<lparr>tid = n + 1 + of_nat i, future = fs ! i\<rparr>"
    "\<forall>k. k < n + 1 \<longrightarrow> process_registry ex' k = process_registry ex1 k" by (auto simp: ex1_def)
  have "process_registry ex' (n + of_nat i) = Some \<lparr>tid = n + of_nat i, future = (f # fs) ! i\<rparr>"
    if "i < length (f # fs)" for i
    using ex'(3,4) lt that by (cases i) (auto simp: ex1_def add.assoc)
  moreover have "view (ready_queue ex') = view (ready_queue ex) @ map (\<lambda>i. n + of_nat i) [0..<length (f # fs)]"
    unfolding ex'(2) length_Cons upt_conv_Cons [OF zero_less_Suc] map_Suc_upt [symmetric] by (simp add: add.assoc)
  moreover have "process_registry ex' k = process_registry ex k" if "k < n" for k
    using ex'(4) that lt by (auto simp: ex1_def dest: less_trans)
  ultimately show ?case using sp ex'(1) by auto
qed simp

text \<open>Up to a hundred tasks can be spawned from the start: every task gets a fresh id, is registered under it, and
  waits in the ready queue in the order of spawning; no spawn panics.\<close>

theorem spawn_up_to_100:
  assumes "array_queue Q view 100" "length fs \<le> 100"
  shows "\<exists>ex. spawn_all Q fs 0 (MictExecutor_new Q) = Some ex \<and>
    view (ready_queue ex) = map of_nat [0..<length fs] \<and>
    (\<forall>i < length fs. process_registry ex (of_nat i) = Some \<lparr>tid = of_nat i, future = fs ! i\<rparr>)"
proof -
  have "view (ready_queue (MictExecutor_new Q)) = []"
    using array_queue_laws(4) [OF assms(1)] by (simp add: MictExecutor_new_def)
  with spawn_all_ok [OF assms(1), of 0 fs "MictExecutor_new Q"] assms(2) show ?thesis
    by (auto simp: MictExecutor_new_def)
qed

theorem spawn_up_to_100_witness:
  "\<exists>ex. spawn_all (list_queue 100) [True, False] 0 (MictExecutor_new (list_queue 100)) = Some ex \<and> ready_queue ex = [0, 1]"
  using spawn_up_to_100 [OF list_queue_ok, of "[True, False]"] by (auto simp: upt_rec)

text \<open>The simple executor ends when every task needs finitely many polls: if each poll that blocks lowers the rank
  of its future, the run returns, whatever the tasks and their number.\<close>

theorem simple_run_returns:
  fixes rank :: "'f \<Rightarrow> nat"
  assumes "\<forall>fut w env fut' ws env'. F fut w env = (Blocked, fut', ws, env') \<longrightarrow> rank fut' < rank fut"
  shows "\<exists>env'. simple_run F w tasks env = Some env'"
proof (induction "\<Sum>t\<leftarrow>tasks. Suc (rank (future t))" arbitrary: tasks env rule: less_induct)
  case less
  show ?case
  proof (cases tasks)
    case Nil
    then show ?thesis by (simp add: simple_run.simps)
  next
    case (Cons t ts)
    obtain r fut ws env' where F: "F (future t) w env = (r, fut, ws, env')" by (metis prod_cases4)
    show ?thesis
    proof (cases r)
      case Finished
      with less [of ts env'] Cons F show ?thesis by (subst simple_run.simps) simp
    next
      case Blocked
      with F assms have "rank fut < rank (future t)" by blast
      with less [of "ts @ [t\<lparr>future := fut\<rparr>]" env'] Cons F Blocked show ?thesis by (subst simple_run.simps) simp
    qed
  qed
qed

definition countdown :: "(nat, nat) poll_fun" where
  "countdown k w n = (if k = 0 then Finished else Blocked, k - 1, [], Suc n)"

theorem simple_run_returns_witness:
  "\<exists>n. simple_run countdown 0 [\<lparr>tid = 0, future = 2\<rparr>, \<lparr>tid = 1, future = 1\<rparr>] 0 = Some n"
  using simple_run_returns [where F = countdown and rank = "\<lambda>k. k"] by (auto simp: countdown_def split: if_splits)

end
