(* ===== verification/Interrupt_Wakeups.thy ===== *)
theory Interrupt_Wakeups
  imports Executor
begin

text \<open>
  The draft \<^verbatim>\<open>kernel/src/task/interrupt_wakeups.rs\<close> (no module includes it yet): a queue of wakers for interrupt handlers, in a
  static that \<open>init\<close> fills once. The queue is the one of the crossbeam crate, as in \<^verbatim>\<open>Executor\<close>; a waker is the id of its task.
\<close>

text \<open>The static: nothing before \<open>init\<close>.\<close>

type_synonym 'q wakeups = "'q option"

definition INTERRUPT_WAKEUPS :: "'q wakeups" where
  "INTERRUPT_WAKEUPS = None"

text \<open>\<open>try_init_once\<close> fails on a cell that is in use, and so does \<open>try_get\<close> on an empty one: \<open>expect\<close> makes both a panic.\<close>

definition wakeups_init :: "'q ArrayQueue \<Rightarrow> 'q wakeups \<Rightarrow> 'q wakeups option" where
  "wakeups_init Q cell = (case cell of None \<Rightarrow> Some (Some (aq_new Q 10)) | Some _ \<Rightarrow> None)"

definition interrupt_wakeups :: "'q wakeups \<Rightarrow> 'q option" where
  "interrupt_wakeups cell = cell"

text \<open>The lines printed, and the static afterwards.\<close>

definition interrupt_wake :: "'q ArrayQueue \<Rightarrow> TaskId \<Rightarrow> 'q wakeups \<Rightarrow> (string list \<times> 'q wakeups) option" where
  "interrupt_wake Q waker cell = do {
     q \<leftarrow> interrupt_wakeups cell;
     (case aq_push Q waker q of
       None \<Rightarrow> Some ([''WARNING: dropping interrupt wakeup''], Some q)
     | Some q' \<Rightarrow> Some ([], Some q')) }"

primrec interrupt_wake_all :: "'q ArrayQueue \<Rightarrow> TaskId list \<Rightarrow> 'q wakeups \<Rightarrow> (string list \<times> 'q wakeups) option" where
  "interrupt_wake_all Q [] cell = Some ([], cell)"
| "interrupt_wake_all Q (w # ws) cell = do {
     (out, cell) \<leftarrow> interrupt_wake Q w cell;
     (out', cell) \<leftarrow> interrupt_wake_all Q ws cell;
     Some (out @ out', cell) }"

lemma wakeups_init_twice: "wakeups_init Q cell = Some cell' \<Longrightarrow> wakeups_init Q cell' = None"
  by (auto simp: wakeups_init_def split: option.splits)

lemma interrupt_wake_ok:
  assumes "array_queue Q view 10"
  shows "\<exists>q'. interrupt_wake Q w (Some q) =
      Some (if length (view q) < 10 then [] else [''WARNING: dropping interrupt wakeup''], Some q') \<and>
    view q' = (if length (view q) < 10 then view q @ [w] else view q)"
proof -
  have "if length (view q) < 10 then \<exists>q'. aq_push Q w q = Some q' \<and> view q' = view q @ [w] else aq_push Q w q = None"
    using assms by (simp add: array_queue_def)
  then show ?thesis by (auto simp: interrupt_wake_def interrupt_wakeups_def split: if_splits)
qed

text \<open>Between two turns of whoever empties the queue the first wakers that fit are kept in order; the others are lost, with a warning each.\<close>

lemma interrupt_wake_all_ok:
  assumes "array_queue Q view 10" "length (view q) \<le> 10"
  shows "\<exists>q'. interrupt_wake_all Q ws (Some q) =
      Some (replicate (length ws - (10 - length (view q))) ''WARNING: dropping interrupt wakeup'', Some q') \<and>
    view q' = view q @ take (10 - length (view q)) ws"
  using assms(2)
proof (induction ws arbitrary: q)
  case (Cons w ws)
  from interrupt_wake_ok [OF assms(1), of w q] obtain q1 where q1: "interrupt_wake Q w (Some q) =
      Some (if length (view q) < 10 then [] else [''WARNING: dropping interrupt wakeup''], Some q1)"
    "view q1 = (if length (view q) < 10 then view q @ [w] else view q)" by blast
  have "length (view q1) \<le> 10" using q1(2) Cons.prems by simp
  from Cons.IH [OF this] obtain q2 where q2: "interrupt_wake_all Q ws (Some q1) =
      Some (replicate (length ws - (10 - length (view q1))) ''WARNING: dropping interrupt wakeup'', Some q2)"
    "view q2 = view q1 @ take (10 - length (view q1)) ws" by blast
  show ?case
  proof (cases "length (view q) < 10")
    case True
    then have "10 - length (view q) = Suc (9 - length (view q))" by simp
    with q1 q2 True show ?thesis by simp
  next
    case False
    with Cons.prems q1 q2 show ?thesis by simp
  qed
qed simp

lemma no_wakeup_lost_up_to_ten:
  assumes "array_queue Q view 10" "length ws \<le> 10"
  shows "\<exists>cell q. wakeups_init Q INTERRUPT_WAKEUPS = Some cell \<and> interrupt_wake_all Q ws cell = Some ([], Some q) \<and> view q = ws"
proof -
  have "view (aq_new Q 10) = []" using assms(1) by (simp add: array_queue_def)
  with interrupt_wake_all_ok [OF assms(1), of "aq_new Q 10" ws] assms(2) show ?thesis
    by (simp add: wakeups_init_def INTERRUPT_WAKEUPS_def)
qed

end
