(* ===== verification/Interrupts.thy ===== *)
theory Interrupts
  imports Streams
begin

text \<open>
  Interrupts: the vector table and the handlers of \<^verbatim>\<open>kernel/src/interrupts.rs\<close> and the port set-up in \<open>init\<close> of
  \<^verbatim>\<open>kernel/src/lib.rs\<close>. The ports and the end-of-interrupt command of the pic8259 crate are parameters. A handler that halts for ever
  or panics gives \<open>None\<close>; messages of the handlers are left out.
\<close>

unbundle bit_operations_syntax

subsection \<open>Vectors\<close>

definition PIC_1_OFFSET :: u8 where "PIC_1_OFFSET = 32"
definition PIC_2_OFFSET :: u8 where "PIC_2_OFFSET = PIC_1_OFFSET + 8"

datatype InterruptIndex = Timer | Keyboard | Serial1 | Mouse

fun as_u8 :: "InterruptIndex \<Rightarrow> u8" where
  "as_u8 Timer = PIC_1_OFFSET"
| "as_u8 Keyboard = PIC_1_OFFSET + 1"
| "as_u8 Serial1 = PIC_1_OFFSET + 4"
| "as_u8 Mouse = PIC_1_OFFSET + 12"

datatype handler = breakpoint_handler | double_fault_handler | gpf_handler | page_fault_handler
  | spurious_interrupt_handler | interrupt_handler InterruptIndex

text \<open>The table: exceptions at the vectors the processor defines for them.\<close>

definition IDT :: "u8 \<Rightarrow> handler option" where
  "IDT v =
     (if v = 3 then Some breakpoint_handler
      else if v = 14 then Some page_fault_handler
      else if v = 8 then Some double_fault_handler
      else if v = 13 then Some gpf_handler
      else if v = 39 then Some spurious_interrupt_handler
      else if v = as_u8 Timer then Some (interrupt_handler Timer)
      else if v = as_u8 Keyboard then Some (interrupt_handler Keyboard)
      else if v = as_u8 Serial1 then Some (interrupt_handler Serial1)
      else if v = as_u8 Mouse then Some (interrupt_handler Mouse)
      else None)"

subsection \<open>Handlers\<close>

record 'p Ports =
  port_read :: "u16 \<Rightarrow> 'p \<Rightarrow> u8 \<times> 'p"
  port_write :: "u16 \<Rightarrow> u8 \<Rightarrow> 'p \<Rightarrow> 'p"
  notify_end_of_interrupt :: "u8 \<Rightarrow> 'p \<Rightarrow> 'p"

text \<open>What the handlers change: the devices behind the ports and the rings, and the wakers they woke.\<close>

record ('p, 'c, 'w) irq_state =
  ports :: 'p
  keyboard_ring :: "'c ring"
  serial_ring :: "'c ring"
  mouse_ring :: "'c ring"
  wakers :: "'w list"

definition wake_list :: "'w option \<Rightarrow> 'w list" where
  "wake_list w = (case w of None \<Rightarrow> [] | Some x \<Rightarrow> [x])"

definition keyboard_interrupt_handler :: "'p Ports \<Rightarrow> ('c, 'w) AtomicWaker \<Rightarrow> ('p, 'c, 'w) irq_state \<Rightarrow> ('p, 'c, 'w) irq_state option" where
  "keyboard_interrupt_handler P aw s = do {
     let (scancode, p) = port_read P 0x60 (ports s);
     (r, w, _) \<leftarrow> add_scancode aw scancode (keyboard_ring s);
     Some (s\<lparr>ports := notify_end_of_interrupt P (as_u8 Keyboard) p, keyboard_ring := r, wakers := wakers s @ wake_list w\<rparr>) }"

definition mouse_interrupt_handler :: "'p Ports \<Rightarrow> ('c, 'w) AtomicWaker \<Rightarrow> ('p, 'c, 'w) irq_state \<Rightarrow> ('p, 'c, 'w) irq_state option" where
  "mouse_interrupt_handler P aw s = do {
     let (packet_byte, p) = port_read P 0x60 (ports s);
     (r, w) \<leftarrow> mouse_add_byte aw packet_byte (mouse_ring s);
     Some (s\<lparr>ports := notify_end_of_interrupt P (as_u8 Mouse) p, mouse_ring := r, wakers := wakers s @ wake_list w\<rparr>) }"

text \<open>The loop that empties the receive FIFO; it lasts as long as the line status says there is a byte.\<close>

partial_function (option) drain_fifo :: "'p Ports \<Rightarrow> ('c, 'w) AtomicWaker \<Rightarrow> ('p, 'c, 'w) irq_state \<Rightarrow> ('p, 'c, 'w) irq_state option" where
  "drain_fifo P aw s = (
     let (lsr, p) = port_read P 0x3FD (ports s) in
     if lsr AND 1 = 0 then Some (s\<lparr>ports := p\<rparr>)
     else let (byte, p) = port_read P 0x3F8 p in do {
       (r, w) \<leftarrow> serial_add_byte aw byte (serial_ring s);
       drain_fifo P aw (s\<lparr>ports := p, serial_ring := r, wakers := wakers s @ wake_list w\<rparr>) })"

definition serial1_interrupt_handler :: "'p Ports \<Rightarrow> ('c, 'w) AtomicWaker \<Rightarrow> ('p, 'c, 'w) irq_state \<Rightarrow> ('p, 'c, 'w) irq_state option" where
  "serial1_interrupt_handler P aw s = do {
     s \<leftarrow> drain_fifo P aw s;
     Some (s\<lparr>ports := notify_end_of_interrupt P (as_u8 Serial1) (ports s)\<rparr>) }"

definition timer_interrupt_handler :: "'p Ports \<Rightarrow> ('p, 'c, 'w) irq_state \<Rightarrow> ('p, 'c, 'w) irq_state option" where
  "timer_interrupt_handler P s = Some (s\<lparr>ports := notify_end_of_interrupt P (as_u8 Timer) (ports s)\<rparr>)"

fun run_handler :: "'p Ports \<Rightarrow> ('c, 'w) AtomicWaker \<Rightarrow> handler \<Rightarrow> ('p, 'c, 'w) irq_state \<Rightarrow> ('p, 'c, 'w) irq_state option" where
  "run_handler P aw breakpoint_handler s = Some s"
| "run_handler P aw spurious_interrupt_handler s = Some s"
| "run_handler P aw page_fault_handler s = None"
| "run_handler P aw double_fault_handler s = None"
| "run_handler P aw gpf_handler s = None"
| "run_handler P aw (interrupt_handler Timer) s = timer_interrupt_handler P s"
| "run_handler P aw (interrupt_handler Keyboard) s = keyboard_interrupt_handler P aw s"
| "run_handler P aw (interrupt_handler Serial1) s = serial1_interrupt_handler P aw s"
| "run_handler P aw (interrupt_handler Mouse) s = mouse_interrupt_handler P aw s"

subsection \<open>The port set-up at boot\<close>

definition unmask1 :: "u8 \<Rightarrow> u8" where
  "unmask1 mask1 = ((mask1 AND NOT (push_bit 4 1)) AND NOT (push_bit 1 1)) AND NOT (push_bit 2 1)"

definition unmask2 :: "u8 \<Rightarrow> u8" where
  "unmask2 mask2 = mask2 AND NOT (push_bit 4 1)"

definition init_ports :: "'p Ports \<Rightarrow> 'p \<Rightarrow> 'p" where
  "init_ports P p = (
     let p = port_write P 0x64 0xD4 p;
         p = port_write P 0x60 0xF4 p;
         (_, p) = port_read P 0x60 p;
         (mask1, p) = port_read P 0x21 p;
         p = port_write P 0x21 (unmask1 mask1) p;
         (mask2, p) = port_read P 0xA1 p
     in port_write P 0xA1 (unmask2 mask2) p)"

subsection \<open>The serial line\<close>

text \<open>A receiver as the 16550 is documented: bit 0 of the line status says whether there is a byte, reading the status changes
  nothing, and reading the data takes the first byte out. \<open>rx\<close> is its FIFO.\<close>

definition uart_conforms :: "'p Ports \<Rightarrow> ('p \<Rightarrow> bytes) \<Rightarrow> bool" where
  "uart_conforms P rx \<longleftrightarrow>
     (\<forall>p. (fst (port_read P 0x3FD p) AND 1 = 0 \<longleftrightarrow> rx p = []) \<and> rx (snd (port_read P 0x3FD p)) = rx p) \<and>
     (\<forall>p. rx p \<noteq> [] \<longrightarrow> fst (port_read P 0x3F8 p) = hd (rx p) \<and> rx (snd (port_read P 0x3F8 p)) = tl (rx p))"

text \<open>What fits of the bytes that arrive.\<close>

definition enqueue_all :: "nat \<Rightarrow> bytes \<Rightarrow> bytes \<Rightarrow> bytes" where
  "enqueue_all cap q bs = q @ take (cap - length q) bs"

lemma serial_add_spec:
  assumes "ring_inv 65536 r"
  shows "\<exists>r' w. serial_add_byte aw b r = Some (r', w) \<and> ring_inv 65536 r' \<and>
    content 65536 r' = (if length (content 65536 r) < 65535 then content 65536 r @ [b] else content 65536 r)"
  using ring_add_spec [OF assms, of aw b] assms by (auto simp: serial_add_byte_def SERIAL_BUF_SIZE_def split: if_splits)

lemma drain_fifo_ok:
  assumes "uart_conforms P rx" "ring_inv 65536 (serial_ring s)"
  shows "\<exists>p r ws. drain_fifo P aw s = Some (s\<lparr>ports := p, serial_ring := r, wakers := wakers s @ ws\<rparr>) \<and> rx p = [] \<and>
    ring_inv 65536 r \<and> content 65536 r = enqueue_all 65535 (content 65536 (serial_ring s)) (rx (ports s))"
  using assms(2)
proof (induction "rx (ports s)" arbitrary: s)
  case Nil
  obtain lsr p where p: "port_read P 0x3FD (ports s) = (lsr, p)" by fastforce
  then have "lsr AND 1 = 0" "rx p = []" using assms(1) Nil(1) by (auto simp: uart_conforms_def dest: spec [of _ "ports s"])
  with p Nil show ?case
    by (subst drain_fifo.simps) (auto simp: enqueue_all_def intro!: exI [of _ p] exI [of _ "serial_ring s"] exI [of _ "[]"])
next
  case (Cons b bs)
  obtain lsr p where p: "port_read P 0x3FD (ports s) = (lsr, p)" by fastforce
  have lsr: "lsr AND 1 \<noteq> 0" "rx p = b # bs"
    using assms(1) Cons.hyps(2) p unfolding uart_conforms_def by (metis fst_conv list.distinct(1), metis snd_conv)
  obtain b' p' where p': "port_read P 0x3F8 p = (b', p')" by fastforce
  have b: "b' = b" "rx p' = bs"
    using assms(1) lsr(2) p' unfolding uart_conforms_def by (metis fst_conv list.sel(1) list.distinct(1), metis snd_conv list.sel(3) list.distinct(1))
  obtain r w where r: "serial_add_byte aw b (serial_ring s) = Some (r, w)" "ring_inv 65536 r"
    "content 65536 r = (if length (content 65536 (serial_ring s)) < 65535 then content 65536 (serial_ring s) @ [b] else content 65536 (serial_ring s))"
    using serial_add_spec [OF Cons.prems] by blast
  let ?s = "s\<lparr>ports := p', serial_ring := r, wakers := wakers s @ wake_list w\<rparr>"
  have "bs = rx (ports ?s)" "ring_inv 65536 (serial_ring ?s)" using b r by simp_all
  from Cons.hyps(1) [OF this] obtain p2 r2 ws where
    d: "drain_fifo P aw ?s = Some (?s\<lparr>ports := p2, serial_ring := r2, wakers := wakers ?s @ ws\<rparr>)" "rx p2 = []" "ring_inv 65536 r2"
      "content 65536 r2 = enqueue_all 65535 (content 65536 r) bs" using b by auto
  have "drain_fifo P aw s = drain_fifo P aw ?s"
    using p p' lsr b r(1) by (subst drain_fifo.simps) simp
  moreover have "enqueue_all 65535 (content 65536 r) bs = enqueue_all 65535 (content 65536 (serial_ring s)) (b # bs)"
    unfolding r(3) enqueue_all_def by (auto simp: take_Cons' Suc_diff_Suc)
  ultimately show ?case
    using d Cons.hyps(2) by (intro exI [of _ p2] exI [of _ r2] exI [of _ "wake_list w @ ws"]) simp
qed

lemma ring_add_enqueues:
  assumes "ring_inv n r"
  shows "\<exists>r' w stored. ring_add aw n b r = Some (r', w, stored) \<and> ring_inv n r' \<and>
    content n r' = enqueue_all (n - 1) (content n r) [b]"
  using ring_add_spec [OF assms, of aw b] assms by (auto simp: enqueue_all_def split: if_splits)

lemma keyboard_handler_ok:
  assumes "ring_inv 256 (keyboard_ring s)" "port_read P 0x60 (ports s) = (b, p)"
  shows "\<exists>r ws. keyboard_interrupt_handler P aw s =
      Some (s\<lparr>ports := notify_end_of_interrupt P 33 p, keyboard_ring := r, wakers := wakers s @ ws\<rparr>) \<and>
    ring_inv 256 r \<and> content 256 r = enqueue_all 255 (content 256 (keyboard_ring s)) [b]"
  using ring_add_enqueues [OF assms(1), of aw b] assms(2)
  by (auto simp: keyboard_interrupt_handler_def add_scancode_def KEYBOARD_BUF_SIZE_def PIC_1_OFFSET_def) blast

lemma mouse_handler_ok:
  assumes "ring_inv 65536 (mouse_ring s)" "port_read P 0x60 (ports s) = (b, p)"
  shows "\<exists>r ws. mouse_interrupt_handler P aw s =
      Some (s\<lparr>ports := notify_end_of_interrupt P 44 p, mouse_ring := r, wakers := wakers s @ ws\<rparr>) \<and>
    ring_inv 65536 r \<and> content 65536 r = enqueue_all 65535 (content 65536 (mouse_ring s)) [b]"
  using ring_add_enqueues [OF assms(1), of aw b] assms(2)
  by (auto simp: mouse_interrupt_handler_def mouse_add_byte_def MOUSE_BUF_SIZE_def PIC_1_OFFSET_def) blast

text \<open>The lines that \<open>init\<close> opens: the keyboard, the cascade and the serial port on the first controller and the mouse on the second;
  every line the firmware had opened stays open.\<close>

lemma clear_bit: "bit (m AND NOT x) n \<longleftrightarrow> bit m n \<and> \<not> bit x n" for m x :: u8
  by (auto simp: bit_and_iff bit_not_iff dest: bit_imp_possible_bit)

lemma unmask_lines:
  "bit (unmask1 m) n \<longleftrightarrow> bit m n \<and> n \<notin> {1, 2, 4}" "bit (unmask2 m) n \<longleftrightarrow> bit m n \<and> n \<noteq> 4"
proof -
  have "bit (16 :: u8) n \<longleftrightarrow> n = 4" "bit (4 :: u8) n \<longleftrightarrow> n = 2" "bit (2 :: u8) n \<longleftrightarrow> n = 1"
    using bit_exp_iff [where 'a = "8 word", of 4 n] bit_exp_iff [where 'a = "8 word", of 2 n] bit_exp_iff [where 'a = "8 word", of 1 n]
    by (auto simp: possible_bit_def)
  then show "bit (unmask1 m) n \<longleftrightarrow> bit m n \<and> n \<notin> {1, 2, 4}" "bit (unmask2 m) n \<longleftrightarrow> bit m n \<and> n \<noteq> 4"
    unfolding unmask1_def unmask2_def clear_bit by auto
qed

text \<open>C27. The interrupts of the three input devices are wired to their rings: the handler that the vector table has for the line of
  the keyboard, the serial port and the mouse returns; it appends the scancode, all bytes of the receive FIFO and the packet byte,
  in order and as far as they fit, to the ring of that device and to no other; it leaves the FIFO empty; and it acknowledges exactly
  its own vector. (The serial handler loops while the line status reports a byte.)\<close>

theorem interrupts_feed_rings:
  assumes "uart_conforms P rx" "ring_inv 65536 (serial_ring s)" "ring_inv 256 (keyboard_ring s)" "ring_inv 65536 (mouse_ring s)"
    "port_read P 0x60 (ports s) = (b, p)"
  shows "(\<exists>h r ws. IDT (PIC_1_OFFSET + 1) = Some h \<and> run_handler P aw h s =
        Some (s\<lparr>ports := notify_end_of_interrupt P 33 p, keyboard_ring := r, wakers := wakers s @ ws\<rparr>) \<and>
      ring_inv 256 r \<and> content 256 r = enqueue_all 255 (content 256 (keyboard_ring s)) [b]) \<and>
    (\<exists>h p' r ws. IDT (PIC_1_OFFSET + 4) = Some h \<and> run_handler P aw h s =
        Some (s\<lparr>ports := notify_end_of_interrupt P 36 p', serial_ring := r, wakers := wakers s @ ws\<rparr>) \<and> rx p' = [] \<and>
      ring_inv 65536 r \<and> content 65536 r = enqueue_all 65535 (content 65536 (serial_ring s)) (rx (ports s))) \<and>
    (\<exists>h r ws. IDT (PIC_2_OFFSET + 4) = Some h \<and> run_handler P aw h s =
        Some (s\<lparr>ports := notify_end_of_interrupt P 44 p, mouse_ring := r, wakers := wakers s @ ws\<rparr>) \<and>
      ring_inv 65536 r \<and> content 65536 r = enqueue_all 65535 (content 65536 (mouse_ring s)) [b])"
proof -
  have idt: "IDT (PIC_1_OFFSET + 1) = Some (interrupt_handler Keyboard)" "IDT (PIC_1_OFFSET + 4) = Some (interrupt_handler Serial1)"
    "IDT (PIC_2_OFFSET + 4) = Some (interrupt_handler Mouse)" by (simp_all add: IDT_def PIC_1_OFFSET_def PIC_2_OFFSET_def)
  from drain_fifo_ok [OF assms(1,2)] obtain p' r ws where
    "drain_fifo P aw s = Some (s\<lparr>ports := p', serial_ring := r, wakers := wakers s @ ws\<rparr>)" "rx p' = []" "ring_inv 65536 r"
    "content 65536 r = enqueue_all 65535 (content 65536 (serial_ring s)) (rx (ports s))" by blast
  then have "\<exists>p' r ws. serial1_interrupt_handler P aw s =
      Some (s\<lparr>ports := notify_end_of_interrupt P 36 p', serial_ring := r, wakers := wakers s @ ws\<rparr>) \<and> rx p' = [] \<and>
      ring_inv 65536 r \<and> content 65536 r = enqueue_all 65535 (content 65536 (serial_ring s)) (rx (ports s))"
    by (intro exI [of _ p'] exI [of _ r] exI [of _ ws]) (simp add: serial1_interrupt_handler_def PIC_1_OFFSET_def)
  with idt keyboard_handler_ok [OF assms(3,5), of aw] mouse_handler_ok [OF assms(4,5), of aw] show ?thesis by simp
qed

text \<open>A UART whose state is its FIFO, and a keyboard that sends 30.\<close>

definition demo_ports :: "bytes Ports" where
  "demo_ports = \<lparr>port_read = \<lambda>a p. if a = 0x3FD then (if p = [] then 0 else 1, p) else if a = 0x3F8 then (hd p, tl p) else (30, p),
     port_write = \<lambda>a v p. p, notify_end_of_interrupt = \<lambda>v p. p\<rparr>"

theorem interrupts_feed_rings_witness:
  "\<exists>p r ws. serial1_interrupt_handler demo_ports cell_waker
      \<lparr>ports = [104, 105], keyboard_ring = ring_init 256 None, serial_ring = ring_init 65536 (Some (7 :: nat)),
        mouse_ring = ring_init 65536 None, wakers = []\<rparr> =
    Some \<lparr>ports = p, keyboard_ring = ring_init 256 None, serial_ring = r, mouse_ring = ring_init 65536 None, wakers = ws\<rparr> \<and>
    content 65536 r = [104, 105]"
proof -
  let ?s = "\<lparr>ports = [104, 105], keyboard_ring = ring_init 256 None, serial_ring = ring_init 65536 (Some (7 :: nat)),
        mouse_ring = ring_init 65536 None, wakers = []\<rparr> :: (bytes, nat option, nat) irq_state"
  have "uart_conforms demo_ports (\<lambda>p. p)" by (simp add: uart_conforms_def demo_ports_def)
  moreover have "ring_inv 65536 (serial_ring ?s)" "ring_inv 256 (keyboard_ring ?s)" "ring_inv 65536 (mouse_ring ?s)"
    by (simp_all add: ring_inv_init)
  moreover have "port_read demo_ports 0x60 (ports ?s) = (30, [104, 105])" by (simp add: demo_ports_def)
  ultimately have "\<exists>h p' r ws. IDT (PIC_1_OFFSET + 4) = Some h \<and> run_handler demo_ports cell_waker h ?s =
        Some (?s\<lparr>ports := notify_end_of_interrupt demo_ports 36 p', serial_ring := r, wakers := wakers ?s @ ws\<rparr>) \<and> p' = [] \<and>
      ring_inv 65536 r \<and> content 65536 r = enqueue_all 65535 (content 65536 (serial_ring ?s)) (ports ?s)"
    by (rule interrupts_feed_rings [THEN conjunct2, THEN conjunct1])
  moreover have "IDT (PIC_1_OFFSET + 4) = Some (interrupt_handler Serial1)" by (simp add: IDT_def PIC_1_OFFSET_def)
  ultimately show ?thesis by (auto simp: enqueue_all_def content_init)
qed

end
