(* ===== verification/Rust_Str.thy ===== *)
theory Rust_Str
  imports Rust_Prelude
begin

text \<open>
  The operations of Rust's standard library on strings that the file system uses. A \<open>str\<close> is its
  list of UTF-8 bytes.
\<close>

named_theorems str_simps "string operations on rendered text"

subsection \<open>UTF-8 validity (core::str::from_utf8)\<close>

definition utf8_cont :: "u8 \<Rightarrow> bool" where
  "utf8_cont b \<longleftrightarrow> 0x80 \<le> b \<and> b \<le> 0xBF"

text \<open>The rest of the string after one well-formed character.\<close>

fun utf8_char :: "bytes \<Rightarrow> bytes option" where
  "utf8_char [] = None"
| "utf8_char (a # s) =
     (if a < 0x80 then Some s
      else if 0xC2 \<le> a \<and> a \<le> 0xDF then
        (case s of b # r \<Rightarrow> if utf8_cont b then Some r else None | [] \<Rightarrow> None)
      else if 0xE0 \<le> a \<and> a \<le> 0xEF then
        (case s of b # c # r \<Rightarrow>
           if (if a = 0xE0 then 0xA0 \<le> b \<and> b \<le> 0xBF
               else if a = 0xED then 0x80 \<le> b \<and> b \<le> 0x9F
               else utf8_cont b) \<and> utf8_cont c
           then Some r else None
         | _ \<Rightarrow> None)
      else if 0xF0 \<le> a \<and> a \<le> 0xF4 then
        (case s of b # c # d # r \<Rightarrow>
           if (if a = 0xF0 then 0x90 \<le> b \<and> b \<le> 0xBF
               else if a = 0xF4 then 0x80 \<le> b \<and> b \<le> 0x8F
               else utf8_cont b) \<and> utf8_cont c \<and> utf8_cont d
           then Some r else None
         | _ \<Rightarrow> None)
      else None)"

lemma utf8_char_shorter: "utf8_char s = Some r \<Longrightarrow> length r < length s"
  by (cases s) (auto split: if_splits list.splits)

function utf8_valid :: "bytes \<Rightarrow> bool" where
  "utf8_valid s = (s = [] \<or> (case utf8_char s of None \<Rightarrow> False | Some r \<Rightarrow> utf8_valid r))"
  by pat_completeness auto
termination
  by (relation "measure length") (auto dest: utf8_char_shorter)

declare utf8_valid.simps [simp del]

lemma utf8_valid_Nil [simp]: "utf8_valid []"
  by (simp add: utf8_valid.simps)

lemma utf8_char_append: "utf8_char s = Some r \<Longrightarrow> utf8_char (s @ t) = Some (r @ t)"
  by (cases s) (auto split: if_splits list.splits)

lemma utf8_valid_append [str_simps]: "utf8_valid s \<Longrightarrow> utf8_valid t \<Longrightarrow> utf8_valid (s @ t)"
proof (induction s rule: utf8_valid.induct)
  case (1 s)
  show ?case
  proof (cases "s = []")
    case False
    then obtain r where r: "utf8_char s = Some r" "utf8_valid r"
      using "1.prems"(1) utf8_valid.simps [of s] by (auto split: option.splits)
    with "1.IH" [OF r "1.prems"(2)] utf8_char_append [OF r(1), of t] show ?thesis
      by (subst utf8_valid.simps) simp
  qed (use 1 in simp)
qed

lemma utf8_valid_Cons [simp]: "b < 0x80 \<Longrightarrow> utf8_valid (b # s) = utf8_valid s"
  by (subst utf8_valid.simps) simp

lemma utf8_valid_ascii [str_simps]: "\<forall>b \<in> set s. b < 0x80 \<Longrightarrow> utf8_valid s"
proof (induction s)
  case (Cons a s)
  then show ?case by (subst utf8_valid.simps) simp
qed simp

lemma utf8_valid_concat: "\<forall>s \<in> set ss. utf8_valid s \<Longrightarrow> utf8_valid (concat ss)"
  by (induction ss) (auto intro: utf8_valid_append)

subsection \<open>Characters\<close>

text \<open>The characters of a string, each as its UTF-8 bytes.\<close>

function str_chars :: "bytes \<Rightarrow> bytes list" where
  "str_chars s = (case utf8_char s of None \<Rightarrow> [] | Some rest \<Rightarrow> take (length s - length rest) s # str_chars rest)"
  by pat_completeness auto
termination by (relation "measure length") (auto dest: utf8_char_shorter)

declare str_chars.simps [simp del]

subsection \<open>Lines and fields\<close>

text \<open>\<open>str::lines\<close>: a line ends with a line feed, or at the end of the text when something is left; one carriage
  return before the line feed is dropped.\<close>

definition strip_cr :: "bytes \<Rightarrow> bytes" where
  "strip_cr l = (if l \<noteq> [] \<and> last l = 13 then butlast l else l)"

fun lines_from :: "bytes \<Rightarrow> bytes \<Rightarrow> bytes list" where
  "lines_from acc [] = (if acc = [] then [] else [acc])"
| "lines_from acc (c # s) = (if c = 10 then strip_cr acc # lines_from [] s else lines_from (acc @ [c]) s)"

definition str_lines :: "bytes \<Rightarrow> bytes list" where
  "str_lines s = lines_from [] s"

lemma lines_from_line:
  "10 \<notin> set l \<Longrightarrow> lines_from acc (l @ 10 # s) = strip_cr (acc @ l) # lines_from [] s"
  by (induction l arbitrary: acc) auto

lemma str_lines_line [str_simps]: "10 \<notin> set l \<Longrightarrow> str_lines (l @ 10 # s) = strip_cr l # str_lines s"
  by (simp add: str_lines_def lines_from_line)

lemma str_lines_Nil [simp]: "str_lines [] = []"
  by (simp add: str_lines_def)

text \<open>\<open>str::split(':')\<close>.\<close>

fun split_from :: "u8 \<Rightarrow> bytes \<Rightarrow> bytes \<Rightarrow> bytes list" where
  "split_from sep acc [] = [acc]"
| "split_from sep acc (c # s) = (if c = sep then acc # split_from sep [] s else split_from sep (acc @ [c]) s)"

definition str_split :: "u8 \<Rightarrow> bytes \<Rightarrow> bytes list" where
  "str_split sep s = split_from sep [] s"

lemma split_from_field:
  "sep \<notin> set f \<Longrightarrow> split_from sep acc (f @ sep # s) = (acc @ f) # split_from sep [] s"
  by (induction f arbitrary: acc) auto

lemma split_from_last: "sep \<notin> set f \<Longrightarrow> split_from sep acc f = [acc @ f]"
  by (induction f arbitrary: acc) auto

lemma str_split_simps [str_simps]:
  "sep \<notin> set f \<Longrightarrow> str_split sep (f @ sep # s) = f # str_split sep s"
  "sep \<notin> set f \<Longrightarrow> str_split sep f = [f]"
  by (simp_all add: str_split_def split_from_field split_from_last)

subsection \<open>Decimal numbers\<close>

text \<open>\<open>Display\<close> for \<open>u64\<close>, and \<open>str::parse::<u64>\<close>: an optional plus sign, then digits, an error on anything
  else and on overflow.\<close>

fun dec_nat :: "nat \<Rightarrow> bytes" where
  "dec_nat n = (if n < 10 then [of_nat (48 + n)] else dec_nat (n div 10) @ [of_nat (48 + n mod 10)])"

declare dec_nat.simps [simp del]

definition dec_u64 :: "u64 \<Rightarrow> bytes" where
  "dec_u64 w = dec_nat (unat w)"

fun parse_digits :: "nat \<Rightarrow> bytes \<Rightarrow> nat option" where
  "parse_digits acc [] = Some acc"
| "parse_digits acc (c # s) =
     (if 48 \<le> c \<and> c \<le> 57
      then let v = acc * 10 + (unat c - 48) in if v < 2 ^ 64 then parse_digits v s else None
      else None)"

definition parse_u64 :: "bytes \<Rightarrow> u64 option" where
  "parse_u64 s = (case s of
       [] \<Rightarrow> None
     | c # r \<Rightarrow> map_option of_nat (parse_digits 0 (if c = 43 \<and> r \<noteq> [] then r else s)))"

lemma digit_byte:
  assumes "d < 10"
  shows "48 \<le> (of_nat (48 + d) :: u8)" "(of_nat (48 + d) :: u8) \<le> 57" "unat (of_nat (48 + d) :: u8) = 48 + d"
proof -
  show u: "unat (of_nat (48 + d) :: u8) = 48 + d"
    using assms by (simp add: unat_of_nat take_bit_nat_def del: of_nat_add)
  show "48 \<le> (of_nat (48 + d) :: u8)" "(of_nat (48 + d) :: u8) \<le> 57"
    unfolding word_le_nat_alt u using assms by simp_all
qed

lemma dec_nat_digits: "\<forall>b \<in> set (dec_nat n). 48 \<le> b \<and> b \<le> 57"
proof (induction n rule: dec_nat.induct)
  case (1 n)
  then show ?case
    by (subst dec_nat.simps) (use digit_byte in \<open>auto simp del: of_nat_add\<close>)
qed

lemma dec_nat_nonempty: "dec_nat n \<noteq> []"
  by (subst dec_nat.simps) simp

lemma parse_digits_append:
  "parse_digits acc s = Some v \<Longrightarrow> parse_digits acc (s @ t) = parse_digits v t"
  by (induction acc s rule: parse_digits.induct) (auto simp: Let_def split: if_splits)

lemma parse_digits_dec: "n < 2 ^ 64 \<Longrightarrow> parse_digits 0 (dec_nat n) = Some n"
proof (induction n rule: dec_nat.induct)
  case (1 n)
  show ?case
  proof (cases "n < 10")
    case True
    with 1 digit_byte [OF True] show ?thesis by (subst dec_nat.simps) (simp del: of_nat_add)
  next
    case False
    have "parse_digits 0 (dec_nat (n div 10)) = Some (n div 10)" using 1 False by simp
    moreover have "parse_digits (n div 10) [of_nat (48 + n mod 10)] = Some n"
      using digit_byte [of "n mod 10"] "1.prems" by (simp del: of_nat_add)
    ultimately show ?thesis
      using False by (subst dec_nat.simps) (simp add: parse_digits_append del: of_nat_add)
  qed
qed

lemma parse_dec_u64 [str_simps]: "parse_u64 (dec_u64 w) = Some w"
proof -
  have n: "unat w < 2 ^ 64" using unsigned_less [of w] by simp
  obtain c r where cr: "dec_nat (unat w) = c # r" using dec_nat_nonempty by (cases "dec_nat (unat w)") auto
  then have "48 \<le> c" using dec_nat_digits [of "unat w"] by auto
  then have "c \<noteq> 43" by auto
  with parse_digits_dec [OF n] cr show ?thesis by (simp add: parse_u64_def dec_u64_def)
qed

lemma dec_u64_bytes: "b \<in> set (dec_u64 w) \<Longrightarrow> 48 \<le> b \<and> b \<le> 57"
  using dec_nat_digits by (auto simp: dec_u64_def)

subsection \<open>Trimming and comparing names\<close>

text \<open>\<open>str::trim\<close> removes the characters with the Unicode property White\_Space; these are their encodings.\<close>

definition ws_chars :: "bytes list" where
  "ws_chars = [[9], [10], [11], [12], [13], [32], [0xC2, 0x85], [0xC2, 0xA0], [0xE1, 0x9A, 0x80],
     [0xE2, 0x80, 0x80], [0xE2, 0x80, 0x81], [0xE2, 0x80, 0x82], [0xE2, 0x80, 0x83], [0xE2, 0x80, 0x84],
     [0xE2, 0x80, 0x85], [0xE2, 0x80, 0x86], [0xE2, 0x80, 0x87], [0xE2, 0x80, 0x88], [0xE2, 0x80, 0x89],
     [0xE2, 0x80, 0x8A], [0xE2, 0x80, 0xA8], [0xE2, 0x80, 0xA9], [0xE2, 0x80, 0xAF], [0xE2, 0x81, 0x9F],
     [0xE3, 0x80, 0x80]]"

function strip_prefixes :: "bytes list \<Rightarrow> bytes \<Rightarrow> bytes" where
  "strip_prefixes ws s =
     (case find (\<lambda>w. w \<noteq> [] \<and> take (length w) s = w) ws of
        None \<Rightarrow> s
      | Some w \<Rightarrow> strip_prefixes ws (drop (length w) s))"
  by pat_completeness auto
termination
proof (relation "measure (\<lambda>(ws, s). length s)")
  fix ws s w assume "find (\<lambda>w. w \<noteq> [] \<and> take (length w) s = w) ws = Some w"
  then have "w \<noteq> []" "take (length w) s = w" by (auto simp: find_Some_iff)
  then show "((ws, drop (length w) s), (ws, s)) \<in> measure (\<lambda>(ws, s). length s)"
    by (cases s) auto
qed simp

declare strip_prefixes.simps [simp del]

definition str_trim :: "bytes \<Rightarrow> bytes" where
  "str_trim s = rev (strip_prefixes (map rev ws_chars) (rev (strip_prefixes ws_chars s)))"

definition ascii_lower :: "u8 \<Rightarrow> u8" where
  "ascii_lower b = (if 65 \<le> b \<and> b \<le> 90 then b + 32 else b)"

definition eq_ignore_ascii_case :: "bytes \<Rightarrow> bytes \<Rightarrow> bool" where
  "eq_ignore_ascii_case s t \<longleftrightarrow> map ascii_lower s = map ascii_lower t"

lemma eq_ignore_ascii_case_refl [simp]: "eq_ignore_ascii_case s s"
  by (simp add: eq_ignore_ascii_case_def)

end
