(* ===== verification/Utf8.thy ===== *)
theory Utf8
  imports Rust_Str
begin

text \<open>
  Strings at the level of characters: a valid string is a concatenation of encoded characters, it can be cut at
  every byte that starts a character, and the string operations of the kernel keep validity, which is the
  invariant of Rust's type \<open>String\<close>.
\<close>

named_theorems utf8_intros "operations that keep strings valid"

subsection \<open>Characters\<close>

definition is_char :: "bytes \<Rightarrow> bool" where
  "is_char c \<longleftrightarrow> utf8_char c = Some []"

lemma utf8_char_split:
  assumes "utf8_char s = Some r"
  shows "\<exists>c. s = c @ r \<and> is_char c"
proof (cases s)
  case (Cons a t)
  with assms consider "a < 0x80" "r = t"
    | b where "t = b # r" "is_char [a, b]"
    | b c where "t = b # c # r" "is_char [a, b, c]"
    | b c d where "t = b # c # d # r" "is_char [a, b, c, d]"
    by (auto simp: is_char_def split: if_splits list.splits)
  then show ?thesis
  proof cases
    case 1
    with Cons show ?thesis by (intro exI [of _ "[a]"]) (simp add: is_char_def)
  qed (use Cons in auto)
qed (use assms in simp)

lemma is_char_shape:
  assumes "is_char c"
  obtains b bs where "c = b # bs" "\<not> utf8_cont b" "\<forall>x \<in> set bs. utf8_cont x"
proof (cases c)
  case (Cons b bs)
  have "\<not> utf8_cont b \<and> (\<forall>x \<in> set bs. utf8_cont x)"
    using assms unfolding Cons is_char_def
    by (auto simp: utf8_cont_def word_le_nat_alt word_less_nat_alt split: if_splits list.splits)
  with Cons that show ?thesis by blast
qed (use assms in \<open>simp add: is_char_def\<close>)

lemma is_char_not_Nil [simp]: "\<not> is_char []"
  by (simp add: is_char_def)

lemma utf8_char_is_char: "is_char c \<Longrightarrow> utf8_char (c @ s) = Some s"
  using utf8_char_append [of c "[]" s] by (simp add: is_char_def)

lemma utf8_valid_char [simp]: "is_char c \<Longrightarrow> utf8_valid c"
  by (subst utf8_valid.simps) (simp add: is_char_def)

lemma utf8_valid_char_append: "is_char c \<Longrightarrow> utf8_valid (c @ s) \<longleftrightarrow> utf8_valid s"
  by (subst utf8_valid.simps) (auto simp: utf8_char_is_char)

lemma utf8_valid_chars:
  assumes "utf8_valid s"
  obtains cs where "s = concat cs" "\<forall>c \<in> set cs. is_char c"
proof -
  have "\<exists>cs. s = concat cs \<and> (\<forall>c \<in> set cs. is_char c)"
    using assms
  proof (induction s rule: utf8_valid.induct)
    case (1 s)
    show ?case
    proof (cases "s = []")
      case True
      then show ?thesis by (intro exI [of _ "[]"]) simp
    next
      case False
      with 1(2) obtain r where r: "utf8_char s = Some r" "utf8_valid r"
        by (subst (asm) utf8_valid.simps) (auto split: option.splits)
      with 1(1) False obtain cs where "r = concat cs" "\<forall>c \<in> set cs. is_char c" by blast
      moreover obtain c where "s = c @ r" "is_char c" using utf8_char_split [OF r(1)] by blast
      ultimately show ?thesis by (intro exI [of _ "c # cs"]) simp
    qed
  qed
  with that show ?thesis by blast
qed

lemma utf8_valid_concat_chars: "\<forall>c \<in> set cs. is_char c \<Longrightarrow> utf8_valid (concat cs)"
  by (intro utf8_valid_concat) auto

lemma str_chars_concat: "\<forall>c \<in> set cs. is_char c \<Longrightarrow> str_chars (concat cs) = cs"
proof (induction cs)
  case Nil
  then show ?case by (subst str_chars.simps) simp
next
  case (Cons c cs)
  then show ?case by (subst str_chars.simps) (simp add: utf8_char_is_char)
qed

lemma str_chars_valid:
  assumes "utf8_valid s"
  shows "concat (str_chars s) = s" "\<forall>c \<in> set (str_chars s). is_char c"
  using utf8_valid_chars [OF assms] str_chars_concat by metis+

lemma is_char_ascii: "b < 0x80 \<Longrightarrow> is_char [b]"
  by (simp add: is_char_def)

subsection \<open>Cutting a string\<close>

lemma utf8_cut:
  assumes "\<forall>c \<in> set cs. is_char c" "i = length (concat cs) \<or> i < length (concat cs) \<and> \<not> utf8_cont (concat cs ! i)"
  shows "utf8_valid (take i (concat cs)) \<and> utf8_valid (drop i (concat cs))"
  using assms
proof (induction cs arbitrary: i)
  case (Cons c cs)
  obtain b bs where c: "c = b # bs" "\<forall>x \<in> set bs. utf8_cont x" using Cons.prems(1) is_char_shape by (metis list.set_intros(1))
  have chars: "is_char c" "\<forall>c \<in> set cs. is_char c" using Cons.prems(1) by auto
  consider "i = 0" | "0 < i" "i < length c" | "length c \<le> i" by linarith
  then show ?case
  proof cases
    case 1
    then show ?thesis using utf8_valid_concat_chars [OF Cons.prems(1)] by simp
  next
    case 2
    then have "concat (c # cs) ! i = bs ! (i - 1)" "i - 1 < length bs" by (auto simp: c(1) nth_append nth_Cons')
    then have "utf8_cont (concat (c # cs) ! i)" using c(2) by simp
    with Cons.prems(2) 2 show ?thesis by simp
  next
    case 3
    then have "i - length c = length (concat cs) \<or> i - length c < length (concat cs) \<and> \<not> utf8_cont (concat cs ! (i - length c))"
      using Cons.prems(2) by (auto simp: nth_append)
    from Cons.IH [OF chars(2) this] chars(1) 3 show ?thesis by (simp add: utf8_valid_char_append)
  qed
qed simp

lemma utf8_cut_at:
  assumes "utf8_valid (s @ t)" "t = [] \<or> \<not> utf8_cont (hd t)"
  shows "utf8_valid s" "utf8_valid t"
proof -
  obtain cs where cs: "s @ t = concat cs" "\<forall>c \<in> set cs. is_char c" by (rule utf8_valid_chars [OF assms(1)])
  have "length s = length (concat cs) \<or> length s < length (concat cs) \<and> \<not> utf8_cont (concat cs ! length s)"
    using assms(2) unfolding cs(1) [symmetric] by (cases t) (auto simp: nth_append)
  from utf8_cut [OF cs(2) this] show "utf8_valid s" "utf8_valid t" unfolding cs(1) [symmetric] by simp_all
qed

lemma ascii_not_cont: "b < 0x80 \<Longrightarrow> \<not> utf8_cont b"
  by (simp add: utf8_cont_def not_le)

lemma utf8_cut_ascii:
  assumes "utf8_valid (s @ b # t)" "b < 0x80"
  shows "utf8_valid s" "utf8_valid t"
  using utf8_cut_at [OF assms(1)] assms(2) ascii_not_cont by auto

subsection \<open>The operations keep strings valid\<close>

lemma utf8_valid_lit [utf8_intros]: "\<forall>c \<in> set s. of_char c < (0x80 :: u8) \<Longrightarrow> utf8_valid (map of_char s)"
  by (rule utf8_valid_ascii) auto

lemma split_from_valid:
  assumes "utf8_valid (acc @ s)" "sep < 0x80" "f \<in> set (split_from sep acc s)"
  shows "utf8_valid f"
  using assms
proof (induction sep acc s rule: split_from.induct)
  case (2 sep acc b s)
  show ?case
  proof (cases "b = sep")
    case True
    with 2 utf8_cut_ascii [of acc sep s] show ?thesis by auto
  next
    case False
    with 2 show ?thesis by simp
  qed
qed simp

lemma str_split_valid [utf8_intros]: "utf8_valid s \<Longrightarrow> sep < 0x80 \<Longrightarrow> f \<in> set (str_split sep s) \<Longrightarrow> utf8_valid f"
  using split_from_valid [of "[]" s sep f] by (simp add: str_split_def)

lemma strip_cr_valid: "utf8_valid s \<Longrightarrow> utf8_valid (strip_cr s)"
proof (cases "s \<noteq> [] \<and> last s = 13")
  case True
  then have s: "butlast s @ [13] = s" using append_butlast_last_id [of s] by simp
  assume "utf8_valid s"
  then have "utf8_valid (butlast s @ [13])" unfolding s .
  then have "utf8_valid (butlast s)" by (rule utf8_cut_ascii) simp
  with True show ?thesis by (simp add: strip_cr_def)
qed (auto simp: strip_cr_def)

lemma lines_from_valid:
  assumes "utf8_valid (acc @ s)" "l \<in> set (lines_from acc s)"
  shows "utf8_valid l"
  using assms
proof (induction acc s rule: lines_from.induct)
  case (2 acc b s)
  show ?case
  proof (cases "b = 10")
    case True
    with 2 utf8_cut_ascii [of acc 10 s] strip_cr_valid show ?thesis by auto
  next
    case False
    with 2 show ?thesis by simp
  qed
qed (auto split: if_splits)

lemma str_lines_valid [utf8_intros]: "utf8_valid s \<Longrightarrow> l \<in> set (str_lines s) \<Longrightarrow> utf8_valid l"
  using lines_from_valid [of "[]" s l] by (simp add: str_lines_def)

lemma ws_chars_are_chars: "\<forall>w \<in> set ws_chars. is_char w"
  by code_simp

lemma strip_prefixes_valid:
  "\<forall>w \<in> set ws. is_char w \<Longrightarrow> utf8_valid s \<Longrightarrow> utf8_valid (strip_prefixes ws s)"
proof (induction ws s rule: strip_prefixes.induct)
  case (1 ws s)
  show ?case
  proof (cases "find (\<lambda>w. w \<noteq> [] \<and> take (length w) s = w) ws")
    case (Some w)
    then have w: "is_char w" "s = w @ drop (length w) s"
      using 1(2) by (auto simp: find_Some_iff) (metis append_take_drop_id)
    then have "utf8_valid (drop (length w) s)" using 1(3) utf8_valid_char_append [OF w(1)] by metis
    with 1 Some show ?thesis by (subst strip_prefixes.simps) simp
  qed (use 1 in \<open>simp add: strip_prefixes.simps\<close>)
qed

lemma strip_suffixes_valid:
  "\<forall>w \<in> set ws. is_char (rev w) \<Longrightarrow> utf8_valid (rev s) \<Longrightarrow> utf8_valid (rev (strip_prefixes ws s))"
proof (induction ws s rule: strip_prefixes.induct)
  case (1 ws s)
  show ?case
  proof (cases "find (\<lambda>w. w \<noteq> [] \<and> take (length w) s = w) ws")
    case (Some w)
    then have w: "is_char (rev w)" "s = w @ drop (length w) s"
      using 1(2) by (auto simp: find_Some_iff) (metis append_take_drop_id)
    obtain b bs where "rev w = b # bs" "\<not> utf8_cont b" by (rule is_char_shape [OF w(1)])
    moreover have "rev s = rev (drop (length w) s) @ rev w" using w(2) by (metis rev_append)
    ultimately have "utf8_valid (rev (drop (length w) s))" using utf8_cut_at(1) 1(3) by (metis list.sel(1))
    with 1 Some show ?thesis by (subst strip_prefixes.simps) simp
  qed (use 1 in \<open>simp add: strip_prefixes.simps\<close>)
qed

lemma str_trim_valid [utf8_intros]: "utf8_valid s \<Longrightarrow> utf8_valid (str_trim s)"
  unfolding str_trim_def using ws_chars_are_chars
  by (intro strip_suffixes_valid) (auto intro: strip_prefixes_valid)

end
