(* ===== verification/Virtio_Gpu.thy ===== *)
theory Virtio_Gpu
  imports Virtqueue Byte_Store Memory
begin

text \<open>
  The VirtIO GPU driver, \<^verbatim>\<open>kernel/src/virtio_gpu.rs\<close>. Memory is a store of virtqueues and of bytes by virtual
  address; the device is a parameter with a doorbell and a step \<open>gd_tick\<close>, its progress up to the next load of a
  field that it writes. The reply type is compared as the number in memory.
\<close>

subsection \<open>Commands\<close>

datatype CommandTy = Undefined | CmdGetDisplayInfo | CmdResourceCreate2d | CmdResourceUnref | CmdSetScanout
  | CmdResourceFlush | CmdTransferToHost2d | CmdResourceAttachBacking | CmdResourceDetachBacking
  | RespOkNodata | RespOkDisplayInfo

fun discriminant :: "CommandTy \<Rightarrow> u32" where
  "discriminant Undefined = 0"
| "discriminant CmdGetDisplayInfo = 0x0100"
| "discriminant CmdResourceCreate2d = 0x0101"
| "discriminant CmdResourceUnref = 0x0102"
| "discriminant CmdSetScanout = 0x0103"
| "discriminant CmdResourceFlush = 0x0104"
| "discriminant CmdTransferToHost2d = 0x0105"
| "discriminant CmdResourceAttachBacking = 0x0106"
| "discriminant CmdResourceDetachBacking = 0x0107"
| "discriminant RespOkNodata = 0x1100"
| "discriminant RespOkDisplayInfo = 0x1101"

record ControlHeader =
  ty :: CommandTy
  ch_flags :: u32
  fence_id :: u64
  ctx_id :: u32
  ring_index :: u8

definition with_ty :: "CommandTy \<Rightarrow> ControlHeader" where
  "with_ty t = \<lparr>ty = t, ch_flags = 0, fence_id = 0, ctx_id = 0, ring_index = 0\<rparr>"

record GpuRect =
  gx :: u32
  gy :: u32
  gwidth :: u32
  gheight :: u32

datatype ResourceFormat = Bgrx | Xrgb

fun format_code :: "ResourceFormat \<Rightarrow> u32" where
  "format_code Bgrx = 2"
| "format_code Xrgb = 4"

record ResourceCreate2d =
  rc_header :: ControlHeader
  rc_resource_id :: u32
  rc_format :: ResourceFormat
  rc_width :: u32
  rc_height :: u32

record AttachBacking =
  ab_header :: ControlHeader
  ab_resource_id :: u32
  num_entries :: u32

record MemEntry =
  me_address :: u64
  me_length :: u32
  me_padding :: u32

record SetScanout =
  ss_header :: ControlHeader
  ss_rect :: GpuRect
  scanout_id :: u32
  ss_resource_id :: u32

record TransferToHost2d =
  tt_header :: ControlHeader
  tt_rect :: GpuRect
  tt_offset :: u64
  tt_resource_id :: u32
  tt_padding :: u32

record ResourceFlush =
  rf_header :: ControlHeader
  rf_rect :: GpuRect
  rf_resource_id :: u32
  rf_padding :: u32

text \<open>The \<open>repr(C)\<close> layout of the structures.\<close>

definition header_bytes :: "ControlHeader \<Rightarrow> bytes" where
  "header_bytes h = to_le_bytes32 (discriminant (ty h)) @ to_le_bytes32 (ch_flags h) @ to_le_bytes64 (fence_id h) @
     to_le_bytes32 (ctx_id h) @ [ring_index h, 0, 0, 0]"

definition rect_bytes :: "GpuRect \<Rightarrow> bytes" where
  "rect_bytes r = to_le_bytes32 (gx r) @ to_le_bytes32 (gy r) @ to_le_bytes32 (gwidth r) @ to_le_bytes32 (gheight r)"

definition create_bytes :: "ResourceCreate2d \<Rightarrow> bytes" where
  "create_bytes c = header_bytes (rc_header c) @ to_le_bytes32 (rc_resource_id c) @ to_le_bytes32 (format_code (rc_format c)) @
     to_le_bytes32 (rc_width c) @ to_le_bytes32 (rc_height c)"

definition attach_bytes :: "AttachBacking \<Rightarrow> bytes" where
  "attach_bytes c = header_bytes (ab_header c) @ to_le_bytes32 (ab_resource_id c) @ to_le_bytes32 (num_entries c)"

definition entry_bytes :: "MemEntry \<Rightarrow> bytes" where
  "entry_bytes e = to_le_bytes64 (me_address e) @ to_le_bytes32 (me_length e) @ to_le_bytes32 (me_padding e)"

definition scanout_bytes :: "SetScanout \<Rightarrow> bytes" where
  "scanout_bytes c = header_bytes (ss_header c) @ rect_bytes (ss_rect c) @ to_le_bytes32 (scanout_id c) @
     to_le_bytes32 (ss_resource_id c)"

definition transfer_bytes :: "TransferToHost2d \<Rightarrow> bytes" where
  "transfer_bytes c = header_bytes (tt_header c) @ rect_bytes (tt_rect c) @ to_le_bytes64 (tt_offset c) @
     to_le_bytes32 (tt_resource_id c) @ to_le_bytes32 (tt_padding c)"

definition flush_bytes :: "ResourceFlush \<Rightarrow> bytes" where
  "flush_bytes c = header_bytes (rf_header c) @ rect_bytes (rf_rect c) @ to_le_bytes32 (rf_resource_id c) @
     to_le_bytes32 (rf_padding c)"

text \<open>\<open>size_of\<close> of the header and of the display-info reply (a header and 16 times 24 bytes).\<close>

definition HEADER_SIZE :: nat where "HEADER_SIZE = 24"
definition VIRTIO_GPU_MAX_SCANOUTS :: nat where "VIRTIO_GPU_MAX_SCANOUTS = 16"
definition DISPLAY_INFO_SIZE :: nat where "DISPLAY_INFO_SIZE = HEADER_SIZE + VIRTIO_GPU_MAX_SCANOUTS * 24"

lemma length_commands [simp]:
  "length (header_bytes h) = 24" "length (rect_bytes r) = 16" "length (create_bytes c) = 40" "length (attach_bytes b) = 32"
  "length (entry_bytes e) = 16" "length (scanout_bytes s) = 48" "length (transfer_bytes t) = 56" "length (flush_bytes f) = 48"
  by (simp_all add: header_bytes_def rect_bytes_def create_bytes_def attach_bytes_def entry_bytes_def scanout_bytes_def
      transfer_bytes_def flush_bytes_def)

subsection \<open>State\<close>

record VirtioGpuDriver =
  gpu_mmio_base :: nat
  resource_id_counter :: u32
  control_queue_virt :: "nat option"
  notify_address :: "nat option"
  mailbox_phys :: "u64 option"
  mailbox_virt :: "nat option"

record gpu_mem =
  vq_heap :: "nat \<Rightarrow> VirtQueue"
  box :: "nat \<Rightarrow> u8"

record 'd GpuDevice =
  gd_notify :: "nat \<Rightarrow> u16 \<Rightarrow> 'd \<times> gpu_mem \<Rightarrow> 'd \<times> gpu_mem"
  gd_tick :: "'d \<times> gpu_mem \<Rightarrow> 'd \<times> gpu_mem"

record 'd gpu_state =
  gdrv :: VirtioGpuDriver
  gmem :: gpu_mem
  gdev :: 'd

definition VirtioGpuDriver_new :: "nat \<Rightarrow> VirtioGpuDriver" where
  "VirtioGpuDriver_new base = \<lparr>gpu_mmio_base = base, resource_id_counter = 1, control_queue_virt = None,
     notify_address = None, mailbox_phys = None, mailbox_virt = None\<rparr>"

text \<open>The offsets of the three rings in the structure \<open>VirtQueue\<close>.\<close>

definition avail_offset :: nat where "avail_offset = 64 * 16"
definition used_offset :: nat where "used_offset = 64 * 16 + 136"

definition set_notify_address :: "nat \<Rightarrow> VirtioGpuDriver \<Rightarrow> VirtioGpuDriver" where
  "set_notify_address a d = d\<lparr>notify_address := Some a\<rparr>"

definition next_resource_id :: "VirtioGpuDriver \<Rightarrow> u32 \<times> VirtioGpuDriver" where
  "next_resource_id d = (resource_id_counter d, d\<lparr>resource_id_counter := resource_id_counter d + 1\<rparr>)"

definition setup_control_queue :: "'fa frame_fun \<Rightarrow> nat \<Rightarrow> VirtioGpuDriver \<Rightarrow> 'fa \<Rightarrow> gpu_mem \<Rightarrow>
    ((string, nat \<times> nat \<times> nat) result \<times> VirtioGpuDriver \<times> 'fa \<times> gpu_mem) option" where
  "setup_control_queue alf off d fa m = (case allocate_dma_frames alf off 3 fa of
       (None, fa') \<Rightarrow> Some (Err ''Failed to allocate DMA memory for Control Queue.'', d, fa', m)
     | (Some (base_phys, base_virt, _), fa') \<Rightarrow> do {
         vq \<leftarrow> VirtQueue_new;
         let m1 = m\<lparr>vq_heap := (vq_heap m)(base_virt := vq)\<rparr>;
         let d1 = d\<lparr>control_queue_virt := Some base_virt\<rparr>;
         (case allocate_dma_frames alf off 1 fa' of
            (None, fa'') \<Rightarrow> Some (Err ''Failed to allocate DMA Mailbox.'', d1, fa'', m1)
          | (Some (m_phys, m_virt, Z), fa'') \<Rightarrow>
              Some (Ok (base_phys, base_phys + avail_offset, base_phys + used_offset),
                d1\<lparr>mailbox_phys := Some (of_nat m_phys), mailbox_virt := Some m_virt\<rparr>, fa'',
                m1\<lparr>box := \<lambda>a. if off \<le> a \<and> a - off \<in> Z then 0 else box m1 a\<rparr>)) })"

subsection \<open>Sending commands\<close>

definition ring_doorbell :: "'d GpuDevice \<Rightarrow> 'd gpu_state \<Rightarrow> 'd gpu_state" where
  "ring_doorbell gd s = (case notify_address (gdrv s) of
       None \<Rightarrow> s
     | Some a \<Rightarrow> (let (d, m) = gd_notify gd a 0 (gdev s, gmem s) in s\<lparr>gdev := d, gmem := m\<rparr>))"

definition put_vq :: "nat \<Rightarrow> VirtQueue \<Rightarrow> 'd gpu_state \<Rightarrow> 'd gpu_state" where
  "put_vq q vq s = s\<lparr>gmem := (gmem s)\<lparr>vq_heap := (vq_heap (gmem s))(q := vq)\<rparr>\<rparr>"

definition put_bytes :: "nat \<Rightarrow> bytes \<Rightarrow> 'd gpu_state \<Rightarrow> 'd gpu_state" where
  "put_bytes p bs s = s\<lparr>gmem := (gmem s)\<lparr>box := write_bytes p bs (box (gmem s))\<rparr>\<rparr>"

definition send_command :: "'d GpuDevice \<Rightarrow> bytes \<Rightarrow> 'd gpu_state \<Rightarrow> ((string, unit) result \<times> 'd gpu_state) option" where
  "send_command gd command_bytes s = do {
     q \<leftarrow> control_queue_virt (gdrv s);
     let vq = vq_heap (gmem s) q;
     if num_free vq = 0 then Some (Err ''Control Queue is full!'', s)
     else do {
       let head_idx = unat (free_head vq);
       desc \<leftarrow> aget (descriptors vq) head_idx;
       let vq = vq\<lparr>free_head := vd_next desc, num_free := num_free vq - 1\<rparr>;
       let command_buffer_phys = 0x2000000;
       vq \<leftarrow> set_desc vq head_idx command_buffer_phys (of_nat (length command_bytes)) 0;
       vq \<leftarrow> publish head_idx vq;
       Some (Ok (), ring_doorbell gd (put_vq q vq s)) } }"

text \<open>\<open>loop \<open>{\<close> if starting_used_idx != vq.used.idx.load(Acquire) \<open>{\<close> break; \<open>}\<close> \<open>}\<close>\<close>\<close>

partial_function (option) wait_used :: "'d GpuDevice \<Rightarrow> nat \<Rightarrow> u16 \<Rightarrow> 'd \<times> gpu_mem \<Rightarrow> ('d \<times> gpu_mem) option" where
  "wait_used gd q starting_used_idx x = (let x' = gd_tick gd x in
     if starting_used_idx \<noteq> us_idx (used (vq_heap (snd x') q)) then Some x'
     else wait_used gd q starting_used_idx x')"

text \<open>From loading the two descriptors to the end of the wait: what the four blocking commands share.\<close>

definition exchange :: "'d GpuDevice \<Rightarrow> nat \<Rightarrow> nat \<Rightarrow> 'd gpu_state \<Rightarrow> ('d gpu_state \<times> nat \<times> nat) option" where
  "exchange gd cmd_len resp_len s = do {
     mp \<leftarrow> mailbox_phys (gdrv s);
     q \<leftarrow> control_queue_virt (gdrv s);
     (vq, head_idx, next_idx) \<leftarrow> load_pair mp (of_nat cmd_len) (mp + 512) (of_nat resp_len) (vq_heap (gmem s) q);
     vq \<leftarrow> publish head_idx vq;
     let s = ring_doorbell gd (put_vq q vq s);
     let starting_used_idx = last_used_idx (vq_heap (gmem s) q);
     x \<leftarrow> wait_used gd q starting_used_idx (gdev s, gmem s);
     let (d, m) = gd_tick gd x;
     let s = s\<lparr>gdev := d, gmem := m\<rparr>;
     let vq = vq_heap m q;
     Some (put_vq q (vq\<lparr>last_used_idx := us_idx (used vq)\<rparr>) s, head_idx, next_idx) }"

definition reclaim :: "nat \<Rightarrow> nat \<Rightarrow> 'd gpu_state \<Rightarrow> 'd gpu_state option" where
  "reclaim head_idx next_idx s = do {
     q \<leftarrow> control_queue_virt (gdrv s);
     vq \<leftarrow> reclaim_pair head_idx next_idx (vq_heap (gmem s) q);
     Some (put_vq q vq s) }"

text \<open>The end of the three commands with a plain reply.\<close>

definition open_nodata :: "string \<Rightarrow> 'd gpu_state \<times> nat \<times> nat \<Rightarrow> ((string, unit) result \<times> 'd gpu_state) option" where
  "open_nodata err = (\<lambda>(s, head_idx, next_idx). do {
     mv \<leftarrow> mailbox_virt (gdrv s);
     if read_u32 (box (gmem s)) (mv + 512) = discriminant RespOkNodata
     then do { s \<leftarrow> reclaim head_idx next_idx s; Some (Ok (), s) }
     else Some (Err err, s) })"

definition get_display_info :: "'d GpuDevice \<Rightarrow> 'd gpu_state \<Rightarrow> ((string, u32 \<times> u32) result \<times> 'd gpu_state) option" where
  "get_display_info gd s = do {
     mv \<leftarrow> mailbox_virt (gdrv s);
     let s = put_bytes mv (header_bytes (with_ty CmdGetDisplayInfo)) s;
     let s = put_bytes (mv + 512) (replicate DISPLAY_INFO_SIZE 0) s;
     (s, head_idx, next_idx) \<leftarrow> exchange gd HEADER_SIZE DISPLAY_INFO_SIZE s;
     let h = box (gmem s);
     let r = (if read_u32 h (mv + 512) = discriminant RespOkDisplayInfo
       then Ok (read_u32 h (mv + 512 + 32), read_u32 h (mv + 512 + 36))
       else Err ''Failed to get display info'');
     s \<leftarrow> reclaim head_idx next_idx s;
     Some (r, s) }"

definition create_2d_canvas :: "'d GpuDevice \<Rightarrow> u32 \<Rightarrow> u32 \<Rightarrow> u32 \<Rightarrow> 'd gpu_state \<Rightarrow>
    ((string, unit) result \<times> 'd gpu_state) option" where
  "create_2d_canvas gd resource_id width height s = do {
     mv \<leftarrow> mailbox_virt (gdrv s);
     let s = put_bytes mv (create_bytes \<lparr>rc_header = with_ty CmdResourceCreate2d, rc_resource_id = resource_id,
       rc_format = Bgrx, rc_width = width, rc_height = height\<rparr>) s;
     let s = put_bytes (mv + 512) (replicate HEADER_SIZE 0) s;
     x \<leftarrow> exchange gd 40 HEADER_SIZE s;
     open_nodata ''GPU failed to create 2D canvas.'' x }"

definition attach_backing :: "'d GpuDevice \<Rightarrow> u32 \<Rightarrow> u64 \<Rightarrow> u32 \<Rightarrow> 'd gpu_state \<Rightarrow>
    ((string, unit) result \<times> 'd gpu_state) option" where
  "attach_backing gd resource_id back_buffer_phys buffer_length s = do {
     mv \<leftarrow> mailbox_virt (gdrv s);
     let s = put_bytes mv (attach_bytes \<lparr>ab_header = with_ty CmdResourceAttachBacking, ab_resource_id = resource_id,
       num_entries = 1\<rparr>) s;
     let s = put_bytes (mv + 32) (entry_bytes \<lparr>me_address = back_buffer_phys, me_length = buffer_length, me_padding = 0\<rparr>) s;
     let total_cmd_size = 32 + 16;
     let s = put_bytes (mv + 512) (replicate HEADER_SIZE 0) s;
     x \<leftarrow> exchange gd total_cmd_size HEADER_SIZE s;
     open_nodata ''GPU failed to attach backing memory.'' x }"

definition set_scanout :: "'d GpuDevice \<Rightarrow> u32 \<Rightarrow> u32 \<Rightarrow> u32 \<Rightarrow> u32 \<Rightarrow> 'd gpu_state \<Rightarrow>
    ((string, unit) result \<times> 'd gpu_state) option" where
  "set_scanout gd scanout resource_id width height s = do {
     mv \<leftarrow> mailbox_virt (gdrv s);
     let s = put_bytes mv (scanout_bytes \<lparr>ss_header = with_ty CmdSetScanout,
       ss_rect = \<lparr>gx = 0, gy = 0, gwidth = width, gheight = height\<rparr>, scanout_id = scanout, ss_resource_id = resource_id\<rparr>) s;
     let s = put_bytes (mv + 512) (replicate HEADER_SIZE 0) s;
     x \<leftarrow> exchange gd 48 HEADER_SIZE s;
     open_nodata ''GPU failed to set scanout.'' x }"

subsection \<open>The frame flush\<close>

definition publish2 :: "nat \<Rightarrow> nat \<Rightarrow> VirtQueue \<Rightarrow> VirtQueue option" where
  "publish2 i j vq = do {
     let avail_idx = unat (av_idx (available vq));
     rg \<leftarrow> aset (av_ring (available vq)) (avail_idx mod 64) (of_nat i);
     rg \<leftarrow> aset rg ((avail_idx + 1) mod 64) (of_nat j);
     Some (vq\<lparr>available := (available vq)\<lparr>av_ring := rg, av_idx := av_idx (available vq) + 2\<rparr>\<rparr>) }"

definition load_flush :: "u64 \<Rightarrow> VirtQueue \<Rightarrow> (VirtQueue \<times> nat \<times> nat \<times> nat \<times> nat) option" where
  "load_flush mp vq = do {
     let head_idx = unat (free_head vq);
     idx2 \<leftarrow> next_of vq head_idx;
     idx3 \<leftarrow> next_of vq idx2;
     tail_idx \<leftarrow> next_of vq idx3;
     dt \<leftarrow> aget (descriptors vq) tail_idx;
     let vq = vq\<lparr>free_head := vd_next dt, num_free := num_free vq - 4\<rparr>;
     vq \<leftarrow> set_desc vq head_idx mp 56 VIRTQ_DESC_F_NEXT;
     vq \<leftarrow> set_desc vq idx2 (mp + 512) (of_nat HEADER_SIZE) VIRTQ_DESC_F_WRITE;
     vq \<leftarrow> set_desc vq idx3 (mp + 56) 48 VIRTQ_DESC_F_NEXT;
     vq \<leftarrow> set_desc vq tail_idx (mp + 528) (of_nat HEADER_SIZE) VIRTQ_DESC_F_WRITE;
     Some (vq, head_idx, idx2, idx3, tail_idx) }"

definition reclaim_flush :: "nat \<Rightarrow> nat \<Rightarrow> nat \<Rightarrow> nat \<Rightarrow> VirtQueue \<Rightarrow> VirtQueue option" where
  "reclaim_flush head_idx idx2 idx3 tail_idx vq = do {
     vq \<leftarrow> set_next vq idx2 (free_head vq);
     let vq = vq\<lparr>free_head := of_nat head_idx\<rparr>;
     vq \<leftarrow> set_next vq tail_idx (free_head vq);
     Some (vq\<lparr>free_head := of_nat idx3, num_free := num_free vq + 4\<rparr>) }"

definition flush_to_screen :: "'d GpuDevice \<Rightarrow> u32 \<Rightarrow> u32 \<Rightarrow> u32 \<Rightarrow> 'd gpu_state \<Rightarrow> 'd gpu_state option" where
  "flush_to_screen gd resource_id width height s = do {
     mv \<leftarrow> mailbox_virt (gdrv s);
     mp \<leftarrow> mailbox_phys (gdrv s);
     q \<leftarrow> control_queue_virt (gdrv s);
     if num_free (vq_heap (gmem s) q) < 4 then Some s
     else do {
       let rect = \<lparr>gx = 0, gy = 0, gwidth = width, gheight = height\<rparr>;
       let s = put_bytes mv (transfer_bytes \<lparr>tt_header = with_ty CmdTransferToHost2d, tt_rect = rect, tt_offset = 0,
         tt_resource_id = resource_id, tt_padding = 0\<rparr>) s;
       let s = put_bytes (mv + 56) (flush_bytes \<lparr>rf_header = with_ty CmdResourceFlush, rf_rect = rect,
         rf_resource_id = resource_id, rf_padding = 0\<rparr>) s;
       (vq, head_idx, idx2, idx3, tail_idx) \<leftarrow> load_flush mp (vq_heap (gmem s) q);
       vq \<leftarrow> publish2 head_idx idx3 vq;
       let s = ring_doorbell gd (put_vq q vq s);
       vq \<leftarrow> reclaim_flush head_idx idx2 idx3 tail_idx (vq_heap (gmem s) q);
       Some (put_vq q vq s) } }"

end
