(* ===== verification/Gpu_Driver.thy ===== *)
theory Gpu_Driver
  imports Rust_I32 Virtio_Gpu
begin

text \<open>
  The software frame buffer, \<^verbatim>\<open>kernel/src/gpu_driver.rs\<close>: two byte vectors of \<open>width * height\<close> pixels, blue, green
  and red first in each pixel. An index out of the vector is a panic (\<open>None\<close>).
\<close>

subsection \<open>The driver\<close>

record GpuDriver =
  framebuffer_ptr :: nat
  back_buffer :: bytes
  nebula_buffer :: bytes
  width :: nat
  height :: nat
  bytes_per_pixel :: nat

text \<open>The frame buffer of the bootloader: address and length of its memory, and its geometry.\<close>

record FrameBuffer =
  fb_ptr :: nat
  fb_len :: nat
  fb_width :: nat
  fb_height :: nat
  fb_bytes_per_pixel :: nat

definition GpuDriver_new :: "FrameBuffer \<Rightarrow> GpuDriver" where
  "GpuDriver_new fb = \<lparr>framebuffer_ptr = fb_ptr fb, back_buffer = replicate (fb_len fb) 0,
     nebula_buffer = replicate (fb_len fb) 0, width = fb_width fb, height = fb_height fb,
     bytes_per_pixel = fb_bytes_per_pixel fb\<rparr>"

definition save_to_nebula_cache :: "GpuDriver \<Rightarrow> GpuDriver option" where
  "save_to_nebula_cache g = (if length (nebula_buffer g) = length (back_buffer g)
     then Some (g\<lparr>nebula_buffer := back_buffer g\<rparr>) else None)"

definition restore_from_nebula_cache :: "GpuDriver \<Rightarrow> GpuDriver option" where
  "restore_from_nebula_cache g = (if length (back_buffer g) = length (nebula_buffer g)
     then Some (g\<lparr>back_buffer := nebula_buffer g\<rparr>) else None)"

definition set_byte :: "nat \<Rightarrow> u8 \<Rightarrow> GpuDriver \<Rightarrow> GpuDriver option" where
  "set_byte i v g = do { buf \<leftarrow> aset (back_buffer g) i v; Some (g\<lparr>back_buffer := buf\<rparr>) }"

text \<open>The three stores of a pixel at a byte offset.\<close>

definition put_pixel :: "nat \<Rightarrow> u8 \<Rightarrow> u8 \<Rightarrow> u8 \<Rightarrow> GpuDriver \<Rightarrow> GpuDriver option" where
  "put_pixel offset b gr r g = do {
     g \<leftarrow> set_byte offset b g;
     g \<leftarrow> set_byte (offset + 1) gr g;
     set_byte (offset + 2) r g }"

definition draw_pixel :: "i32 \<Rightarrow> i32 \<Rightarrow> u8 \<Rightarrow> u8 \<Rightarrow> u8 \<Rightarrow> GpuDriver \<Rightarrow> GpuDriver option" where
  "draw_pixel x y r gr b g =
     (if x <s 0 \<or> y <s 0 \<or> of_nat (width g) <=s x \<or> of_nat (height g) <=s y then Some g
      else let offset = (unat y * width g + unat x) * bytes_per_pixel g in put_pixel offset b gr r g)"

text \<open>One channel: \<open>((fg as u32 * a + bg * inv_a) >> 8) as u8\<close>.\<close>

definition mix :: "u8 \<Rightarrow> u8 \<Rightarrow> u8 \<Rightarrow> u8" where
  "mix alpha fg bg = (let a = ucast alpha :: u32; inv_a = 255 - a in
     ucast (drop_bit 8 (ucast fg * a + ucast bg * inv_a)))"

text \<open>Reading the three channels of the background, mixing, and storing them.\<close>

definition mix_pixel :: "nat \<Rightarrow> u8 \<Rightarrow> u8 \<Rightarrow> u8 \<Rightarrow> u8 \<Rightarrow> GpuDriver \<Rightarrow> GpuDriver option" where
  "mix_pixel offset b gr r alpha g = do {
     bg_b \<leftarrow> aget (back_buffer g) offset;
     bg_g \<leftarrow> aget (back_buffer g) (offset + 1);
     bg_r \<leftarrow> aget (back_buffer g) (offset + 2);
     put_pixel offset (mix alpha b bg_b) (mix alpha gr bg_g) (mix alpha r bg_r) g }"

definition blend_pixel :: "i32 \<Rightarrow> i32 \<Rightarrow> u8 \<Rightarrow> u8 \<Rightarrow> u8 \<Rightarrow> u8 \<Rightarrow> GpuDriver \<Rightarrow> GpuDriver option" where
  "blend_pixel x y r gr b alpha g =
     (if alpha = 255 then draw_pixel x y r gr b g
      else if alpha = 0 then Some g
      else if x <s 0 \<or> y <s 0 \<or> of_nat (width g) <=s x \<or> of_nat (height g) <=s y then Some g
      else let offset = (unat y * width g + unat x) * bytes_per_pixel g in mix_pixel offset b gr r alpha g)"

text \<open>\<open>chunks_exact_mut(4)\<close>: whole chunks only.\<close>

definition fill_chunks :: "bytes \<Rightarrow> bytes \<Rightarrow> bytes" where
  "fill_chunks pat buf = (let n = length buf div 4 in concat (replicate n pat) @ drop (4 * n) buf)"

definition clear_slow :: "u8 \<Rightarrow> u8 \<Rightarrow> u8 \<Rightarrow> GpuDriver \<Rightarrow> GpuDriver option" where
  "clear_slow r gr b g = for_each [0..<height g] (\<lambda>y. for_each [0..<width g] (\<lambda>x.
     draw_pixel (of_nat x) (of_nat y) r gr b)) g"

definition clear_screen :: "u8 \<Rightarrow> u8 \<Rightarrow> u8 \<Rightarrow> GpuDriver \<Rightarrow> GpuDriver option" where
  "clear_screen r gr b g =
     (if bytes_per_pixel g = 4
      then let color_pattern = [b, gr, r, 255] in Some (g\<lparr>back_buffer := fill_chunks color_pattern (back_buffer g)\<rparr>)
      else clear_slow r gr b g)"

definition resize_to_hardware :: "nat \<Rightarrow> nat \<Rightarrow> GpuDriver \<Rightarrow> GpuDriver" where
  "resize_to_hardware new_width new_height g =
     (if width g = new_width \<and> height g = new_height then g
      else let new_size = new_width * new_height * bytes_per_pixel g
        in g\<lparr>width := new_width, height := new_height, back_buffer := replicate new_size 0,
             nebula_buffer := replicate new_size 0\<rparr>)"

definition draw_glass_rect :: "i32 \<Rightarrow> i32 \<Rightarrow> i32 \<Rightarrow> i32 \<Rightarrow> u8 \<Rightarrow> u8 \<Rightarrow> u8 \<Rightarrow> u8 \<Rightarrow> GpuDriver \<Rightarrow> GpuDriver option" where
  "draw_glass_rect x y w h r gr b alpha g =
     (if alpha = 0 then Some g
      else let start_x = imax 0 x; start_y = imax 0 y;
               end_x = imin (x + w) (of_nat (width g)); end_y = imin (y + h) (of_nat (height g)) in
        if end_x <=s start_x \<or> end_y <=s start_y then Some g
        else for_each (irange start_y end_y) (\<lambda>py g.
          let row_offset = unat py * width g * bytes_per_pixel g in
          for_each (irange start_x end_x) (\<lambda>px g.
            let offset = row_offset + unat px * bytes_per_pixel g in
            if alpha = 255 then put_pixel offset b gr r g else mix_pixel offset b gr r alpha g) g) g)"

text \<open>Copying the back buffer to the DMA memory of the GPU, when there is one, and flushing it.\<close>

definition swap_buffers :: "'d GpuDevice \<Rightarrow> nat \<Rightarrow> bool \<Rightarrow> GpuDriver \<Rightarrow> 'd gpu_state \<Rightarrow> 'd gpu_state option" where
  "swap_buffers gd virtio_backing has_virtio g s =
     (if virtio_backing \<noteq> 0
      then let s = put_bytes virtio_backing (back_buffer g) s in
        if has_virtio then flush_to_screen gd 1 (of_nat (width g)) (of_nat (height g)) s else Some s
      else Some s)"

subsection \<open>Well-formed buffers\<close>

definition screen_ok :: "GpuDriver \<Rightarrow> bool" where
  "screen_ok g \<longleftrightarrow> width g < 2147483648 \<and> height g < 2147483648 \<and> 3 \<le> bytes_per_pixel g \<and>
     width g * height g * bytes_per_pixel g \<le> length (back_buffer g) \<and> length (nebula_buffer g) = length (back_buffer g)"

text \<open>Drawing keeps the geometry and the size of the buffers.\<close>

definition same_screen :: "GpuDriver \<Rightarrow> GpuDriver \<Rightarrow> bool" where
  "same_screen g g' \<longleftrightarrow> (\<exists>buf. g' = g\<lparr>back_buffer := buf\<rparr> \<and> length buf = length (back_buffer g))"

lemma same_screen_refl: "same_screen g g"
  by (auto simp: same_screen_def intro: exI [of _ "back_buffer g"])

lemma same_screen_trans: "same_screen g g' \<Longrightarrow> same_screen g' g'' \<Longrightarrow> same_screen g g''"
  by (auto simp: same_screen_def)

lemma same_screen_ok: "same_screen g g' \<Longrightarrow> screen_ok g \<Longrightarrow> screen_ok g'"
  by (auto simp: same_screen_def screen_ok_def)

lemma put_pixel_in:
  "offset + 2 < length (back_buffer g) \<Longrightarrow>
   put_pixel offset b gr r g = Some (g\<lparr>back_buffer := (back_buffer g)[offset := b, offset + 1 := gr, offset + 2 := r]\<rparr>)"
  by (simp add: put_pixel_def set_byte_def array_simps)

lemma put_pixel_out: "length (back_buffer g) \<le> offset + 2 \<Longrightarrow> put_pixel offset b gr r g = None"
  by (auto simp: put_pixel_def set_byte_def aset_def split: bind_split)

lemma in_screen:
  fixes x y :: i32
  assumes "screen_ok g"
  shows "\<not> (x <s 0 \<or> y <s 0 \<or> of_nat (width g) <=s x \<or> of_nat (height g) <=s y) \<longleftrightarrow>
    0 \<le> sint x \<and> 0 \<le> sint y \<and> unat x < width g \<and> unat y < height g"
proof -
  have "sint (of_nat (width g) :: i32) = int (width g)" "sint (of_nat (height g) :: i32) = int (height g)"
    using assms by (simp_all add: screen_ok_def sint_of_nat)
  then show ?thesis using unat_nat_sint [of x] unat_nat_sint [of y] by (auto simp: word_sless_alt word_sle_eq)
qed

lemma pixel_offset:
  assumes "screen_ok g" "x < width g" "y < height g"
  shows "(y * width g + x) * bytes_per_pixel g + 2 < length (back_buffer g)"
proof -
  have "y * width g + x + 1 \<le> width g * height g"
  proof -
    have "y * width g + x + 1 \<le> (y + 1) * width g" using assms(2) by simp
    also have "\<dots> \<le> height g * width g" using assms(3) by (intro mult_right_mono) auto
    finally show ?thesis by (simp add: mult.commute)
  qed
  then have "(y * width g + x + 1) * bytes_per_pixel g \<le> width g * height g * bytes_per_pixel g" by (rule mult_right_mono) simp
  moreover have "3 \<le> bytes_per_pixel g" "width g * height g * bytes_per_pixel g \<le> length (back_buffer g)"
    using assms(1) by (simp_all add: screen_ok_def)
  ultimately show ?thesis by (simp add: algebra_simps)
qed

lemma draw_pixel_ok:
  assumes "screen_ok g"
  shows "\<exists>g'. draw_pixel x y r gr b g = Some g' \<and> same_screen g g'"
proof (cases "x <s 0 \<or> y <s 0 \<or> of_nat (width g) <=s x \<or> of_nat (height g) <=s y")
  case False
  with in_screen [OF assms] have "unat x < width g" "unat y < height g" by auto
  from pixel_offset [OF assms this] False show ?thesis
    by (simp add: draw_pixel_def Let_def put_pixel_in) (auto simp: same_screen_def)
qed (auto simp: draw_pixel_def same_screen_refl)

lemma mix_pixel_in:
  "offset + 2 < length (back_buffer g) \<Longrightarrow> \<exists>g'. mix_pixel offset b gr r alpha g = Some g' \<and> same_screen g g'"
  by (auto simp: mix_pixel_def array_simps put_pixel_in same_screen_def)

lemma blend_pixel_ok:
  assumes "screen_ok g"
  shows "\<exists>g'. blend_pixel x y r gr b alpha g = Some g' \<and> same_screen g g'"
proof -
  consider "alpha = 255" | "alpha \<noteq> 255" "alpha = 0 \<or> x <s 0 \<or> y <s 0 \<or> of_nat (width g) <=s x \<or> of_nat (height g) <=s y"
    | "alpha \<noteq> 255" "alpha \<noteq> 0" "\<not> (x <s 0 \<or> y <s 0 \<or> of_nat (width g) <=s x \<or> of_nat (height g) <=s y)" by blast
  then show ?thesis
  proof cases
    case 1
    with draw_pixel_ok [OF assms] show ?thesis by (simp add: blend_pixel_def)
  next
    case 2
    then show ?thesis by (auto simp: blend_pixel_def same_screen_refl)
  next
    case 3
    with in_screen [OF assms] have "unat x < width g" "unat y < height g" by auto
    from mix_pixel_in [OF pixel_offset [OF assms this]] 3 show ?thesis by (simp add: blend_pixel_def Let_def)
  qed
qed

subsection \<open>Mixing\<close>

text \<open>C39. Blending a channel never overflows its 8 bits and stays between the two colours, except that it may fall
  one below the smaller one (the code divides by 256 and not by 255).\<close>

theorem mix_bounds:
  "unat (mix alpha fg bg) = (unat fg * unat alpha + unat bg * (255 - unat alpha)) div 256 \<and>
   min (unat fg) (unat bg) \<le> unat (mix alpha fg bg) + 1 \<and> unat (mix alpha fg bg) \<le> max (unat fg) (unat bg)"
proof -
  let ?f = "unat fg" and ?b = "unat bg" and ?a = "unat alpha"
  let ?n = "?f * ?a + ?b * (255 - ?a)"
  have lt: "?f < 256" "?b < 256" "?a < 256" using unsigned_less [of fg] unsigned_less [of bg] unsigned_less [of alpha] by simp_all
  have up: "?n \<le> max ?f ?b * 255"
  proof -
    have "?n \<le> max ?f ?b * ?a + max ?f ?b * (255 - ?a)" by (intro add_mono mult_right_mono) auto
    also have "\<dots> = max ?f ?b * 255" using lt(3) by (simp add: algebra_simps diff_mult_distrib2)
    finally show ?thesis .
  qed
  have lo: "min ?f ?b * 255 \<le> ?n"
  proof -
    have "min ?f ?b * 255 = min ?f ?b * ?a + min ?f ?b * (255 - ?a)" using lt(3) by (simp add: algebra_simps diff_mult_distrib2)
    also have "\<dots> \<le> ?n" by (intro add_mono mult_right_mono) auto
    finally show ?thesis .
  qed
  have n: "?n < 65536" using up lt by (auto simp: max_def split: if_splits)
  have c: "unat (ucast w :: u32) = unat w" for w :: u8
  proof -
    have "unat w < 256" using unsigned_less [of w] by simp
    then show ?thesis by (simp add: unsigned_ucast_eq unsigned_take_bit_eq take_bit_nat_def)
  qed
  have i: "unat (255 - ucast alpha :: u32) = 255 - ?a"
    using lt(3) c [of alpha] by (subst unat_sub) (auto simp: word_le_nat_alt)
  have p: "unat (ucast w * v :: u32) = unat w * unat v" if "unat v < 256" for w :: u8 and v :: u32
  proof -
    have "unat w < 256" using unsigned_less [of w] by simp
    then have "unat w * unat v \<le> 255 * 255" using that by (intro mult_mono) auto
    then show ?thesis by (simp add: unat_word_ariths c)
  qed
  have "unat (ucast fg * ucast alpha + ucast bg * (255 - ucast alpha) :: u32) = ?n"
    using n i lt p [of "ucast alpha" fg] p [of "255 - ucast alpha" bg] by (simp add: unat_word_ariths c)
  then have "unat (drop_bit 8 (ucast fg * ucast alpha + ucast bg * (255 - ucast alpha)) :: u32) = ?n div 256"
    by (simp add: unsigned_drop_bit_eq drop_bit_eq_div unat_div_distrib)
  then have m: "unat (mix alpha fg bg) = ?n div 256"
    using n by (simp add: mix_def Let_def unsigned_ucast_eq unsigned_take_bit_eq take_bit_nat_def)
  have "min ?f ?b * 256 \<le> ?n + min ?f ?b" using lo by simp
  moreover have "min ?f ?b < 256" using lt by simp
  ultimately have "min ?f ?b \<le> ?n div 256 + 1" by linarith
  moreover have "?n div 256 \<le> max ?f ?b" using up lt by linarith
  ultimately show ?thesis using m by simp
qed

subsection \<open>Rectangles\<close>

lemma put_pixel_same: "put_pixel offset b gr r g = Some g' \<Longrightarrow> same_screen g g'"
  by (auto simp: put_pixel_def set_byte_def aset_def same_screen_def split: bind_splits if_splits)

lemma blend_in_screen:
  assumes "screen_ok g" "0 \<le> sint x" "0 \<le> sint y" "unat x < width g" "unat y < height g" "alpha \<noteq> 0"
  shows "blend_pixel x y r gr b alpha g =
    (let offset = (unat y * width g + unat x) * bytes_per_pixel g in
     if alpha = 255 then put_pixel offset b gr r g else mix_pixel offset b gr r alpha g)"
proof -
  from assms in_screen have "\<not> (x <s 0 \<or> y <s 0 \<or> of_nat (width g) <=s x \<or> of_nat (height g) <=s y)" by blast
  then show ?thesis using assms(6) by (simp add: blend_pixel_def draw_pixel_def Let_def)
qed

lemma blend_off_screen:
  "screen_ok g \<Longrightarrow> \<not> (0 \<le> sint x \<and> 0 \<le> sint y \<and> unat x < width g \<and> unat y < height g) \<Longrightarrow>
   blend_pixel x y r gr b alpha g = Some g"
  using in_screen [of g x y] by (auto simp: blend_pixel_def draw_pixel_def)

text \<open>One row of a rectangle, as the code draws it and pixel by pixel.\<close>

definition glass_pixel :: "i32 \<Rightarrow> u8 \<Rightarrow> u8 \<Rightarrow> u8 \<Rightarrow> u8 \<Rightarrow> i32 \<Rightarrow> GpuDriver \<Rightarrow> GpuDriver option" where
  "glass_pixel py r gr b alpha px g =
     (let offset = unat py * width g * bytes_per_pixel g + unat px * bytes_per_pixel g in
      if alpha = 255 then put_pixel offset b gr r g else mix_pixel offset b gr r alpha g)"

lemma mix_pixel_same: "mix_pixel offset b gr r alpha g = Some g' \<Longrightarrow> same_screen g g'"
  by (auto simp: mix_pixel_def split: bind_splits dest: put_pixel_same)

lemma blend_same: "screen_ok g \<Longrightarrow> blend_pixel x y r gr b alpha g = Some g' \<Longrightarrow> same_screen g g'"
  using blend_pixel_ok [of g x y r gr b alpha] by auto

lemma same_screen_dims:
  "same_screen g u \<Longrightarrow> width u = width g \<and> height u = height g \<and> bytes_per_pixel u = bytes_per_pixel g"
  by (auto simp: same_screen_def)

lemma blend_row:
  assumes ok: "screen_ok g" and s: "same_screen g s" and a: "alpha \<noteq> 0" and py: "0 \<le> sint py" "sint py < int (height g)"
  shows "for_each (irange x1 x2) (\<lambda>px. blend_pixel px py r gr b alpha) s =
    for_each (irange (imax 0 x1) (imin x2 (of_nat (width g)))) (glass_pixel py r gr b alpha) s"
proof -
  let ?W = "of_nat (width g) :: i32"
  have W: "sint ?W = int (width g)" using ok by (simp add: screen_ok_def sint_of_nat)
  have y: "unat py < height g" using py unat_nat_sint [of py] by simp
  let ?Q = "\<lambda>px :: i32. 0 \<le> sint px \<and> sint px < sint ?W"
  have Q: "?Q px \<longleftrightarrow> 0 \<le> sint px \<and> unat px < width g" for px :: i32
    unfolding W using unat_nat_sint [of px] by auto
  have ok': "screen_ok u" if "same_screen g u" for u using same_screen_ok [OF that ok] .
  have "for_each (irange x1 x2) (\<lambda>px. blend_pixel px py r gr b alpha) s =
      for_each (filter ?Q (irange x1 x2)) (\<lambda>px. blend_pixel px py r gr b alpha) s"
  proof (rule for_each_filter [where P = "same_screen g", OF s])
    fix px u assume "\<not> ?Q px" and u: "same_screen g u"
    then show "blend_pixel px py r gr b alpha u = Some u"
      using blend_off_screen [OF ok' [OF u], of px py] Q [of px] same_screen_dims [OF u] by auto
  next
    fix px u u' assume u: "same_screen g u" "blend_pixel px py r gr b alpha u = Some u'"
    then show "same_screen g u'" using same_screen_trans [OF u(1) blend_same [OF ok' [OF u(1)] u(2)]] by simp
  qed
  also have "filter ?Q (irange x1 x2) = irange (imax 0 x1) (imin x2 ?W)" by (rule irange_clamp) (simp add: W)
  also have "for_each (irange (imax 0 x1) (imin x2 ?W)) (\<lambda>px. blend_pixel px py r gr b alpha) s =
      for_each (irange (imax 0 x1) (imin x2 ?W)) (glass_pixel py r gr b alpha) s"
  proof (rule for_each_cong_inv [where P = "same_screen g", OF s])
    fix px u assume px: "px \<in> set (irange (imax 0 x1) (imin x2 ?W))" and u: "same_screen g u"
    from irange_member [OF px] have "?Q px" by (simp add: sint_imax sint_imin)
    then show "blend_pixel px py r gr b alpha u = glass_pixel py r gr b alpha px u"
      using blend_in_screen [OF ok' [OF u], of px py alpha r gr b] py(1) y a Q [of px] same_screen_dims [OF u]
      by (simp add: glass_pixel_def Let_def algebra_simps)
  next
    fix px u u' assume "same_screen g u" "glass_pixel py r gr b alpha px u = Some u'"
    then show "same_screen g u'"
      by (auto simp: glass_pixel_def Let_def split: if_splits dest!: put_pixel_same mix_pixel_same intro: same_screen_trans)
  qed
  finally show ?thesis .
qed

lemma glass_row_same:
  assumes "same_screen g s" "for_each xs (glass_pixel py r gr b alpha) s = Some s'"
  shows "same_screen g s'"
  using assms
proof (induction xs arbitrary: s)
  case (Cons px xs)
  then obtain u where u: "glass_pixel py r gr b alpha px s = Some u" "for_each xs (glass_pixel py r gr b alpha) u = Some s'"
    by (auto split: bind_splits)
  then have "same_screen s u"
    by (auto simp: glass_pixel_def Let_def split: if_splits dest!: put_pixel_same mix_pixel_same)
  with Cons.IH [OF same_screen_trans u(2)] Cons.prems(1) show ?case by blast
qed simp

lemma blend_row_off:
  assumes ok: "screen_ok g" and s: "same_screen g s" and py: "\<not> (0 \<le> sint py \<and> sint py < int (height g))"
  shows "for_each (irange x1 x2) (\<lambda>px. blend_pixel px py r gr b alpha) s = Some s"
proof -
  have py': "\<not> (0 \<le> sint py \<and> unat py < height g)" using py unat_nat_sint [of py] by auto
  have "for_each (irange x1 x2) (\<lambda>px. blend_pixel px py r gr b alpha) s =
      for_each (filter (\<lambda>_. False) (irange x1 x2)) (\<lambda>px. blend_pixel px py r gr b alpha) s"
  proof (rule for_each_filter [where P = "same_screen g", OF s])
    fix px u assume u: "same_screen g u"
    show "blend_pixel px py r gr b alpha u = Some u"
      using blend_off_screen [OF same_screen_ok [OF u ok], of px py] py' same_screen_dims [OF u] by auto
  qed simp
  then show ?thesis by simp
qed

text \<open>The loops of \<open>draw_glass_rect\<close>; its early return is the empty rectangle.\<close>

lemma glass_rect_rows:
  assumes a: "alpha \<noteq> 0"
  shows "draw_glass_rect x y w h r gr b alpha g = for_each (irange (imax 0 y) (imin (y + h) (of_nat (height g))))
    (\<lambda>py. for_each (irange (imax 0 x) (imin (x + w) (of_nat (width g)))) (glass_pixel py r gr b alpha)) g"
proof -
  let ?H = "of_nat (height g) :: i32" and ?W = "of_nat (width g) :: i32"
  let ?row = "\<lambda>py. for_each (irange (imax 0 x) (imin (x + w) ?W)) (glass_pixel py r gr b alpha)"
  show ?thesis
  proof (cases "imin (x + w) ?W <=s imax 0 x \<or> imin (y + h) ?H <=s imax 0 y")
    case True
    then consider "irange (imax 0 x) (imin (x + w) ?W) = []" | "irange (imax 0 y) (imin (y + h) ?H) = []"
      by (auto simp: irange_def word_sle_eq)
    then have "for_each (irange (imax 0 y) (imin (y + h) ?H)) ?row g = Some g" by cases (simp_all add: for_each_skip)
    with True a show ?thesis by (simp add: draw_glass_rect_def Let_def)
  next
    case False
    have "for_each (irange (imax 0 y) (imin (y + h) ?H)) ?row g =
        for_each (irange (imax 0 y) (imin (y + h) ?H)) (\<lambda>py u.
          let row_offset = unat py * width u * bytes_per_pixel u in
          for_each (irange (imax 0 x) (imin (x + w) ?W)) (\<lambda>px u.
            let offset = row_offset + unat px * bytes_per_pixel u in
            if alpha = 255 then put_pixel offset b gr r u else mix_pixel offset b gr r alpha u) u) g"
    proof (rule for_each_cong_inv [where P = "\<lambda>_. True"])
      fix py :: i32 and u :: GpuDriver
      show "?row py u = (let row_offset = unat py * width u * bytes_per_pixel u in
          for_each (irange (imax 0 x) (imin (x + w) ?W)) (\<lambda>px v.
            let offset = row_offset + unat px * bytes_per_pixel v in
            if alpha = 255 then put_pixel offset b gr r v else mix_pixel offset b gr r alpha v) u)"
        unfolding Let_def
        by (rule for_each_cong_inv [where P = "same_screen u", OF same_screen_refl])
           (auto simp: glass_pixel_def Let_def same_screen_def dest!: put_pixel_same mix_pixel_same split: if_splits)
    qed simp_all
    then show ?thesis unfolding draw_glass_rect_def Let_def using False a by simp
  qed
qed

text \<open>C26. \<open>draw_glass_rect\<close> is an optimisation of blending pixel by pixel: for every rectangle whose corners are 32-bit
  coordinates, on the screen or not, it has exactly the effect of \<open>blend_pixel\<close> at each of its pixels, row
  by row.\<close>

theorem draw_glass_rect_blends:
  assumes ok: "screen_ok g"
  shows "draw_glass_rect x y w h r gr b alpha g =
    for_each (irange y (y + h)) (\<lambda>py. for_each (irange x (x + w)) (\<lambda>px. blend_pixel px py r gr b alpha)) g"
proof (cases "alpha = 0")
  case True
  then show ?thesis by (simp add: draw_glass_rect_def blend_pixel_def for_each_skip)
next
  case a: False
  let ?H = "of_nat (height g) :: i32" and ?W = "of_nat (width g) :: i32"
  let ?row = "\<lambda>py. for_each (irange (imax 0 x) (imin (x + w) ?W)) (glass_pixel py r gr b alpha)"
  have H: "sint ?H = int (height g)" using ok by (simp add: screen_ok_def sint_of_nat)
  have "for_each (irange y (y + h)) (\<lambda>py. for_each (irange x (x + w)) (\<lambda>px. blend_pixel px py r gr b alpha)) g =
      for_each (filter (\<lambda>py. 0 \<le> sint py \<and> sint py < sint ?H) (irange y (y + h)))
        (\<lambda>py. for_each (irange x (x + w)) (\<lambda>px. blend_pixel px py r gr b alpha)) g"
  proof (rule for_each_filter [where P = "same_screen g", OF same_screen_refl])
    fix py :: i32 and u assume "\<not> (0 \<le> sint py \<and> sint py < sint ?H)" "same_screen g u"
    then show "for_each (irange x (x + w)) (\<lambda>px. blend_pixel px py r gr b alpha) u = Some u"
      using blend_row_off [OF ok] by (simp add: H)
  next
    fix py :: i32 and u u' assume "0 \<le> sint py \<and> sint py < sint ?H" and u: "same_screen g u"
      "for_each (irange x (x + w)) (\<lambda>px. blend_pixel px py r gr b alpha) u = Some u'"
    then show "same_screen g u'" using blend_row [OF ok u(1) a, of py x "x + w" r gr b] glass_row_same [OF u(1)] by (simp add: H)
  qed
  also have "\<dots> = for_each (irange (imax 0 y) (imin (y + h) ?H))
        (\<lambda>py. for_each (irange x (x + w)) (\<lambda>px. blend_pixel px py r gr b alpha)) g"
    by (subst irange_clamp) (simp_all add: H)
  also have "\<dots> = for_each (irange (imax 0 y) (imin (y + h) ?H)) ?row g"
  proof (rule for_each_cong_inv [where P = "same_screen g", OF same_screen_refl])
    fix py :: i32 and u assume py: "py \<in> set (irange (imax 0 y) (imin (y + h) ?H))" and u: "same_screen g u"
    from irange_member [OF py] have "0 \<le> sint py" "sint py < int (height g)" by (simp_all add: sint_imax sint_imin H)
    then show "for_each (irange x (x + w)) (\<lambda>px. blend_pixel px py r gr b alpha) u = ?row py u"
      by (rule blend_row [OF ok u a])
  qed (use glass_row_same in blast)
  also have "\<dots> = draw_glass_rect x y w h r gr b alpha g" using glass_rect_rows [OF a] by simp
  finally show ?thesis by simp
qed

definition demo_screen :: GpuDriver where
  "demo_screen = \<lparr>framebuffer_ptr = 0, back_buffer = replicate 8 0, nebula_buffer = replicate 8 0, width = 2, height = 1,
     bytes_per_pixel = 4\<rparr>"

lemma demo_screen_ok: "screen_ok demo_screen"
  by (simp add: screen_ok_def demo_screen_def)

theorem draw_glass_rect_blends_witness:
  "draw_glass_rect (- 1) 0 2 1 10 20 30 255 demo_screen =
     Some (demo_screen\<lparr>back_buffer := [30, 20, 10, 0, 0, 0, 0, 0]\<rparr>)"
proof -
  have "irange (- 1) ((- 1) + 2) = [- 1, 0]" "irange 0 (0 + 1) = [0]" by (simp_all add: irange_def upto.simps)
  with draw_glass_rect_blends [OF demo_screen_ok, of "- 1" 0 2 1 10 20 30 255] show ?thesis
    by (simp add: blend_pixel_def draw_pixel_def demo_screen_def put_pixel_in word_sless_alt word_sle_eq numeral_eq_Suc)
qed

end
