(* ===== verification/Splat.thy ===== *)
theory Splat
  imports Gpu_Driver Rust_Str
begin

text \<open>
  The compositor, \<^verbatim>\<open>kernel/src/splat.rs\<close>: projected Gaussian splats, windows with their animation, the
  engine that owns them and the desktop routine that handles the mouse and draws a frame. The 8x8 font of the
  font8x8 crate is a parameter: the eight rows of each ASCII character. A string is its list of UTF-8 bytes.
\<close>

subsection \<open>Splats\<close>

record GaussianSplat =
  sp_x :: i32
  sp_y :: i32
  sp_z :: i32
  scale_x :: i32
  scale_y :: i32
  sp_r :: u8
  sp_g :: u8
  sp_b :: u8
  opacity :: u8

text \<open>The alpha of one pixel of a splat, or nothing outside the ellipse.\<close>

definition splat_alpha :: "GaussianSplat \<Rightarrow> i32 \<Rightarrow> i32 \<Rightarrow> i32 \<Rightarrow> i32 \<Rightarrow> u8 option" where
  "splat_alpha sp proj_scale_x proj_scale_y dx dy = (
     let scale_fac_x = imax (idivp (proj_scale_x * proj_scale_x) 128) 1;
         scale_fac_y = imax (idivp (proj_scale_y * proj_scale_y) 128) 1;
         falloff = idivp (dx * dx) scale_fac_x + idivp (dy * dy) scale_fac_y
     in if falloff <s 255
        then let intensity = 255 - falloff; alpha = (intensity * ucast (opacity sp)) div 255
          in if alpha > 0 then Some (ucast alpha) else None
        else None)"

definition render_single_splat :: "GaussianSplat \<Rightarrow> GpuDriver \<Rightarrow> GpuDriver option" where
  "render_single_splat sp gpu = (
     let focal_length = 500; camera_z = - 500;
         z_dist = sp_z sp - camera_z in
     if z_dist <=s 0 then Some gpu
     else let screen_cx = idivp (of_nat (width gpu)) 2; screen_cy = idivp (of_nat (height gpu)) 2;
         proj_x = screen_cx + idivp ((sp_x sp - screen_cx) * focal_length) z_dist;
         proj_y = screen_cy + idivp ((sp_y sp - screen_cy) * focal_length) z_dist;
         proj_scale_x = idivp (scale_x sp * focal_length) z_dist;
         proj_scale_y = idivp (scale_y sp * focal_length) z_dist;
         radius_x = proj_scale_x * 2; radius_y = proj_scale_y * 2;
         min_x = imax 0 (proj_x - radius_x); max_x = imin (of_nat (width gpu)) (proj_x + radius_x);
         min_y = imax 0 (proj_y - radius_y); max_y = imin (of_nat (height gpu)) (proj_y + radius_y)
       in for_each (irange min_y max_y) (\<lambda>py. for_each (irange min_x max_x) (\<lambda>px gpu.
            case splat_alpha sp proj_scale_x proj_scale_y (px - proj_x) (py - proj_y) of
              None \<Rightarrow> Some gpu
            | Some alpha \<Rightarrow> blend_pixel px py (sp_r sp) (sp_g sp) (sp_b sp) alpha gpu)) gpu)"

subsection \<open>Windows\<close>

datatype WindowMode = Instantiated | Maximized | Dead

record Transition =
  progress :: i32
  tmax :: i32
  s_w :: i32
  s_h :: i32
  s_x :: i32
  s_y :: i32
  t_w :: i32
  t_h :: i32
  t_x :: i32
  t_y :: i32
  final_mode :: WindowMode

datatype WindowState = Stable WindowMode | Transitioning Transition

record SemanticWindow =
  win_id :: u32
  wx :: i32
  wy :: i32
  ww :: i32
  wh :: i32
  normal_x :: i32
  normal_y :: i32
  normal_w :: i32
  normal_h :: i32
  base_z :: i32
  target_z :: i32
  wstate :: WindowState
  text_buffer :: bytes
  input_buffer :: bytes
  splat_cloud :: "GaussianSplat list"

definition mk_splat :: "i32 \<Rightarrow> i32 \<Rightarrow> i32 \<Rightarrow> i32 \<Rightarrow> i32 \<Rightarrow> u8 \<Rightarrow> u8 \<Rightarrow> u8 \<Rightarrow> u8 \<Rightarrow> GaussianSplat" where
  "mk_splat x y z sx sy r g b a = \<lparr>sp_x = x, sp_y = y, sp_z = z, scale_x = sx, scale_y = sy, sp_r = r, sp_g = g, sp_b = b,
     opacity = a\<rparr>"

definition generate_cloud :: "SemanticWindow \<Rightarrow> SemanticWindow" where
  "generate_cloud win = (
     let cx = wx win + idivp (ww win) 2; cy = wy win + idivp (wh win) 2; z = base_z win; thickness = 4;
         body = [mk_splat cx cy (z + 10) (imax (idivp (ww win) 2) 10) (imax (idivp (wh win) 2) 10) 5 10 15 220];
         borders = [mk_splat cx (wy win) (z + 12) (idivp (ww win) 2) thickness 0 255 200 120,
           mk_splat cx (wy win + wh win) (z + 12) (idivp (ww win) 2) thickness 0 100 255 90,
           mk_splat (wx win) cy (z + 12) thickness (idivp (wh win) 2) 0 150 255 90,
           mk_splat (wx win + ww win) cy (z + 12) thickness (idivp (wh win) 2) 0 150 255 90];
         buttons = (case wstate win of
             Stable mode \<Rightarrow> if mode \<noteq> Dead
               then [mk_splat (wx win + ww win - 25) (wy win + 15) (z + 14) 12 12 255 50 50 200,
                     mk_splat (wx win + ww win - 55) (wy win + 15) (z + 14) 12 12 255 200 50 200,
                     mk_splat (wx win + ww win - 85) (wy win + 15) (z + 14) 12 12 50 255 100 200] else []
           | Transitioning _ \<Rightarrow> [])
     in win\<lparr>splat_cloud := body @ borders @ buttons\<rparr>)"

definition spawn_text :: "u32 \<Rightarrow> bytes" where
  "spawn_text i = map of_char ''Instance '' @ dec_u64 (ucast i) @ map of_char '' Instantiated.'' @ [10]"

definition spawn :: "u32 \<Rightarrow> i32 \<Rightarrow> i32 \<Rightarrow> i32 \<Rightarrow> i32 \<Rightarrow> SemanticWindow" where
  "spawn i origin_x origin_y target_w target_h = (
     let target_x = origin_x - idivp target_w 2; target_y = origin_y - idivp target_h 2
     in generate_cloud \<lparr>win_id = i, wx = origin_x, wy = origin_y, ww = 40, wh = 40, normal_x = target_x, normal_y = target_y,
       normal_w = target_w, normal_h = target_h, base_z = 0, target_z = 0,
       wstate = Transitioning \<lparr>progress = 0, tmax = 15, s_w = 40, s_h = 40, s_x = origin_x, s_y = origin_y,
         t_w = target_w, t_h = target_h, t_x = target_x, t_y = target_y, final_mode = Instantiated\<rparr>,
       text_buffer = spawn_text i, input_buffer = [], splat_cloud = []\<rparr>)"

definition slide_z :: "SemanticWindow \<Rightarrow> SemanticWindow \<times> bool" where
  "slide_z win = (if base_z win \<noteq> target_z win
     then let diff = target_z win - base_z win; z = base_z win + idivp diff 4
       in (generate_cloud (win\<lparr>base_z := if iabs diff <s 5 then target_z win else z\<rparr>), True)
     else (win, False))"

definition ease :: "i32 \<Rightarrow> i32 \<Rightarrow> i32 \<Rightarrow> i32" where
  "ease s t factor = s + idivp ((t - s) * factor) 100"

definition animate :: "Transition \<Rightarrow> SemanticWindow \<Rightarrow> SemanticWindow option" where
  "animate t win = do {
     let p = progress t + 1;
     factor \<leftarrow> idiv (p * (2 * tmax t - p) * 100) (tmax t * tmax t);
     let win = win\<lparr>ww := ease (s_w t) (t_w t) factor, wh := ease (s_h t) (t_h t) factor,
       wx := ease (s_x t) (t_x t) factor, wy := ease (s_y t) (t_y t) factor\<rparr>;
     let win = (if tmax t <=s p
       then win\<lparr>ww := t_w t, wh := t_h t, wx := t_x t, wy := t_y t, wstate := Stable (final_mode t)\<rparr>
       else win\<lparr>wstate := Transitioning (t\<lparr>progress := p\<rparr>)\<rparr>);
     Some (generate_cloud win) }"

definition update_physics :: "SemanticWindow \<Rightarrow> (SemanticWindow \<times> bool) option" where
  "update_physics win = (let (win, redrew) = slide_z win in
     case wstate win of
       Transitioning t \<Rightarrow> do { win \<leftarrow> animate t win; Some (win, True) }
     | Stable _ \<Rightarrow> Some (win, redrew))"

definition transition_to :: "i32 \<Rightarrow> i32 \<Rightarrow> i32 \<Rightarrow> i32 \<Rightarrow> WindowMode \<Rightarrow> SemanticWindow \<Rightarrow> SemanticWindow" where
  "transition_to tgt_w tgt_h tgt_x tgt_y mode win = win\<lparr>wstate := Transitioning \<lparr>progress = 0, tmax = 15,
     s_w = ww win, s_h = wh win, s_x = wx win, s_y = wy win, t_w = tgt_w, t_h = tgt_h, t_x = tgt_x, t_y = tgt_y, final_mode = mode\<rparr>\<rparr>"

definition trigger_close :: "i32 \<Rightarrow> i32 \<Rightarrow> SemanticWindow \<Rightarrow> SemanticWindow" where
  "trigger_close launcher_x launcher_y = transition_to 40 40 launcher_x launcher_y Dead"

definition trigger_maximize :: "i32 \<Rightarrow> i32 \<Rightarrow> SemanticWindow \<Rightarrow> SemanticWindow" where
  "trigger_maximize screen_w screen_h win = (
     let win = (if wstate win = Stable Instantiated
       then win\<lparr>normal_x := wx win, normal_y := wy win, normal_w := ww win, normal_h := wh win\<rparr> else win)
     in transition_to screen_w screen_h 0 0 Maximized win)"

definition trigger_restore :: "SemanticWindow \<Rightarrow> SemanticWindow" where
  "trigger_restore win = transition_to (normal_w win) (normal_h win) (normal_x win) (normal_y win) Instantiated win"

definition move_to :: "i32 \<Rightarrow> i32 \<Rightarrow> SemanticWindow \<Rightarrow> SemanticWindow" where
  "move_to new_x new_y win = generate_cloud (win\<lparr>wx := new_x, wy := new_y\<rparr>)"

definition render_body :: "SemanticWindow \<Rightarrow> GpuDriver \<Rightarrow> GpuDriver option" where
  "render_body win = for_each (splat_cloud win) render_single_splat"


subsection \<open>Drawing never panics\<close>

text \<open>A drawing operation on a well-formed screen returns, and keeps the geometry.\<close>

definition draws :: "(GpuDriver \<Rightarrow> GpuDriver option) \<Rightarrow> bool" where
  "draws f \<longleftrightarrow> (\<forall>g. screen_ok g \<longrightarrow> (\<exists>g'. f g = Some g' \<and> same_screen g g'))"

named_theorems drawing "operations that draw"

lemma drawsI: "(\<And>g. screen_ok g \<Longrightarrow> \<exists>g'. f g = Some g' \<and> same_screen g g') \<Longrightarrow> draws f"
  by (simp add: draws_def)

lemma drawsE:
  assumes "draws f" "screen_ok g"
  obtains g' where "f g = Some g'" "same_screen g g'" "screen_ok g'"
  using assms same_screen_ok by (auto simp: draws_def)

lemma draws_Some [drawing]: "draws Some"
  by (simp add: draws_def same_screen_refl)

lemma draws_bind [drawing]: "draws f \<Longrightarrow> draws h \<Longrightarrow> draws (\<lambda>g. f g \<bind> h)"
  by (rule drawsI) (metis bind.bind_lunit drawsE same_screen_trans)

lemma draws_for_each [drawing]: "(\<And>x. x \<in> set xs \<Longrightarrow> draws (f x)) \<Longrightarrow> draws (for_each xs f)"
proof (induction xs)
  case (Cons x xs)
  then have "draws (\<lambda>g. f x g \<bind> for_each xs f)" by (intro draws_bind) auto
  then show ?case by (simp add: draws_def)
qed (simp add: draws_def same_screen_refl)

lemma draws_draw_pixel [drawing]: "draws (draw_pixel x y r g b)"
  using draw_pixel_ok by (auto intro: drawsI)

lemma draws_blend_pixel [drawing]: "draws (blend_pixel x y r g b alpha)"
  using blend_pixel_ok by (auto intro: drawsI)

text \<open>The loops of a splat read the size of the screen once: they are the same for every screen of that size.\<close>

lemma draws_splat [drawing]: "draws (render_single_splat sp)"
proof (rule drawsI)
  fix g assume ok: "screen_ok g"
  have pixel: "draws (\<lambda>gpu. case splat_alpha sp sx sy dx dy of None \<Rightarrow> Some gpu
      | Some alpha \<Rightarrow> blend_pixel px py (sp_r sp) (sp_g sp) (sp_b sp) alpha gpu)" for sx sy dx dy px py
    by (cases "splat_alpha sp sx sy dx dy") (simp_all add: draws_Some draws_blend_pixel)
  show "\<exists>g'. render_single_splat sp g = Some g' \<and> same_screen g g'"
  proof (cases "sp_z sp - (- 500) <=s 0")
    case True
    then show ?thesis by (simp add: render_single_splat_def Let_def same_screen_refl)
  next
    case False
    have "draws (for_each ys (\<lambda>py. for_each xs (\<lambda>px gpu. case splat_alpha sp sx sy (px - cx) (py - cy) of None \<Rightarrow> Some gpu
      | Some alpha \<Rightarrow> blend_pixel px py (sp_r sp) (sp_g sp) (sp_b sp) alpha gpu)))" for xs ys sx sy cx cy
      by (intro draws_for_each pixel)
    from this [unfolded draws_def, rule_format, OF ok] show ?thesis
      unfolding render_single_splat_def Let_def if_not_P [OF False] .
  qed
qed

lemma draws_body [drawing]: "draws (render_body win)"
  unfolding render_body_def by (intro drawing)

subsection \<open>Animation\<close>

lemma generate_cloud_keeps [simp]:
  "win_id (generate_cloud w) = win_id w" "wx (generate_cloud w) = wx w" "wy (generate_cloud w) = wy w"
  "ww (generate_cloud w) = ww w" "wh (generate_cloud w) = wh w" "base_z (generate_cloud w) = base_z w"
  "target_z (generate_cloud w) = target_z w" "wstate (generate_cloud w) = wstate w"
  "text_buffer (generate_cloud w) = text_buffer w" "input_buffer (generate_cloud w) = input_buffer w"
  by (simp_all add: generate_cloud_def Let_def)

text \<open>Where a window is going: its mode and geometry once the animation is over.\<close>

definition destination :: "SemanticWindow \<Rightarrow> WindowMode \<times> i32 \<times> i32 \<times> i32 \<times> i32" where
  "destination win = (case wstate win of
     Stable mode \<Rightarrow> (mode, wx win, wy win, ww win, wh win)
   | Transitioning t \<Rightarrow> (final_mode t, t_x t, t_y t, t_w t, t_h t))"

text \<open>The invariant of a window: an animation has 15 steps of which fewer are done, and the depth lies
  between the two depths the desktop asks for.\<close>

definition win_ok :: "SemanticWindow \<Rightarrow> bool" where
  "win_ok win \<longleftrightarrow> (case wstate win of
      Stable _ \<Rightarrow> True
    | Transitioning t \<Rightarrow> tmax t = 15 \<and> 0 \<le> sint (progress t) \<and> sint (progress t) < 15) \<and>
    0 \<le> sint (base_z win) \<and> sint (base_z win) \<le> 300 \<and> 0 \<le> sint (target_z win) \<and> sint (target_z win) \<le> 300"

text \<open>The steps left, and the distance to the depth.\<close>

definition steps_left :: "SemanticWindow \<Rightarrow> nat" where
  "steps_left win = (case wstate win of Stable _ \<Rightarrow> 0 | Transitioning t \<Rightarrow> nat (15 - sint (progress t)))"

definition z_left :: "SemanticWindow \<Rightarrow> nat" where
  "z_left win = nat \<bar>sint (target_z win) - sint (base_z win)\<bar>"

definition z_next :: "nat \<Rightarrow> nat" where
  "z_next d = (if d < 5 then 0 else d - d div 4)"

lemma sint_sub: "- 2147483648 \<le> sint a - sint b \<Longrightarrow> sint a - sint b < 2147483648 \<Longrightarrow> sint (a - b :: i32) = sint a - sint b"
  using sint_of_int [of "sint a - sint b"] by simp

lemma sdiv4: "d sdiv 4 = sgn d * (\<bar>d\<bar> div 4)" for d :: int
  by (simp add: signed_divide_int_def)

lemma z_next_slide:
  fixes b t :: int
  assumes "0 \<le> b" "b \<le> 300" "0 \<le> t" "t \<le> 300" "\<not> \<bar>t - b\<bar> < 5"
  shows "nat \<bar>t - (b + (t - b) sdiv 4)\<bar> = z_next (nat \<bar>t - b\<bar>)" "0 \<le> b + (t - b) sdiv 4" "b + (t - b) sdiv 4 \<le> 300"
    "\<bar>(t - b) sdiv 4\<bar> \<le> 300"
proof -
  consider "b + 5 \<le> t" | "t + 5 \<le> b" using assms by linarith
  then show "nat \<bar>t - (b + (t - b) sdiv 4)\<bar> = z_next (nat \<bar>t - b\<bar>)" "0 \<le> b + (t - b) sdiv 4" "b + (t - b) sdiv 4 \<le> 300"
    "\<bar>(t - b) sdiv 4\<bar> \<le> 300"
    using assms by (cases; simp add: sdiv4 z_next_def nat_div_distrib [symmetric]; linarith)+
qed

lemma slide_z_cases:
  assumes ok: "win_ok win"
  obtains (rest) "base_z win = target_z win" "slide_z win = (win, False)"
    | (slide) z where "slide_z win = (generate_cloud (win\<lparr>base_z := z\<rparr>), True)" "0 \<le> sint z" "sint z \<le> 300"
        "nat \<bar>sint (target_z win) - sint z\<bar> = z_next (z_left win)"
proof (cases "base_z win = target_z win")
  case True
  with rest show ?thesis by (simp add: slide_z_def)
next
  case False
  let ?d = "target_z win - base_z win"
  note bounds = ok [unfolded win_ok_def]
  have d: "sint ?d = sint (target_z win) - sint (base_z win)" using bounds by (intro sint_sub) auto
  have small: "iabs ?d <s 5 \<longleftrightarrow> \<bar>sint ?d\<bar> < 5"
    unfolding iabs_def word_sless_alt using d bounds sint_sub [of 0 ?d] by (auto simp: abs_if)
  show ?thesis
  proof (cases "iabs ?d <s 5")
    case True
    then have "z_left win < 5" using small d by (simp add: z_left_def)
    with True False show ?thesis using bounds by (intro slide [of "target_z win"]) (simp_all add: slide_z_def Let_def z_next_def)
  next
    case big: False
    then have "\<not> \<bar>sint (target_z win) - sint (base_z win)\<bar> < 5" using small d by simp
    note next_z = z_next_slide [OF _ _ _ _ this]
    have q: "sint (idivp ?d 4) = (sint (target_z win) - sint (base_z win)) sdiv 4"
      unfolding idivp_def using next_z(4) bounds d by (subst sint_of_int) auto
    have z: "sint (base_z win + idivp ?d 4) = sint (base_z win) + (sint (target_z win) - sint (base_z win)) sdiv 4"
      unfolding q [symmetric] using next_z(2,3) bounds q by (intro sint_add) auto
    show ?thesis using big False next_z bounds
      by (intro slide [of "base_z win + idivp ?d 4"]) (simp_all add: slide_z_def Let_def z z_left_def)
  qed
qed

text \<open>What a step of the animation keeps.\<close>

definition window_goal :: "SemanticWindow \<Rightarrow> u32 \<times> (WindowMode \<times> i32 \<times> i32 \<times> i32 \<times> i32) \<times> i32 \<times> bytes \<times> bytes" where
  "window_goal win = (win_id win, destination win, target_z win, text_buffer win, input_buffer win)"

lemma slide_z_step:
  assumes ok: "win_ok win"
  shows "win_ok (fst (slide_z win))" "z_left (fst (slide_z win)) = z_next (z_left win)"
    "wstate (fst (slide_z win)) = wstate win" "window_goal (fst (slide_z win)) = window_goal win"
proof -
  show "wstate (fst (slide_z win)) = wstate win" by (simp add: slide_z_def Let_def)
  from ok show "window_goal (fst (slide_z win)) = window_goal win"
    by (cases rule: slide_z_cases) (simp_all add: window_goal_def destination_def split: WindowState.split)
  show "win_ok (fst (slide_z win))"
    using ok by (cases rule: slide_z_cases [OF ok]) (simp_all add: win_ok_def)
  from ok show "z_left (fst (slide_z win)) = z_next (z_left win)"
    by (cases rule: slide_z_cases) (auto simp: z_left_def z_next_def)
qed

lemma animate_step:
  assumes ok: "win_ok win" and t: "wstate win = Transitioning t"
  obtains win' where "animate t win = Some win'" "win_ok win'" "window_goal win' = window_goal win"
    "steps_left win' = steps_left win - 1" "z_left win' = z_left win"
proof -
  let ?p = "progress t + 1"
  have m: "tmax t = 15" and lo: "0 \<le> sint (progress t)" "sint (progress t) < 15" using ok t by (auto simp: win_ok_def)
  have p: "sint ?p = sint (progress t) + 1" using lo sint_add [of "progress t" 1] by simp
  have len: "tmax t <=s ?p \<longleftrightarrow> sint (progress t) = 14" unfolding word_sle_eq m p using lo by auto
  obtain factor where "idiv (?p * (2 * tmax t - ?p) * 100) (tmax t * tmax t) = Some factor" by (simp add: m idiv_def)
  then obtain win' where a: "animate t win = Some win'" and
    w: "win' = generate_cloud (let win = win\<lparr>ww := ease (s_w t) (t_w t) factor, wh := ease (s_h t) (t_h t) factor,
       wx := ease (s_x t) (t_x t) factor, wy := ease (s_y t) (t_y t) factor\<rparr> in
       if tmax t <=s ?p then win\<lparr>ww := t_w t, wh := t_h t, wx := t_x t, wy := t_y t, wstate := Stable (final_mode t)\<rparr>
       else win\<lparr>wstate := Transitioning (t\<lparr>progress := ?p\<rparr>)\<rparr>)"
    by (simp add: animate_def Let_def)
  show ?thesis
  proof (rule that [OF a])
    show "win_ok win'" using ok t len p m lo unfolding w Let_def by (auto simp: win_ok_def)
    show "window_goal win' = window_goal win" using t unfolding w Let_def
      by (cases "tmax t <=s ?p") (simp_all add: window_goal_def destination_def)
    show "steps_left win' = steps_left win - 1" using t len p lo unfolding w Let_def by (auto simp: steps_left_def)
    show "z_left win' = z_left win" unfolding w Let_def by (simp add: z_left_def)
  qed
qed

lemma update_physics_step:
  assumes ok: "win_ok win"
  obtains win' redrew where "update_physics win = Some (win', redrew)" "win_ok win'" "window_goal win' = window_goal win"
    "steps_left win' = steps_left win - 1" "z_left win' = z_next (z_left win)"
proof -
  note slid = slide_z_step [OF ok]
  show ?thesis
  proof (cases "wstate win")
    case (Stable mode)
    with slid that [of "fst (slide_z win)" "snd (slide_z win)"] show ?thesis
      by (simp add: update_physics_def case_prod_beta Let_def steps_left_def)
  next
    case (Transitioning t)
    with slid obtain win' where "animate t (fst (slide_z win)) = Some win'" "win_ok win'" "window_goal win' = window_goal win"
      "steps_left win' = steps_left (fst (slide_z win)) - 1" "z_left win' = z_next (z_left win)"
      using animate_step [OF slid(1)] by metis
    with Transitioning slid(3) that [of win' True] show ?thesis
      by (simp add: update_physics_def case_prod_beta Let_def steps_left_def)
  qed
qed

text \<open>The window after a step.\<close>

definition stepped :: "SemanticWindow \<Rightarrow> SemanticWindow" where
  "stepped win = fst (the (update_physics win))"

lemma stepped_step:
  assumes "win_ok win"
  shows "\<exists>redrew. update_physics win = Some (stepped win, redrew)" "win_ok (stepped win)"
    "window_goal (stepped win) = window_goal win" "steps_left (stepped win) = steps_left win - 1"
    "z_left (stepped win) = z_next (z_left win)"
proof -
  obtain win' redrew where u: "update_physics win = Some (win', redrew)" and step: "win_ok win'"
    "window_goal win' = window_goal win" "steps_left win' = steps_left win - 1" "z_left win' = z_next (z_left win)"
    by (rule update_physics_step [OF assms])
  from u have "stepped win = win'" by (simp add: stepped_def)
  with u step show "\<exists>redrew. update_physics win = Some (stepped win, redrew)" "win_ok (stepped win)"
    "window_goal (stepped win) = window_goal win" "steps_left (stepped win) = steps_left win - 1"
    "z_left (stepped win) = z_next (z_left win)" by simp_all
qed

lemma stepped_iter:
  assumes "win_ok win"
  shows "win_ok ((stepped ^^ n) win) \<and> window_goal ((stepped ^^ n) win) = window_goal win \<and>
    steps_left ((stepped ^^ n) win) = steps_left win - n \<and> z_left ((stepped ^^ n) win) = (z_next ^^ n) (z_left win)"
  by (induction n) (use assms stepped_step in auto)

lemma z_next_mono: "d \<le> e \<Longrightarrow> z_next d \<le> z_next e"
  by (auto simp: z_next_def)

lemma z_next_iter_mono: "d \<le> e \<Longrightarrow> (z_next ^^ n) d \<le> (z_next ^^ n) e"
  by (induction n) (auto intro: z_next_mono)

lemma z_next_settles: "d \<le> 300 \<Longrightarrow> 20 \<le> n \<Longrightarrow> (z_next ^^ n) d = 0"
proof -
  assume d: "d \<le> 300" and n: "20 \<le> n"
  have zero: "(z_next ^^ k) 0 = 0" for k by (induction k) (auto simp: z_next_def)
  have "(z_next ^^ numeral k) e = (z_next ^^ pred_numeral k) (z_next e)" for k e
    by (simp only: numeral_eq_Suc funpow.simps comp_apply funpow_swap1)
  then have "(z_next ^^ 20) 300 = 0" by (simp add: z_next_def)
  then have "(z_next ^^ 20) d = 0" using z_next_iter_mono [OF d, of 20] by simp
  moreover have "(z_next ^^ n) d = (z_next ^^ (n - 20)) ((z_next ^^ 20) d)"
    using n funpow_add [of "n - 20" 20 z_next] by simp
  ultimately show ?thesis by (simp add: zero)
qed

text \<open>Twenty steps later the window is at rest at its destination.\<close>

lemma stepped_settles:
  assumes ok: "win_ok win" and n: "20 \<le> n"
  shows "\<exists>mode. wstate ((stepped ^^ n) win) = Stable mode" "base_z ((stepped ^^ n) win) = target_z ((stepped ^^ n) win)"
proof -
  let ?w = "(stepped ^^ n) win"
  note iter = stepped_iter [OF ok, of n]
  have "steps_left win \<le> 15" using ok by (auto simp: win_ok_def steps_left_def split: WindowState.splits)
  then have "steps_left ?w = 0" using iter n by simp
  with iter show "\<exists>mode. wstate ?w = Stable mode" by (auto simp: win_ok_def steps_left_def split: WindowState.splits)
  have "z_left win \<le> 300" using ok by (auto simp: win_ok_def z_left_def)
  then have "z_left ?w = 0" using iter z_next_settles [OF _ n] by simp
  then have "sint (target_z ?w) = sint (base_z ?w)" by (simp add: z_left_def)
  then have "(of_int (sint (target_z ?w)) :: i32) = of_int (sint (base_z ?w))" by (rule arg_cong)
  then show "base_z ?w = target_z ?w" by simp
qed

end
