(* ===== verification/Desktop.thy ===== *)
theory Desktop
  imports Splat
begin

text \<open>
  The desktop of \<^verbatim>\<open>kernel/src/splat.rs\<close>: the text of a window, the engine that owns the windows and the launchers,
  the routine that handles the mouse and composes a frame, and the screen logger. The statics of the file that hold the
  mouse and the screen size are the record \<open>UI\<close>. The rows of the font of the font8x8 crate are a parameter.
\<close>

subsection \<open>Text\<close>

type_synonym font = "nat \<Rightarrow> bytes"

definition full_block :: bytes where
  "full_block = [0xE2, 0x96, 0x88]"

text \<open>The number of a character below 128.\<close>

definition ascii_of :: "bytes \<Rightarrow> nat option" where
  "ascii_of c = (case c of [b] \<Rightarrow> if b < 0x80 then Some (unat b) else None | _ \<Rightarrow> None)"

definition draw_glyph :: "bytes \<Rightarrow> i32 \<Rightarrow> i32 \<Rightarrow> u8 \<Rightarrow> u8 \<Rightarrow> u8 \<Rightarrow> GpuDriver \<Rightarrow> GpuDriver option" where
  "draw_glyph bitmap x0 y0 r g b = for_each (enumerate 0 bitmap) (\<lambda>(y, row). for_each [0..<8] (\<lambda>x gpu.
     if row AND push_bit x 1 \<noteq> 0 then draw_pixel (x0 + of_nat x) (y0 + of_nat y) r g b gpu else Some gpu))"

definition title_char :: "font \<Rightarrow> i32 \<Rightarrow> bytes \<Rightarrow> GpuDriver \<times> i32 \<Rightarrow> (GpuDriver \<times> i32) option" where
  "title_char font title_y c = (\<lambda>(gpu, title_x). do {
     gpu \<leftarrow> (case ascii_of c of Some c_val \<Rightarrow> draw_glyph (font c_val) title_x title_y 180 255 255 gpu | None \<Rightarrow> Some gpu);
     Some (gpu, title_x + 8) })"

definition draw_title :: "font \<Rightarrow> SemanticWindow \<Rightarrow> GpuDriver \<Rightarrow> GpuDriver option" where
  "draw_title font win gpu = do {
     (gpu, _) \<leftarrow> for_each (str_chars (map of_char ''PolymorphOS Sovereign Terminal'')) (title_char font (wy win + 2))
       (gpu, wx win + 30);
     Some gpu }"

definition display_text :: "SemanticWindow \<Rightarrow> bytes" where
  "display_text win = text_buffer win @ map of_char ''genesis> '' @ input_buffer win @ full_block"

text \<open>The physical lines of a logical line.\<close>

definition physical_lines :: "nat \<Rightarrow> bytes \<Rightarrow> nat" where
  "physical_lines max_chars_per_line line = (let char_count = length (str_chars line) in
     if char_count = 0 then 1 else (char_count + max_chars_per_line - 1) div max_chars_per_line)"

definition glyph :: "font \<Rightarrow> bytes \<Rightarrow> bytes option" where
  "glyph font c = (if c = full_block then Some (replicate 8 255) else map_option font (ascii_of c))"

text \<open>Where the next character goes: screen, column, row, lines still to skip, characters of the line so far.\<close>

type_synonym pen = "GpuDriver \<times> i32 \<times> i32 \<times> nat \<times> nat"

definition text_char :: "font \<Rightarrow> SemanticWindow \<Rightarrow> nat \<Rightarrow> bytes \<Rightarrow> pen \<Rightarrow> pen option" where
  "text_char font win max_chars_per_line c = (\<lambda>(gpu, cx, cy, skip_lines, char_count).
     let (cx, cy, skip_lines) =
       (if 0 < char_count \<and> char_count mod max_chars_per_line = 0
        then if 0 < skip_lines then (wx win + 30, cy, skip_lines - 1) else (wx win + 30, cy + 12, skip_lines)
        else (cx, cy, skip_lines)) in
     if skip_lines = 0 \<and> cy <s wy win + wh win - 15
     then do {
       gpu \<leftarrow> (case glyph font c of Some bitmap \<Rightarrow> draw_glyph bitmap cx cy 255 255 255 gpu | None \<Rightarrow> Some gpu);
       Some (gpu, cx + 8, cy, skip_lines, char_count + 1) }
     else Some (gpu, cx, cy, skip_lines, char_count + 1))"

definition text_line :: "font \<Rightarrow> SemanticWindow \<Rightarrow> nat \<Rightarrow> bytes \<Rightarrow> GpuDriver \<times> i32 \<times> nat \<Rightarrow> (GpuDriver \<times> i32 \<times> nat) option" where
  "text_line font win max_chars_per_line line = (\<lambda>(gpu, cy, skip_lines). do {
     (gpu, _, cy, skip_lines, _) \<leftarrow> for_each (str_chars line) (text_char font win max_chars_per_line)
       (gpu, wx win + 30, cy, skip_lines, 0);
     Some (if 0 < skip_lines then (gpu, cy, skip_lines - 1) else (gpu, cy + 12, skip_lines)) })"

definition render_text :: "font \<Rightarrow> SemanticWindow \<Rightarrow> GpuDriver \<Rightarrow> GpuDriver option" where
  "render_text font win gpu =
     (if wstate win = Stable Instantiated \<or> wstate win = Stable Maximized
      then do {
        let max_chars_per_line = unat (imax (idivp (ww win - 60) 8) 1);
        let max_lines = unat (imax (idivp (wh win - 60) 12) 1);
        gpu \<leftarrow> draw_title font win gpu;
        let text_lines = str_split 10 (display_text win);
        let total_physical_lines = sum_list (map (physical_lines max_chars_per_line) text_lines);
        (gpu, _) \<leftarrow> for_each text_lines (text_line font win max_chars_per_line)
          (gpu, wy win + 40, total_physical_lines - max_lines);
        Some gpu }
      else Some gpu)"

subsection \<open>The engine\<close>

record AppLauncher =
  lx :: i32
  ly :: i32
  radius :: i32

record SplatEngine =
  nebula_splats :: "GaussianSplat list"
  launchers :: "AppLauncher list"
  windows :: "SemanticWindow list"
  instance_counter :: u32

definition SplatEngine_new :: SplatEngine where
  "SplatEngine_new = \<lparr>nebula_splats = [], launchers = [], windows = [], instance_counter = 1\<rparr>"

fun update_windows :: "SemanticWindow list \<Rightarrow> (SemanticWindow list \<times> bool) option" where
  "update_windows [] = Some ([], False)"
| "update_windows (win # wins) = do {
     (win, redrew) \<leftarrow> update_physics win;
     (wins, redrew') \<leftarrow> update_windows wins;
     Some (win # wins, redrew \<or> redrew') }"

definition tick_physics :: "SplatEngine \<Rightarrow> (SplatEngine \<times> bool) option" where
  "tick_physics engine = do {
     (wins, redrew) \<leftarrow> update_windows (windows engine);
     Some (engine\<lparr>windows := filter (\<lambda>w. wstate w \<noteq> Stable Dead) wins\<rparr>, redrew) }"

definition render_launcher :: "AppLauncher \<Rightarrow> GpuDriver \<Rightarrow> GpuDriver option" where
  "render_launcher l gpu = do {
     gpu \<leftarrow> render_single_splat (mk_splat (lx l) (ly l) 10 (radius l) (radius l) 0 255 200 200) gpu;
     render_single_splat (mk_splat (lx l) (ly l) 11 (idivp (radius l) 2) (idivp (radius l) 2) 255 255 255 255) gpu }"

definition render_window :: "font \<Rightarrow> SemanticWindow \<Rightarrow> GpuDriver \<Rightarrow> GpuDriver option" where
  "render_window font win gpu = do {
     gpu \<leftarrow> render_body win gpu;
     case wstate win of Stable _ \<Rightarrow> render_text font win gpu | Transitioning _ \<Rightarrow> Some gpu }"

definition render :: "font \<Rightarrow> SplatEngine \<Rightarrow> GpuDriver \<Rightarrow> (SplatEngine \<times> GpuDriver) option" where
  "render font engine gpu = do {
     let engine = engine\<lparr>nebula_splats := sort_key (\<lambda>sp. sint (sp_z sp)) (nebula_splats engine)\<rparr>;
     gpu \<leftarrow> for_each (nebula_splats engine) render_single_splat gpu;
     gpu \<leftarrow> for_each (launchers engine) render_launcher gpu;
     gpu \<leftarrow> for_each (windows engine) (render_window font) gpu;
     Some (engine, gpu) }"

subsection \<open>The desktop\<close>

record UI =
  cursor_x :: i32
  cursor_y :: i32
  left_click :: bool
  is_dragging :: bool
  drag_offset_x :: i32
  drag_offset_y :: i32
  screen_width :: i32
  screen_height :: i32

definition UI_init :: UI where
  "UI_init = \<lparr>cursor_x = 400, cursor_y = 300, left_click = False, is_dragging = False, drag_offset_x = 0,
     drag_offset_y = 0, screen_width = 800, screen_height = 600\<rparr>"

definition on_button :: "UI \<Rightarrow> SemanticWindow \<Rightarrow> i32 \<Rightarrow> bool" where
  "on_button ui win back \<longleftrightarrow> iabs (cursor_x ui - (wx win + ww win - back)) <s 15 \<and> iabs (cursor_y ui - (wy win + 15)) <s 15"

definition on_area :: "UI \<Rightarrow> SemanticWindow \<Rightarrow> i32 \<Rightarrow> bool" where
  "on_area ui win down \<longleftrightarrow> wx win <=s cursor_x ui \<and> cursor_x ui <=s wx win + ww win \<and>
     wy win <=s cursor_y ui \<and> cursor_y ui <=s wy win + down"

text \<open>The click on one window: nothing (go on with the next window), or the window and the mouse state after it. The
  close button reads \<open>engine.launchers[0]\<close>, which panics when there is no launcher.\<close>

definition click_window :: "UI \<Rightarrow> AppLauncher list \<Rightarrow> SemanticWindow \<Rightarrow> (SemanticWindow \<times> UI) option option" where
  "click_window ui ls win = (
     let body = (if on_area ui win (wh win) then Some (win, ui) else None) in
     case wstate win of
       Stable _ \<Rightarrow>
         if on_button ui win 25 then do { l \<leftarrow> aget ls 0; Some (Some (trigger_close (lx l) (ly l) win, ui)) }
         else if on_button ui win 55 then Some (Some (trigger_restore win, ui))
         else if on_button ui win 85 then Some (Some (trigger_maximize (screen_width ui) (screen_height ui) win, ui))
         else if on_area ui win 40
         then Some (Some (win, ui\<lparr>is_dragging := True, drag_offset_x := cursor_x ui - wx win,
           drag_offset_y := cursor_y ui - wy win\<rparr>))
         else Some body
     | Transitioning _ \<Rightarrow> Some body)"

fun click_scan :: "UI \<Rightarrow> AppLauncher list \<Rightarrow> (nat \<times> SemanticWindow) list \<Rightarrow> (nat \<times> SemanticWindow \<times> UI) option option" where
  "click_scan ui ls [] = Some None"
| "click_scan ui ls ((i, win) # ws) = do {
     hit \<leftarrow> click_window ui ls win;
     case hit of Some (win, ui) \<Rightarrow> Some (Some (i, win, ui)) | None \<Rightarrow> click_scan ui ls ws }"

definition focus :: "nat \<Rightarrow> SemanticWindow \<Rightarrow> SemanticWindow list \<Rightarrow> SemanticWindow list" where
  "focus i win wins = take i wins @ drop (i + 1) wins @ [win]"

definition on_launcher :: "UI \<Rightarrow> AppLauncher \<Rightarrow> bool" where
  "on_launcher ui l \<longleftrightarrow> iabs (cursor_x ui - lx l) <s radius l \<and> iabs (cursor_y ui - ly l) <s radius l"

definition launch :: "UI \<Rightarrow> SplatEngine \<Rightarrow> SplatEngine" where
  "launch ui engine = (case find (on_launcher ui) (launchers engine) of
     Some l \<Rightarrow> engine\<lparr>windows := windows engine @ [spawn (instance_counter engine) (lx l) (ly l) 800 600],
       instance_counter := instance_counter engine + 1\<rparr>
   | None \<Rightarrow> engine)"

definition handle_mouse :: "UI \<Rightarrow> SplatEngine \<Rightarrow> (UI \<times> SplatEngine) option" where
  "handle_mouse ui engine =
     (if left_click ui
      then do {
        hit \<leftarrow> click_scan ui (launchers engine) (rev (enumerate 0 (windows engine)));
        case hit of
          Some (i, win, ui) \<Rightarrow> Some (ui, engine\<lparr>windows := focus i win (windows engine)\<rparr>)
        | None \<Rightarrow> Some (ui, if is_dragging ui then engine else launch ui engine) }
      else Some (ui\<lparr>is_dragging := False\<rparr>, engine))"

definition parallax :: "SemanticWindow list \<Rightarrow> SemanticWindow list" where
  "parallax wins = map (\<lambda>(i, win). win\<lparr>target_z := if i = length wins - 1 then 0 else 300\<rparr>) (enumerate 0 wins)"

definition drag :: "UI \<Rightarrow> SemanticWindow list \<Rightarrow> SemanticWindow list" where
  "drag ui wins = (if is_dragging ui \<and> wins \<noteq> []
     then let win = last wins in butlast wins @ [generate_cloud (win\<lparr>wx := cursor_x ui - drag_offset_x ui,
       wy := cursor_y ui - drag_offset_y ui\<rparr>)]
     else wins)"

definition draw_cursor :: "UI \<Rightarrow> bool \<Rightarrow> GpuDriver \<Rightarrow> GpuDriver option" where
  "draw_cursor ui clicked = (let (cr, cg, cb) = (if clicked then (255, 50, 50) else (255, 255, 255)) in
     for_each [0..<5] (\<lambda>dy. for_each [0..<5] (\<lambda>dx.
       draw_pixel (cursor_x ui + of_nat dx) (cursor_y ui + of_nat dy) cr cg cb)))"

text \<open>Everything of \<open>render_desktop\<close> before the frame goes to the hardware.\<close>

definition compose_desktop :: "font \<Rightarrow> UI \<Rightarrow> SplatEngine \<Rightarrow> GpuDriver \<Rightarrow> (UI \<times> SplatEngine \<times> GpuDriver) option" where
  "compose_desktop font ui engine gpu = do {
     let clicked = left_click ui;
     (ui, engine) \<leftarrow> handle_mouse ui engine;
     let engine = engine\<lparr>windows := drag ui (parallax (windows engine))\<rparr>;
     (engine, _) \<leftarrow> tick_physics engine;
     gpu \<leftarrow> restore_from_nebula_cache gpu;
     (engine, gpu) \<leftarrow> render font engine gpu;
     gpu \<leftarrow> draw_cursor ui clicked gpu;
     Some (ui, engine, gpu) }"

definition render_desktop :: "font \<Rightarrow> 'd GpuDevice \<Rightarrow> nat \<Rightarrow> bool \<Rightarrow> UI \<Rightarrow> SplatEngine \<Rightarrow> GpuDriver \<Rightarrow> 'd gpu_state
    \<Rightarrow> (UI \<times> SplatEngine \<times> GpuDriver \<times> 'd gpu_state) option" where
  "render_desktop font gd virtio_backing has_virtio ui engine gpu s = do {
     (ui, engine, gpu) \<leftarrow> compose_desktop font ui engine gpu;
     s \<leftarrow> swap_buffers gd virtio_backing has_virtio gpu s;
     Some (ui, engine, gpu, s) }"

subsection \<open>The screen logger\<close>

text \<open>\<open>is_char_boundary\<close>: the start of a character or the end of the string.\<close>

definition is_char_boundary :: "nat \<Rightarrow> bytes \<Rightarrow> bool" where
  "is_char_boundary i s \<longleftrightarrow> i = length s \<or> i < length s \<and> \<not> utf8_cont (s ! i)"

text \<open>\<open>String::drain(0..500)\<close> panics when 500 is not a boundary.\<close>

definition trim_log :: "bytes \<Rightarrow> bytes option" where
  "trim_log text = (if 2000 < length text then if is_char_boundary 500 text then Some (drop 500 text) else None else Some text)"

definition write_str :: "bytes \<Rightarrow> SplatEngine \<Rightarrow> SplatEngine option" where
  "write_str s engine = (if windows engine = [] then Some engine
     else let win = last (windows engine) in do {
       text \<leftarrow> trim_log (text_buffer win @ s);
       Some (engine\<lparr>windows := butlast (windows engine) @ [win\<lparr>text_buffer := text\<rparr>]\<rparr>) })"

text \<open>What the tasks share: the mouse and screen statics, the engine with the frame buffer (\<open>None\<close> before they are set
  up) and the GPU. A task takes both locks in the same order with interrupts off, so it always gets them.\<close>

type_synonym 'd desk = "UI \<times> (SplatEngine \<times> GpuDriver) option \<times> 'd gpu_state"

definition redraw :: "font \<Rightarrow> 'd GpuDevice \<Rightarrow> nat \<Rightarrow> bool \<Rightarrow> 'd desk \<Rightarrow> 'd desk option" where
  "redraw font gd virtio_backing has_virtio = (\<lambda>(ui, display, s). case display of
     None \<Rightarrow> Some (ui, None, s)
   | Some (engine, gpu) \<Rightarrow> do {
       (ui, engine, gpu, s) \<leftarrow> render_desktop font gd virtio_backing has_virtio ui engine gpu s;
       Some (ui, Some (engine, gpu), s) })"

text \<open>\<open>_screen_print\<close>: the pieces of the formatted text, then a frame; nothing when the screen or the engine is not
  there.\<close>

definition screen_print :: "font \<Rightarrow> 'd GpuDevice \<Rightarrow> nat \<Rightarrow> bool \<Rightarrow> bytes list \<Rightarrow> 'd desk \<Rightarrow> 'd desk option" where
  "screen_print font gd virtio_backing has_virtio pieces = (\<lambda>(ui, display, s). case display of
     None \<Rightarrow> Some (ui, None, s)
   | Some (engine, gpu) \<Rightarrow> do {
       engine \<leftarrow> for_each pieces write_str engine;
       redraw font gd virtio_backing has_virtio (ui, Some (engine, gpu), s) })"

subsection \<open>Text and windows draw without a panic\<close>

text \<open>A drawing loop that threads a position along with the screen.\<close>

definition draws_with :: "(GpuDriver \<times> 'p \<Rightarrow> (GpuDriver \<times> 'p) option) \<Rightarrow> bool" where
  "draws_with f \<longleftrightarrow> (\<forall>g p. screen_ok g \<longrightarrow> (\<exists>g' p'. f (g, p) = Some (g', p') \<and> same_screen g g'))"

lemma draws_withI: "(\<And>g p. screen_ok g \<Longrightarrow> \<exists>g' p'. f (g, p) = Some (g', p') \<and> same_screen g g') \<Longrightarrow> draws_with f"
  by (simp add: draws_with_def)

lemma draws_withE:
  assumes "draws_with f" "screen_ok g"
  obtains g' p' where "f (g, p) = Some (g', p')" "same_screen g g'" "screen_ok g'"
  using assms same_screen_ok by (meson draws_with_def)

lemma draws_with_for_each:
  assumes "\<And>x. draws_with (f x)"
  shows "draws_with (for_each xs f)"
proof (rule draws_withI)
  fix g p assume "screen_ok g"
  then show "\<exists>g' p'. for_each xs f (g, p) = Some (g', p') \<and> same_screen g g'"
  proof (induction xs arbitrary: g p)
    case (Cons x xs)
    obtain u q where u: "f x (g, p) = Some (u, q)" "same_screen g u" "screen_ok u"
      by (rule draws_withE [OF assms Cons.prems])
    from Cons.IH [OF u(3), of q] obtain g' p' where "for_each xs f (u, q) = Some (g', p')" "same_screen u g'" by blast
    with u same_screen_trans show ?case by fastforce
  qed (simp add: same_screen_refl)
qed

lemma draws_glyph [drawing]: "draws (draw_glyph bitmap x0 y0 r g b)"
proof -
  have "draws (\<lambda>gpu. if row AND push_bit x 1 \<noteq> 0 then draw_pixel (x0 + of_nat x) (y0 + of_nat y) r g b gpu else Some gpu)"
    for row :: u8 and x y
    by (cases "row AND push_bit x 1 = 0") (simp_all add: draws_Some draws_draw_pixel)
  then show ?thesis unfolding draw_glyph_def by (intro draws_for_each) (auto intro: draws_for_each split: prod.split)
qed

lemma draws_with_title_char: "draws_with (title_char font y c)"
proof (rule draws_withI)
  fix g and x :: i32 assume ok: "screen_ok g"
  show "\<exists>g' p'. title_char font y c (g, x) = Some (g', p') \<and> same_screen g g'"
  proof (cases "ascii_of c")
    case (Some n)
    obtain g' where "draw_glyph (font n) x y 180 255 255 g = Some g'" "same_screen g g'" by (rule drawsE [OF draws_glyph ok])
    with Some show ?thesis by (simp add: title_char_def)
  qed (simp add: title_char_def same_screen_refl)
qed

lemma draws_with_text_char: "draws_with (text_char font win n c)"
proof (rule draws_withI)
  fix g and p :: "i32 \<times> i32 \<times> nat \<times> nat" assume ok: "screen_ok g"
  obtain cx cy skip k where p: "p = (cx, cy, skip, k)" by (cases p)
  have "\<exists>g'. (case glyph font c of Some bitmap \<Rightarrow> draw_glyph bitmap x y 255 255 255 g | None \<Rightarrow> Some g) = Some g' \<and> same_screen g g'"
    for x y
  proof (cases "glyph font c")
    case (Some bitmap)
    obtain g' where "draw_glyph bitmap x y 255 255 255 g = Some g'" "same_screen g g'" by (rule drawsE [OF draws_glyph ok])
    with Some show ?thesis by simp
  qed (simp add: same_screen_refl)
  then have glyph: "\<exists>g'. (case glyph font c of Some bitmap \<Rightarrow> draw_glyph bitmap x y 255 255 255 g | None \<Rightarrow> Some g) \<bind>
      (\<lambda>gpu. Some (gpu, q)) = Some (g', q) \<and> same_screen g g'" for x y and q :: "i32 \<times> i32 \<times> nat \<times> nat"
    by (metis bind.bind_lunit)
  define pos where "pos = (if 0 < k \<and> k mod n = 0 then if 0 < skip then (wx win + 30, cy, skip - 1)
    else (wx win + 30, cy + 12, skip) else (cx, cy, skip))"
  obtain x y s where pos: "pos = (x, y, s)" by (cases pos)
  show "\<exists>g' p'. text_char font win n c (g, p) = Some (g', p') \<and> same_screen g g'"
  proof (cases "s = 0 \<and> y <s wy win + wh win - 15")
    case True
    then show ?thesis using glyph [of x y "(x + 8, y, s, k + 1)"] unfolding p text_char_def prod.case
      unfolding pos_def [symmetric] pos Let_def prod.case by auto
  next
    case False
    then show ?thesis unfolding p text_char_def prod.case
      unfolding pos_def [symmetric] pos Let_def prod.case by (auto simp: same_screen_refl)
  qed
qed

lemma draws_with_text_line: "draws_with (text_line font win n line)"
proof (rule draws_withI)
  fix g and p :: "i32 \<times> nat" assume ok: "screen_ok g"
  obtain cy skip where p: "p = (cy, skip)" by (cases p)
  obtain g' q where "for_each (str_chars line) (text_char font win n) (g, wx win + 30, cy, skip, 0) = Some (g', q)"
    "same_screen g g'"
    by (rule draws_withE [OF draws_with_for_each [OF draws_with_text_char] ok])
  then show "\<exists>g' p'. text_line font win n line (g, p) = Some (g', p') \<and> same_screen g g'"
    unfolding p text_line_def by (cases q) auto
qed

lemma draws_title [drawing]: "draws (draw_title font win)"
proof (rule drawsI)
  fix g assume ok: "screen_ok g"
  obtain g' x where "for_each (str_chars (map of_char ''PolymorphOS Sovereign Terminal'')) (title_char font (wy win + 2))
      (g, wx win + 30) = Some (g', x)" "same_screen g g'"
    by (rule draws_withE [OF draws_with_for_each [OF draws_with_title_char] ok])
  then show "\<exists>g'. draw_title font win g = Some g' \<and> same_screen g g'" unfolding draw_title_def by simp
qed

lemma draws_text [drawing]: "draws (render_text font win)"
proof (rule drawsI)
  fix g assume ok: "screen_ok g"
  obtain u where u: "draw_title font win g = Some u" "same_screen g u" "screen_ok u" by (rule drawsE [OF draws_title ok])
  have draw: "\<exists>g' q. for_each xs (text_line font win n) (u, p) = Some (g', q) \<and> same_screen u g'" for xs n p
    using draws_with_for_each [where f = "text_line font win n", OF draws_with_text_line] u(3)
    unfolding draws_with_def by blast
  have lines: "\<exists>g'. for_each xs (text_line font win n) (u, p) \<bind> (\<lambda>(g, _). Some g) = Some g' \<and> same_screen g g'" for xs n p
  proof -
    from draw [of xs n p] obtain g' q where "for_each xs (text_line font win n) (u, p) = Some (g', q)" "same_screen u g'" by blast
    with same_screen_trans [OF u(2)] show ?thesis by simp
  qed
  show "\<exists>g'. render_text font win g = Some g' \<and> same_screen g g'"
  proof (cases "wstate win = Stable Instantiated \<or> wstate win = Stable Maximized")
    case True
    show ?thesis unfolding render_text_def Let_def u(1) bind.bind_lunit if_P [OF True] by (rule lines)
  next
    case False
    then show ?thesis by (simp add: render_text_def same_screen_refl)
  qed
qed

lemma draws_window [drawing]: "draws (render_window font win)"
  unfolding render_window_def by (cases "wstate win") (simp_all add: draws_bind draws_body draws_text draws_Some)

lemma draws_launcher [drawing]: "draws (render_launcher l)"
  unfolding render_launcher_def by (intro drawing)

lemma draws_cursor [drawing]: "draws (draw_cursor ui clicked)"
  unfolding draw_cursor_def Let_def case_prod_beta by (intro drawing)

lemma render_ok:
  assumes "screen_ok g"
  shows "\<exists>engine' g'. render font engine g = Some (engine', g') \<and> same_screen g g' \<and>
    windows engine' = windows engine \<and> launchers engine' = launchers engine"
proof -
  let ?f = "\<lambda>g. for_each (sort_key (\<lambda>sp. sint (sp_z sp)) (nebula_splats engine)) render_single_splat g \<bind>
      (\<lambda>g. for_each (launchers engine) render_launcher g \<bind> for_each (windows engine) (render_window font))"
  have "draws ?f" by (intro drawing)
  from drawsE [OF this assms] obtain g' where "?f g = Some g'" "same_screen g g'" by blast
  then show ?thesis by (auto simp: render_def Let_def bind_eq_Some_conv)
qed

subsection \<open>The invariant of the desktop\<close>

text \<open>Every window is well formed, a window can only exist when there is a launcher to close it to, and no dead window
  is kept.\<close>

definition engine_ok :: "SplatEngine \<Rightarrow> bool" where
  "engine_ok engine \<longleftrightarrow> (\<forall>w \<in> set (windows engine). win_ok w \<and> wstate w \<noteq> Stable Dead) \<and>
     (windows engine \<noteq> [] \<longrightarrow> launchers engine \<noteq> [])"

lemma win_ok_transition [intro]: "win_ok w \<Longrightarrow> win_ok (transition_to a b c d m w)"
  by (simp add: win_ok_def transition_to_def)

lemma win_ok_spawn: "win_ok (spawn i x y w h) \<and> wstate (spawn i x y w h) \<noteq> Stable Dead"
  by (simp add: win_ok_def spawn_def Let_def)

lemma click_window_ok:
  assumes "win_ok w" "wstate w \<noteq> Stable Dead" "ls \<noteq> []"
  shows "\<exists>hit. click_window ui ls w = Some hit \<and>
    (\<forall>w' ui'. hit = Some (w', ui') \<longrightarrow> win_ok w' \<and> wstate w' \<noteq> Stable Dead \<and> left_click ui' = left_click ui)"
proof -
  have tr: "wstate (transition_to a b c d m v) \<noteq> Stable Dead" for a b c d m v by (simp add: transition_to_def)
  have mx: "win_ok (trigger_maximize a b w)" "wstate (trigger_maximize a b w) \<noteq> Stable Dead" for a b
    using assms(1) tr by (auto simp: trigger_maximize_def Let_def win_ok_def transition_to_def)
  have head: "aget ls 0 = Some (hd ls)" using assms(3) by (cases ls) (simp_all add: aget_def)
  show ?thesis
  proof (cases "wstate w")
    case (Stable m)
    with assms tr mx head show ?thesis
      by (simp add: click_window_def Let_def trigger_close_def trigger_restore_def win_ok_transition)
  next
    case (Transitioning t)
    with assms show ?thesis by (simp add: click_window_def Let_def)
  qed
qed

lemma click_scan_ok:
  assumes "\<forall>(i, w) \<in> set ws. i < n \<and> win_ok w \<and> wstate w \<noteq> Stable Dead" "ws \<noteq> [] \<longrightarrow> ls \<noteq> []"
  shows "\<exists>hit. click_scan ui ls ws = Some hit \<and>
    (\<forall>i w' ui'. hit = Some (i, w', ui') \<longrightarrow> i < n \<and> win_ok w' \<and> wstate w' \<noteq> Stable Dead \<and> left_click ui' = left_click ui \<and> ls \<noteq> [])"
  using assms
proof (induction ws)
  case (Cons iw ws)
  obtain i w where iw: "iw = (i, w)" by (cases iw)
  from Cons.prems iw obtain hit where "click_window ui ls w = Some hit"
    "\<forall>w' ui'. hit = Some (w', ui') \<longrightarrow> win_ok w' \<and> wstate w' \<noteq> Stable Dead \<and> left_click ui' = left_click ui"
    using click_window_ok [of w ls ui] by auto
  with Cons iw show ?case by (cases hit) auto
qed simp

lemma handle_mouse_ok:
  assumes ok: "engine_ok engine"
  shows "\<exists>ui' engine'. handle_mouse ui engine = Some (ui', engine') \<and> engine_ok engine' \<and> left_click ui' = left_click ui \<and>
    launchers engine' = launchers engine \<and> (is_dragging ui' \<longrightarrow> left_click ui')"
proof (cases "left_click ui")
  case True
  let ?ws = "rev (enumerate 0 (windows engine))"
  have "\<forall>(i, w) \<in> set ?ws. i < length (windows engine) \<and> win_ok w \<and> wstate w \<noteq> Stable Dead" "?ws \<noteq> [] \<longrightarrow> launchers engine \<noteq> []"
    using ok by (auto simp: engine_ok_def in_set_enumerate_eq)
  from click_scan_ok [OF this, of ui] obtain hit where scan: "click_scan ui (launchers engine) ?ws = Some hit"
    "\<And>i w ui'. hit = Some (i, w, ui') \<Longrightarrow> i < length (windows engine) \<and> win_ok w \<and> wstate w \<noteq> Stable Dead \<and>
      left_click ui' = left_click ui \<and> launchers engine \<noteq> []" by blast
  show ?thesis
  proof (cases hit)
    case None
    have "engine_ok (launch ui engine)" "launchers (launch ui engine) = launchers engine"
      using ok win_ok_spawn by (auto simp: launch_def engine_ok_def find_Some_iff split: option.split)
    with None scan(1) True ok show ?thesis by (simp add: handle_mouse_def)
  next
    case (Some h)
    obtain i w ui' where h: "h = (i, w, ui')" by (cases h)
    with scan(2) Some have w: "i < length (windows engine)" "win_ok w" "wstate w \<noteq> Stable Dead" "left_click ui' = left_click ui"
      "launchers engine \<noteq> []" by auto
    then have "engine_ok (engine\<lparr>windows := focus i w (windows engine)\<rparr>)"
      using ok by (auto simp: engine_ok_def focus_def dest: in_set_takeD in_set_dropD)
    with Some h w scan(1) True show ?thesis by (simp add: handle_mouse_def)
  qed
next
  case False
  with ok show ?thesis by (simp add: handle_mouse_def)
qed

lemma parallax_ok: "\<forall>w \<in> set ws. win_ok w \<and> wstate w \<noteq> Stable Dead \<Longrightarrow> \<forall>w \<in> set (parallax ws). win_ok w \<and> wstate w \<noteq> Stable Dead"
  by (auto simp: parallax_def in_set_enumerate_eq win_ok_def)

lemma parallax_Nil: "parallax ws = [] \<longleftrightarrow> ws = []"
  by (cases ws) (simp_all add: parallax_def)

lemma drag_ok: "\<forall>w \<in> set ws. win_ok w \<and> wstate w \<noteq> Stable Dead \<Longrightarrow> \<forall>w \<in> set (drag ui ws). win_ok w \<and> wstate w \<noteq> Stable Dead"
  by (auto simp: drag_def win_ok_def Let_def dest: in_set_butlastD last_in_set)

lemma drag_Nil: "drag ui ws = [] \<longleftrightarrow> ws = []"
  by (simp add: drag_def Let_def)

lemma update_windows_map:
  assumes "\<forall>w \<in> set ws. win_ok w"
  shows "\<exists>redrew. update_windows ws = Some (map stepped ws, redrew)"
  using assms
proof (induction ws)
  case (Cons w ws)
  then show ?case using stepped_step(1) [of w] by auto
qed (auto intro: exI [of _ False])

lemma tick_physics_eq:
  assumes "\<forall>w \<in> set (windows engine). win_ok w"
  shows "\<exists>redrew. tick_physics engine =
    Some (engine\<lparr>windows := filter (\<lambda>w. wstate w \<noteq> Stable Dead) (map stepped (windows engine))\<rparr>, redrew)"
  using update_windows_map [OF assms] by (auto simp: tick_physics_def)

lemma tick_physics_ok:
  assumes "\<forall>w \<in> set (windows engine). win_ok w" "windows engine \<noteq> [] \<longrightarrow> launchers engine \<noteq> []"
  shows "\<exists>engine' redrew. tick_physics engine = Some (engine', redrew) \<and> engine_ok engine' \<and>
    launchers engine' = launchers engine"
  using tick_physics_eq [OF assms(1)] assms stepped_step(2) by (fastforce simp: engine_ok_def)

lemma compose_desktop_ok:
  assumes e: "engine_ok engine" and g: "screen_ok gpu"
  shows "\<exists>ui' engine' gpu'. compose_desktop font ui engine gpu = Some (ui', engine', gpu') \<and> engine_ok engine' \<and>
    screen_ok gpu' \<and> launchers engine' = launchers engine \<and> (is_dragging ui' \<longrightarrow> left_click ui')"
proof -
  from handle_mouse_ok [OF e, of ui] obtain ui' e1 where m: "handle_mouse ui engine = Some (ui', e1)" "engine_ok e1"
    "launchers e1 = launchers engine" "is_dragging ui' \<longrightarrow> left_click ui'" by blast
  let ?e2 = "e1\<lparr>windows := drag ui' (parallax (windows e1))\<rparr>"
  have "\<forall>w \<in> set (windows ?e2). win_ok w" "windows ?e2 \<noteq> [] \<longrightarrow> launchers ?e2 \<noteq> []"
    using drag_ok [OF parallax_ok] m(2) by (auto simp: engine_ok_def drag_Nil parallax_Nil)
  from tick_physics_ok [OF this] obtain e3 redrew where t: "tick_physics ?e2 = Some (e3, redrew)" "engine_ok e3"
    "launchers e3 = launchers engine" using m(3) by auto
  let ?g1 = "gpu\<lparr>back_buffer := nebula_buffer gpu\<rparr>"
  have r: "restore_from_nebula_cache gpu = Some ?g1" "screen_ok ?g1"
    using g by (auto simp: restore_from_nebula_cache_def screen_ok_def)
  from render_ok [OF r(2), of font e3] obtain e4 g2 where d: "render font e3 ?g1 = Some (e4, g2)" "same_screen ?g1 g2"
    "windows e4 = windows e3" "launchers e4 = launchers e3" by blast
  obtain g3 where c: "draw_cursor ui' (left_click ui) g2 = Some g3" "screen_ok g3"
    by (rule drawsE [OF draws_cursor same_screen_ok [OF d(2) r(2)]])
  have "engine_ok e4" using t(2) d(3,4) by (simp add: engine_ok_def)
  then show ?thesis using m(1,4) t(1,3) r(1) d(1,4) c by (simp add: compose_desktop_def)
qed

subsection \<open>Animations end\<close>

fun ticks :: "nat \<Rightarrow> SplatEngine \<Rightarrow> SplatEngine option" where
  "ticks 0 engine = Some engine"
| "ticks (Suc n) engine = do { (engine, _) \<leftarrow> tick_physics engine; ticks n engine }"

abbreviation alive :: "SemanticWindow \<Rightarrow> bool" where
  "alive w \<equiv> wstate w \<noteq> Stable Dead"

lemma stepped_dead: "win_ok w \<Longrightarrow> wstate w = Stable m \<Longrightarrow> wstate (stepped w) = Stable m"
  using slide_z_step(3) [of w] by (simp add: stepped_def update_physics_def case_prod_beta Let_def)

lemma stepped_iter_alive: "win_ok w \<Longrightarrow> alive ((stepped ^^ n) w) \<Longrightarrow> alive w"
  by (induction n) (use stepped_dead stepped_iter in auto)

lemma ticks_eq:
  assumes "\<forall>w \<in> set (windows engine). win_ok w \<and> alive w"
  shows "ticks n engine = Some (engine\<lparr>windows := filter alive (map (stepped ^^ n) (windows engine))\<rparr>)"
  using assms
proof (induction n arbitrary: engine)
  case 0
  then show ?case by (simp add: filter_id_conv)
next
  case (Suc n)
  let ?ws = "filter alive (map stepped (windows engine))"
  have tick: "\<exists>redrew. tick_physics engine = Some (engine\<lparr>windows := ?ws\<rparr>, redrew)"
    using Suc.prems by (intro tick_physics_eq) auto
  have "ticks n (engine\<lparr>windows := ?ws\<rparr>) = Some (engine\<lparr>windows := filter alive (map (stepped ^^ n) ?ws)\<rparr>)"
    using Suc.IH [of "engine\<lparr>windows := ?ws\<rparr>"] Suc.prems stepped_step(2) by auto
  moreover have "filter alive (map (stepped ^^ n) (filter alive (map stepped ws))) = filter alive (map (stepped ^^ Suc n) ws)"
    if "\<forall>w \<in> set ws. win_ok w" for ws
    using that stepped_iter_alive [of "stepped _" n] stepped_step(2)
    by (induction ws) (auto simp: funpow_swap1)
  ultimately show ?case using tick Suc.prems by (auto simp: comp_def)
qed

text \<open>C24. Animations end: from any well-formed engine, after twenty ticks or more every window is at rest in exactly
  the mode, position, size and depth it was heading for, with its texts unchanged and in the same order, and exactly the
  windows that were being closed are gone.\<close>

theorem desktop_settles:
  assumes "engine_ok engine" "20 \<le> n"
  shows "\<exists>engine'. ticks n engine = Some engine' \<and>
    map window_goal (windows engine') = map window_goal (filter (\<lambda>w. fst (destination w) \<noteq> Dead) (windows engine)) \<and>
    (\<forall>w \<in> set (windows engine'). \<exists>mode. wstate w = Stable mode \<and> base_z w = target_z w)"
proof -
  have ok: "\<forall>w \<in> set (windows engine). win_ok w" using assms(1) by (simp add: engine_ok_def)
  have goal: "window_goal ((stepped ^^ n) w) = window_goal w" if "win_ok w" for w using stepped_iter [OF that] by blast
  have alive: "alive ((stepped ^^ n) w) \<longleftrightarrow> fst (destination w) \<noteq> Dead" if "win_ok w" for w
  proof -
    have d: "destination w = destination ((stepped ^^ n) w)" using goal [OF that] by (simp add: window_goal_def)
    from stepped_settles(1) [OF that assms(2)] show ?thesis unfolding d by (auto simp: destination_def)
  qed
  have "map window_goal (filter alive (map (stepped ^^ n) ws)) = map window_goal (filter (\<lambda>w. fst (destination w) \<noteq> Dead) ws)"
    if "\<forall>w \<in> set ws. win_ok w" for ws
    using that by (induction ws) (auto simp: alive goal)
  moreover have "\<exists>mode. wstate w = Stable mode \<and> base_z w = target_z w" if "w \<in> set (map (stepped ^^ n) (windows engine))" for w
    using that ok stepped_settles [OF _ assms(2)] by auto
  ultimately show ?thesis using ticks_eq [of engine n] assms(1) ok by (auto simp: engine_ok_def)
qed

definition demo_engine :: SplatEngine where
  "demo_engine = SplatEngine_new\<lparr>launchers := [\<lparr>lx = 50, ly = 50, radius = 30\<rparr>],
     windows := [spawn 1 50 50 800 600, trigger_close 50 50 (spawn 2 50 50 800 600)]\<rparr>"

theorem desktop_settles_witness:
  "\<exists>engine'. ticks 20 demo_engine = Some engine' \<and> map window_goal (windows engine') = [window_goal (spawn 1 50 50 800 600)] \<and>
    (\<forall>w \<in> set (windows engine'). \<exists>mode. wstate w = Stable mode \<and> base_z w = target_z w)"
proof -
  have "win_ok (trigger_close 50 50 (spawn 2 50 50 800 600))" "alive (trigger_close 50 50 (spawn 2 50 50 800 600))"
    using win_ok_spawn by (auto simp: trigger_close_def transition_to_def win_ok_def)
  then have "engine_ok demo_engine" using win_ok_spawn by (simp add: engine_ok_def demo_engine_def)
  moreover have "filter (\<lambda>w. fst (destination w) \<noteq> Dead) (windows demo_engine) = [spawn 1 50 50 800 600]"
    by (simp add: demo_engine_def destination_def spawn_def trigger_close_def transition_to_def Let_def)
  ultimately show ?thesis using desktop_settles [of demo_engine 20] by simp
qed

end
