(* ===== verification/Virtio_Gpu_Props.thy ===== *)
theory Virtio_Gpu_Props
  imports Virtio_Gpu
begin

text \<open>
  Correctness of the command exchange with a VirtIO GPU device. What the driver relies on of the device is the
  locale \<open>gpu_device\<close>: it writes only its own part of the shared memory (the used ring and the reply area of
  the mailbox), it never answers more than was made available, and it answers eventually.
\<close>

subsection \<open>The device\<close>

abbreviation used_idx :: "nat \<Rightarrow> gpu_mem \<Rightarrow> u16" where
  "used_idx q m \<equiv> us_idx (used (vq_heap m q))"

abbreviation avail_idx :: "nat \<Rightarrow> gpu_mem \<Rightarrow> u16" where
  "avail_idx q m \<equiv> av_idx (available (vq_heap m q))"

definition driver_side :: "nat \<Rightarrow> nat \<Rightarrow> gpu_mem \<Rightarrow> gpu_mem \<Rightarrow> bool" where
  "driver_side q mv m m' \<longleftrightarrow> (\<exists>u. vq_heap m' q = (vq_heap m q)\<lparr>used := u\<rparr>) \<and>
     (\<forall>a. a < mv + 512 \<or> mv + 4096 \<le> a \<longrightarrow> box m' a = box m a)"

lemma driver_side_refl: "driver_side q mv m m"
  by (auto simp: driver_side_def intro!: exI [of _ "used (vq_heap m q)"])

lemma driver_side_trans: "driver_side q mv m m' \<Longrightarrow> driver_side q mv m' m'' \<Longrightarrow> driver_side q mv m m''"
  by (auto simp: driver_side_def)

lemma driver_side_avail: "driver_side q mv m m' \<Longrightarrow> avail_idx q m' = avail_idx q m"
  by (auto simp: driver_side_def)

locale gpu_device =
  fixes gd :: "'d GpuDevice" and q :: nat and mv :: nat
  assumes tick_frame: "driver_side q mv m (snd (gd_tick gd (d, m)))"
    and notify_frame: "driver_side q mv m (snd (gd_notify gd a v (d, m)))"
    and tick_used: "used_idx q (snd (gd_tick gd (d, m))) - used_idx q m \<le> avail_idx q m - used_idx q m"
    and notify_used: "used_idx q (snd (gd_notify gd a v (d, m))) - used_idx q m \<le> avail_idx q m - used_idx q m"
    and answers: "\<exists>n. used_idx q (snd ((gd_tick gd ^^ n) (d, m))) = avail_idx q m"
begin

lemma ticks_frame: "driver_side q mv m (snd ((gd_tick gd ^^ n) (d, m)))"
proof (induction n)
  case (Suc n)
  have "driver_side q mv (snd ((gd_tick gd ^^ n) (d, m))) (snd (gd_tick gd ((gd_tick gd ^^ n) (d, m))))"
    using tick_frame by (metis prod.collapse)
  with Suc show ?case by (auto intro: driver_side_trans)
qed (simp add: driver_side_refl)

text \<open>With one command outstanding the used index is the old or the new available index.\<close>

lemma used_step:
  assumes "u' - u \<le> av - u" "av = l + 1" "u = l \<or> u = av"
  shows "u' = l \<or> u' = (av :: u16)"
proof -
  have x: "x = 0 \<or> x = 1" if "x \<le> 1" for x :: u16
  proof -
    consider "unat x = 0" | "unat x = 1" using \<open>x \<le> 1\<close> unfolding word_le_nat_alt unat_1 by linarith
    then show ?thesis by cases (simp_all add: word_unat_eq_iff)
  qed
  from assms(3) show ?thesis
  proof
    assume u: "u = l"
    then have "u' - l = 0 \<or> u' - l = 1" using assms(1,2) x [of "u' - l"] by simp
    then show ?thesis using assms(2) by (auto simp: eq_diff_eq diff_eq_eq add.commute)
  next
    assume "u = av"
    then have "u' - av = 0" using assms(1) by simp
    then show ?thesis by simp
  qed
qed

lemma ticks_used:
  assumes "avail_idx q m = l + 1" "used_idx q m = l \<or> used_idx q m = l + 1"
  shows "used_idx q (snd ((gd_tick gd ^^ n) (d, m))) = l \<or> used_idx q (snd ((gd_tick gd ^^ n) (d, m))) = l + 1"
proof (induction n)
  case (Suc n)
  obtain d1 m1 where x: "(gd_tick gd ^^ n) (d, m) = (d1, m1)" by (rule prod.exhaust)
  have "avail_idx q m1 = l + 1" using driver_side_avail [OF ticks_frame [of m n d]] assms(1) x by simp
  with used_step [OF tick_used [of d1 m1]] Suc x show ?case by auto
qed (use assms in simp)

end

lemma wait_used_returns:
  "l \<noteq> used_idx q (snd ((gd_tick gd ^^ Suc n) x)) \<Longrightarrow>
   \<exists>k. wait_used gd q l x = Some ((gd_tick gd ^^ Suc k) x) \<and> l \<noteq> used_idx q (snd ((gd_tick gd ^^ Suc k) x))"
proof (induction n arbitrary: x)
  case 0
  then show ?case by (subst wait_used.simps) (auto simp: Let_def intro!: exI [of _ 0])
next
  case (Suc n)
  show ?case
  proof (cases "l = used_idx q (snd (gd_tick gd x))")
    case True
    have "l \<noteq> used_idx q (snd ((gd_tick gd ^^ Suc n) (gd_tick gd x)))"
      using Suc.prems by (simp add: funpow_swap1)
    from Suc.IH [OF this] obtain k where "wait_used gd q l (gd_tick gd x) = Some ((gd_tick gd ^^ Suc k) (gd_tick gd x))"
      "l \<noteq> used_idx q (snd ((gd_tick gd ^^ Suc k) (gd_tick gd x)))" by blast
    with True show ?thesis
      by (subst wait_used.simps) (auto simp: Let_def funpow_swap1 intro!: exI [of _ "Suc k"])
  next
    case False
    then show ?thesis by (subst wait_used.simps) (auto simp: Let_def intro!: exI [of _ 0])
  qed
qed

subsection \<open>One exchange\<close>

text \<open>The driver has its queue and its mailbox, \<open>xs\<close> are its free descriptors and no command is outstanding.\<close>

definition gpu_ready :: "nat \<Rightarrow> nat \<Rightarrow> nat list \<Rightarrow> 'd gpu_state \<Rightarrow> bool" where
  "gpu_ready q mv xs s \<longleftrightarrow> control_queue_virt (gdrv s) = Some q \<and> mailbox_virt (gdrv s) = Some mv \<and>
     mailbox_phys (gdrv s) \<noteq> None \<and> free_list (vq_heap (gmem s) q) xs \<and>
     used_idx q (gmem s) = avail_idx q (gmem s) \<and> last_used_idx (vq_heap (gmem s) q) = avail_idx q (gmem s)"

text \<open>The request that was made available: descriptor \<open>a\<close> describes the command, \<open>b\<close> the reply.\<close>

definition request_posted :: "nat \<Rightarrow> 'd gpu_state \<Rightarrow> 'd gpu_state \<Rightarrow> nat \<Rightarrow> nat \<Rightarrow> nat \<Rightarrow> nat \<Rightarrow> bool" where
  "request_posted q s s' a b cmd_len resp_len \<longleftrightarrow> (\<exists>mp. mailbox_phys (gdrv s) = Some mp \<and>
     (let vq = vq_heap (gmem s) q; vq' = vq_heap (gmem s') q in
      descriptors vq' ! a = \<lparr>vd_addr = mp, vd_len = of_nat cmd_len, vd_flags = 1, vd_next = of_nat b\<rparr> \<and>
      vd_addr (descriptors vq' ! b) = mp + 512 \<and> vd_len (descriptors vq' ! b) = of_nat resp_len \<and>
      vd_flags (descriptors vq' ! b) = 2 \<and>
      av_ring (available vq') = (av_ring (available vq))[unat (av_idx (available vq)) mod 64 := of_nat a] \<and>
      av_idx (available vq') = av_idx (available vq) + 1))"

lemma put_vq_simps [simp]:
  "gdrv (put_vq q v s) = gdrv s" "gdev (put_vq q v s) = gdev s" "box (gmem (put_vq q v s)) = box (gmem s)"
  "vq_heap (gmem (put_vq q v s)) = (vq_heap (gmem s))(q := v)"
  by (simp_all add: put_vq_def)

lemma put_bytes_simps [simp]:
  "gdrv (put_bytes p bs s) = gdrv s" "gdev (put_bytes p bs s) = gdev s" "vq_heap (gmem (put_bytes p bs s)) = vq_heap (gmem s)"
  "box (gmem (put_bytes p bs s)) = write_bytes p bs (box (gmem s))"
  by (simp_all add: put_bytes_def)

context gpu_device
begin

lemma doorbell_frame:
  "driver_side q mv (gmem s) (gmem (ring_doorbell gd s))" "gdrv (ring_doorbell gd s) = gdrv s"
  "used_idx q (gmem (ring_doorbell gd s)) - used_idx q (gmem s) \<le> avail_idx q (gmem s) - used_idx q (gmem s)"
  using notify_frame notify_used
  by (auto simp: ring_doorbell_def driver_side_refl case_prod_beta split: option.split)

lemma wait_ticks:
  assumes "avail_idx q m = l + 1" "used_idx q m = l \<or> used_idx q m = l + 1"
  shows "\<exists>k. wait_used gd q l (d, m) = Some ((gd_tick gd ^^ k) (d, m)) \<and> used_idx q (snd ((gd_tick gd ^^ k) (d, m))) = l + 1"
proof -
  from answers [of d m] assms(1) obtain n where n: "used_idx q (snd ((gd_tick gd ^^ n) (d, m))) = l + 1" by auto
  obtain d1 m1 where x: "(gd_tick gd ^^ n) (d, m) = (d1, m1)" by (rule prod.exhaust)
  have "avail_idx q m1 = l + 1" using driver_side_avail [OF ticks_frame [of m n d]] assms(1) x by simp
  with tick_used [of d1 m1] n x have "used_idx q (snd ((gd_tick gd ^^ Suc n) (d, m))) = l + 1" by auto
  then have "l \<noteq> used_idx q (snd ((gd_tick gd ^^ Suc n) (d, m)))" by simp
  from wait_used_returns [OF this] obtain k where k: "wait_used gd q l (d, m) = Some ((gd_tick gd ^^ Suc k) (d, m))"
    "l \<noteq> used_idx q (snd ((gd_tick gd ^^ Suc k) (d, m)))" by blast
  with ticks_used [OF assms, of "Suc k" d] show ?thesis by (intro exI [of _ "Suc k"]) auto
qed

lemma wait_answered:
  assumes "avail_idx q m = l + 1" "used_idx q m = l \<or> used_idx q m = l + 1"
  shows "\<exists>d' m'. wait_used gd q l (d, m) = Some (d', m') \<and> driver_side q mv m m' \<and> used_idx q m' = l + 1"
proof -
  from wait_ticks [OF assms, of d] obtain k where k: "wait_used gd q l (d, m) = Some ((gd_tick gd ^^ k) (d, m))"
    "used_idx q (snd ((gd_tick gd ^^ k) (d, m))) = l + 1" by blast
  obtain d' m' where x: "(gd_tick gd ^^ k) (d, m) = (d', m')" by (rule prod.exhaust)
  with k ticks_frame [of m k d] show ?thesis by auto
qed

lemma exchange_ok:
  assumes r: "gpu_ready q mv (a # b # rest) s"
  shows "\<exists>s'. exchange gd cl rl s = Some (s', a, b) \<and> gdrv s' = gdrv s \<and> gpu_ready q mv rest s' \<and>
    request_posted q s s' a b cl rl \<and>
    (\<forall>x. x < mv + 512 \<or> mv + 4096 \<le> x \<longrightarrow> box (gmem s') x = box (gmem s) x) \<and>
    (\<exists>v d m. let l = avail_idx q (gmem s); s1 = ring_doorbell gd (put_vq q v s) in
       us_idx (used v) = l \<and> av_idx (available v) = l + 1 \<and> wait_used gd q l (gdev s1, gmem s1) = Some (d, m) \<and>
       box (gmem s') = box (snd (gd_tick gd (d, m))))"
proof -
  let ?l = "avail_idx q (gmem s)"
  from r obtain mp where g: "mailbox_phys (gdrv s) = Some mp" "control_queue_virt (gdrv s) = Some q"
    "free_list (vq_heap (gmem s) q) (a # b # rest)" "used_idx q (gmem s) = ?l" "last_used_idx (vq_heap (gmem s) q) = ?l"
    by (auto simp: gpu_ready_def)
  from load_pair_ok [OF g(3), of mp "of_nat cl" "mp + 512" "of_nat rl"] obtain v1 where
    v1: "load_pair mp (of_nat cl) (mp + 512) (of_nat rl) (vq_heap (gmem s) q) = Some (v1, a, b)" "free_list v1 rest"
      "descriptors v1 ! a = \<lparr>vd_addr = mp, vd_len = of_nat cl, vd_flags = 1, vd_next = of_nat b\<rparr>"
      "vd_addr (descriptors v1 ! b) = mp + 512" "vd_len (descriptors v1 ! b) = of_nat rl" "vd_flags (descriptors v1 ! b) = 2"
      "available v1 = available (vq_heap (gmem s) q)" "used v1 = used (vq_heap (gmem s) q)" "last_used_idx v1 = ?l"
    by (auto simp: g VIRTQ_DESC_F_NEXT_def VIRTQ_DESC_F_WRITE_def)
  define v2 where "v2 = v1\<lparr>available := (available v1)\<lparr>av_ring := (av_ring (available v1))[unat ?l mod 64 := of_nat a],
    av_idx := ?l + 1\<rparr>\<rparr>"
  have v2: "publish a v1 = Some v2" using publish_ok [of v1 a] v1 by (simp add: free_list_def v2_def)
  define s1 where "s1 = ring_doorbell gd (put_vq q v2 s)"
  have s1: "driver_side q mv (gmem (put_vq q v2 s)) (gmem s1)" "gdrv s1 = gdrv s"
    and u1: "used_idx q (gmem s1) = ?l \<or> used_idx q (gmem s1) = ?l + 1"
    using doorbell_frame [of "put_vq q v2 s"] used_step [of "used_idx q (gmem s1)" ?l "?l + 1" ?l] v1(8) g(4)
    by (simp_all add: s1_def v2_def)
  have a1: "avail_idx q (gmem s1) = ?l + 1" "last_used_idx (vq_heap (gmem s1) q) = ?l"
    using s1(1) v1(9) by (auto simp: driver_side_def v2_def)
  from wait_answered [OF a1(1) u1, of "gdev s1"] obtain d2 m2 where
    w: "wait_used gd q ?l (gdev s1, gmem s1) = Some (d2, m2)" "driver_side q mv (gmem s1) m2" "used_idx q m2 = ?l + 1" by blast
  obtain d3 m3 where t: "gd_tick gd (d2, m2) = (d3, m3)" by (rule prod.exhaust)
  have f3: "driver_side q mv (gmem (put_vq q v2 s)) m3"
    using driver_side_trans [OF driver_side_trans [OF s1(1) w(2)] tick_frame [of m2 d2]] t by simp
  have "avail_idx q m2 = ?l + 1" using driver_side_avail [OF w(2)] a1(1) by simp
  then have u3: "used_idx q m3 = ?l + 1" using tick_used [of d2 m2] w(3) t by simp
  obtain u where q3: "vq_heap m3 q = v2\<lparr>used := u\<rparr>" using f3 by (auto simp: driver_side_def)
  define s' where "s' = put_vq q (v2\<lparr>used := u, last_used_idx := ?l + 1\<rparr>) (s1\<lparr>gdev := d3, gmem := m3\<rparr>)"
  have "exchange gd cl rl s = Some (s', a, b)"
    using u3 by (simp add: exchange_def g v1(1) v2 s1_def [symmetric] a1 w(1) t Let_def q3 s'_def)
  moreover have "gpu_ready q mv rest s'"
    using r u3 q3 v1(2) s1(2) by (simp add: gpu_ready_def s'_def) (simp add: v2_def free_list_def vq_shape_def)
  moreover have "request_posted q s s' a b cl rl"
    using v1 g(1) by (simp add: request_posted_def Let_def s'_def v2_def)
  moreover have "box (gmem s') x = box (gmem s) x" if "x < mv + 512 \<or> mv + 4096 \<le> x" for x
    using f3 that by (auto simp: driver_side_def s'_def)
  moreover have "\<exists>v d m. let l = ?l; s1 = ring_doorbell gd (put_vq q v s) in
       us_idx (used v) = l \<and> av_idx (available v) = l + 1 \<and> wait_used gd q l (gdev s1, gmem s1) = Some (d, m) \<and>
       box (gmem s') = box (snd (gd_tick gd (d, m)))"
    using w(1) t v1(8) g(4) by (intro exI [of _ v2] exI [of _ d2] exI [of _ m2]) (simp add: Let_def s1_def s'_def v2_def)
  moreover have "gdrv s' = gdrv s" using s1(2) by (simp add: s'_def)
  ultimately show ?thesis by blast
qed

end

subsection \<open>The blocking commands\<close>

text \<open>The outcome of a command with a plain reply: the device was given the command and the place for the reply;
  the answer decides the result, and with it whether the two descriptors are back on the free list.\<close>

definition command_outcome :: "nat \<Rightarrow> nat \<Rightarrow> nat \<Rightarrow> nat \<Rightarrow> nat list \<Rightarrow> bytes \<Rightarrow> string \<Rightarrow> 'd gpu_state \<Rightarrow>
    ((string, unit) result \<times> 'd gpu_state) option \<Rightarrow> bool" where
  "command_outcome q mv a b rest cmd err s out \<longleftrightarrow> (\<exists>r s'. out = Some (r, s') \<and> gdrv s' = gdrv s \<and>
     read_bytes (box (gmem s')) mv (length cmd) = cmd \<and> request_posted q s s' a b (length cmd) 24 \<and>
     (if read_u32 (box (gmem s')) (mv + 512) = 0x1100 then r = Ok () \<and> gpu_ready q mv (a # b # rest) s'
      else r = Err err \<and> gpu_ready q mv rest s'))"

lemma gpu_ready_drafts [simp]: "gpu_ready q mv xs (put_bytes p bs s) = gpu_ready q mv xs s"
  by (simp add: gpu_ready_def)

lemma request_posted_drafts [simp]: "request_posted q (put_bytes p bs s) s' a b cl rl = request_posted q s s' a b cl rl"
  by (simp add: request_posted_def)

lemma reclaim_ok:
  assumes r: "gpu_ready q mv rest s" and p: "request_posted q s0 s a b cl rl"
    and ab: "a < 64" "b < 64" "a \<noteq> b" "a \<notin> set rest" "b \<notin> set rest"
  shows "\<exists>s'. reclaim a b s = Some s' \<and> gpu_ready q mv (a # b # rest) s' \<and> gdrv s' = gdrv s \<and>
    request_posted q s0 s' a b cl rl \<and> box (gmem s') = box (gmem s)"
proof -
  let ?v = "vq_heap (gmem s) q"
  have f: "free_list ?v rest" "control_queue_virt (gdrv s) = Some q" using r by (simp_all add: gpu_ready_def)
  have n: "vd_next (descriptors ?v ! a) = of_nat b" using p by (auto simp: request_posted_def Let_def)
  let ?w = "?v\<lparr>descriptors := (descriptors ?v)[b := (descriptors ?v ! b)\<lparr>vd_next := free_head ?v\<rparr>],
    free_head := of_nat a, num_free := num_free ?v + 2\<rparr>"
  have l: "length (descriptors ?v) = 64" using free_listD(1) [OF f(1)] .
  have w: "reclaim_pair a b ?v = Some ?w" using ab l by (simp add: reclaim_pair_def array_simps)
  with reclaim_pair_ok [OF f(1) ab n] have "free_list ?w (a # b # rest)" by auto
  then have "gpu_ready q mv (a # b # rest) (put_vq q ?w s)" using r by (simp add: gpu_ready_def)
  moreover have "request_posted q s0 (put_vq q ?w s) a b cl rl"
    using p ab l by (auto simp: request_posted_def Let_def)
  ultimately show ?thesis using f(2) w by (auto simp: reclaim_def)
qed

context gpu_device
begin

lemma command_ok:
  assumes r: "gpu_ready q mv (a # b # rest) s" and box: "box (gmem s1) = write_bytes (mv + 512) env (write_bytes mv cmd h)"
    and s1: "gdrv s1 = gdrv s" "vq_heap (gmem s1) = vq_heap (gmem s)" and len: "length cmd \<le> 512" "cl = length cmd"
  shows "command_outcome q mv a b rest cmd err s (do { x \<leftarrow> exchange gd cl 24 s1; open_nodata err x })"
proof -
  have r1: "gpu_ready q mv (a # b # rest) s1" using r s1 by (simp add: gpu_ready_def)
  from exchange_ok [OF r1, of cl 24] obtain s2 where
    s2: "exchange gd cl 24 s1 = Some (s2, a, b)" "gdrv s2 = gdrv s1" "gpu_ready q mv rest s2"
      "request_posted q s1 s2 a b cl 24" "\<forall>x. x < mv + 512 \<or> mv + 4096 \<le> x \<longrightarrow> box (gmem s2) x = box (gmem s1) x" by blast
  have rp: "request_posted q s s2 a b cl 24" using s2(4) s1 by (simp add: request_posted_def)
  have "read_bytes (box (gmem s2)) mv (length cmd) = read_bytes (write_bytes mv cmd h) mv (length cmd)"
    using s2(5) box len(1) by (intro read_bytes_cong) (auto simp: write_bytes_other)
  then have c: "read_bytes (box (gmem s2)) mv (length cmd) = cmd" by simp
  have mv: "mailbox_virt (gdrv s2) = Some mv" using s2(3) by (simp add: gpu_ready_def)
  have "free_list (vq_heap (gmem s) q) (a # b # rest)" using r by (simp add: gpu_ready_def)
  from free_listD [OF this] have ab: "a < 64" "b < 64" "a \<noteq> b" "a \<notin> set rest" "b \<notin> set rest" by auto
  show ?thesis
  proof (cases "read_u32 (box (gmem s2)) (mv + 512) = 0x1100")
    case True
    from reclaim_ok [OF s2(3) rp ab] obtain s3 where "reclaim a b s2 = Some s3" "gpu_ready q mv (a # b # rest) s3"
      "gdrv s3 = gdrv s2" "request_posted q s s3 a b cl 24" "box (gmem s3) = box (gmem s2)" by blast
    with True s2 s1 c mv len(2) show ?thesis by (simp add: command_outcome_def open_nodata_def)
  next
    case False
    with s2 s1 c mv rp len(2) show ?thesis by (simp add: command_outcome_def open_nodata_def)
  qed
qed

lemma create_2d_canvas_ok:
  assumes "gpu_ready q mv (a # b # rest) s"
  shows "command_outcome q mv a b rest (create_bytes \<lparr>rc_header = with_ty CmdResourceCreate2d, rc_resource_id = i,
      rc_format = Bgrx, rc_width = w, rc_height = h\<rparr>) ''GPU failed to create 2D canvas.'' s (create_2d_canvas gd i w h s)"
proof -
  have "mailbox_virt (gdrv s) = Some mv" using assms by (simp add: gpu_ready_def)
  then show ?thesis unfolding create_2d_canvas_def HEADER_SIZE_def Let_def
    by (simp only: bind.bind_lunit) (rule command_ok [OF assms]; simp)
qed

lemma attach_backing_ok:
  assumes "gpu_ready q mv (a # b # rest) s"
  shows "command_outcome q mv a b rest (attach_bytes \<lparr>ab_header = with_ty CmdResourceAttachBacking, ab_resource_id = i,
      num_entries = 1\<rparr> @ entry_bytes \<lparr>me_address = p, me_length = l, me_padding = 0\<rparr>)
      ''GPU failed to attach backing memory.'' s (attach_backing gd i p l s)"
proof -
  have "mailbox_virt (gdrv s) = Some mv" using assms by (simp add: gpu_ready_def)
  then show ?thesis unfolding attach_backing_def HEADER_SIZE_def Let_def
    by (simp only: bind.bind_lunit) (rule command_ok [OF assms]; simp add: write_bytes_append [symmetric])
qed

lemma set_scanout_ok:
  assumes "gpu_ready q mv (a # b # rest) s"
  shows "command_outcome q mv a b rest (scanout_bytes \<lparr>ss_header = with_ty CmdSetScanout,
      ss_rect = \<lparr>gx = 0, gy = 0, gwidth = w, gheight = h\<rparr>, scanout_id = k, ss_resource_id = i\<rparr>)
      ''GPU failed to set scanout.'' s (set_scanout gd k i w h s)"
proof -
  have "mailbox_virt (gdrv s) = Some mv" using assms by (simp add: gpu_ready_def)
  then show ?thesis unfolding set_scanout_def HEADER_SIZE_def Let_def
    by (simp only: bind.bind_lunit) (rule command_ok [OF assms]; simp)
qed

end

subsection \<open>A device that answers with one code\<close>

locale gpu_device_code = gpu_device gd q mv
  for gd :: "'d GpuDevice" and q :: nat and mv :: nat +
  fixes code :: u32
  assumes tick_reply: "read_u32 (box (snd (gd_tick gd (d, m)))) (mv + 512) =
      (if used_idx q (snd (gd_tick gd (d, m))) = used_idx q m then read_u32 (box m) (mv + 512) else code)"
    and notify_reply: "read_u32 (box (snd (gd_notify gd a v (d, m)))) (mv + 512) =
      (if used_idx q (snd (gd_notify gd a v (d, m))) = used_idx q m then read_u32 (box m) (mv + 512) else code)"
begin

lemma ticks_reply:
  assumes "avail_idx q m = l + 1" "used_idx q m = l \<or> used_idx q m = l + 1 \<and> read_u32 (box m) (mv + 512) = code"
  shows "let m' = snd ((gd_tick gd ^^ n) (d, m)) in used_idx q m' = l \<or> used_idx q m' = l + 1 \<and> read_u32 (box m') (mv + 512) = code"
proof (induction n)
  case (Suc n)
  obtain d1 m1 where x: "(gd_tick gd ^^ n) (d, m) = (d1, m1)" by (rule prod.exhaust)
  obtain d2 m2 where y: "gd_tick gd (d1, m1) = (d2, m2)" by (rule prod.exhaust)
  have "avail_idx q m1 = l + 1" using driver_side_avail [OF ticks_frame [of m n d]] assms(1) x by simp
  with used_step [OF tick_used [of d1 m1]] tick_reply [of d1 m1] Suc x y show ?case by (auto simp: Let_def split: if_splits)
qed (use assms in simp)

lemma wait_reply:
  assumes "avail_idx q m = l + 1" "used_idx q m = l \<or> used_idx q m = l + 1 \<and> read_u32 (box m) (mv + 512) = code"
    and w: "wait_used gd q l (d, m) = Some (d', m')"
  shows "read_u32 (box (snd (gd_tick gd (d', m')))) (mv + 512) = code"
proof -
  from wait_answered [OF assms(1), of d] assms(2) w have u: "used_idx q m' = l + 1" "driver_side q mv m m'" by auto
  from wait_ticks [OF assms(1), of d] assms(2) w obtain n where n: "(d', m') = (gd_tick gd ^^ n) (d, m)" by auto
  with ticks_reply [OF assms(1,2), of n d] u have r: "read_u32 (box m') (mv + 512) = code" by (auto simp: Let_def dest: sym)
  have "avail_idx q m' = l + 1" using driver_side_avail [OF u(2)] assms(1) by simp
  with tick_used [of d' m'] u have "used_idx q (snd (gd_tick gd (d', m'))) = used_idx q m'" by simp
  with tick_reply [of d' m'] r show ?thesis by simp
qed

lemma doorbell_reply:
  "read_u32 (box (gmem (ring_doorbell gd s))) (mv + 512) =
    (if used_idx q (gmem (ring_doorbell gd s)) = used_idx q (gmem s) then read_u32 (box (gmem s)) (mv + 512) else code)"
  using notify_reply by (auto simp: ring_doorbell_def case_prod_beta split: option.split)

lemma exchange_reply:
  assumes r: "gpu_ready q mv (a # b # rest) s" and e: "exchange gd cl rl s = Some (s', a', b')"
  shows "read_u32 (box (gmem s')) (mv + 512) = code"
proof -
  let ?l = "avail_idx q (gmem s)"
  from exchange_ok [OF r, of cl rl] e obtain v d m where
    v: "us_idx (used v) = ?l" "av_idx (available v) = ?l + 1"
    and w: "wait_used gd q ?l (gdev (ring_doorbell gd (put_vq q v s)), gmem (ring_doorbell gd (put_vq q v s))) = Some (d, m)"
    and b: "box (gmem s') = box (snd (gd_tick gd (d, m)))" by (auto simp: Let_def)
  let ?s1 = "ring_doorbell gd (put_vq q v s)"
  have a1: "avail_idx q (gmem ?s1) = ?l + 1" using driver_side_avail [OF doorbell_frame(1) [of "put_vq q v s"]] v by simp
  have "used_idx q (gmem ?s1) = ?l \<or> used_idx q (gmem ?s1) = ?l + 1"
    using doorbell_frame(3) [of "put_vq q v s"] used_step [of "used_idx q (gmem ?s1)" ?l "?l + 1" ?l] v by simp
  then have "used_idx q (gmem ?s1) = ?l \<or> used_idx q (gmem ?s1) = ?l + 1 \<and> read_u32 (box (gmem ?s1)) (mv + 512) = code"
    using doorbell_reply [of "put_vq q v s"] v by auto
  from wait_reply [OF a1 this w] show ?thesis by (simp add: b)
qed

end

lemma reclaim_box: "reclaim a b s = Some s' \<Longrightarrow> box (gmem s') = box (gmem s)"
  by (auto simp: reclaim_def split: bind_splits)

context gpu_device_code
begin

lemma command_code:
  fixes s s1 :: "'d gpu_state"
  assumes r: "gpu_ready q mv (a # b # rest) s" and box: "box (gmem s1) = write_bytes (mv + 512) env (write_bytes mv cmd h)"
    and s1: "gdrv s1 = gdrv s" "vq_heap (gmem s1) = vq_heap (gmem s)" and len: "length cmd \<le> 512" "cl = length cmd"
  shows "\<exists>s'. (do { x \<leftarrow> exchange gd cl 24 s1; open_nodata err x }) = Some (if code = 0x1100 then Ok () else Err err, s') \<and>
    gpu_ready q mv (if code = 0x1100 then a # b # rest else rest) s' \<and> gdrv s' = gdrv s"
proof -
  from command_ok [OF assms, of err] obtain x s' where
    x: "(do { x \<leftarrow> exchange gd cl 24 s1; open_nodata err x }) = Some (x, s')" "gdrv s' = gdrv s"
      "if read_u32 (box (gmem s')) (mv + 512) = 0x1100 then x = Ok () \<and> gpu_ready q mv (a # b # rest) s'
       else x = Err err \<and> gpu_ready q mv rest s'"
    by (auto simp: command_outcome_def)
  from x(1) obtain s2 a' b' where e: "exchange gd cl 24 s1 = Some (s2, a', b')" "open_nodata err (s2, a', b') = Some (x, s')"
    by (auto split: bind_splits)
  have "gpu_ready q mv (a # b # rest) s1" using r s1 by (simp add: gpu_ready_def)
  from exchange_reply [OF this e(1)] have "read_u32 (box (gmem s2)) (mv + 512) = code" .
  moreover have "box (gmem s') = box (gmem s2)"
    using e(2) reclaim_box by (auto simp: open_nodata_def split: bind_splits if_splits)
  ultimately show ?thesis using x by (auto split: if_splits)
qed

lemma create_code:
  assumes "gpu_ready q mv (a # b # rest) s"
  shows "\<exists>s'. create_2d_canvas gd i w h s = Some (if code = 0x1100 then Ok () else Err ''GPU failed to create 2D canvas.'', s') \<and>
    gpu_ready q mv (if code = 0x1100 then a # b # rest else rest) s' \<and> gdrv s' = gdrv s"
proof -
  have "mailbox_virt (gdrv s) = Some mv" using assms by (simp add: gpu_ready_def)
  then show ?thesis unfolding create_2d_canvas_def HEADER_SIZE_def Let_def
    by (simp only: bind.bind_lunit) (rule command_code [OF assms, where env = "replicate 24 0" and h = "box (gmem s)" and
        cmd = "create_bytes \<lparr>rc_header = with_ty CmdResourceCreate2d, rc_resource_id = i, rc_format = Bgrx, rc_width = w,
          rc_height = h\<rparr>"]; simp)
qed

lemma attach_code:
  assumes "gpu_ready q mv (a # b # rest) s"
  shows "\<exists>s'. attach_backing gd i p l s = Some (if code = 0x1100 then Ok () else Err ''GPU failed to attach backing memory.'', s') \<and>
    gpu_ready q mv (if code = 0x1100 then a # b # rest else rest) s' \<and> gdrv s' = gdrv s"
proof -
  have "mailbox_virt (gdrv s) = Some mv" using assms by (simp add: gpu_ready_def)
  then show ?thesis unfolding attach_backing_def HEADER_SIZE_def Let_def
    by (simp only: bind.bind_lunit) (rule command_code [OF assms, where env = "replicate 24 0" and h = "box (gmem s)" and
        cmd = "attach_bytes \<lparr>ab_header = with_ty CmdResourceAttachBacking, ab_resource_id = i, num_entries = 1\<rparr> @
          entry_bytes \<lparr>me_address = p, me_length = l, me_padding = 0\<rparr>"]; simp add: write_bytes_append [symmetric])
qed

lemma scanout_code:
  assumes "gpu_ready q mv (a # b # rest) s"
  shows "\<exists>s'. set_scanout gd k i w h s = Some (if code = 0x1100 then Ok () else Err ''GPU failed to set scanout.'', s') \<and>
    gpu_ready q mv (if code = 0x1100 then a # b # rest else rest) s' \<and> gdrv s' = gdrv s"
proof -
  have "mailbox_virt (gdrv s) = Some mv" using assms by (simp add: gpu_ready_def)
  then show ?thesis unfolding set_scanout_def HEADER_SIZE_def Let_def
    by (simp only: bind.bind_lunit) (rule command_code [OF assms, where env = "replicate 24 0" and h = "box (gmem s)" and
        cmd = "scanout_bytes \<lparr>ss_header = with_ty CmdSetScanout, ss_rect = \<lparr>gx = 0, gy = 0, gwidth = w, gheight = h\<rparr>,
          scanout_id = k, ss_resource_id = i\<rparr>"]; simp)
qed

end

subsection \<open>A reference device\<close>

text \<open>It answers one command per step, always with the same code.\<close>

definition ref_gpu :: "u32 \<Rightarrow> nat \<Rightarrow> nat \<Rightarrow> unit GpuDevice" where
  "ref_gpu code q mv = \<lparr>gd_notify = \<lambda>a v x. x,
     gd_tick = \<lambda>(d, m). if used_idx q m = avail_idx q m then (d, m)
       else (d, \<lparr>vq_heap = (vq_heap m)(q := (vq_heap m q)\<lparr>used := (used (vq_heap m q))\<lparr>us_idx := used_idx q m + 1\<rparr>\<rparr>),
         box = write_bytes (mv + 512) (to_le_bytes32 code) (box m)\<rparr>)\<rparr>"

lemma ref_gpu_answers: "\<exists>n. used_idx q (snd ((gd_tick (ref_gpu code q mv) ^^ n) (d, m))) = avail_idx q m"
proof (induction "unat (avail_idx q m - used_idx q m)" arbitrary: m)
  case 0
  then have "avail_idx q m - used_idx q m = 0" by (metis unat_eq_zero)
  then show ?case by (intro exI [of _ 0]) simp
next
  case (Suc k)
  then have ne: "used_idx q m \<noteq> avail_idx q m" by auto
  let ?t = "gd_tick (ref_gpu code q mv)"
  obtain m' where t: "?t (d, m) = (d, m')" "used_idx q m' = used_idx q m + 1" "avail_idx q m' = avail_idx q m"
    using ne by (simp add: ref_gpu_def)
  have "avail_idx q m - used_idx q m \<noteq> 0" using ne by simp
  then have "unat (avail_idx q m - used_idx q m - 1) = unat (avail_idx q m - used_idx q m) - 1"
    by (simp add: unat_minus_one)
  then have "k = unat (avail_idx q m' - used_idx q m')" using Suc.hyps(2) t by (simp add: diff_diff_eq)
  from Suc.hyps(1) [OF this] obtain n where "used_idx q (snd ((?t ^^ n) (d, m'))) = avail_idx q m'" by blast
  with t show ?case by (intro exI [of _ "Suc n"]) (simp add: funpow_swap1)
qed

interpretation ref_gpu: gpu_device_code "ref_gpu code q mv" q mv code for code q mv
proof unfold_locales
  fix d m a v
  show "driver_side q mv m (snd (gd_tick (ref_gpu code q mv) (d, m)))"
    by (auto simp: ref_gpu_def driver_side_def write_bytes_other intro: exI [of _ "used (vq_heap m q)"])
  show "driver_side q mv m (snd (gd_notify (ref_gpu code q mv) a v (d, m)))" by (simp add: ref_gpu_def driver_side_refl)
  have "1 \<le> w" if "w \<noteq> 0" for w :: u16 using that by (simp add: word_le_nat_alt unat_gt_0 Suc_leI)
  then show "used_idx q (snd (gd_tick (ref_gpu code q mv) (d, m))) - used_idx q m \<le> avail_idx q m - used_idx q m"
    by (auto simp: ref_gpu_def)
  show "used_idx q (snd (gd_notify (ref_gpu code q mv) a v (d, m))) - used_idx q m \<le> avail_idx q m - used_idx q m"
    by (simp add: ref_gpu_def)
  show "\<exists>n. used_idx q (snd ((gd_tick (ref_gpu code q mv) ^^ n) (d, m))) = avail_idx q m" by (rule ref_gpu_answers)
  have "read_u32 (write_bytes p (to_le_bytes32 code) h) p = code" for p h
    using read_write_bytes [of p "to_le_bytes32 code" h] by (simp add: read_u32_def)
  then show "read_u32 (box (snd (gd_tick (ref_gpu code q mv) (d, m)))) (mv + 512) =
      (if used_idx q (snd (gd_tick (ref_gpu code q mv) (d, m))) = used_idx q m then read_u32 (box m) (mv + 512) else code)"
    by (auto simp: ref_gpu_def)
  show "read_u32 (box (snd (gd_notify (ref_gpu code q mv) a v (d, m)))) (mv + 512) =
      (if used_idx q (snd (gd_notify (ref_gpu code q mv) a v (d, m))) = used_idx q m then read_u32 (box m) (mv + 512) else code)"
    by (simp add: ref_gpu_def)
qed

definition demo_gpu :: "VirtQueue \<Rightarrow> unit gpu_state" where
  "demo_gpu vq = \<lparr>gdrv = \<lparr>gpu_mmio_base = 0, resource_id_counter = 1, control_queue_virt = Some 0x1000, notify_address = Some 0x9000,
     mailbox_phys = Some 0x5000, mailbox_virt = Some 0x5000\<rparr>, gmem = \<lparr>vq_heap = \<lambda>_. vq, box = \<lambda>_. 0\<rparr>, gdev = ()\<rparr>"

lemma demo_gpu_ready:
  obtains vq where "VirtQueue_new = Some vq" "gpu_ready 0x1000 0x5000 [0..<64] (demo_gpu vq)"
proof -
  obtain vq where v: "VirtQueue_new = Some vq" "free_list vq [0..<64]" "last_used_idx vq = 0" "us_idx (used vq) = 0"
    "av_idx (available vq) = 0" by (rule VirtQueue_new_free)
  then have "gpu_ready 0x1000 0x5000 [0..<64] (demo_gpu vq)" by (simp add: gpu_ready_def demo_gpu_def)
  with v(1) show ?thesis by (rule that)
qed

lemma upt64: "[0..<64] = 0 # 1 # [2..<64]" "[0..<64] = 0 # 1 # 2 # 3 # [4..<64]"
  by (simp_all add: upt_conv_Cons)

subsection \<open>Properties\<close>



text \<open>\<open>n\<close> commands in a row, as a client that retries would send them.\<close>

primrec create_times :: "'d GpuDevice \<Rightarrow> nat \<Rightarrow> 'd gpu_state \<Rightarrow> ((string, unit) result list \<times> 'd gpu_state) option" where
  "create_times gd 0 s = Some ([], s)"
| "create_times gd (Suc n) s = do {
     (r, s') \<leftarrow> create_2d_canvas gd 1 1920 1080 s; (rs, t) \<leftarrow> create_times gd n s'; Some (r # rs, t) }"

lemma create_times_fail:
  assumes "gpu_device_code gd q mv code" "code \<noteq> 0x1100" "gpu_ready q mv xs s" "2 * n \<le> length xs"
  shows "\<exists>s'. create_times gd n s = Some (replicate n (Err ''GPU failed to create 2D canvas.''), s') \<and>
    gpu_ready q mv (drop (2 * n) xs) s'"
  using assms(3,4)
proof (induction n arbitrary: xs s)
  case (Suc n)
  then obtain a b rest where xs: "xs = a # b # rest" by (cases xs; cases "tl xs") auto
  from gpu_device_code.create_code [OF assms(1) Suc.prems(1) [unfolded xs], of 1 1920 1080] assms(2) obtain s1 where
    "create_2d_canvas gd 1 1920 1080 s = Some (Err ''GPU failed to create 2D canvas.'', s1)" "gpu_ready q mv rest s1"
    by auto
  with Suc.IH [of rest s1] Suc.prems(2) show ?case by (auto simp: xs)
qed simp

text \<open>The error path leaks: against a device that refuses the command every attempt takes two
  descriptors for good, and after 32 attempts on a new queue no descriptor is left.\<close>

theorem gpu_errors_drain_queue:
  assumes "gpu_device_code gd q mv code" "code \<noteq> 0x1100" "gpu_ready q mv [0..<64] s" "n \<le> 32"
  shows "\<exists>s'. create_times gd n s = Some (replicate n (Err ''GPU failed to create 2D canvas.''), s') \<and>
    gpu_ready q mv [2 * n..<64] s' \<and> unat (num_free (vq_heap (gmem s') q)) = 64 - 2 * n"
proof -
  from create_times_fail [OF assms(1-3), of n] assms(4) obtain s' where
    "create_times gd n s = Some (replicate n (Err ''GPU failed to create 2D canvas.''), s')" "gpu_ready q mv [2 * n..<64] s'"
    by (auto simp: drop_upt)
  then show ?thesis by (auto simp: gpu_ready_def dest: free_listD(6))
qed

theorem gpu_errors_drain_queue_witness:
  "\<exists>vq s'. VirtQueue_new = Some vq \<and> create_times (ref_gpu 0x1200 0x1000 0x5000) 32 (demo_gpu vq) =
      Some (replicate 32 (Err ''GPU failed to create 2D canvas.''), s') \<and> unat (num_free (vq_heap (gmem s') 0x1000)) = 0"
proof -
  obtain vq where v: "VirtQueue_new = Some vq" "gpu_ready 0x1000 0x5000 [0..<64] (demo_gpu vq)" by (rule demo_gpu_ready)
  from gpu_errors_drain_queue [OF ref_gpu.gpu_device_code_axioms [of "0x1200" "0x1000" "0x5000"] _ v(2), of 32] v(1)
  show ?thesis by auto
qed

subsection \<open>The flush\<close>

definition flush_posted :: "u64 \<Rightarrow> VirtQueue \<Rightarrow> nat \<Rightarrow> nat \<Rightarrow> nat \<Rightarrow> nat \<Rightarrow> bool" where
  "flush_posted mp vq a b c d \<longleftrightarrow>
     descriptors vq ! a = \<lparr>vd_addr = mp, vd_len = 56, vd_flags = 1, vd_next = of_nat b\<rparr> \<and>
     vd_addr (descriptors vq ! b) = mp + 512 \<and> vd_len (descriptors vq ! b) = 24 \<and> vd_flags (descriptors vq ! b) = 2 \<and>
     descriptors vq ! c = \<lparr>vd_addr = mp + 56, vd_len = 48, vd_flags = 1, vd_next = of_nat d\<rparr> \<and>
     vd_addr (descriptors vq ! d) = mp + 528 \<and> vd_len (descriptors vq ! d) = 24 \<and> vd_flags (descriptors vq ! d) = 2"

lemma of_nat_next: "unat (n :: u16) = i \<Longrightarrow> n = of_nat i"
  by auto

lemma load_flush_ok:
  assumes f: "free_list vq (a # b # c # d # rest)"
  shows "\<exists>vq'. load_flush mp vq = Some (vq', a, b, c, d) \<and> free_list vq' rest \<and> flush_posted mp vq' a b c d \<and>
    available vq' = available vq"
proof -
  note fd = free_listD [OF f]
  let ?ds = "descriptors vq"
  have i: "a < 64" "b < 64" "c < 64" "d < 64" "unat (free_head vq) = a" "unat (vd_next (?ds ! a)) = b"
    "unat (vd_next (?ds ! b)) = c" "unat (vd_next (?ds ! c)) = d" "chain ?ds (vd_next (?ds ! d)) rest" "distinct rest"
    and ne: "a \<noteq> b" "a \<noteq> c" "a \<noteq> d" "b \<noteq> c" "b \<noteq> d" "c \<noteq> d" "a \<notin> set rest" "b \<notin> set rest" "c \<notin> set rest" "d \<notin> set rest"
    using fd by auto
  note nx = of_nat_next [OF i(6)] of_nat_next [OF i(8)]
  define ds where "ds = ?ds[a := (?ds ! a)\<lparr>vd_addr := mp, vd_len := 56, vd_flags := 1\<rparr>,
    b := (?ds ! b)\<lparr>vd_addr := mp + 512, vd_len := 24, vd_flags := 2\<rparr>,
    c := (?ds ! c)\<lparr>vd_addr := mp + 56, vd_len := 48, vd_flags := 1\<rparr>,
    d := (?ds ! d)\<lparr>vd_addr := mp + 528, vd_len := 24, vd_flags := 2\<rparr>]"
  define vq' where "vq' = vq\<lparr>descriptors := ds, free_head := vd_next (?ds ! d), num_free := num_free vq - 4\<rparr>"
  have "load_flush mp vq = Some (vq', a, b, c, d)"
    using i ne ne(1-6) [symmetric] fd(1)
    by (simp add: load_flush_def array_simps vq'_def ds_def VIRTQ_DESC_F_NEXT_def VIRTQ_DESC_F_WRITE_def HEADER_SIZE_def)
  moreover have "4 \<le> num_free vq" using fd(6) by (simp add: word_le_nat_alt)
  then have "unat (num_free vq - 4) = length rest" using fd(6) by (simp add: unat_sub)
  then have "free_list vq' rest"
    using i ne fd(1,2) by (simp add: free_list_def vq_shape_def vq'_def ds_def chain_update)
  moreover have "ds ! a = (?ds ! a)\<lparr>vd_addr := mp, vd_len := 56, vd_flags := 1\<rparr>"
    "ds ! b = (?ds ! b)\<lparr>vd_addr := mp + 512, vd_len := 24, vd_flags := 2\<rparr>"
    "ds ! c = (?ds ! c)\<lparr>vd_addr := mp + 56, vd_len := 48, vd_flags := 1\<rparr>"
    "ds ! d = (?ds ! d)\<lparr>vd_addr := mp + 528, vd_len := 24, vd_flags := 2\<rparr>"
    using i ne fd(1) by (simp_all add: ds_def)
  then have "flush_posted mp vq' a b c d"
    using nx by (simp add: flush_posted_def vq'_def)
  moreover have "available vq' = available vq" by (simp add: vq'_def)
  ultimately show ?thesis by blast
qed

lemma publish2_ok:
  assumes "vq_shape vq"
  shows "publish2 i j vq = Some (vq\<lparr>available := (available vq)\<lparr>
    av_ring := (av_ring (available vq))[unat (av_idx (available vq)) mod 64 := of_nat i,
      (unat (av_idx (available vq)) + 1) mod 64 := of_nat j], av_idx := av_idx (available vq) + 2\<rparr>\<rparr>)"
  using assms by (simp add: publish2_def vq_shape_def array_simps Let_def)

lemma reclaim_flush_ok:
  assumes f: "free_list vq rest" and p: "flush_posted mp vq a b c d"
    and i: "a < 64" "b < 64" "c < 64" "d < 64" and ne: "distinct (a # b # c # d # rest)"
  shows "\<exists>vq'. reclaim_flush a b c d vq = Some vq' \<and> free_list vq' (c # d # a # b # rest) \<and> flush_posted mp vq' a b c d \<and>
    available vq' = available vq"
proof -
  note fd = free_listD [OF f]
  let ?ds = "descriptors vq"
  define ds where "ds = ?ds[b := (?ds ! b)\<lparr>vd_next := free_head vq\<rparr>, d := (?ds ! d)\<lparr>vd_next := of_nat a\<rparr>]"
  define vq' where "vq' = vq\<lparr>descriptors := ds, free_head := of_nat c, num_free := num_free vq + 4\<rparr>"
  have r: "reclaim_flush a b c d vq = Some vq'"
    using i ne fd(1) by (simp add: reclaim_flush_def array_simps vq'_def ds_def)
  have "set (a # b # c # d # rest) \<subseteq> {..<64}" using i fd(4) by auto
  then have "length (a # b # c # d # rest) \<le> 64" using ne by (metis card_lessThan card_mono distinct_card finite_lessThan)
  then have n: "unat (num_free vq + 4) = length rest + 4" using fd(6) by (simp add: unat_word_ariths)
  have nth: "ds ! a = ?ds ! a" "ds ! b = (?ds ! b)\<lparr>vd_next := free_head vq\<rparr>" "ds ! c = ?ds ! c"
    "ds ! d = (?ds ! d)\<lparr>vd_next := of_nat a\<rparr>"
    using i ne fd(1) by (auto simp: ds_def)
  have "chain ds (free_head vq) rest" using fd(5) ne by (simp add: ds_def chain_update)
  moreover have "length ds = 64" using fd(1) by (simp add: ds_def)
  ultimately have "chain ds (of_nat c) (c # d # a # b # rest)"
    using i p by (simp add: nth flush_posted_def)
  then have "free_list vq' (c # d # a # b # rest)"
    using n ne fd(1,2) by (auto simp: free_list_def vq_shape_def vq'_def ds_def)
  moreover have "flush_posted mp vq' a b c d" using p by (simp add: flush_posted_def vq'_def nth)
  ultimately show ?thesis using r by (simp add: vq'_def)
qed

definition screen_commands :: "u32 \<Rightarrow> u32 \<Rightarrow> u32 \<Rightarrow> bytes" where
  "screen_commands i w h =
     transfer_bytes \<lparr>tt_header = with_ty CmdTransferToHost2d, tt_rect = \<lparr>gx = 0, gy = 0, gwidth = w, gheight = h\<rparr>,
       tt_offset = 0, tt_resource_id = i, tt_padding = 0\<rparr> @
     flush_bytes \<lparr>rf_header = with_ty CmdResourceFlush, rf_rect = \<lparr>gx = 0, gy = 0, gwidth = w, gheight = h\<rparr>,
       rf_resource_id = i, rf_padding = 0\<rparr>"

context gpu_device
begin

lemma flush_ok:
  assumes g: "control_queue_virt (gdrv s) = Some q" "mailbox_virt (gdrv s) = Some mv" "mailbox_phys (gdrv s) = Some mp"
    and f: "free_list (vq_heap (gmem s) q) (a # b # c # d # rest)"
  shows "\<exists>s'. flush_to_screen gd i w h s = Some s' \<and> gdrv s' = gdrv s \<and>
      free_list (vq_heap (gmem s') q) (c # d # a # b # rest) \<and> flush_posted mp (vq_heap (gmem s') q) a b c d \<and>
      available (vq_heap (gmem s') q) = (let av = available (vq_heap (gmem s) q); n = unat (av_idx av) in
        av\<lparr>av_ring := (av_ring av)[n mod 64 := of_nat a, (n + 1) mod 64 := of_nat c], av_idx := av_idx av + 2\<rparr>) \<and>
      read_bytes (box (gmem s')) mv 104 = screen_commands i w h"
proof -
  let ?v = "vq_heap (gmem s) q" and ?cmds = "screen_commands i w h"
  note fd = free_listD [OF f]
  have n4: "\<not> num_free ?v < 4" using fd(6) by (simp add: word_less_nat_alt)
  define s1 where "s1 = s\<lparr>gmem := (gmem s)\<lparr>box := write_bytes mv ?cmds (box (gmem s))\<rparr>\<rparr>"
  have s1: "put_bytes (mv + 56) (drop 56 ?cmds) (put_bytes mv (take 56 ?cmds) s) = s1"
    using write_bytes_append [of mv "take 56 ?cmds" "drop 56 ?cmds" "box (gmem s)"]
    by (simp add: put_bytes_def s1_def screen_commands_def)
  have s1q: "vq_heap (gmem s1) = vq_heap (gmem s)" by (simp add: s1_def)
  from load_flush_ok [OF f, of mp] obtain v1 where v1: "load_flush mp ?v = Some (v1, a, b, c, d)" "free_list v1 rest"
    "flush_posted mp v1 a b c d" "available v1 = available ?v" by blast
  define v2 where "v2 = v1\<lparr>available := (let av = available ?v; n = unat (av_idx av) in
    av\<lparr>av_ring := (av_ring av)[n mod 64 := of_nat a, (n + 1) mod 64 := of_nat c], av_idx := av_idx av + 2\<rparr>)\<rparr>"
  have v2: "publish2 a c v1 = Some v2"
    using publish2_ok [of v1 a c] v1(2,4) by (simp add: free_list_def v2_def Let_def)
  define s2 where "s2 = ring_doorbell gd (put_vq q v2 s1)"
  have s2: "gdrv s2 = gdrv s" "driver_side q mv (gmem (put_vq q v2 s1)) (gmem s2)"
    using doorbell_frame(1,2) [of "put_vq q v2 s1"] by (simp_all add: s2_def s1_def)
  then obtain u where u: "vq_heap (gmem s2) q = v2\<lparr>used := u\<rparr>" by (auto simp: driver_side_def)
  have "free_list (vq_heap (gmem s2) q) rest" using v1(2,4) by (simp add: u v2_def free_list_def vq_shape_def Let_def)
  moreover have "flush_posted mp (vq_heap (gmem s2) q) a b c d" using v1(3) by (simp add: u v2_def flush_posted_def)
  moreover have "a < 64" "b < 64" "c < 64" "d < 64" using fd(4) by auto
  ultimately have "\<exists>v. reclaim_flush a b c d (vq_heap (gmem s2) q) = Some v \<and> free_list v (c # d # a # b # rest) \<and>
      flush_posted mp v a b c d \<and> available v = available (vq_heap (gmem s2) q)"
    by (rule reclaim_flush_ok [OF _ _ _ _ _ _ fd(3)])
  then obtain v3 where v3: "reclaim_flush a b c d (vq_heap (gmem s2) q) = Some v3" "free_list v3 (c # d # a # b # rest)"
    "flush_posted mp v3 a b c d" "available v3 = available (vq_heap (gmem s2) q)"
    by blast
  have "flush_to_screen gd i w h s = Some (put_vq q v3 s2)"
    using n4 s1 s1q v1(1) v2 v3(1) by (simp add: flush_to_screen_def g Let_def screen_commands_def s2_def [symmetric])
  moreover have "read_bytes (box (gmem s2)) mv 104 = read_bytes (write_bytes mv ?cmds (box (gmem s))) mv 104"
    using s2(2) by (intro read_bytes_cong) (auto simp: driver_side_def s1_def)
  moreover have "length ?cmds = 104" by (simp add: screen_commands_def)
  then have "read_bytes (write_bytes mv ?cmds (box (gmem s))) mv 104 = ?cmds" by (metis read_write_bytes)
  ultimately show ?thesis using s2(1) v3 by (intro exI [of _ "put_vq q v3 s2"]) (simp add: u v2_def)
qed

end

text \<open>C32. \<open>flush_to_screen\<close> never blocks and never panics. With four free descriptors it hands the device, at two
  consecutive slots of the available ring, the transfer and the flush command for the whole screen, and
  afterwards exactly the same descriptors are free (in another order); with fewer it changes nothing. While
  the device reads them the four descriptors are already back on the free list.\<close>

theorem flush_posts_frame:
  assumes "gpu_device gd q mv" "control_queue_virt (gdrv s) = Some q" "mailbox_virt (gdrv s) = Some mv"
    "mailbox_phys (gdrv s) = Some mp" "free_list (vq_heap (gmem s) q) xs"
  shows "if length xs < 4 then flush_to_screen gd i w h s = Some s
    else \<exists>a b c d rest s'. xs = a # b # c # d # rest \<and> flush_to_screen gd i w h s = Some s' \<and> gdrv s' = gdrv s \<and>
      free_list (vq_heap (gmem s') q) (c # d # a # b # rest) \<and> flush_posted mp (vq_heap (gmem s') q) a b c d \<and>
      available (vq_heap (gmem s') q) = (let av = available (vq_heap (gmem s) q); n = unat (av_idx av) in
        av\<lparr>av_ring := (av_ring av)[n mod 64 := of_nat a, (n + 1) mod 64 := of_nat c], av_idx := av_idx av + 2\<rparr>) \<and>
      read_bytes (box (gmem s')) mv 104 = screen_commands i w h"
proof (cases "length xs < 4")
  case True
  then have "num_free (vq_heap (gmem s) q) < 4" using free_listD(6) [OF assms(5)] by (simp add: word_less_nat_alt)
  with True assms show ?thesis by (simp add: flush_to_screen_def)
next
  case False
  then obtain a b c d rest where xs: "xs = a # b # c # d # rest"
    by (cases xs; cases "tl xs"; cases "tl (tl xs)"; cases "tl (tl (tl xs))") auto
  from gpu_device.flush_ok [OF assms(1-4) assms(5) [unfolded xs], of i w h] xs False show ?thesis by auto
qed

theorem flush_posts_frame_witness:
  "\<exists>vq s'. VirtQueue_new = Some vq \<and> flush_to_screen (ref_gpu 0x1100 0x1000 0x5000) 1 1920 1080 (demo_gpu vq) = Some s' \<and>
    free_list (vq_heap (gmem s') 0x1000) (2 # 3 # 0 # 1 # [4..<64]) \<and> av_idx (available (vq_heap (gmem s') 0x1000)) = 2"
proof -
  obtain vq where v: "VirtQueue_new = Some vq" "free_list vq [0..<64]" "av_idx (available vq) = 0" by (rule VirtQueue_new_free)
  from v have f: "free_list (vq_heap (gmem (demo_gpu vq)) 0x1000) (0 # 1 # 2 # 3 # [4..<64])"
    unfolding upt64(2) by (simp add: demo_gpu_def)
  from flush_posts_frame [OF ref_gpu.gpu_device_axioms [of "0x1100" "0x1000" "0x5000"] _ _ _ f, of "0x5000" 1 1920 1080] v
  show ?thesis by (auto simp: demo_gpu_def Let_def)
qed

end
