(* ===== verification/Desktop_Tasks.thy ===== *)
theory Desktop_Tasks
  imports Desktop Virtio_Gpu_Props
begin

text \<open>
  The tasks of \<^verbatim>\<open>kernel/src/main.rs\<close> that drive the desktop: the compositor task, which decodes the three-byte packets of
  the PS/2 mouse, and the physics task, which draws a frame while something moves. Between two suspension points a
  task runs alone, so a run of the desktop is a sequence of their steps and of log messages, in any order.
\<close>

subsection \<open>The mouse task\<close>

record MouseTask =
  was_left_click :: bool
  packet :: "u8 list"
  byte_idx :: nat

definition MouseTask_init :: MouseTask where
  "MouseTask_init = \<lparr>was_left_click = False, packet = [0, 0, 0], byte_idx = 0\<rparr>"

text \<open>\<open>Ord::clamp\<close> panics when the bounds are out of order.\<close>

definition iclamp :: "i32 \<Rightarrow> i32 \<Rightarrow> i32 \<Rightarrow> i32 option" where
  "iclamp x lo hi = (if hi <s lo then None else Some (if x <s lo then lo else if hi <s x then hi else x))"

definition movement :: "u8 \<Rightarrow> bool \<Rightarrow> i32" where
  "movement b negative = (if negative then ucast b OR NOT 0xFF else ucast b)"

definition move_cursor :: "i32 \<Rightarrow> i32 \<Rightarrow> bool \<Rightarrow> UI \<Rightarrow> UI option" where
  "move_cursor x_mov y_mov click ui = do {
     cx \<leftarrow> iclamp (cursor_x ui + x_mov) 0 (screen_width ui - 6);
     cy \<leftarrow> iclamp (cursor_y ui - y_mov) 0 (screen_height ui - 6);
     Some (ui\<lparr>cursor_x := cx, cursor_y := cy, left_click := click\<rparr>) }"

text \<open>A complete packet. \<open>has_data\<close> is the answer of the function of that name: the frame is skipped when further bytes wait.\<close>

definition mouse_packet :: "font \<Rightarrow> 'd GpuDevice \<Rightarrow> nat \<Rightarrow> bool \<Rightarrow> bool \<Rightarrow> MouseTask \<Rightarrow> 'd desk \<Rightarrow> (MouseTask \<times> 'd desk) option" where
  "mouse_packet font gd virtio_backing has_virtio has_data task = (\<lambda>(ui, display, s).
     let flags = packet task ! 0;
         x_mov = movement (packet task ! 1) (flags AND 0x10 \<noteq> 0);
         y_mov = movement (packet task ! 2) (flags AND 0x20 \<noteq> 0);
         click = (flags AND 0x01 \<noteq> 0)
     in if x_mov \<noteq> 0 \<or> y_mov \<noteq> 0 \<or> click \<noteq> was_left_click task
        then do {
          ui \<leftarrow> move_cursor x_mov y_mov click ui;
          desk \<leftarrow> (if has_data then Some (ui, display, s) else redraw font gd virtio_backing has_virtio (ui, display, s));
          Some (task\<lparr>was_left_click := click\<rparr>, desk) }
        else Some (task, ui, display, s))"

definition mouse_byte :: "font \<Rightarrow> 'd GpuDevice \<Rightarrow> nat \<Rightarrow> bool \<Rightarrow> u8 \<Rightarrow> bool \<Rightarrow> MouseTask \<Rightarrow> 'd desk \<Rightarrow> (MouseTask \<times> 'd desk) option" where
  "mouse_byte font gd virtio_backing has_virtio byte has_data task desk =
     (if byte_idx task = 0
      then Some (if byte AND 0x08 \<noteq> 0 then task\<lparr>packet := (packet task)[0 := byte], byte_idx := byte_idx task + 1\<rparr> else task, desk)
      else if byte_idx task = 1
      then Some (task\<lparr>packet := (packet task)[1 := byte], byte_idx := byte_idx task + 1\<rparr>, desk)
      else if byte_idx task = 2
      then mouse_packet font gd virtio_backing has_virtio has_data (task\<lparr>packet := (packet task)[2 := byte], byte_idx := 0\<rparr>) desk
      else Some (task, desk))"

subsection \<open>The physics task\<close>

definition physics_active :: "SplatEngine \<Rightarrow> bool" where
  "physics_active engine \<longleftrightarrow> (\<exists>win \<in> set (windows engine). base_z win \<noteq> target_z win \<or>
     (case wstate win of Transitioning _ \<Rightarrow> True | Stable _ \<Rightarrow> False))"

text \<open>One round of the loop of \<open>physics_tick_task\<close>, up to its yield.\<close>

definition physics_round :: "font \<Rightarrow> 'd GpuDevice \<Rightarrow> nat \<Rightarrow> bool \<Rightarrow> 'd desk \<Rightarrow> 'd desk option" where
  "physics_round font gd virtio_backing has_virtio = (\<lambda>(ui, display, s).
     case display of
       Some (engine, gpu) \<Rightarrow> if physics_active engine then redraw font gd virtio_backing has_virtio (ui, display, s)
         else Some (ui, display, s)
     | None \<Rightarrow> Some (ui, display, s))"

subsection \<open>Runs of the desktop\<close>

datatype desk_event =
    MouseByte u8 bool
  | PhysicsRound
  | Print "bytes list"

fun desk_step :: "font \<Rightarrow> 'd GpuDevice \<Rightarrow> nat \<Rightarrow> bool \<Rightarrow> desk_event \<Rightarrow> MouseTask \<times> 'd desk \<Rightarrow> (MouseTask \<times> 'd desk) option" where
  "desk_step font gd vb hv (MouseByte byte has_data) (task, desk) = mouse_byte font gd vb hv byte has_data task desk"
| "desk_step font gd vb hv PhysicsRound (task, desk) = do { desk \<leftarrow> physics_round font gd vb hv desk; Some (task, desk) }"
| "desk_step font gd vb hv (Print pieces) (task, desk) = do { desk \<leftarrow> screen_print font gd vb hv pieces desk; Some (task, desk) }"

subsection \<open>Posting a frame\<close>

text \<open>The driver of the GPU is set up and its free descriptors form a list.\<close>

definition gpu_posting :: "nat \<Rightarrow> nat \<Rightarrow> 'd gpu_state \<Rightarrow> bool" where
  "gpu_posting q mv s \<longleftrightarrow> control_queue_virt (gdrv s) = Some q \<and> mailbox_virt (gdrv s) = Some mv \<and>
     (\<exists>mp. mailbox_phys (gdrv s) = Some mp) \<and> (\<exists>xs. free_list (vq_heap (gmem s) q) xs)"

lemma gpu_posting_put_bytes [simp]: "gpu_posting q mv (put_bytes p bs s) \<longleftrightarrow> gpu_posting q mv s"
  by (simp add: gpu_posting_def put_bytes_def)

context gpu_device
begin

lemma flush_posting:
  assumes "gpu_posting q mv s"
  shows "\<exists>s'. flush_to_screen gd i w h s = Some s' \<and> gpu_posting q mv s'"
proof -
  from assms obtain mp xs where s: "control_queue_virt (gdrv s) = Some q" "mailbox_virt (gdrv s) = Some mv"
    "mailbox_phys (gdrv s) = Some mp" and f: "free_list (vq_heap (gmem s) q) xs" by (auto simp: gpu_posting_def)
  show ?thesis
  proof (cases "length xs < 4")
    case True
    then have "num_free (vq_heap (gmem s) q) < 4" using free_listD(6) [OF f] by (simp add: word_less_nat_alt)
    with assms s show ?thesis by (simp add: flush_to_screen_def)
  next
    case False
    then obtain a b c d rest where xs: "xs = a # b # c # d # rest"
      by (cases xs; cases "tl xs"; cases "tl (tl xs)"; cases "tl (tl (tl xs))") auto
    from flush_ok [OF s f [unfolded xs], of i w h] s show ?thesis by (auto simp: gpu_posting_def)
  qed
qed

lemma swap_posting:
  assumes "gpu_posting q mv s"
  shows "\<exists>s'. swap_buffers gd virtio_backing has_virtio g s = Some s' \<and> gpu_posting q mv s'"
  using assms flush_posting [of "put_bytes virtio_backing (back_buffer g) s"] by (simp add: swap_buffers_def Let_def)

end

subsection \<open>The log\<close>

text \<open>The logs of all windows are ASCII, which is what makes cutting them at byte 500 safe.\<close>

definition ascii :: "bytes \<Rightarrow> bool" where
  "ascii s \<longleftrightarrow> (\<forall>b \<in> set s. b < 0x80)"

definition log_ok :: "SplatEngine \<Rightarrow> bool" where
  "log_ok engine \<longleftrightarrow> (\<forall>w \<in> set (windows engine). ascii (text_buffer w))"

lemma ascii_append [simp]: "ascii (s @ t) \<longleftrightarrow> ascii s \<and> ascii t"
  by (auto simp: ascii_def)

lemma spawn_ascii: "ascii (text_buffer (spawn i x y w h))"
proof -
  have "b < 0x80" if "b \<in> set (dec_u64 (ucast i))" for b
    using dec_u64_bytes [OF that] by (simp add: word_less_nat_alt word_le_nat_alt)
  then show ?thesis by (auto simp: spawn_def spawn_text_def Let_def ascii_def)
qed

lemma handle_mouse_log:
  assumes "handle_mouse ui engine = Some (ui', engine')" "log_ok engine"
  shows "log_ok engine'"
proof -
  have click: "text_buffer w' = text_buffer w" if "click_window ui ls w = Some (Some (w', ui'))" for ls w w' ui'
    using that by (auto simp: click_window_def trigger_close_def trigger_restore_def trigger_maximize_def transition_to_def Let_def
        split: WindowState.splits if_splits bind_splits)
  have scan: "\<exists>w \<in> snd ` set ws. text_buffer w' = text_buffer w" if "click_scan ui ls ws = Some (Some (i, w', ui'))" for ls ws i w' ui'
    using that by (induction ws) (auto split: bind_splits option.splits dest!: click)
  have hit: "ascii (text_buffer w')" if "click_scan ui ls (rev (enumerate 0 (windows engine))) = Some (Some (i, w', ui'))" for ls i w' ui'
    using scan [OF that] assms(2) by (auto simp: log_ok_def in_set_enumerate_eq)
  have "set (focus i w' (windows engine)) \<subseteq> insert w' (set (windows engine))" for i w'
    by (auto simp: focus_def dest: in_set_takeD in_set_dropD)
  then have "\<forall>w \<in> set (focus i w' (windows engine)). ascii (text_buffer w)"
    if "click_scan ui ls (rev (enumerate 0 (windows engine))) = Some (Some (i, w', ui'))" for ls i w' ui'
    using hit [OF that] assms(2) unfolding log_ok_def by blast
  then show ?thesis using assms spawn_ascii
    by (auto simp: handle_mouse_def log_ok_def launch_def split: if_splits bind_splits option.splits)
qed

lemma parallax_log: "\<forall>w \<in> set ws. ascii (text_buffer w) \<Longrightarrow> \<forall>w \<in> set (parallax ws). ascii (text_buffer w)"
  by (auto simp: parallax_def in_set_enumerate_eq)

lemma drag_log: "\<forall>w \<in> set ws. ascii (text_buffer w) \<Longrightarrow> \<forall>w \<in> set (drag ui ws). ascii (text_buffer w)"
  by (auto simp: drag_def Let_def dest: in_set_butlastD last_in_set)

lemma tick_log:
  assumes "\<forall>w \<in> set (windows engine). win_ok w" "log_ok engine" "tick_physics engine = Some (engine', redrew)"
  shows "log_ok engine'"
proof -
  have "text_buffer (stepped w) = text_buffer w" if "win_ok w" for w
    using stepped_step(3) [OF that] by (simp add: window_goal_def)
  with assms tick_physics_eq [OF assms(1)] show ?thesis by (auto simp: log_ok_def)
qed

lemma write_str_ok:
  assumes e: "engine_ok engine" "log_ok engine" and s: "ascii s"
  shows "\<exists>engine'. write_str s engine = Some engine' \<and> engine_ok engine' \<and> log_ok engine' \<and> launchers engine' = launchers engine"
proof (cases "windows engine = []")
  case True
  with e show ?thesis by (simp add: write_str_def)
next
  case False
  then obtain ws w where ws: "windows engine = ws @ [w]" by (metis append_butlast_last_id)
  have asc: "ascii (text_buffer w @ s)" using e(2) s by (simp add: log_ok_def ws)
  have "\<exists>t. trim_log (text_buffer w @ s) = Some t \<and> ascii t"
  proof (cases "2000 < length (text_buffer w @ s)")
    case True
    then have "(text_buffer w @ s) ! 500 \<in> set (text_buffer w @ s)" by (intro nth_mem) simp
    with asc have "(text_buffer w @ s) ! 500 < 0x80" unfolding ascii_def by blast
    then have "is_char_boundary 500 (text_buffer w @ s)" using True by (simp add: is_char_boundary_def utf8_cont_def not_le)
    moreover have "ascii (drop 500 (text_buffer w @ s))" using asc unfolding ascii_def by (meson in_set_dropD)
    ultimately show ?thesis using True by (simp add: trim_log_def)
  qed (use asc in \<open>simp add: trim_log_def\<close>)
  then obtain t where "trim_log (text_buffer w @ s) = Some t" "ascii t" by blast
  with e show ?thesis by (simp add: write_str_def ws Let_def engine_ok_def log_ok_def win_ok_def)
qed

subsection \<open>The invariant of the desktop tasks\<close>

text \<open>The cursor is on the screen, the six pixels of its margin included.\<close>

definition cursor_ok :: "UI \<Rightarrow> bool" where
  "cursor_ok ui \<longleftrightarrow> 6 \<le> sint (screen_width ui) \<and> 6 \<le> sint (screen_height ui) \<and>
     0 \<le> sint (cursor_x ui) \<and> sint (cursor_x ui) \<le> sint (screen_width ui) - 6 \<and>
     0 \<le> sint (cursor_y ui) \<and> sint (cursor_y ui) \<le> sint (screen_height ui) - 6"

definition mouse_task_ok :: "MouseTask \<Rightarrow> bool" where
  "mouse_task_ok task \<longleftrightarrow> length (packet task) = 3 \<and> byte_idx task < 3"

fun desk_ok :: "nat \<Rightarrow> nat \<Rightarrow> MouseTask \<times> 'd desk \<Rightarrow> bool" where
  "desk_ok q mv (task, ui, display, s) \<longleftrightarrow> mouse_task_ok task \<and> cursor_ok ui \<and> gpu_posting q mv s \<and>
     (case display of None \<Rightarrow> True | Some (engine, gpu) \<Rightarrow> engine_ok engine \<and> log_ok engine \<and> screen_ok gpu)"

lemma iclamp_ok:
  assumes "6 \<le> sint extent"
  shows "\<exists>y. iclamp x 0 (extent - 6) = Some y \<and> 0 \<le> sint y \<and> sint y \<le> sint extent - 6"
proof -
  have "sint (extent - 6) = sint extent - 6" using assms sint_range(2) [of extent] sint_sub [of extent 6] by simp
  with assms show ?thesis by (auto simp: iclamp_def word_sless_alt)
qed

lemma move_cursor_ok:
  assumes "cursor_ok ui"
  shows "\<exists>ui'. move_cursor x y click ui = Some ui' \<and> cursor_ok ui'"
proof -
  from assms have w: "6 \<le> sint (screen_width ui)" and h: "6 \<le> sint (screen_height ui)" by (simp_all add: cursor_ok_def)
  from iclamp_ok [OF w, of "cursor_x ui + x"] iclamp_ok [OF h, of "cursor_y ui - y"] w h show ?thesis
    by (auto simp: move_cursor_def cursor_ok_def)
qed

lemma handle_mouse_cursor: "handle_mouse ui engine = Some (ui', engine') \<Longrightarrow> cursor_ok ui \<Longrightarrow> cursor_ok ui'"
proof -
  have click: "cursor_ok ui' = cursor_ok ui" if "click_window ui ls w = Some (Some (w', ui'))" for ls w w' ui'
    using that by (auto simp: click_window_def cursor_ok_def Let_def split: WindowState.splits if_splits bind_splits)
  have "cursor_ok ui' = cursor_ok ui" if "click_scan ui ls ws = Some (Some (i, w', ui'))" for ls ws i w' ui'
    using that by (induction ws) (auto split: bind_splits option.splits dest!: click)
  then show "handle_mouse ui engine = Some (ui', engine') \<Longrightarrow> cursor_ok ui \<Longrightarrow> cursor_ok ui'"
    by (auto simp: handle_mouse_def cursor_ok_def split: if_splits bind_splits option.splits)
qed

lemma compose_desktop_keeps:
  assumes c: "compose_desktop font ui engine gpu = Some (ui', engine', gpu')" and e: "engine_ok engine" "log_ok engine"
    and ui: "cursor_ok ui"
  shows "cursor_ok ui' \<and> log_ok engine'"
proof -
  from handle_mouse_ok [OF e(1), of ui] obtain u e1 where m: "handle_mouse ui engine = Some (u, e1)" "engine_ok e1" by blast
  let ?e2 = "e1\<lparr>windows := drag u (parallax (windows e1))\<rparr>"
  have l1: "log_ok e1" by (rule handle_mouse_log [OF m(1) e(2)])
  have "log_ok ?e2" using drag_log [OF parallax_log] l1 by (simp add: log_ok_def)
  moreover have "\<forall>w \<in> set (windows ?e2). win_ok w"
    using drag_ok [OF parallax_ok, of "windows e1" u] m(2) by (simp add: engine_ok_def)
  ultimately have "log_ok e3" if "tick_physics ?e2 = Some (e3, r)" for e3 r using tick_log that by blast
  moreover have "windows e4 = windows e3" if "render font e3 g = Some (e4, g')" for e3 e4 g g'
    using that by (auto simp: render_def Let_def split: bind_splits)
  ultimately show ?thesis using c m(1) handle_mouse_cursor [OF m(1) ui]
    by (fastforce simp: compose_desktop_def log_ok_def split: bind_splits)
qed

lemma redraw_ok:
  assumes dev: "gpu_device gd q mv" and ok: "desk_ok q mv (task, desk)"
  shows "\<exists>desk'. redraw font gd vb hv desk = Some desk' \<and> desk_ok q mv (task, desk')"
proof -
  obtain ui display s where d: "desk = (ui, display, s)" by (cases desk)
  show ?thesis
  proof (cases display)
    case (Some eg)
    obtain engine gpu where eg: "eg = (engine, gpu)" by (cases eg)
    have o: "mouse_task_ok task" "cursor_ok ui" "gpu_posting q mv s" "engine_ok engine" "log_ok engine" "screen_ok gpu"
      using ok by (simp_all add: d Some eg)
    from compose_desktop_ok [OF o(4,6), of font ui] obtain ui' e' g' where
      c: "compose_desktop font ui engine gpu = Some (ui', e', g')" "engine_ok e'" "screen_ok g'" by blast
    from gpu_device.swap_posting [OF dev o(3), of vb hv g'] obtain s' where
      "swap_buffers gd vb hv g' s = Some s'" "gpu_posting q mv s'" by blast
    with c compose_desktop_keeps [OF c(1) o(4,5,2)] o(1) show ?thesis
      by (simp add: d Some eg redraw_def render_desktop_def)
  qed (use ok d in \<open>simp add: redraw_def\<close>)
qed

lemma mouse_packet_ok:
  assumes dev: "gpu_device gd q mv" and ok: "desk_ok q mv (task, desk)"
  shows "\<exists>st. mouse_packet font gd vb hv has_data task desk = Some st \<and> desk_ok q mv st"
proof -
  obtain ui display s where d: "desk = (ui, display, s)" by (cases desk)
  define x where "x = movement (packet task ! 1) (packet task ! 0 AND 0x10 \<noteq> 0)"
  define y where "y = movement (packet task ! 2) (packet task ! 0 AND 0x20 \<noteq> 0)"
  define click where "click \<longleftrightarrow> packet task ! 0 AND 0x01 \<noteq> 0"
  from ok have "cursor_ok ui" by (simp add: d)
  from move_cursor_ok [OF this, of x y click] obtain ui' where u: "move_cursor x y click ui = Some ui'" "cursor_ok ui'" by blast
  have ok': "desk_ok q mv (task\<lparr>was_left_click := click\<rparr>, ui', display, s)" using ok u(2) by (simp add: d mouse_task_ok_def)
  from redraw_ok [OF dev ok', of font vb hv] obtain desk' where
    r: "redraw font gd vb hv (ui', display, s) = Some desk'" "desk_ok q mv (task\<lparr>was_left_click := click\<rparr>, desk')" by blast
  have "mouse_packet font gd vb hv has_data task desk = (if x \<noteq> 0 \<or> y \<noteq> 0 \<or> click \<noteq> was_left_click task
      then Some (task\<lparr>was_left_click := click\<rparr>, if has_data then (ui', display, s) else desk') else Some (task, desk))"
    using u(1) r(1) unfolding mouse_packet_def d prod.case Let_def x_def [symmetric] y_def [symmetric] click_def [symmetric] by simp
  moreover have "desk_ok q mv (task\<lparr>was_left_click := click\<rparr>, if has_data then (ui', display, s) else desk')"
    using ok' r(2) by (cases has_data) (simp_all only: if_True if_False)
  ultimately show ?thesis using ok
    by (cases "x \<noteq> 0 \<or> y \<noteq> 0 \<or> click \<noteq> was_left_click task") (simp_all only: if_True if_False option.inject, blast+)
qed

lemma mouse_byte_ok:
  assumes dev: "gpu_device gd q mv" and ok: "desk_ok q mv (task, desk)"
  shows "\<exists>st. mouse_byte font gd vb hv byte has_data task desk = Some st \<and> desk_ok q mv st"
proof -
  obtain ui display s where d: "desk = (ui, display, s)" by (cases desk)
  have upd: "desk_ok q mv (task\<lparr>packet := (packet task)[i := byte], byte_idx := n\<rparr>, desk)" if "n < 3" for i n
    using ok that by (simp add: d mouse_task_ok_def)
  from ok have "byte_idx task < 3" by (simp add: d mouse_task_ok_def)
  then consider "byte_idx task = 0" | "byte_idx task = 1" | "byte_idx task = 2" by linarith
  then show ?thesis
  proof cases
    case 3
    with mouse_packet_ok [OF dev upd [of 0 2], of font vb hv has_data] show ?thesis by (simp add: mouse_byte_def)
  qed (use ok upd [of 1 0] upd [of 2 1] in \<open>simp_all add: mouse_byte_def numeral_2_eq_2\<close>)
qed

lemma physics_round_ok:
  assumes "gpu_device gd q mv" "desk_ok q mv (task, desk)"
  shows "\<exists>desk'. physics_round font gd vb hv desk = Some desk' \<and> desk_ok q mv (task, desk')"
  using redraw_ok [OF assms, of font vb hv] assms(2)
  by (cases desk) (auto simp: physics_round_def split: option.split)

lemma screen_print_ok:
  assumes dev: "gpu_device gd q mv" and ok: "desk_ok q mv (task, desk)" and a: "\<forall>piece \<in> set pieces. ascii piece"
  shows "\<exists>desk'. screen_print font gd vb hv pieces desk = Some desk' \<and> desk_ok q mv (task, desk')"
proof -
  obtain ui display s where d: "desk = (ui, display, s)" by (cases desk)
  show ?thesis
  proof (cases display)
    case (Some eg)
    obtain engine gpu where eg: "eg = (engine, gpu)" by (cases eg)
    have "\<exists>e'. for_each pieces write_str engine = Some e' \<and> engine_ok e' \<and> log_ok e'"
    proof (rule for_each_inv [where P = "\<lambda>e. engine_ok e \<and> log_ok e"])
      show "engine_ok engine \<and> log_ok engine" using ok by (simp add: d Some eg)
      show "\<exists>e'. write_str piece e = Some e' \<and> engine_ok e' \<and> log_ok e'"
        if "piece \<in> set pieces" "engine_ok e \<and> log_ok e" for piece e using write_str_ok [of e piece] that a by blast
    qed
    then obtain e' where e': "for_each pieces write_str engine = Some e'" "engine_ok e'" "log_ok e'" by blast
    then have "desk_ok q mv (task, ui, Some (e', gpu), s)" using ok by (simp add: d Some eg)
    from redraw_ok [OF dev this, of font vb hv] e'(1) show ?thesis by (simp add: d Some eg screen_print_def)
  qed (use ok d in \<open>simp add: screen_print_def\<close>)
qed

text \<open>C16. The desktop never panics and never hangs: with any conforming GPU, for every interleaving of mouse bytes (also
  garbage and torn packets), rounds of the physics task and ASCII log messages, every step returns. All along the cursor
  stays on the screen, every pixel of windows, text and cursor that is drawn lies in the buffer wherever a window is
  dragged, \<open>engine.launchers[0]\<close> exists whenever a window can be closed, every animation is within its 15 steps, no dead
  window is kept, and the GPU driver can post the next frame.\<close>

theorem desktop_never_panics:
  fixes gd :: "'d GpuDevice"
  assumes dev: "gpu_device gd q mv" and ok: "desk_ok q mv st"
    and logs: "\<And>pieces piece. Print pieces \<in> set events \<Longrightarrow> piece \<in> set pieces \<Longrightarrow> ascii piece"
  shows "\<exists>st'. for_each events (desk_step font gd vb hv) st = Some st' \<and> desk_ok q mv st'"
proof (rule for_each_inv [where P = "desk_ok q mv", OF ok])
  fix e and st :: "MouseTask \<times> 'd desk" assume e: "e \<in> set events" and ok: "desk_ok q mv st"
  obtain task desk where st: "st = (task, desk)" by (cases st)
  note ok = ok [unfolded st]
  show "\<exists>st'. desk_step font gd vb hv e st = Some st' \<and> desk_ok q mv st'"
  proof (cases e)
    case (MouseByte byte has_data)
    then show ?thesis using mouse_byte_ok [OF dev ok] by (simp add: st)
  next
    case PhysicsRound
    from physics_round_ok [OF dev ok, of font vb hv] show ?thesis by (auto simp: st PhysicsRound)
  next
    case (Print pieces)
    then have "\<forall>piece \<in> set pieces. ascii piece" using logs e by blast
    from screen_print_ok [OF dev ok this, of font vb hv] show ?thesis by (auto simp: st Print)
  qed
qed

definition demo_desk :: "VirtQueue \<Rightarrow> MouseTask \<times> unit desk" where
  "demo_desk vq = (MouseTask_init, UI_init,
     Some (SplatEngine_new\<lparr>launchers := [\<lparr>lx = 400, ly = 300, radius = 30\<rparr>]\<rparr>, demo_screen), demo_gpu vq)"

theorem desktop_never_panics_witness:
  "\<exists>vq st'. VirtQueue_new = Some vq \<and>
    for_each [Print [[72, 105]], MouseByte 0 True, MouseByte 9 True, MouseByte 1 True, MouseByte 0 False, PhysicsRound]
      (desk_step (\<lambda>_. replicate 8 0) (ref_gpu 0x1100 0x1000 0x5000) 0x8000 True) (demo_desk vq) = Some st' \<and> desk_ok 0x1000 0x5000 st'"
proof -
  obtain vq where v: "VirtQueue_new = Some vq" "free_list vq [0..<64]" by (rule VirtQueue_new_free)
  have "engine_ok (SplatEngine_new\<lparr>launchers := [\<lparr>lx = 400, ly = 300, radius = 30\<rparr>]\<rparr>)"
    "log_ok (SplatEngine_new\<lparr>launchers := [\<lparr>lx = 400, ly = 300, radius = 30\<rparr>]\<rparr>)"
    by (simp_all add: engine_ok_def log_ok_def SplatEngine_new_def)
  moreover have "gpu_posting 0x1000 0x5000 (demo_gpu vq)" using v(2) by (auto simp: gpu_posting_def demo_gpu_def)
  ultimately have "desk_ok 0x1000 0x5000 (demo_desk vq)"
    using demo_screen_ok by (simp add: demo_desk_def mouse_task_ok_def MouseTask_init_def cursor_ok_def UI_init_def)
  let ?events = "[Print [[72, 105]], MouseByte 0 True, MouseByte 9 True, MouseByte 1 True, MouseByte 0 False, PhysicsRound]"
  have logs: "ascii piece" if "Print pieces \<in> set ?events" "piece \<in> set pieces" for pieces piece using that by (auto simp: ascii_def)
  have "\<exists>st'. for_each ?events (desk_step (\<lambda>_. replicate 8 0) (ref_gpu 0x1100 0x1000 0x5000) 0x8000 True) (demo_desk vq) = Some st' \<and>
      desk_ok 0x1000 0x5000 st'"
    by (rule desktop_never_panics [OF ref_gpu.gpu_device_axioms \<open>desk_ok 0x1000 0x5000 (demo_desk vq)\<close>]) (rule logs)
  with v(1) show ?thesis by blast
qed

end
