(* ===== verification/Block_Device.thy ===== *)
theory Block_Device
  imports Rust_Prelude
begin

text \<open>
  The interface between the file system and the drive: two operations on 4096-byte blocks, and
  what the file system relies on. An operation may fail to return (\<open>None\<close>), so the laws say that
  on a drive in a good state it does return.
\<close>

type_synonym 's read_fun = "u64 \<Rightarrow> 's \<Rightarrow> ((u16, bytes) result \<times> 's) option"
type_synonym 's write_fun = "u64 \<Rightarrow> bytes \<Rightarrow> 's \<Rightarrow> ((u16, unit) result \<times> 's) option"

definition pad_block :: "bytes \<Rightarrow> bytes" where
  "pad_block data = data @ replicate (4096 - length data) 0"

lemma length_pad_block [simp]: "length data \<le> 4096 \<Longrightarrow> length (pad_block data) = 4096"
  by (simp add: pad_block_def)

lemma pad_block_full [simp]: "length data = 4096 \<Longrightarrow> pad_block data = data"
  by (simp add: pad_block_def)

locale block_device =
  fixes rd :: "'s read_fun" and wr :: "'s write_fun"
    and inv :: "'s \<Rightarrow> bool" and disk :: "'s \<Rightarrow> nat \<Rightarrow> bytes" and cap :: nat
  assumes rd_law: "inv s \<Longrightarrow> \<exists>r s'. rd lba s = Some (r, s') \<and> inv s' \<and> disk s' = disk s \<and>
      (if unat lba < cap then r = Ok (disk s (unat lba)) else \<exists>e. r = Err e)"
    and wr_law: "inv s \<Longrightarrow> length data \<le> 4096 \<Longrightarrow> \<exists>r s'. wr lba data s = Some (r, s') \<and> inv s' \<and>
      (if unat lba < cap then r = Ok () \<and> disk s' = (disk s)(unat lba := pad_block data)
       else (\<exists>e. r = Err e) \<and> disk s' = disk s)"
    and sector: "inv s \<Longrightarrow> length (disk s n) = 4096"

end
