(* ===== verification/Nvme.thy ===== *)
theory Nvme
  imports Block_Device
begin

text \<open>
  The NVMe driver, \<^verbatim>\<open>kernel/src/nvme.rs\<close>: bringing the controller up, the admin and I/O queue
  pairs with their doorbells and phase tags, and the block operations the file system calls.
  The controller itself is hardware and a parameter: register reads and writes, and the DMA it
  performs between two accesses of the processor.
\<close>

subsection \<open>Data structures shared with the device\<close>

record NvmeCmd =
  opcode :: u8
  flags :: u8
  cmd_cid :: u16
  nsid :: u32
  cmd_rsvd :: u64
  mptr :: u64
  dptr :: "u64 list"
  cdw10 :: u32
  cdw11 :: u32
  cdw12 :: u32
  cdw13 :: u32
  cdw14 :: u32
  cdw15 :: u32

definition NvmeCmd_empty :: NvmeCmd where
  "NvmeCmd_empty = \<lparr>opcode = 0, flags = 0, cmd_cid = 0, nsid = 0, cmd_rsvd = 0, mptr = 0,
     dptr = [0, 0], cdw10 = 0, cdw11 = 0, cdw12 = 0, cdw13 = 0, cdw14 = 0, cdw15 = 0\<rparr>"

record NvmeComp =
  command_specific :: u32
  comp_rsvd :: u32
  sq_head :: u16
  sq_id :: u16
  comp_cid :: u16
  status :: u16

definition NvmeComp_empty :: NvmeComp where
  "NvmeComp_empty = \<lparr>command_specific = 0, comp_rsvd = 0, sq_head = 0, sq_id = 0, comp_cid = 0, status = 0\<rparr>"

definition ADMIN_QUEUE_SIZE :: nat where "ADMIN_QUEUE_SIZE = 64"
definition IO_QUEUE_SIZE :: nat where "IO_QUEUE_SIZE = 64"

text \<open>The static queues and DMA buffers, which both sides access.\<close>

record nvme_mem =
  ADMIN_SQ :: "NvmeCmd list"
  ADMIN_CQ :: "NvmeComp list"
  IO_SQ :: "NvmeCmd list"
  IO_CQ :: "NvmeComp list"
  IDENTIFY_BUF :: bytes
  IO_BUF :: bytes

definition nvme_mem_init :: nvme_mem where
  "nvme_mem_init = \<lparr>ADMIN_SQ = replicate ADMIN_QUEUE_SIZE NvmeCmd_empty,
     ADMIN_CQ = replicate ADMIN_QUEUE_SIZE NvmeComp_empty,
     IO_SQ = replicate IO_QUEUE_SIZE NvmeCmd_empty, IO_CQ = replicate IO_QUEUE_SIZE NvmeComp_empty,
     IDENTIFY_BUF = replicate 4096 0, IO_BUF = replicate 4096 0\<rparr>"

text \<open>The registers, by their offset from the base of the register window.\<close>

datatype NvmeRegs = cap_low | cap_high | vs | intms | intmc | cc | rsvd | csts | nssr | aqa
  | asq_low | asq_high | acq_low | acq_high

fun reg_offset :: "NvmeRegs \<Rightarrow> nat" where
  "reg_offset cap_low = 0x00"
| "reg_offset cap_high = 0x04"
| "reg_offset vs = 0x08"
| "reg_offset intms = 0x0C"
| "reg_offset intmc = 0x10"
| "reg_offset cc = 0x14"
| "reg_offset rsvd = 0x18"
| "reg_offset csts = 0x1C"
| "reg_offset nssr = 0x20"
| "reg_offset aqa = 0x24"
| "reg_offset asq_low = 0x28"
| "reg_offset asq_high = 0x2C"
| "reg_offset acq_low = 0x30"
| "reg_offset acq_high = 0x34"

text \<open>The queue positions are 16 bit wide; the array accesses panic at 64, before they can wrap.\<close>

record NvmeController =
  mmio_base :: nat
  admin_sq_tail :: nat
  admin_cq_head :: nat
  io_sq_tail :: nat
  io_cq_head :: nat
  io_phase :: u16
  io_buf_phys :: u64

definition NvmeController_new :: "nat \<Rightarrow> NvmeController" where
  "NvmeController_new base = \<lparr>mmio_base = base, admin_sq_tail = 0, admin_cq_head = 0,
     io_sq_tail = 0, io_cq_head = 0, io_phase = 1, io_buf_phys = 0\<rparr>"

text \<open>The device: register accesses by physical position, and \<open>dma\<close>, all it does to the shared memory
  before the next volatile read of the processor.\<close>

record 'h nvme_hw =
  mmio_read :: "nat \<Rightarrow> 'h \<Rightarrow> u32 \<times> 'h"
  mmio_write :: "nat \<Rightarrow> u32 \<Rightarrow> 'h \<Rightarrow> 'h"
  dma :: "nvme_mem \<Rightarrow> 'h \<Rightarrow> nvme_mem \<times> 'h"

record 'h nvme =
  ctl :: NvmeController
  nmem :: nvme_mem
  hw :: 'h

subsection \<open>Registers and doorbells\<close>

definition reg_read :: "'h nvme_hw \<Rightarrow> NvmeRegs \<Rightarrow> 'h nvme \<Rightarrow> u32 \<times> 'h nvme" where
  "reg_read D r s = (let (v, h) = mmio_read D (mmio_base (ctl s) + reg_offset r) (hw s) in (v, s\<lparr>hw := h\<rparr>))"

definition reg_write :: "'h nvme_hw \<Rightarrow> NvmeRegs \<Rightarrow> u32 \<Rightarrow> 'h nvme \<Rightarrow> 'h nvme" where
  "reg_write D r v s = s\<lparr>hw := mmio_write D (mmio_base (ctl s) + reg_offset r) v (hw s)\<rparr>"

definition sq_doorbell :: "'h nvme_hw \<Rightarrow> nat \<Rightarrow> nat \<Rightarrow> 'h nvme \<Rightarrow> 'h nvme" where
  "sq_doorbell D qid value s = (
     let (caph, s1) = reg_read D cap_high s;
         dstrd = unat (caph AND 0xF);
         offset = 0x1000 + (2 * qid) * (4 * 2 ^ dstrd)
     in s1\<lparr>hw := mmio_write D (mmio_base (ctl s1) + offset) (of_nat value) (hw s1)\<rparr>)"

definition cq_doorbell :: "'h nvme_hw \<Rightarrow> nat \<Rightarrow> nat \<Rightarrow> 'h nvme \<Rightarrow> 'h nvme" where
  "cq_doorbell D qid value s = (
     let (caph, s1) = reg_read D cap_high s;
         dstrd = unat (caph AND 0xF);
         offset = 0x1000 + (2 * qid + 1) * (4 * 2 ^ dstrd)
     in s1\<lparr>hw := mmio_write D (mmio_base (ctl s1) + offset) (of_nat value) (hw s1)\<rparr>)"

subsection \<open>Bringing the controller up\<close>

text \<open>What \<open>ping\<close> prints: the version triple, the status, the capabilities, and whether it reports a
  live controller.\<close>

definition ping :: "'h nvme_hw \<Rightarrow> 'h nvme \<Rightarrow> ((u32 \<times> u32 \<times> u32) \<times> u32 \<times> u32 \<times> bool) \<times> 'h nvme" where
  "ping D s = (
     let (version, s1) = reg_read D vs s;
         (st, s2) = reg_read D csts s1;
         (caps, s3) = reg_read D cap_low s2;
         major = drop_bit 16 version AND 0xFFFF;
         minor = drop_bit 8 version AND 0xFF;
         tertiary = version AND 0xFF
     in (((major, minor, tertiary), st, caps, st \<noteq> 0xFFFFFFFF), s3))"

text \<open>The spin loops on \<open>CSTS.RDY\<close>: \<open>None\<close> is a loop that never ends.\<close>

partial_function (option) wait_rdy :: "'h nvme_hw \<Rightarrow> u32 \<Rightarrow> 'h nvme \<Rightarrow> 'h nvme option" where
  "wait_rdy D rdy s = (
     let (v, s1) = reg_read D csts s in
     if v AND 1 = rdy then Some s1 else wait_rdy D rdy s1)"

definition disable :: "'h nvme_hw \<Rightarrow> 'h nvme \<Rightarrow> 'h nvme option" where
  "disable D s = (
     let (c, s1) = reg_read D cc s;
         s2 = reg_write D cc (c AND NOT 1) s1
     in wait_rdy D 0 s2)"

text \<open>The addresses the linker gives the statics, and the page-table translation of the mapper.\<close>

record static_addrs =
  a_ADMIN_SQ :: u64
  a_ADMIN_CQ :: u64
  a_IO_SQ :: u64
  a_IO_CQ :: u64
  a_IDENTIFY_BUF :: u64
  a_IO_BUF :: u64

definition configure_and_enable ::
  "'h nvme_hw \<Rightarrow> static_addrs \<Rightarrow> (u64 \<Rightarrow> u64 option) \<Rightarrow> 'h nvme \<Rightarrow> 'h nvme option" where
  "configure_and_enable D A translate_addr s = do {
     sq_phys \<leftarrow> translate_addr (a_ADMIN_SQ A);
     cq_phys \<leftarrow> translate_addr (a_ADMIN_CQ A);
     let aqa_val = push_bit 16 (of_nat ADMIN_QUEUE_SIZE - 1) OR (of_nat ADMIN_QUEUE_SIZE - 1);
     let s1 = reg_write D aqa aqa_val s;
     let s2 = reg_write D asq_low (ucast (sq_phys AND 0xFFFFFFFF)) s1;
     let s3 = reg_write D asq_high (ucast (drop_bit 32 sq_phys)) s2;
     let s4 = reg_write D acq_low (ucast (cq_phys AND 0xFFFFFFFF)) s3;
     let s5 = reg_write D acq_high (ucast (drop_bit 32 cq_phys)) s4;
     let (c, s6) = reg_read D cc s5;
     let c = c AND 0xFF00000F;
     let c = c OR (push_bit 20 4 OR push_bit 16 6 OR 1);
     wait_rdy D 1 (reg_write D cc c s6)
   }"

subsection \<open>Submitting commands\<close>

text \<open>A completion is awaited by reading the slot at the head until its phase tag turns.\<close>

partial_function (option) poll_admin :: "'h nvme_hw \<Rightarrow> 'h nvme \<Rightarrow> ((u16, unit) result \<times> 'h nvme) option" where
  "poll_admin D s = (
     let (m, h) = dma D (nmem s) (hw s); s1 = s\<lparr>nmem := m, hw := h\<rparr> in
     case aget (ADMIN_CQ m) (admin_cq_head (ctl s1)) of
       None \<Rightarrow> None
     | Some entry \<Rightarrow>
         (let st = status entry in
          if st AND 1 = 1
          then let head = admin_cq_head (ctl s1) + 1;
                   s2 = s1\<lparr>ctl := (ctl s1)\<lparr>admin_cq_head := head\<rparr>\<rparr>;
                   s3 = cq_doorbell D 0 head s2
               in Some (if drop_bit 1 st = 0 then Ok () else Err st, s3)
          else poll_admin D s1))"

definition submit_admin_cmd :: "'h nvme_hw \<Rightarrow> NvmeCmd \<Rightarrow> 'h nvme \<Rightarrow> ((u16, unit) result \<times> 'h nvme) option" where
  "submit_admin_cmd D cmd s = do {
     sq \<leftarrow> aset (ADMIN_SQ (nmem s)) (admin_sq_tail (ctl s)) cmd;
     let tail = admin_sq_tail (ctl s) + 1;
     let s1 = s\<lparr>nmem := (nmem s)\<lparr>ADMIN_SQ := sq\<rparr>, ctl := (ctl s)\<lparr>admin_sq_tail := tail\<rparr>\<rparr>;
     poll_admin D (sq_doorbell D 0 tail s1)
   }"

partial_function (option) poll_io :: "'h nvme_hw \<Rightarrow> 'h nvme \<Rightarrow> ((u16, unit) result \<times> 'h nvme) option" where
  "poll_io D s = (
     let (m, h) = dma D (nmem s) (hw s); s1 = s\<lparr>nmem := m, hw := h\<rparr> in
     case aget (IO_CQ m) (io_cq_head (ctl s1)) of
       None \<Rightarrow> None
     | Some entry \<Rightarrow>
         (let st = status entry in
          if st AND 1 = io_phase (ctl s1)
          then let head = io_cq_head (ctl s1) + 1;
                   c = (if head = IO_QUEUE_SIZE
                        then (ctl s1)\<lparr>io_cq_head := 0, io_phase := NOT (io_phase (ctl s1)) AND 1\<rparr>
                        else (ctl s1)\<lparr>io_cq_head := head\<rparr>);
                   s3 = cq_doorbell D 1 (io_cq_head c) (s1\<lparr>ctl := c\<rparr>)
               in Some (if drop_bit 1 st = 0 then Ok () else Err st, s3)
          else poll_io D s1))"

definition submit_io_cmd :: "'h nvme_hw \<Rightarrow> NvmeCmd \<Rightarrow> 'h nvme \<Rightarrow> ((u16, unit) result \<times> 'h nvme) option" where
  "submit_io_cmd D cmd s = do {
     sq \<leftarrow> aset (IO_SQ (nmem s)) (io_sq_tail (ctl s)) cmd;
     let tail = io_sq_tail (ctl s) + 1;
     let tail = (if tail = IO_QUEUE_SIZE then 0 else tail);
     let s1 = s\<lparr>nmem := (nmem s)\<lparr>IO_SQ := sq\<rparr>, ctl := (ctl s)\<lparr>io_sq_tail := tail\<rparr>\<rparr>;
     poll_io D (sq_doorbell D 1 tail s1)
   }"

text \<open>\<open>identify_controller\<close> gives the 40 bytes of the model name it prints, or the status of the
  command that failed.\<close>

definition identify_controller :: "'h nvme_hw \<Rightarrow> static_addrs \<Rightarrow> (u64 \<Rightarrow> u64 option) \<Rightarrow> 'h nvme \<Rightarrow>
    ((u16, bytes) result \<times> 'h nvme) option" where
  "identify_controller D A translate_addr s = do {
     buf_phys \<leftarrow> translate_addr (a_IDENTIFY_BUF A);
     let cmd = NvmeCmd_empty\<lparr>opcode := 0x06, cdw10 := 1, dptr := [buf_phys, 0]\<rparr>;
     (res, s1) \<leftarrow> submit_admin_cmd D cmd s;
     case res of
       Err st \<Rightarrow> Some (Err st, s1)
     | Ok _ \<Rightarrow> do {
         model_bytes \<leftarrow> slice (IDENTIFY_BUF (nmem s1)) 24 64;
         Some (Ok model_bytes, s1)
       }
   }"

definition setup_io_queues :: "'h nvme_hw \<Rightarrow> static_addrs \<Rightarrow> (u64 \<Rightarrow> u64 option) \<Rightarrow> 'h nvme \<Rightarrow> 'h nvme option" where
  "setup_io_queues D A translate_addr s = do {
     cq_phys \<leftarrow> translate_addr (a_IO_CQ A);
     sq_phys \<leftarrow> translate_addr (a_IO_SQ A);
     buf_phys \<leftarrow> translate_addr (a_IO_BUF A);
     let s0 = s\<lparr>ctl := (ctl s)\<lparr>io_buf_phys := buf_phys\<rparr>\<rparr>;
     let cmd_cq = NvmeCmd_empty\<lparr>opcode := 0x05, dptr := [cq_phys, 0],
       cdw10 := push_bit 16 (of_nat IO_QUEUE_SIZE - 1) OR 1, cdw11 := 1\<rparr>;
     (res, s1) \<leftarrow> submit_admin_cmd D cmd_cq s0;
     _ \<leftarrow> (case res of Err _ \<Rightarrow> None | Ok u \<Rightarrow> Some u);
     let cmd_sq = NvmeCmd_empty\<lparr>opcode := 0x01, dptr := [sq_phys, 0],
       cdw10 := push_bit 16 (of_nat IO_QUEUE_SIZE - 1) OR 1, cdw11 := push_bit 16 1 OR 1\<rparr>;
     (res, s2) \<leftarrow> submit_admin_cmd D cmd_sq s1;
     _ \<leftarrow> (case res of Err _ \<Rightarrow> None | Ok u \<Rightarrow> Some u);
     Some s2
   }"

subsection \<open>Block operations\<close>

definition rw_cmd :: "u8 \<Rightarrow> u64 \<Rightarrow> u64 \<Rightarrow> NvmeCmd" where
  "rw_cmd op buf lba = NvmeCmd_empty\<lparr>opcode := op, nsid := 1, dptr := [buf, 0],
     cdw10 := ucast (lba AND 0xFFFFFFFF), cdw11 := ucast (drop_bit 32 lba), cdw12 := 0\<rparr>"

definition write_block :: "'h nvme_hw \<Rightarrow> u64 \<Rightarrow> bytes \<Rightarrow> 'h nvme \<Rightarrow> ((u16, unit) result \<times> 'h nvme) option" where
  "write_block D lba data s =
     (if length data > 4096 then Some (Err 0xFFFF, s)
      else let buf = data @ replicate (4096 - length data) 0;
               s1 = s\<lparr>nmem := (nmem s)\<lparr>IO_BUF := buf\<rparr>\<rparr>
           in submit_io_cmd D (rw_cmd 0x01 (io_buf_phys (ctl s)) lba) s1)"

definition read_block :: "'h nvme_hw \<Rightarrow> u64 \<Rightarrow> 'h nvme \<Rightarrow> ((u16, bytes) result \<times> 'h nvme) option" where
  "read_block D lba s = do {
     let s1 = s\<lparr>nmem := (nmem s)\<lparr>IO_BUF := replicate 4096 0\<rparr>\<rparr>;
     (res, s2) \<leftarrow> submit_io_cmd D (rw_cmd 0x02 (io_buf_phys (ctl s)) lba) s1;
     case res of
       Err st \<Rightarrow> Some (Err st, s2)
     | Ok _ \<Rightarrow> do { data \<leftarrow> slice (IO_BUF (nmem s2)) 0 4096; Some (Ok data, s2) }
   }"

subsection \<open>The device the driver is written for\<close>

text \<open>What the driver relies on, from the NVMe specification, for I/O queue pair 1. The device keeps the next
  submission slot to fetch, the last tail it was told, the next completion slot, the phase tag, how
  many more accesses it takes until the command at hand completes, and the sectors of namespace 1.\<close>

record nvme_dev =
  d_fetch :: nat
  d_db :: nat
  d_post :: nat
  d_phase :: u16
  d_delay :: nat
  d_disk :: "nat \<Rightarrow> bytes"

text \<open>A command for one logical block (a count field of 0) of \<open>B\<close> bytes with its data at \<open>buf\<close>; the result is
  the status code, the new buffer and the new sectors. Code \<open>0x80\<close> is \<open>LBA Out of Range\<close>.\<close>

definition cmd_lba :: "NvmeCmd \<Rightarrow> nat" where
  "cmd_lba cmd = unat (cdw10 cmd) + 2 ^ 32 * unat (cdw11 cmd)"

definition dev_exec :: "nat \<Rightarrow> nat \<Rightarrow> u64 \<Rightarrow> NvmeCmd \<Rightarrow> bytes \<Rightarrow> (nat \<Rightarrow> bytes) \<Rightarrow> u16 \<times> bytes \<times> (nat \<Rightarrow> bytes)" where
  "dev_exec B cap buf cmd mem disk =
     (if nsid cmd = 1 \<and> hd (dptr cmd) = buf \<and> cdw12 cmd = 0 \<and> opcode cmd \<in> {1, 2}
      then if \<not> cmd_lba cmd < cap then (0x80, mem, disk)
           else if opcode cmd = 1 then (0, mem, disk(cmd_lba cmd := take B mem))
           else (0, disk (cmd_lba cmd) @ drop B mem, disk)
      else (1, mem, disk))"

definition next_slot :: "nat \<Rightarrow> nat" where
  "next_slot i = (if i + 1 = IO_QUEUE_SIZE then 0 else i + 1)"

definition next_phase :: "nat \<Rightarrow> u16 \<Rightarrow> u16" where
  "next_phase i ph = (if i + 1 = IO_QUEUE_SIZE then NOT ph AND 1 else ph)"

text \<open>The doorbells of queue 1 at the stride the capability register gives.\<close>

definition sq1_addr :: "nat \<Rightarrow> u32 \<Rightarrow> nat" where
  "sq1_addr base caph = base + (0x1000 + 2 * (4 * 2 ^ unat (caph AND 0xF)))"

definition cq1_addr :: "nat \<Rightarrow> u32 \<Rightarrow> nat" where
  "cq1_addr base caph = base + (0x1000 + 3 * (4 * 2 ^ unat (caph AND 0xF)))"

text \<open>The effect of one completed command on the shared memory and on the device.\<close>

definition dev_completes :: "nat \<Rightarrow> nat \<Rightarrow> u64 \<Rightarrow> nvme_mem \<Rightarrow> nvme_dev \<Rightarrow> nvme_mem \<Rightarrow> nvme_dev \<Rightarrow> bool" where
  "dev_completes B cap buf m d m' d' \<longleftrightarrow>
     (let (st, mem, dsk) = dev_exec B cap buf (IO_SQ m ! d_fetch d) (IO_BUF m) (d_disk d) in
      \<exists>e k. status e = push_bit 1 st OR d_phase d \<and>
        m' = m\<lparr>IO_BUF := mem, IO_CQ := (IO_CQ m)[d_post d := e]\<rparr> \<and>
        d' = d\<lparr>d_fetch := next_slot (d_fetch d), d_post := next_slot (d_post d),
          d_phase := next_phase (d_post d) (d_phase d), d_disk := dsk, d_delay := k\<rparr>)"

text \<open>A device conforms when, through a view \<open>V\<close> of its state: reading the capabilities has no side effect; the
  submission doorbell announces the tail and the completion doorbell changes nothing the driver sees;
  an announced command is delayed a finite number of accesses and then completes.\<close>

definition nvme_conforms :: "'h nvme_hw \<Rightarrow> ('h \<Rightarrow> nvme_dev) \<Rightarrow> nat \<Rightarrow> u32 \<Rightarrow> u64 \<Rightarrow> nat \<Rightarrow> nat \<Rightarrow> bool" where
  "nvme_conforms D V base caph buf B cap \<longleftrightarrow>
     (\<forall>h. fst (mmio_read D (base + reg_offset cap_high) h) = caph \<and>
          V (snd (mmio_read D (base + reg_offset cap_high) h)) = V h) \<and>
     (\<forall>v h. \<exists>k. V (mmio_write D (sq1_addr base caph) v h) = (V h)\<lparr>d_db := unat v, d_delay := k\<rparr>) \<and>
     (\<forall>v h. V (mmio_write D (cq1_addr base caph) v h) = V h) \<and>
     (\<forall>m h. d_db (V h) \<noteq> d_fetch (V h) \<longrightarrow>
        (if 0 < d_delay (V h)
         then fst (dma D m h) = m \<and> V (snd (dma D m h)) = (V h)\<lparr>d_delay := d_delay (V h) - 1\<rparr>
         else dev_completes B cap buf m (V h) (fst (dma D m h)) (V (snd (dma D m h)))))"

subsection \<open>Driver and device in step\<close>

text \<open>Between commands the two sides agree on every position, and the phase tag tells exactly the completion
  slots of the current pass: those below the position of the device carry the current tag.\<close>

definition cq_tags :: "nvme_mem \<Rightarrow> nat \<Rightarrow> u16 \<Rightarrow> bool" where
  "cq_tags m post ph \<longleftrightarrow> (\<forall>i < IO_QUEUE_SIZE. status (IO_CQ m ! i) AND 1 = ph \<longleftrightarrow> i < post)"

definition nvme_armed :: "('h \<Rightarrow> nvme_dev) \<Rightarrow> nat \<Rightarrow> u64 \<Rightarrow> nat \<Rightarrow> 'h nvme \<Rightarrow> bool" where
  "nvme_armed V base buf B s \<longleftrightarrow>
     mmio_base (ctl s) = base \<and> io_buf_phys (ctl s) = buf \<and> B \<le> 4096 \<and>
     length (IO_SQ (nmem s)) = IO_QUEUE_SIZE \<and> length (IO_CQ (nmem s)) = IO_QUEUE_SIZE \<and>
     length (IO_BUF (nmem s)) = 4096 \<and>
     d_fetch (V (hw s)) < IO_QUEUE_SIZE \<and> d_post (V (hw s)) < IO_QUEUE_SIZE \<and>
     d_db (V (hw s)) = io_sq_tail (ctl s) \<and> io_cq_head (ctl s) = d_post (V (hw s)) \<and>
     io_phase (ctl s) = d_phase (V (hw s)) \<and> d_phase (V (hw s)) \<in> {0, 1} \<and>
     cq_tags (nmem s) (d_post (V (hw s))) (d_phase (V (hw s))) \<and>
     (\<forall>n. length (d_disk (V (hw s)) n) = B)"

definition nvme_sync :: "('h \<Rightarrow> nvme_dev) \<Rightarrow> nat \<Rightarrow> u64 \<Rightarrow> nat \<Rightarrow> 'h nvme \<Rightarrow> bool" where
  "nvme_sync V base buf B s \<longleftrightarrow> nvme_armed V base buf B s \<and> io_sq_tail (ctl s) = d_fetch (V (hw s))"

lemma dev_exec_status: "fst (dev_exec B cap buf cmd mem dsk) \<in> {0, 1, 0x80}"
  by (simp add: dev_exec_def)

lemma dev_exec_lengths:
  assumes "dev_exec B cap buf cmd mem dsk = (st, mem', dsk')" "length mem = 4096" "B \<le> 4096"
    "\<forall>n. length (dsk n) = B"
  shows "length mem' = 4096" "\<forall>n. length (dsk' n) = B"
  using assms by (auto simp: dev_exec_def split: if_splits)

lemma status_tag:
  assumes "st \<in> {0, 1, 0x80 :: u16}" "ph \<in> {0, 1}"
  shows "(push_bit 1 st OR ph) AND 1 = ph" "drop_bit 1 (push_bit 1 st OR ph) = 0 \<longleftrightarrow> st = 0"
  using assms by auto

lemma next_phase_tag: "ph \<in> {0, 1} \<Longrightarrow> next_phase i ph \<in> {0, 1}"
  by (auto simp: next_phase_def)

lemma tag_flip: "ph \<in> {0, 1} \<Longrightarrow> (x :: u16) AND 1 = NOT ph AND 1 \<longleftrightarrow> x AND 1 \<noteq> ph"
  by (cases x rule: parity_cases) (auto simp: and_one_eq)

lemma cq_tags_step:
  assumes "cq_tags m post ph" "post < IO_QUEUE_SIZE" "length (IO_CQ m) = IO_QUEUE_SIZE"
    "status e AND 1 = ph" "ph \<in> {0, 1}"
  shows "cq_tags (m\<lparr>IO_BUF := b, IO_CQ := (IO_CQ m)[post := e]\<rparr>) (next_slot post) (next_phase post ph)"
proof -
  have t: "status ((IO_CQ m)[post := e] ! i) AND 1 = ph \<longleftrightarrow> i < Suc post" if "i < IO_QUEUE_SIZE" for i
    using assms that by (auto simp: cq_tags_def nth_list_update)
  show ?thesis
  proof (cases "post + 1 = IO_QUEUE_SIZE")
    case True
    with t show ?thesis using assms(5) by (auto simp: cq_tags_def next_slot_def next_phase_def tag_flip)
  next
    case False
    with t show ?thesis by (auto simp: cq_tags_def next_slot_def next_phase_def)
  qed
qed

lemma conforms_doorbells:
  assumes "nvme_conforms D V base caph buf B cap" "mmio_base (ctl s) = base"
  shows "\<exists>h k. sq_doorbell D 1 v s = s\<lparr>hw := h\<rparr> \<and>
      V h = (V (hw s))\<lparr>d_db := unat (of_nat v :: u32), d_delay := k\<rparr>"
    and "\<exists>h. cq_doorbell D 1 v s = s\<lparr>hw := h\<rparr> \<and> V h = V (hw s)"
proof -
  obtain h1 where r: "mmio_read D (base + reg_offset cap_high) (hw s) = (caph, h1)" "V h1 = V (hw s)"
    using assms(1) unfolding nvme_conforms_def by (metis prod.collapse)
  obtain k where k: "V (mmio_write D (sq1_addr base caph) (of_nat v) h1) =
      (V h1)\<lparr>d_db := unat (of_nat v :: u32), d_delay := k\<rparr>"
    using assms(1) unfolding nvme_conforms_def by blast
  show "\<exists>h k. sq_doorbell D 1 v s = s\<lparr>hw := h\<rparr> \<and>
      V h = (V (hw s))\<lparr>d_db := unat (of_nat v :: u32), d_delay := k\<rparr>"
    using r k assms(2) by (auto simp: sq_doorbell_def reg_read_def sq1_addr_def)
  have "V (mmio_write D (cq1_addr base caph) (of_nat v) h1) = V h1"
    using assms(1) unfolding nvme_conforms_def by blast
  then show "\<exists>h. cq_doorbell D 1 v s = s\<lparr>hw := h\<rparr> \<and> V h = V (hw s)"
    using r assms(2) by (auto simp: cq_doorbell_def reg_read_def cq1_addr_def)
qed

text \<open>One completed command seen from the driver.\<close>

lemma poll_io_completes:
  assumes conf: "nvme_conforms D V base caph buf B cap" and s: "nvme_armed V base buf B s"
    and tail: "io_sq_tail (ctl s) = next_slot (d_fetch (V (hw s)))"
    and delay: "d_delay (V (hw s)) = 0"
    and ex: "dev_exec B cap buf (IO_SQ (nmem s) ! d_fetch (V (hw s))) (IO_BUF (nmem s)) (d_disk (V (hw s))) =
      (st, mem, dsk)"
  shows "\<exists>s' r. poll_io D s = Some (r, s') \<and> nvme_sync V base buf B s' \<and> IO_BUF (nmem s') = mem \<and>
    d_disk (V (hw s')) = dsk \<and> (if st = 0 then r = Ok () else \<exists>e. r = Err e)"
proof -
  let ?d = "V (hw s)" let ?c = "ctl s"
  have ne: "d_db ?d \<noteq> d_fetch ?d"
    using s tail by (auto simp: nvme_armed_def next_slot_def IO_QUEUE_SIZE_def split: if_splits)
  obtain m h where mh: "dma D (nmem s) (hw s) = (m, h)" by fastforce
  have "dev_completes B cap buf (nmem s) ?d m (V h)"
    using conf ne delay mh unfolding nvme_conforms_def by (metis fst_conv snd_conv less_irrefl)
  then obtain e k where e: "status e = push_bit 1 st OR d_phase ?d"
    "m = (nmem s)\<lparr>IO_BUF := mem, IO_CQ := (IO_CQ (nmem s))[d_post ?d := e]\<rparr>"
    "V h = ?d\<lparr>d_fetch := next_slot (d_fetch ?d), d_post := next_slot (d_post ?d),
       d_phase := next_phase (d_post ?d) (d_phase ?d), d_disk := dsk, d_delay := k\<rparr>"
    by (auto simp: dev_completes_def ex)
  have ph: "d_phase ?d \<in> {0, 1}" and post: "d_post ?d < IO_QUEUE_SIZE"
    and len: "length (IO_CQ (nmem s)) = IO_QUEUE_SIZE" using s by (auto simp: nvme_armed_def)
  note tag = status_tag [OF dev_exec_status [of B cap buf "IO_SQ (nmem s) ! d_fetch ?d" "IO_BUF (nmem s)"
        "d_disk ?d", unfolded ex fst_conv] ph]
  define c where "c = (if d_post ?d + 1 = IO_QUEUE_SIZE
    then ?c\<lparr>io_cq_head := 0, io_phase := NOT (io_phase ?c) AND 1\<rparr> else ?c\<lparr>io_cq_head := d_post ?d + 1\<rparr>)"
  define s1 where "s1 = s\<lparr>nmem := m, hw := h, ctl := c\<rparr>"
  have head: "io_cq_head ?c = d_post ?d" "io_phase ?c = d_phase ?d" using s by (auto simp: nvme_armed_def)
  have c: "mmio_base c = base" "io_buf_phys c = buf" "io_cq_head c = next_slot (d_post ?d)"
    "io_phase c = next_phase (d_post ?d) (d_phase ?d)" "io_sq_tail c = io_sq_tail ?c"
    using s head by (simp_all add: c_def next_slot_def next_phase_def nvme_armed_def)
  obtain h' where h': "cq_doorbell D 1 (io_cq_head c) s1 = s1\<lparr>hw := h'\<rparr>" "V h' = V h"
    using conforms_doorbells(2) [OF conf, of s1 "io_cq_head c"] c(1) by (auto simp: s1_def)
  have "aget (IO_CQ m) (io_cq_head ?c) = Some e" using e post len head by (simp add: array_simps)
  then have poll: "poll_io D s = Some (if drop_bit 1 (status e) = 0 then Ok () else Err (status e), s1\<lparr>hw := h'\<rparr>)"
    using mh tag(1) h'(1) head
    by (subst poll_io.simps, cases "d_post ?d + 1 = IO_QUEUE_SIZE") (simp_all add: e(1) c_def s1_def)
  have "cq_tags m (next_slot (d_post ?d)) (next_phase (d_post ?d) (d_phase ?d))"
    unfolding e(2) using s tag(1) e(1) ph by (intro cq_tags_step) (auto simp: nvme_armed_def)
  moreover have "next_slot i < IO_QUEUE_SIZE" if "i < IO_QUEUE_SIZE" for i
    using that by (simp add: next_slot_def IO_QUEUE_SIZE_def)
  moreover have "length mem = 4096" "\<forall>n. length (dsk n) = B"
    using dev_exec_lengths [OF ex] s by (auto simp: nvme_armed_def)
  ultimately have "nvme_sync V base buf B (s1\<lparr>hw := h'\<rparr>)"
    using s tail next_phase_tag [OF ph] c h'(2) e(2,3)
    by (simp add: nvme_sync_def nvme_armed_def s1_def)
  with poll e h'(2) tag(2) show ?thesis by (auto simp: s1_def)
qed

text \<open>However long the device takes, the wait ends with its completion.\<close>

lemma poll_io_returns:
  assumes conf: "nvme_conforms D V base caph buf B cap" and s: "nvme_armed V base buf B s"
    and tail: "io_sq_tail (ctl s) = next_slot (d_fetch (V (hw s)))"
    and ex: "dev_exec B cap buf (IO_SQ (nmem s) ! d_fetch (V (hw s))) (IO_BUF (nmem s)) (d_disk (V (hw s))) =
      (st, mem, dsk)"
  shows "\<exists>s' r. poll_io D s = Some (r, s') \<and> nvme_sync V base buf B s' \<and> IO_BUF (nmem s') = mem \<and>
    d_disk (V (hw s')) = dsk \<and> (if st = 0 then r = Ok () else \<exists>e. r = Err e)"
  using s tail ex
proof (induction "d_delay (V (hw s))" arbitrary: s)
  case 0
  then show ?case using poll_io_completes [OF conf] by simp
next
  case (Suc n)
  let ?d = "V (hw s)"
  obtain m h where mh: "dma D (nmem s) (hw s) = (m, h)" by fastforce
  have "d_db ?d \<noteq> d_fetch ?d"
    using Suc.prems by (auto simp: nvme_armed_def next_slot_def IO_QUEUE_SIZE_def split: if_splits)
  then have h: "m = nmem s" "V h = ?d\<lparr>d_delay := n\<rparr>"
    using conf mh Suc.hyps(2) unfolding nvme_conforms_def by (metis fst_conv snd_conv zero_less_Suc diff_Suc_1)+
  have post: "io_cq_head (ctl s) < IO_QUEUE_SIZE" "length (IO_CQ (nmem s)) = IO_QUEUE_SIZE"
    "status (IO_CQ (nmem s) ! io_cq_head (ctl s)) AND 1 \<noteq> io_phase (ctl s)"
    using Suc.prems(1) by (auto simp: nvme_armed_def cq_tags_def)
  then have "poll_io D s = poll_io D (s\<lparr>hw := h\<rparr>)"
    using mh h(1) by (subst poll_io.simps) (simp add: array_simps)
  moreover have "nvme_armed V base buf B (s\<lparr>hw := h\<rparr>)"
    using Suc.prems(1) by (simp add: nvme_armed_def h)
  ultimately show ?case
    using Suc.hyps(1) [of "s\<lparr>hw := h\<rparr>"] Suc.prems(2,3) by (simp add: h)
qed

text \<open>A submitted command is executed once, by itself, and leaves both sides in step.\<close>

lemma submit_io_cmd_returns:
  assumes conf: "nvme_conforms D V base caph buf B cap" and s: "nvme_sync V base buf B s"
    and ex: "dev_exec B cap buf cmd (IO_BUF (nmem s)) (d_disk (V (hw s))) = (st, mem, dsk)"
  shows "\<exists>s' r. submit_io_cmd D cmd s = Some (r, s') \<and> nvme_sync V base buf B s' \<and> IO_BUF (nmem s') = mem \<and>
    d_disk (V (hw s')) = dsk \<and> (if st = 0 then r = Ok () else \<exists>e. r = Err e)"
proof -
  let ?t = "d_fetch (V (hw s))"
  have t: "io_sq_tail (ctl s) = ?t" "?t < IO_QUEUE_SIZE" "length (IO_SQ (nmem s)) = IO_QUEUE_SIZE"
    "mmio_base (ctl s) = base" using s by (auto simp: nvme_sync_def nvme_armed_def)
  define s1 where "s1 = s\<lparr>nmem := (nmem s)\<lparr>IO_SQ := (IO_SQ (nmem s))[?t := cmd]\<rparr>,
    ctl := (ctl s)\<lparr>io_sq_tail := next_slot ?t\<rparr>\<rparr>"
  obtain h k where h: "sq_doorbell D 1 (next_slot ?t) s1 = s1\<lparr>hw := h\<rparr>"
    "V h = (V (hw s))\<lparr>d_db := unat (of_nat (next_slot ?t) :: u32), d_delay := k\<rparr>"
    using conforms_doorbells(1) [OF conf, of s1 "next_slot ?t"] t(4) by (auto simp: s1_def)
  have "next_slot ?t < 64" using t(2) by (auto simp: next_slot_def IO_QUEUE_SIZE_def)
  then have db: "unat (of_nat (next_slot ?t) :: u32) = next_slot ?t" by (simp add: unat_of_nat take_bit_nat_def)
  have "submit_io_cmd D cmd s = poll_io D (s1\<lparr>hw := h\<rparr>)"
    using t h(1)
    by (cases "?t + 1 = IO_QUEUE_SIZE") (simp_all add: submit_io_cmd_def array_simps s1_def next_slot_def)
  moreover have "nvme_armed V base buf B (s1\<lparr>hw := h\<rparr>)"
    using s h(2) db by (simp add: nvme_sync_def nvme_armed_def s1_def cq_tags_def)
  ultimately show ?thesis
    using poll_io_returns [OF conf, of "s1\<lparr>hw := h\<rparr>" st mem dsk] ex t by (simp add: h(2) s1_def)
qed

subsection \<open>The block operations on a conforming device\<close>

lemma cmd_lba_rw: "cmd_lba (rw_cmd op buf lba) = unat lba"
proof -
  have "lba AND 0xFFFFFFFF = take_bit 32 lba"
    by (simp add: take_bit_eq_mask mask_eq_exp_minus_1)
  then have "unat (ucast (lba AND 0xFFFFFFFF) :: u32) = unat lba mod 2 ^ 32"
    by (simp add: unsigned_ucast_eq unsigned_take_bit_eq take_bit_eq_mod unat_mod_distrib)
  moreover have "unat lba < 2 ^ 64" using unsigned_less [of lba] by simp
  then have "unat (ucast (drop_bit 32 lba) :: u32) = unat lba div 2 ^ 32"
    by (simp add: unsigned_ucast_eq unsigned_take_bit_eq unsigned_drop_bit_eq take_bit_eq_mod drop_bit_eq_div
        less_mult_imp_div_less unat_div_distrib)
  ultimately show ?thesis by (simp add: cmd_lba_def rw_cmd_def)
qed

lemma write_block_returns:
  assumes "nvme_conforms D V base caph buf B cap" "nvme_sync V base buf B s" "length data \<le> 4096"
  shows "\<exists>r s'. write_block D lba data s = Some (r, s') \<and> nvme_sync V base buf B s' \<and>
    (if unat lba < cap
     then r = Ok () \<and> d_disk (V (hw s')) = (d_disk (V (hw s)))(unat lba := take B (pad_block data))
     else (\<exists>e. r = Err e) \<and> d_disk (V (hw s')) = d_disk (V (hw s)))"
proof -
  let ?s = "s\<lparr>nmem := (nmem s)\<lparr>IO_BUF := pad_block data\<rparr>\<rparr>"
  have sync: "nvme_sync V base buf B ?s"
    using assms(2,3) by (simp add: nvme_sync_def nvme_armed_def cq_tags_def)
  have w: "write_block D lba data s = submit_io_cmd D (rw_cmd 1 (io_buf_phys (ctl s)) lba) ?s"
    using assms(3) by (simp add: write_block_def pad_block_def Let_def)
  have b: "io_buf_phys (ctl s) = buf" using assms(2) by (simp add: nvme_sync_def nvme_armed_def)
  have ex: "dev_exec B cap buf (rw_cmd 1 buf lba) (pad_block data) (d_disk (V (hw s))) =
      (if unat lba < cap then (0, pad_block data, (d_disk (V (hw s)))(unat lba := take B (pad_block data)))
       else (0x80, pad_block data, d_disk (V (hw s))))"
    by (simp add: dev_exec_def cmd_lba_rw) (simp add: rw_cmd_def NvmeCmd_empty_def)
  show ?thesis
    using submit_io_cmd_returns [OF assms(1) sync, of "rw_cmd 1 buf lba"] ex
    by (cases "unat lba < cap") (force simp: w b)+
qed

lemma read_block_returns:
  assumes "nvme_conforms D V base caph buf B cap" "nvme_sync V base buf B s"
  shows "\<exists>r s'. read_block D lba s = Some (r, s') \<and> nvme_sync V base buf B s' \<and>
    d_disk (V (hw s')) = d_disk (V (hw s)) \<and>
    (if unat lba < cap then r = Ok (d_disk (V (hw s)) (unat lba) @ replicate (4096 - B) 0) else \<exists>e. r = Err e)"
proof -
  let ?s = "s\<lparr>nmem := (nmem s)\<lparr>IO_BUF := replicate 4096 0\<rparr>\<rparr>"
  have sync: "nvme_sync V base buf B ?s"
    using assms(2) by (simp add: nvme_sync_def nvme_armed_def cq_tags_def)
  have b: "io_buf_phys (ctl s) = buf" "length (d_disk (V (hw s)) (unat lba)) = B" "B \<le> 4096"
    using assms(2) by (simp_all add: nvme_sync_def nvme_armed_def)
  have ex: "dev_exec B cap buf (rw_cmd 2 buf lba) (replicate 4096 0) (d_disk (V (hw s))) =
      (if unat lba < cap then (0, d_disk (V (hw s)) (unat lba) @ replicate (4096 - B) 0, d_disk (V (hw s)))
       else (0x80, replicate 4096 0, d_disk (V (hw s))))"
    by (simp add: dev_exec_def cmd_lba_rw) (simp add: rw_cmd_def NvmeCmd_empty_def)
  have "\<exists>s' r. submit_io_cmd D (rw_cmd 2 buf lba) ?s = Some (r, s') \<and> nvme_sync V base buf B s' \<and>
      d_disk (V (hw s')) = d_disk (V (hw s)) \<and>
      (if unat lba < cap then r = Ok () \<and> IO_BUF (nmem s') = d_disk (V (hw s)) (unat lba) @ replicate (4096 - B) 0
       else \<exists>e. r = Err e)"
    using submit_io_cmd_returns [OF assms(1) sync, of "rw_cmd 2 buf lba"] ex
    by (cases "unat lba < cap") force+
  then show ?thesis
    using b by (cases "unat lba < cap") (force simp: read_block_def array_simps)+
qed

text \<open>A drive formatted with 4096-byte sectors is the block device the file system expects.\<close>

lemma nvme_block_device:
  assumes "nvme_conforms D V base caph buf 4096 cap"
  shows "block_device (read_block D) (write_block D) (nvme_sync V base buf 4096) (\<lambda>s. d_disk (V (hw s))) cap"
proof
  fix s lba assume "nvme_sync V base buf 4096 s"
  from read_block_returns [OF assms this, of lba]
  show "\<exists>r s'. read_block D lba s = Some (r, s') \<and> nvme_sync V base buf 4096 s' \<and>
      d_disk (V (hw s')) = d_disk (V (hw s)) \<and>
      (if unat lba < cap then r = Ok (d_disk (V (hw s)) (unat lba)) else \<exists>e. r = Err e)"
    by (simp only: diff_self_eq_0 replicate_0 append_Nil2)
next
  fix s data lba assume s: "nvme_sync V base buf 4096 s" "length (data :: bytes) \<le> 4096"
  then have "take 4096 (pad_block data) = pad_block data" by simp
  with write_block_returns [OF assms s, of lba]
  show "\<exists>r s'. write_block D lba data s = Some (r, s') \<and> nvme_sync V base buf 4096 s' \<and>
      (if unat lba < cap
       then r = Ok () \<and> d_disk (V (hw s')) = (d_disk (V (hw s)))(unat lba := pad_block data)
       else (\<exists>e. r = Err e) \<and> d_disk (V (hw s')) = d_disk (V (hw s)))" by (simp only:)
qed (simp add: nvme_sync_def nvme_armed_def)

subsection \<open>A reference device\<close>

text \<open>A device that takes one extra access per command, with its registers at \<open>0x1000\<close>.\<close>

definition ref_dma :: "nat \<Rightarrow> nat \<Rightarrow> u64 \<Rightarrow> nvme_mem \<Rightarrow> nvme_dev \<Rightarrow> nvme_mem \<times> nvme_dev" where
  "ref_dma B cap buf m d =
     (if d_db d = d_fetch d then (m, d)
      else if 0 < d_delay d then (m, d\<lparr>d_delay := d_delay d - 1\<rparr>)
      else let (st, mem, dsk) = dev_exec B cap buf (IO_SQ m ! d_fetch d) (IO_BUF m) (d_disk d) in
        (m\<lparr>IO_BUF := mem, IO_CQ := (IO_CQ m)[d_post d := NvmeComp_empty\<lparr>status := push_bit 1 st OR d_phase d\<rparr>]\<rparr>,
         d\<lparr>d_fetch := next_slot (d_fetch d), d_post := next_slot (d_post d),
           d_phase := next_phase (d_post d) (d_phase d), d_disk := dsk\<rparr>))"

definition ref_hw :: "nat \<Rightarrow> nat \<Rightarrow> u64 \<Rightarrow> nvme_dev nvme_hw" where
  "ref_hw B cap buf = \<lparr>mmio_read = \<lambda>a d. (0, d),
     mmio_write = \<lambda>a v d. if a = sq1_addr 0x1000 0 then d\<lparr>d_db := unat v, d_delay := 1\<rparr> else d,
     dma = ref_dma B cap buf\<rparr>"

lemma ref_hw_conforms: "nvme_conforms (ref_hw B cap buf) (\<lambda>d. d) 0x1000 0 buf B cap"
proof -
  have c: "dev_completes B cap buf m d (fst (ref_dma B cap buf m d)) (snd (ref_dma B cap buf m d))"
    if "d_db d \<noteq> d_fetch d" "d_delay d = 0" for m d
    using that unfolding dev_completes_def ref_dma_def
    by (auto simp: Let_def split: prod.splits intro!: exI [of _ "NvmeComp_empty\<lparr>status := _\<rparr>"] exI [of _ 0])
  show ?thesis
    unfolding nvme_conforms_def ref_hw_def
    by (auto simp: sq1_addr_def cq1_addr_def c) (auto simp: ref_dma_def)
qed

definition ref_state :: "nat \<Rightarrow> u64 \<Rightarrow> nvme_dev nvme" where
  "ref_state B buf = \<lparr>ctl = (NvmeController_new 0x1000)\<lparr>io_buf_phys := buf\<rparr>, nmem = nvme_mem_init,
     hw = \<lparr>d_fetch = 0, d_db = 0, d_post = 0, d_phase = 1, d_delay = 0, d_disk = \<lambda>_. replicate B 0\<rparr>\<rparr>"

lemma ref_state_sync: "B \<le> 4096 \<Longrightarrow> nvme_sync (\<lambda>d. d) 0x1000 buf B (ref_state B buf)"
  by (simp add: nvme_sync_def nvme_armed_def ref_state_def NvmeController_new_def nvme_mem_init_def
      IO_QUEUE_SIZE_def cq_tags_def NvmeComp_empty_def)

interpretation ref: block_device "read_block (ref_hw 4096 cap buf)" "write_block (ref_hw 4096 cap buf)"
  "nvme_sync (\<lambda>d. d) 0x1000 buf 4096" "\<lambda>s. d_disk (hw s)" cap
  for cap buf by (rule nvme_block_device [OF ref_hw_conforms])

subsection \<open>Properties of the driver\<close>

datatype block_op = ReadBlock u64 | WriteBlock u64 bytes

text \<open>A sequence of calls on the driver with the data each read returns (\<open>None\<close> for an error), and the same on
  an array of \<open>cap\<close> sectors of \<open>B\<close> bytes.\<close>

fun run_ops :: "'h nvme_hw \<Rightarrow> block_op list \<Rightarrow> 'h nvme \<Rightarrow> (bytes option list \<times> 'h nvme) option" where
  "run_ops D [] s = Some ([], s)"
| "run_ops D (ReadBlock lba # ops) s = do {
     (r, s1) \<leftarrow> read_block D lba s;
     (outs, s2) \<leftarrow> run_ops D ops s1;
     Some ((case r of Err _ \<Rightarrow> None | Ok data \<Rightarrow> Some data) # outs, s2) }"
| "run_ops D (WriteBlock lba data # ops) s = do {
     (r, s1) \<leftarrow> write_block D lba data s;
     (outs, s2) \<leftarrow> run_ops D ops s1;
     Some ((case r of Err _ \<Rightarrow> None | Ok _ \<Rightarrow> Some []) # outs, s2) }"

fun disk_ops :: "nat \<Rightarrow> nat \<Rightarrow> block_op list \<Rightarrow> (nat \<Rightarrow> bytes) \<Rightarrow> bytes option list" where
  "disk_ops B cap [] dsk = []"
| "disk_ops B cap (ReadBlock lba # ops) dsk =
     (if unat lba < cap then Some (dsk (unat lba) @ replicate (4096 - B) 0) else None) # disk_ops B cap ops dsk"
| "disk_ops B cap (WriteBlock lba data # ops) dsk =
     (if length data \<le> 4096 \<and> unat lba < cap
      then Some [] # disk_ops B cap ops (dsk(unat lba := take B (pad_block data)))
      else None # disk_ops B cap ops dsk)"

lemma run_ops_ok:
  assumes "nvme_conforms D V base caph buf B cap" "nvme_sync V base buf B s"
  shows "\<exists>s'. run_ops D ops s = Some (disk_ops B cap ops (d_disk (V (hw s))), s') \<and> nvme_sync V base buf B s'"
  using assms(2)
proof (induction ops arbitrary: s)
  case (Cons op ops)
  show ?case
  proof (cases op)
    case (ReadBlock lba)
    from read_block_returns [OF assms(1) Cons.prems, of lba] obtain r s1
      where r: "read_block D lba s = Some (r, s1)" "nvme_sync V base buf B s1" "d_disk (V (hw s1)) = d_disk (V (hw s))"
        "if unat lba < cap then r = Ok (d_disk (V (hw s)) (unat lba) @ replicate (4096 - B) 0) else \<exists>e. r = Err e"
      by blast
    from Cons.IH [OF r(2)] r show ?thesis by (auto simp: ReadBlock split: if_splits)
  next
    case (WriteBlock lba data)
    show ?thesis
    proof (cases "length data \<le> 4096")
      case True
      from write_block_returns [OF assms(1) Cons.prems True, of lba] obtain r s1
        where r: "write_block D lba data s = Some (r, s1)" "nvme_sync V base buf B s1"
          "if unat lba < cap
           then r = Ok () \<and> d_disk (V (hw s1)) = (d_disk (V (hw s)))(unat lba := take B (pad_block data))
           else (\<exists>e. r = Err e) \<and> d_disk (V (hw s1)) = d_disk (V (hw s))"
        by blast
      from Cons.IH [OF r(2)] r True show ?thesis
        by (cases "unat lba < cap") (auto simp: WriteBlock simp del: fun_upd_apply)
    next
      case False
      with Cons.IH [OF Cons.prems] show ?thesis by (auto simp: WriteBlock write_block_def)
    qed
  qed
qed (use assms in simp)

text \<open>C3. Driver and device stay in step: on a conforming controller any sequence of block reads and writes, of
  any length (the queues wrap every 64 commands and the phase tag flips), always returns and gives
  the results of the same operations on an array of sectors.\<close>

theorem nvme_refines_disk:
  assumes "nvme_conforms D V base caph buf B cap" "nvme_sync V base buf B s"
  shows "\<exists>s'. run_ops D ops s = Some (disk_ops B cap ops (d_disk (V (hw s))), s') \<and> nvme_sync V base buf B s'"
  by (rule run_ops_ok [OF assms])

theorem nvme_refines_disk_witness:
  "\<exists>s'. run_ops (ref_hw 4096 8 0x5000) [WriteBlock 3 [1, 2, 3], ReadBlock 3, ReadBlock 9] (ref_state 4096 0x5000) =
     Some ([Some [], Some (pad_block [1, 2, 3]), None], s')"
  using nvme_refines_disk [OF ref_hw_conforms [of 4096 8 "0x5000"] ref_state_sync,
      of "[WriteBlock 3 [1, 2, 3], ReadBlock 3, ReadBlock 9]"]
  by (auto simp: pad_block_def)

text \<open>What a block write keeps: the driver sends every command with a count field of 0, that is, for one
  logical block, so reading a block back gives the first \<open>B\<close> bytes of what was written, where \<open>B\<close> is
  the sector size of the drive, and zeros after them. Only a drive with 4096-byte sectors keeps
  the whole block.\<close>

theorem nvme_write_read_back:
  assumes "nvme_conforms D V base caph buf B cap" "nvme_sync V base buf B s" "unat lba < cap"
    "length data \<le> 4096"
  shows "\<exists>s1 s2. write_block D lba data s = Some (Ok (), s1) \<and>
    read_block D lba s1 = Some (Ok (take B (pad_block data) @ replicate (4096 - B) 0), s2)"
proof -
  from write_block_returns [OF assms(1,2,4), of lba] assms(3) obtain s1
    where s1: "write_block D lba data s = Some (Ok (), s1)" "nvme_sync V base buf B s1"
      "d_disk (V (hw s1)) (unat lba) = take B (pad_block data)" by auto
  from read_block_returns [OF assms(1) s1(2), of lba] assms(3) s1 show ?thesis by auto
qed

text \<open>At 512-byte sectors a block of ones comes back as 512 ones and zeros.\<close>

theorem nvme_write_read_back_witness:
  "\<exists>s1 s2 got. write_block (ref_hw 512 8 0x5000) 2 (replicate 4096 1) (ref_state 512 0x5000) = Some (Ok (), s1) \<and>
     read_block (ref_hw 512 8 0x5000) 2 s1 = Some (Ok got, s2) \<and>
     got = replicate 512 1 @ replicate 3584 0 \<and> got \<noteq> replicate 4096 1"
proof -
  have "replicate 512 1 @ replicate 3584 0 \<noteq> replicate 4096 (1 :: u8)"
  proof
    assume "replicate 512 1 @ replicate 3584 0 = replicate 4096 (1 :: u8)"
    from arg_cong [OF this, of "\<lambda>xs. xs ! 512"] show False by (simp add: nth_append)
  qed
  with nvme_write_read_back [OF ref_hw_conforms [of 512 8 "0x5000"] ref_state_sync, of 2 "replicate 4096 1"]
  show ?thesis by (simp add: take_replicate)
qed

end
