(* ===== verification/Mdo_VM.thy ===== *)
theory Mdo_VM
  imports Rust_Prelude
begin

text \<open>
  The MDO virtual machine of \<^verbatim>\<open>kernel/src/mdo_vm.rs\<close>: the bounded stack of 32-byte values, the
  fetch-execute loop over the policy bytecode, an abstract machine over a list stack with a
  static disassembler, and the refinement between the two.
\<close>

subsection \<open>State\<close>

type_synonym hash = bytes

record MdoContext =
  requestor_id_hash :: hash
  action_hash :: hash
  owner_id_hash :: hash
  status :: u32

record MictStack =
  data :: "hash list"
  ptr :: nat

definition OP_PUSH_VAR :: u8 where "OP_PUSH_VAR = 0x10"
definition OP_PUSH_CONST_HASH :: u8 where "OP_PUSH_CONST_HASH = 0x11"
definition OP_EQ :: u8 where "OP_EQ = 0x20"
definition OP_NEQ :: u8 where "OP_NEQ = 0x21"
definition OP_ASSERT_OR_DISSONANCE :: u8 where "OP_ASSERT_OR_DISSONANCE = 0x30"
definition OP_HALT_OK :: u8 where "OP_HALT_OK = 0x3F"

definition VAR_REQUESTOR_ID :: u8 where "VAR_REQUESTOR_ID = 0x01"
definition VAR_ACTION :: u8 where "VAR_ACTION = 0x02"
definition VAR_OWNER_ID :: u8 where "VAR_OWNER_ID = 0x03"
definition VAR_STATUS :: u8 where "VAR_STATUS = 0x04"

lemmas opcode_defs = OP_PUSH_VAR_def OP_PUSH_CONST_HASH_def OP_EQ_def OP_NEQ_def
  OP_ASSERT_OR_DISSONANCE_def OP_HALT_OK_def
lemmas var_defs = VAR_REQUESTOR_ID_def VAR_ACTION_def VAR_OWNER_ID_def VAR_STATUS_def

subsection \<open>The fixed-size stack\<close>

definition MictStack_new :: MictStack where
  "MictStack_new = \<lparr>data = replicate 32 (replicate 32 0), ptr = 0\<rparr>"

definition push :: "MictStack \<Rightarrow> hash \<Rightarrow> (string, MictStack) result option" where
  "push s val =
     (if ptr s \<ge> 32 then Some (Err ''MDO-VM Stack Overflow'')
      else do {
        d \<leftarrow> aset (data s) (ptr s) val;
        Some (Ok (s\<lparr>data := d, ptr := ptr s + 1\<rparr>))
      })"

definition pop :: "MictStack \<Rightarrow> (string, hash \<times> MictStack) result option" where
  "pop s =
     (if ptr s = 0 then Some (Err ''MDO-VM Stack Underflow'')
      else do {
        v \<leftarrow> aget (data s) (ptr s - 1);
        Some (Ok (v, s\<lparr>ptr := ptr s - 1\<rparr>))
      })"

definition bool_value :: "bool \<Rightarrow> hash" where
  "bool_value b = (if b then (replicate 32 0)[0 := 1] else replicate 32 0)"

definition push_bool :: "MictStack \<Rightarrow> bool \<Rightarrow> (string, MictStack) result option" where
  "push_bool s b = push s (bool_value b)"

definition pop_bool :: "MictStack \<Rightarrow> (string, bool \<times> MictStack) result option" where
  "pop_bool s = do {
     r \<leftarrow> pop s;
     case r of Inl e \<Rightarrow> Some (Err e)
     | Inr (val, s') \<Rightarrow> do { b \<leftarrow> aget val 0; Some (Ok (b \<noteq> 0, s')) }
   }"

subsection \<open>The fetch-execute loop\<close>

text \<open>One iteration of the \<open>while\<close> loop either returns from the function or goes on with a
  new program counter and stack.\<close>

datatype vm_next = Stop "(u8, unit) result" | Next nat MictStack

definition var_value :: "MdoContext \<Rightarrow> u8 \<Rightarrow> hash option" where
  "var_value ctx var_id =
     (if var_id = VAR_REQUESTOR_ID then Some (requestor_id_hash ctx)
      else if var_id = VAR_ACTION then Some (action_hash ctx)
      else if var_id = VAR_OWNER_ID then Some (owner_id_hash ctx)
      else if var_id = VAR_STATUS then Some (to_le_bytes32 (status ctx) @ replicate 28 0)
      else None)"

definition vm_push :: "MictStack \<Rightarrow> hash \<Rightarrow> nat \<Rightarrow> vm_next option" where
  "vm_push st val pc' = do {
     r \<leftarrow> push st val;
     case r of Inl _ \<Rightarrow> Some (Stop (Err 0xFD)) | Inr st' \<Rightarrow> Some (Next pc' st')
   }"

definition vm_compare :: "MictStack \<Rightarrow> (hash \<Rightarrow> hash \<Rightarrow> bool) \<Rightarrow> nat \<Rightarrow> vm_next option" where
  "vm_compare st cmp pc' = do {
     ra \<leftarrow> pop st;
     case ra of Inl _ \<Rightarrow> Some (Stop (Err 0xFD))
     | Inr (a, st1) \<Rightarrow> do {
         rb \<leftarrow> pop st1;
         case rb of Inl _ \<Rightarrow> Some (Stop (Err 0xFD))
         | Inr (b, st2) \<Rightarrow> do {
             rp \<leftarrow> push_bool st2 (cmp a b);
             case rp of Inl _ \<Rightarrow> Some (Stop (Err 0xFD)) | Inr st3 \<Rightarrow> Some (Next pc' st3)
           }
       }
   }"

definition vm_step :: "bytes \<Rightarrow> MdoContext \<Rightarrow> nat \<Rightarrow> MictStack \<Rightarrow> vm_next option" where
  "vm_step bytecode ctx pc st = do {
     op \<leftarrow> aget bytecode pc;
     if op = OP_PUSH_VAR then
       (if pc + 1 \<ge> length bytecode then Some (Stop (Err 0xFF))
        else do {
          var_id \<leftarrow> aget bytecode (pc + 1);
          case var_value ctx var_id of None \<Rightarrow> Some (Stop (Err 0xFE))
          | Some val \<Rightarrow> vm_push st val (pc + 2)
        })
     else if op = OP_PUSH_CONST_HASH then
       (if pc + 32 \<ge> length bytecode then Some (Stop (Err 0xFF))
        else do {
          hash \<leftarrow> slice bytecode (pc + 1) (pc + 33);
          vm_push st hash (pc + 33)
        })
     else if op = OP_EQ then vm_compare st (=) (pc + 1)
     else if op = OP_NEQ then vm_compare st (\<noteq>) (pc + 1)
     else if op = OP_ASSERT_OR_DISSONANCE then
       (if pc + 1 \<ge> length bytecode then Some (Stop (Err 0xFF))
        else do {
          error_code \<leftarrow> aget bytecode (pc + 1);
          rc \<leftarrow> pop_bool st;
          case rc of Inl _ \<Rightarrow> Some (Stop (Err 0xFD))
          | Inr (condition, st') \<Rightarrow>
              if \<not> condition then Some (Stop (Err error_code)) else Some (Next (pc + 2) st')
        })
     else if op = OP_HALT_OK then Some (Stop (Ok ()))
     else Some (Stop (Err 0xFC))
   }"

lemma vm_push_Next: "vm_push st v q = Some (Next pc' st') \<Longrightarrow> pc' = q"
  by (auto simp: vm_push_def split: bind_splits sum.splits)

lemma vm_compare_Next: "vm_compare st f q = Some (Next pc' st') \<Longrightarrow> pc' = q"
  by (auto simp: vm_compare_def split: bind_splits sum.splits prod.splits)

lemma vm_step_advances: "vm_step bc ctx pc st = Some (Next pc' st') \<Longrightarrow> pc < pc'"
  by (auto simp: vm_step_def
      split: if_splits bind_splits option.splits sum.splits prod.splits
      dest!: vm_push_Next vm_compare_Next)

function exec_loop :: "bytes \<Rightarrow> MdoContext \<Rightarrow> nat \<Rightarrow> MictStack \<Rightarrow> (u8, unit) result option" where
  "exec_loop bytecode ctx pc st =
     (if pc < length bytecode then
        (case vm_step bytecode ctx pc st of
           None \<Rightarrow> None
         | Some (Stop r) \<Rightarrow> Some r
         | Some (Next pc' st') \<Rightarrow> exec_loop bytecode ctx pc' st')
      else Some (Err 0xFB))"
  by pat_completeness auto
termination
  by (relation "measure (\<lambda>(bc, ctx, pc, st). length bc - pc)")
    (auto dest: vm_step_advances)

declare exec_loop.simps [simp del]

definition execute_mict_check :: "bytes \<Rightarrow> MdoContext \<Rightarrow> (u8, unit) result option" where
  "execute_mict_check bytecode ctx = exec_loop bytecode ctx 0 MictStack_new"


subsection \<open>The stack contract\<close>

text \<open>What the machine relies on: a stack of bounded depth, seen as a list with its top first.
  Both operations report the boundary cases as errors and never panic.\<close>

locale bounded_stack =
  fixes inv :: "'s \<Rightarrow> bool"
    and abs :: "'s \<Rightarrow> 'v list"
    and cap :: nat
    and psh :: "'s \<Rightarrow> 'v \<Rightarrow> ('e, 's) result option"
    and pp :: "'s \<Rightarrow> ('e, 'v \<times> 's) result option"
  assumes depth: "inv s \<Longrightarrow> length (abs s) \<le> cap"
    and push_room: "inv s \<Longrightarrow> length (abs s) < cap \<Longrightarrow>
          \<exists>s'. psh s v = Some (Inr s') \<and> inv s' \<and> abs s' = v # abs s"
    and push_full: "inv s \<Longrightarrow> length (abs s) = cap \<Longrightarrow> \<exists>e. psh s v = Some (Inl e)"
    and pop_top: "inv s \<Longrightarrow> abs s = v # vs \<Longrightarrow>
          \<exists>s'. pp s = Some (Inr (v, s')) \<and> inv s' \<and> abs s' = vs"
    and pop_none: "inv s \<Longrightarrow> abs s = [] \<Longrightarrow> \<exists>e. pp s = Some (Inl e)"
begin

lemma push_cases:
  assumes "inv s"
  obtains e where "length (abs s) = cap" "psh s v = Some (Inl e)"
  | s' where "length (abs s) < cap" "psh s v = Some (Inr s')" "inv s'" "abs s' = v # abs s"
  using assms depth push_room [OF assms, of v] push_full [OF assms, of v]
  by (metis order_le_less)

lemma pop_cases:
  assumes "inv s"
  obtains e where "abs s = []" "pp s = Some (Inl e)"
  | v s' where "abs s = v # abs s'" "pp s = Some (Inr (v, s'))" "inv s'"
  using assms pop_top [OF assms] pop_none [OF assms] by (metis list.exhaust)

lemma pop_after_push:
  assumes "inv s" "psh s v = Some (Inr s')"
  shows "\<exists>s''. pp s' = Some (Inr (v, s'')) \<and> inv s'' \<and> abs s'' = abs s"
proof -
  from assms(1) have "inv s' \<and> abs s' = v # abs s"
    using assms(2) by (cases rule: push_cases [of s v]) auto
  then show ?thesis using pop_top by blast
qed

end

definition stack_inv :: "MictStack \<Rightarrow> bool" where
  "stack_inv s \<longleftrightarrow> length (data s) = 32 \<and> ptr s \<le> 32"

definition stack_abs :: "MictStack \<Rightarrow> hash list" where
  "stack_abs s = rev (take (ptr s) (data s))"

interpretation ms: bounded_stack stack_inv stack_abs 32 push pop
proof unfold_locales
  fix s :: MictStack and v :: hash and vs :: "hash list"
  assume inv: "stack_inv s"
  show "length (stack_abs s) \<le> 32"
    using inv by (simp add: stack_inv_def stack_abs_def)
  show "length (stack_abs s) < 32 \<Longrightarrow>
      \<exists>s'. push s v = Some (Inr s') \<and> stack_inv s' \<and> stack_abs s' = v # stack_abs s"
    using inv by (simp add: stack_inv_def stack_abs_def push_def array_simps take_Suc_conv_app_nth)
  show "length (stack_abs s) = 32 \<Longrightarrow> \<exists>e. push s v = Some (Inl e)"
    using inv by (simp add: stack_inv_def stack_abs_def push_def)
  show "stack_abs s = [] \<Longrightarrow> \<exists>e. pop s = Some (Inl e)"
    using inv by (auto simp: stack_inv_def stack_abs_def pop_def)
  show "\<exists>s'. pop s = Some (Inr (v, s')) \<and> stack_inv s' \<and> stack_abs s' = vs"
    if top: "stack_abs s = v # vs"
  proof -
    from top have p: "0 < ptr s" by (cases "ptr s") (auto simp: stack_abs_def)
    then obtain k where k: "ptr s = Suc k" using gr0_implies_Suc by blast
    with inv have "take (ptr s) (data s) = take k (data s) @ [data s ! k]"
      by (simp add: stack_inv_def take_Suc_conv_app_nth)
    with top k inv show ?thesis
      by (auto simp: stack_inv_def stack_abs_def pop_def array_simps rev_swap)
  qed
qed

lemma stack_new [simp]: "stack_inv MictStack_new" "stack_abs MictStack_new = []"
  by (simp_all add: stack_inv_def stack_abs_def MictStack_new_def)

subsection \<open>The abstract machine\<close>

text \<open>Instructions as data, with \<open>ITrap\<close> for a byte sequence that no instruction encodes, and a
  machine over a list stack.\<close>

datatype instr = IPushVar u8 | IPushConst hash | IEq | INeq | IAssert u8 | IHalt | ITrap u8

definition is_true :: "hash \<Rightarrow> bool" where
  "is_true v \<longleftrightarrow> v ! 0 \<noteq> 0"

fun spec_step :: "MdoContext \<Rightarrow> instr \<Rightarrow> hash list \<Rightarrow> (u8, hash list) result" where
  "spec_step ctx (IPushVar x) stk =
     (case var_value ctx x of None \<Rightarrow> Err 0xFE
      | Some v \<Rightarrow> if length stk < 32 then Ok (v # stk) else Err 0xFD)"
| "spec_step ctx (IPushConst v) stk = (if length stk < 32 then Ok (v # stk) else Err 0xFD)"
| "spec_step ctx IEq (a # b # stk) = Ok (bool_value (a = b) # stk)"
| "spec_step ctx INeq (a # b # stk) = Ok (bool_value (a \<noteq> b) # stk)"
| "spec_step ctx (IAssert e) (v # stk) = (if is_true v then Ok stk else Err e)"
| "spec_step ctx (ITrap e) stk = Err e"
| "spec_step ctx IHalt stk = Ok stk"
| "spec_step ctx _ stk = Err 0xFD"

fun spec_run :: "MdoContext \<Rightarrow> instr list \<Rightarrow> hash list \<Rightarrow> (u8, unit) result" where
  "spec_run ctx [] stk = Err 0xFB"
| "spec_run ctx (i # is) stk =
     (if i = IHalt then Ok ()
      else case spec_step ctx i stk of Inl e \<Rightarrow> Err e | Inr stk' \<Rightarrow> spec_run ctx is stk')"

fun spec_exec :: "MdoContext \<Rightarrow> instr list \<Rightarrow> hash list \<Rightarrow> (u8, hash list) result" where
  "spec_exec ctx [] stk = Ok stk"
| "spec_exec ctx (i # is) stk =
     (case spec_step ctx i stk of Inl e \<Rightarrow> Err e | Inr stk' \<Rightarrow> spec_exec ctx is stk')"

function disasm :: "bytes \<Rightarrow> instr list" where
  "disasm [] = []"
| "disasm (op # rest) =
     (if op = OP_PUSH_VAR then
        (case rest of [] \<Rightarrow> [ITrap 0xFF] | x # r \<Rightarrow> IPushVar x # disasm r)
      else if op = OP_PUSH_CONST_HASH then
        (if length rest < 32 then [ITrap 0xFF]
         else IPushConst (take 32 rest) # disasm (drop 32 rest))
      else if op = OP_EQ then IEq # disasm rest
      else if op = OP_NEQ then INeq # disasm rest
      else if op = OP_ASSERT_OR_DISSONANCE then
        (case rest of [] \<Rightarrow> [ITrap 0xFF] | e # r \<Rightarrow> IAssert e # disasm r)
      else if op = OP_HALT_OK then [IHalt]
      else [ITrap 0xFC])"
  by pat_completeness auto
termination
  by (relation "measure length") auto

fun encode :: "instr \<Rightarrow> bytes" where
  "encode (IPushVar x) = [OP_PUSH_VAR, x]"
| "encode (IPushConst v) = OP_PUSH_CONST_HASH # v"
| "encode IEq = [OP_EQ]"
| "encode INeq = [OP_NEQ]"
| "encode (IAssert e) = [OP_ASSERT_OR_DISSONANCE, e]"
| "encode IHalt = [OP_HALT_OK]"
| "encode (ITrap e) = []"

fun encodable :: "instr \<Rightarrow> bool" where
  "encodable (IPushConst v) = (length v = 32)"
| "encodable (ITrap e) = False"
| "encodable _ = True"

definition assemble :: "instr list \<Rightarrow> bytes" where
  "assemble is = concat (map encode is)"

text \<open>Contexts are made of fixed-size arrays.\<close>

definition ctx_wf :: "MdoContext \<Rightarrow> bool" where
  "ctx_wf ctx \<longleftrightarrow> length (requestor_id_hash ctx) = 32 \<and> length (action_hash ctx) = 32 \<and>
     length (owner_id_hash ctx) = 32"

text \<open>Every value on the stack is a 32-byte array.\<close>

definition stk_wf :: "hash list \<Rightarrow> bool" where
  "stk_wf stk \<longleftrightarrow> (\<forall>v \<in> set stk. length v = 32)"

lemma length_bool_value [simp]: "length (bool_value b) = 32"
  by (simp add: bool_value_def)

lemma is_true_bool_value [simp]: "is_true (bool_value b) = b"
  by (simp add: is_true_def bool_value_def)

lemma var_value_length: "ctx_wf ctx \<Longrightarrow> var_value ctx x = Some v \<Longrightarrow> length v = 32"
  by (auto simp: var_value_def ctx_wf_def split: if_splits)

lemma stk_wf_simps [simp]: "stk_wf []" "stk_wf (v # stk) \<longleftrightarrow> length v = 32 \<and> stk_wf stk"
  by (auto simp: stk_wf_def)


subsection \<open>Refinement: the byte-level loop runs the disassembled program\<close>

text \<open>\<open>sim ctx rest stk n\<close>: the outcome \<open>n\<close> of one iteration agrees with the abstract machine
  on the remaining bytes \<open>rest\<close> of the program \<open>bc\<close> and the abstract stack \<open>stk\<close>.\<close>

definition sim :: "bytes \<Rightarrow> MdoContext \<Rightarrow> bytes \<Rightarrow> hash list \<Rightarrow> vm_next option \<Rightarrow> bool" where
  "sim bc ctx rest stk n \<longleftrightarrow> (case n of None \<Rightarrow> False
     | Some (Stop r) \<Rightarrow> spec_run ctx (disasm rest) stk = r
     | Some (Next pc' st') \<Rightarrow> stack_inv st' \<and> stk_wf (stack_abs st') \<and>
         spec_run ctx (disasm rest) stk = spec_run ctx (disasm (drop pc' bc)) (stack_abs st'))"

lemma vm_push_sim:
  assumes "stack_inv st" "stk_wf (stack_abs st)" "length v = 32"
    and "spec_run ctx (disasm rest) (stack_abs st) =
      (if length (stack_abs st) < 32
       then spec_run ctx (disasm (drop q bc)) (v # stack_abs st) else Err 0xFD)"
  shows "sim bc ctx rest (stack_abs st) (vm_push st v q)"
  using assms(1)
  by (cases rule: ms.push_cases [of st v]) (use assms in \<open>auto simp: sim_def vm_push_def\<close>)

lemma vm_compare_sim:
  assumes inv: "stack_inv st" and wf: "stk_wf (stack_abs st)"
    and two: "\<And>a b stk. stack_abs st = a # b # stk \<Longrightarrow> spec_run ctx (disasm rest) (stack_abs st) =
      spec_run ctx (disasm (drop q bc)) (bool_value (cmp a b) # stk)"
    and few: "length (stack_abs st) < 2 \<Longrightarrow> spec_run ctx (disasm rest) (stack_abs st) = Err 0xFD"
  shows "sim bc ctx rest (stack_abs st) (vm_compare st cmp q)"
  using inv
proof (cases rule: ms.pop_cases [of st])
  case (1 e)
  with few show ?thesis by (simp add: sim_def vm_compare_def)
next
  case 2: (2 a st1)
  from \<open>stack_inv st1\<close> show ?thesis
  proof (cases rule: ms.pop_cases [of st1])
    case (1 e)
    with 2 few show ?thesis by (simp add: sim_def vm_compare_def)
  next
    case 3: (2 b st2)
    have "length (stack_abs st2) < 32"
      using ms.depth [OF inv] 2 3 by simp
    with 3 obtain st3 where "push st2 (bool_value (cmp a b)) = Some (Inr st3)" "stack_inv st3"
      "stack_abs st3 = bool_value (cmp a b) # stack_abs st2"
      using ms.push_room by blast
    with 2 3 wf two show ?thesis
      by (simp add: sim_def vm_compare_def push_bool_def)
  qed
qed

lemma vm_assert_sim:
  assumes inv: "stack_inv st" and wf: "stk_wf (stack_abs st)"
    and top: "\<And>v stk. stack_abs st = v # stk \<Longrightarrow> spec_run ctx (disasm rest) (stack_abs st) =
      (if is_true v then spec_run ctx (disasm (drop q bc)) stk else Err e)"
    and none: "stack_abs st = [] \<Longrightarrow> spec_run ctx (disasm rest) (stack_abs st) = Err 0xFD"
  shows "sim bc ctx rest (stack_abs st)
    (do { rc \<leftarrow> pop_bool st;
          case rc of Inl _ \<Rightarrow> Some (Stop (Err 0xFD))
          | Inr (c, st') \<Rightarrow> if \<not> c then Some (Stop (Err e)) else Some (Next q st') })"
  using inv
  by (cases rule: ms.pop_cases [of st])
    (use wf top none in \<open>auto simp: sim_def pop_bool_def is_true_def aget_in\<close>)

lemma drop_nth: "pc < length bc \<Longrightarrow> drop pc bc = bc ! pc # drop (Suc pc) bc"
  by (simp add: Cons_nth_drop_Suc)

lemma vm_step_sim:
  assumes "stack_inv st" "stk_wf (stack_abs st)" "ctx_wf ctx" "pc < length bc"
  shows "sim bc ctx (drop pc bc) (stack_abs st) (vm_step bc ctx pc st)"
proof -
  let ?op = "bc ! pc"
  have d: "drop pc bc = ?op # drop (Suc pc) bc" using assms(4) by (rule drop_nth)
  have two: "drop (Suc pc) bc = bc ! Suc pc # drop (pc + 2) bc" if "Suc pc < length bc"
    using that by (simp add: drop_nth)
  have stk: "length xs < 2 \<longleftrightarrow> xs = [] \<or> (\<exists>x. xs = [x])" for xs :: "hash list"
    by (cases xs; cases "tl xs") auto
  consider "?op = OP_PUSH_VAR" | "?op = OP_PUSH_CONST_HASH" | "?op = OP_EQ" | "?op = OP_NEQ"
    | "?op = OP_ASSERT_OR_DISSONANCE"
    | "?op \<notin> {OP_PUSH_VAR, OP_PUSH_CONST_HASH, OP_EQ, OP_NEQ, OP_ASSERT_OR_DISSONANCE}"
    by blast
  then show ?thesis
  proof cases
    case 1
    show ?thesis
    proof (cases "Suc pc < length bc")
      case True
      with 1 assms d two show ?thesis
        by (cases "var_value ctx (bc ! Suc pc)")
          (auto simp: vm_step_def array_simps sim_def [of _ _ _ _ "Some (Stop _)"]
            dest: var_value_length intro!: vm_push_sim)
    qed (use 1 assms d in \<open>simp add: vm_step_def array_simps sim_def\<close>)
  next
    case 2
    have ne: "OP_PUSH_CONST_HASH \<noteq> OP_PUSH_VAR" by (simp add: opcode_defs)
    show ?thesis
    proof (cases "pc + 32 < length bc")
      case True
      have "drop 32 (drop (Suc pc) bc) = drop (pc + 33) bc" by (simp add: add.commute)
      with True 2 ne assms d show ?thesis
        by (auto simp: vm_step_def array_simps intro!: vm_push_sim)
    qed (use 2 ne assms d in \<open>simp add: vm_step_def array_simps sim_def\<close>)
  next
    case 3
    with assms d show ?thesis
      by (auto simp: vm_step_def array_simps opcode_defs stk intro!: vm_compare_sim)
  next
    case 4
    with assms d show ?thesis
      by (auto simp: vm_step_def array_simps opcode_defs stk intro!: vm_compare_sim)
  next
    case 5
    show ?thesis
    proof (cases "Suc pc < length bc")
      case True
      with 5 assms d two show ?thesis
        by (simp add: vm_step_def array_simps opcode_defs) (rule vm_assert_sim, auto simp: opcode_defs)
    qed (use 5 assms d in \<open>simp add: vm_step_def array_simps sim_def opcode_defs\<close>)
  next
    case 6
    with assms d show ?thesis
      by (simp add: vm_step_def array_simps sim_def)
  qed
qed

lemma exec_loop_refines:
  "stack_inv st \<Longrightarrow> stk_wf (stack_abs st) \<Longrightarrow> ctx_wf ctx \<Longrightarrow>
   exec_loop bc ctx pc st = Some (spec_run ctx (disasm (drop pc bc)) (stack_abs st))"
proof (induction bc ctx pc st rule: exec_loop.induct)
  case (1 bc ctx pc st)
  show ?case
  proof (cases "pc < length bc")
    case True
    from vm_step_sim [OF 1(2,3,4) True] "1.IH" [OF True] "1.prems"(3) True show ?thesis
      by (auto simp: exec_loop.simps [of bc ctx pc st] sim_def split: option.splits vm_next.splits)
  next
    case False
    then show ?thesis by (simp add: exec_loop.simps [of bc ctx pc st])
  qed
qed

lemma execute_mict_check_refines:
  "ctx_wf ctx \<Longrightarrow> execute_mict_check bc ctx = Some (spec_run ctx (disasm bc) [])"
  by (simp add: execute_mict_check_def exec_loop_refines)

lemma disasm_assemble_append:
  assumes "\<forall>i \<in> set is. encodable i \<and> i \<noteq> IHalt"
  shows "disasm (assemble is @ rest) = is @ disasm rest"
  using assms
proof (induction "is")
  case (Cons i "is")
  then show ?case by (cases i) (auto simp: assemble_def opcode_defs)
qed (simp add: assemble_def)


text \<open>Case analysis on the first instruction of a program, and induction over its instructions.\<close>

lemma disasm_cases:
  obtains (empty) "bc = []" "disasm bc = []"
  | (trap) c where "disasm bc = [ITrap c]" "c = 0xFF \<or> c = 0xFC"
  | (halt) rest where "bc = OP_HALT_OK # rest" "disasm bc = [IHalt]"
  | (instr) i rest where "bc = encode i @ rest" "encodable i" "i \<noteq> IHalt"
      "disasm bc = i # disasm rest" "length rest < length bc"
proof (cases bc)
  case Nil
  then show ?thesis using empty by simp
next
  case (Cons op rest)
  consider "op = OP_PUSH_VAR" | "op = OP_PUSH_CONST_HASH" | "op = OP_EQ" | "op = OP_NEQ"
    | "op = OP_ASSERT_OR_DISSONANCE" | "op = OP_HALT_OK"
    | "op \<notin> {OP_PUSH_VAR, OP_PUSH_CONST_HASH, OP_EQ, OP_NEQ, OP_ASSERT_OR_DISSONANCE, OP_HALT_OK}"
    by blast
  then show ?thesis
  proof cases
    case 1
    with Cons show ?thesis
      by (cases rest) (auto intro: trap instr [of "IPushVar (hd rest)" "tl rest"])
  next
    case 2
    have ne: "OP_PUSH_CONST_HASH \<noteq> OP_PUSH_VAR" by (simp add: opcode_defs)
    show ?thesis
    proof (cases "length rest < 32")
      case True
      with 2 ne Cons show ?thesis by (intro trap [of "0xFF"]) simp_all
    next
      case False
      with 2 ne Cons show ?thesis
        by (intro instr [of "IPushConst (take 32 rest)" "drop 32 rest"]) simp_all
    qed
  next
    case 3
    with Cons show ?thesis by (intro instr [of IEq rest]) (simp_all add: opcode_defs)
  next
    case 4
    with Cons show ?thesis by (intro instr [of INeq rest]) (simp_all add: opcode_defs)
  next
    case 5
    with Cons show ?thesis
      by (cases rest) (auto simp: opcode_defs intro: trap instr [of "IAssert (hd rest)" "tl rest"])
  next
    case 6
    with Cons show ?thesis by (intro halt [of rest]) (simp_all add: opcode_defs)
  next
    case 7
    with Cons show ?thesis by (intro trap [of "0xFC"]) simp_all
  qed
qed

declare disasm.simps(2) [simp del]

lemma disasm_induct [case_names empty trap halt instr]:
  assumes "P []"
    and "\<And>bc c. disasm bc = [ITrap c] \<Longrightarrow> c = 0xFF \<or> c = 0xFC \<Longrightarrow> P bc"
    and "\<And>rest. disasm (OP_HALT_OK # rest) = [IHalt] \<Longrightarrow> P (OP_HALT_OK # rest)"
    and "\<And>i rest. encodable i \<Longrightarrow> i \<noteq> IHalt \<Longrightarrow> disasm (encode i @ rest) = i # disasm rest \<Longrightarrow>
      P rest \<Longrightarrow> P (encode i @ rest)"
  shows "P bc"
proof (induction bc rule: length_induct)
  case (1 bc)
  then show ?case by (cases bc rule: disasm_cases) (use assms in metis)+
qed

lemma disasm_instrs: "i \<in> set (disasm bc) \<Longrightarrow> encodable i \<or> i = ITrap 0xFF \<or> i = ITrap 0xFC"
  by (induction bc rule: disasm_induct) auto

text \<open>The bytes behind a disassembly: a halting prefix is exactly the encoding of its
  instructions followed by the halt opcode.\<close>

lemma disasm_halt:
  "disasm bc = is @ IHalt # js \<Longrightarrow> IHalt \<notin> set is \<Longrightarrow> \<exists>rest. bc = assemble is @ OP_HALT_OK # rest"
proof (induction bc arbitrary: "is" rule: disasm_induct)
  case (trap bc c)
  then show ?case by (cases "is") auto
next
  case (halt rest)
  then show ?case by (cases "is") (auto simp: assemble_def)
next
  case (instr i rest)
  then obtain ks where ks: "is = i # ks" "disasm rest = ks @ IHalt # js" "IHalt \<notin> set ks"
    by (cases "is") auto
  with instr.IH obtain r where "rest = assemble ks @ OP_HALT_OK # r" by blast
  with ks show ?case by (simp add: assemble_def)
qed simp

lemma spec_run_append:
  assumes "IHalt \<notin> set is"
  shows "spec_run ctx (is @ js) stk =
    (case spec_exec ctx is stk of Inl e \<Rightarrow> Err e | Inr stk' \<Rightarrow> spec_run ctx js stk')"
  using assms by (induction "is" arbitrary: stk) (auto split: sum.splits)

lemma spec_run_Ok:
  assumes "spec_run ctx prog stk = Ok ()"
  shows "\<exists>is js stk'. prog = is @ IHalt # js \<and> IHalt \<notin> set is \<and> (\<forall>e. ITrap e \<notin> set is) \<and>
    spec_exec ctx is stk = Ok stk'"
  using assms
proof (induction prog arbitrary: stk)
  case (Cons i prog)
  show ?case
  proof (cases "i = IHalt")
    case True
    then have "i # prog = [] @ IHalt # prog" by simp
    then show ?thesis by (metis empty_iff empty_set spec_exec.simps(1))
  next
    case False
    with Cons.prems obtain stk1 where s: "spec_step ctx i stk = Ok stk1" "spec_run ctx prog stk1 = Ok ()"
      by (auto split: sum.splits)
    from Cons.IH [OF s(2)] obtain "is" js stk' where
      "prog = is @ IHalt # js" "IHalt \<notin> set is" "\<forall>e. ITrap e \<notin> set is" "spec_exec ctx is stk1 = Ok stk'"
      by blast
    moreover from s(1) have "\<forall>e. i \<noteq> ITrap e" by auto
    ultimately show ?thesis using False s(1)
      by (intro exI [of _ "i # is"] exI [of _ js] exI [of _ stk']) auto
  qed
qed simp

lemma spec_step_Err:
  "spec_step ctx i stk = Err e \<Longrightarrow> e \<in> {0xFD, 0xFE} \<or> i = IAssert e \<or> i = ITrap e"
  by (induction ctx i stk rule: spec_step.induct) (auto split: option.splits if_splits)

lemma spec_run_Err:
  "spec_run ctx prog stk = Err e \<Longrightarrow>
   e \<in> {0xFB, 0xFD, 0xFE} \<or> IAssert e \<in> set prog \<or> ITrap e \<in> set prog"
  by (induction prog arbitrary: stk) (auto split: sum.splits if_splits dest: spec_step_Err)

lemma disasm_assert:
  "IAssert e \<in> set (disasm bc) \<Longrightarrow> \<exists>p q. bc = p @ OP_ASSERT_OR_DISSONANCE # e # q"
proof (induction bc rule: disasm_induct)
  case (instr i rest)
  show ?case
  proof (cases "i = IAssert e")
    case True
    then show ?thesis by (intro exI [of _ "[]"] exI [of _ rest]) simp
  next
    case False
    with instr obtain p q where "rest = p @ OP_ASSERT_OR_DISSONANCE # e # q" by auto
    then have "encode i @ rest = (encode i @ p) @ OP_ASSERT_OR_DISSONANCE # e # q" by simp
    then show ?thesis by blast
  qed
qed auto

text \<open>A policy that grants access to the owner only: push the requestor, push the owner, compare,
  assert, halt (the example of \<^verbatim>\<open>MDO_VM.md\<close>).\<close>

definition owner_policy :: "u8 \<Rightarrow> instr list" where
  "owner_policy code = [IPushVar VAR_REQUESTOR_ID, IPushVar VAR_OWNER_ID, IEq, IAssert code]"

lemma spec_exec_owner_policy:
  "spec_exec ctx (owner_policy code) [] =
     (if requestor_id_hash ctx = owner_id_hash ctx then Ok [] else Err code)"
  by (auto simp: owner_policy_def var_value_def var_defs)

lemma run_owner_policy:
  assumes "ctx_wf ctx"
  shows "execute_mict_check (assemble (owner_policy code) @ OP_HALT_OK # rest) ctx =
    Some (if requestor_id_hash ctx = owner_id_hash ctx then Ok () else Err code)"
proof -
  have "disasm (OP_HALT_OK # rest) = [IHalt]"
    by (simp add: disasm.simps opcode_defs)
  then have "disasm (assemble (owner_policy code) @ OP_HALT_OK # rest) = owner_policy code @ [IHalt]"
    by (subst disasm_assemble_append) (simp_all add: owner_policy_def)
  moreover have "IHalt \<notin> set (owner_policy code)" by (simp add: owner_policy_def)
  ultimately show ?thesis
    using assms by (simp add: execute_mict_check_refines spec_run_append spec_exec_owner_policy)
qed

definition demo_ctx :: MdoContext where
  "demo_ctx = \<lparr>requestor_id_hash = replicate 32 0xAA, action_hash = replicate 32 0,
     owner_id_hash = replicate 32 0xAA, status = 7\<rparr>"

lemma demo_ctx_wf: "ctx_wf demo_ctx"
  by (simp add: ctx_wf_def demo_ctx_def)

subsection \<open>Properties\<close>

text \<open>C18. For every bytecode whatsoever and every context made of 32-byte hashes the kernel's
  fetch-execute loop returns (it never panics on an index and never loops), and what it returns
  is what the abstract list-stack machine computes on the disassembly of the bytes.\<close>

theorem vm_refines_abstract_machine:
  assumes "ctx_wf ctx"
  shows "execute_mict_check bytecode ctx = Some (spec_run ctx (disasm bytecode) [])"
  using assms by (rule execute_mict_check_refines)

theorem vm_refines_abstract_machine_witness:
  "execute_mict_check [0x10, 4, 0x10, 4, 0x21, 0x30, 0x42, 0x3F] demo_ctx = Some (Err 0x42)"
  unfolding vm_refines_abstract_machine [OF demo_ctx_wf]
  by (simp add: disasm.simps opcode_defs demo_ctx_def var_value_def var_defs)

text \<open>C20. Access is granted exactly when the bytecode is the encoding of a run of instructions
  that all succeed (in particular every \<open>ASSERT\<close> among them pops a true value) followed by the
  halt opcode: running off the end, a truncated operand, an unknown opcode or variable and a
  stack fault all deny.\<close>

theorem vm_grants_iff:
  assumes "ctx_wf ctx"
  shows "execute_mict_check bytecode ctx = Some (Ok ()) \<longleftrightarrow>
    (\<exists>is rest stk. (\<forall>i \<in> set is. encodable i \<and> i \<noteq> IHalt) \<and>
       bytecode = assemble is @ OP_HALT_OK # rest \<and> spec_exec ctx is [] = Ok stk)"
    (is "?grant \<longleftrightarrow> ?run")
proof
  assume ?grant
  then have "spec_run ctx (disasm bytecode) [] = Ok ()"
    using assms by (simp add: execute_mict_check_refines)
  then obtain "is" js stk where "disasm bytecode = is @ IHalt # js" "IHalt \<notin> set is"
    "\<forall>e. ITrap e \<notin> set is" "spec_exec ctx is [] = Ok stk"
    using spec_run_Ok by blast
  moreover from this have "\<forall>i \<in> set is. encodable i \<and> i \<noteq> IHalt"
    using disasm_instrs [of _ bytecode] by auto
  ultimately show ?run using disasm_halt by metis
next
  assume ?run
  then obtain "is" rest stk where r: "\<forall>i \<in> set is. encodable i \<and> i \<noteq> IHalt"
    "bytecode = assemble is @ OP_HALT_OK # rest" "spec_exec ctx is [] = Ok stk" by blast
  have "disasm (OP_HALT_OK # rest) = [IHalt]" by (simp add: disasm.simps opcode_defs)
  with r have "disasm bytecode = is @ [IHalt]" by (simp add: disasm_assemble_append)
  moreover have "IHalt \<notin> set is" using r(1) by blast
  ultimately show ?grant using assms r(3)
    by (simp add: execute_mict_check_refines spec_run_append)
qed

theorem vm_grants_iff_witness:
  "execute_mict_check [0x10, 1, 0x10, 3, 0x20, 0x30, 0x42, 0x3F, 0x99] demo_ctx = Some (Ok ())"
  unfolding vm_grants_iff [OF demo_ctx_wf]
  by (rule exI [of _ "owner_policy 0x42"], rule exI [of _ "[0x99]"], rule exI [of _ "[]"])
    (simp add: owner_policy_def assemble_def opcode_defs var_defs var_value_def demo_ctx_def)

text \<open>A denial carries a reserved code (0xFB to 0xFF) or the operand of an \<open>ASSERT\<close>
  instruction that stands in the bytecode: the machine invents no policy error code.\<close>

theorem vm_error_codes:
  assumes "ctx_wf ctx" "execute_mict_check bytecode ctx = Some (Err e)"
  shows "e \<in> {0xFB, 0xFC, 0xFD, 0xFE, 0xFF} \<or>
    (\<exists>p q. bytecode = p @ OP_ASSERT_OR_DISSONANCE # e # q)"
proof -
  from assms have "spec_run ctx (disasm bytecode) [] = Err e"
    by (simp add: execute_mict_check_refines)
  from spec_run_Err [OF this] show ?thesis
    using disasm_assert disasm_instrs [of "ITrap e" bytecode] by auto
qed

theorem vm_error_codes_witness:
  "(0x42 :: u8) \<in> {0xFB, 0xFC, 0xFD, 0xFE, 0xFF} \<or>
    (\<exists>p q. [0x10, 4, 0x10, 4, 0x21, 0x30, 0x42, 0x3F] = p @ OP_ASSERT_OR_DISSONANCE # 0x42 # q)"
  by (rule vm_error_codes [OF demo_ctx_wf], subst execute_mict_check_refines [OF demo_ctx_wf])
    (simp add: disasm.simps opcode_defs demo_ctx_def var_value_def var_defs)

text \<open>Assembling instructions and disassembling the bytes gives the instructions back, so the
  encoding is unambiguous whatever follows it.\<close>

theorem disasm_assemble_roundtrip:
  assumes "\<forall>i \<in> set is. encodable i \<and> i \<noteq> IHalt"
  shows "disasm (assemble is @ [OP_HALT_OK] @ rest) = is @ [IHalt]"
  using assms by (simp add: disasm_assemble_append disasm.simps opcode_defs)

theorem disasm_assemble_roundtrip_witness:
  "disasm (assemble [IPushConst (replicate 32 7), IPushVar 2, INeq] @ [OP_HALT_OK] @ [1, 2]) =
     [IPushConst (replicate 32 7), IPushVar 2, INeq] @ [IHalt]"
  by (rule disasm_assemble_roundtrip) simp

text \<open>The owner-only policy of the MDO specification, whatever bytes follow it: access is granted
  exactly when the requestor hash equals the owner hash of the context.\<close>

theorem owner_policy_grants_owner_only:
  assumes "ctx_wf ctx"
  shows "execute_mict_check (assemble (owner_policy code) @ OP_HALT_OK # rest) ctx =
    Some (if requestor_id_hash ctx = owner_id_hash ctx then Ok () else Err code)"
  using assms by (rule run_owner_policy)

theorem owner_policy_grants_owner_only_witness:
  "execute_mict_check (assemble (owner_policy 9) @ OP_HALT_OK # []) demo_ctx = Some (Ok ())"
  using owner_policy_grants_owner_only [OF demo_ctx_wf, of 9 "[]"] by (simp add: demo_ctx_def)

end
