(* ===== verification/Mfs.thy ===== *)
theory Mfs
  imports Rust_Str Block_Device Nvme Mdo_VM
begin

text \<open>
  The file system, \<^verbatim>\<open>kernel/src/mfs.rs\<close>: a master file table kept as text in block 0, files as runs of
  consecutive blocks, and the access check that runs the policy bytecode of a file. The drive is
  \<open>NVME_DRIVE\<close>, an optional state \<open>'s\<close>, with the block operations \<open>rd\<close> and \<open>wr\<close> of the driver; a
  string is its list of UTF-8 bytes. Messages on the serial port are left out.
\<close>

subsection \<open>State and operations\<close>

record FileEntry =
  fname :: bytes
  start_lba :: u64
  block_count :: u64

text \<open>The text \<open>MFS_V1\<close>.\<close>

definition MFS_MAGIC :: bytes where
  "MFS_MAGIC = [77, 70, 83, 95, 86, 49]"

text \<open>The text of the table: nothing when the block is not UTF-8, otherwise up to the first NUL.\<close>

definition clean_mft :: "bytes \<Rightarrow> bytes" where
  "clean_mft buf = takeWhile (\<lambda>b. b \<noteq> 0) (if utf8_valid buf then buf else [])"

definition parse_entry :: "bytes \<Rightarrow> FileEntry option" where
  "parse_entry line = (case str_split 58 line of
       name # lba_str # count_str # _ \<Rightarrow>
         (case (parse_u64 lba_str, parse_u64 count_str) of
            (Some lba, Some count) \<Rightarrow> Some \<lparr>fname = name, start_lba = lba, block_count = count\<rparr>
          | _ \<Rightarrow> None)
     | _ \<Rightarrow> None)"

definition parse_mft :: "bytes \<Rightarrow> FileEntry list" where
  "parse_mft buf = (
     let clean = clean_mft buf in
     if take (length MFS_MAGIC) clean = MFS_MAGIC
     then List.map_filter parse_entry (drop 1 (str_lines clean)) else [])"

definition read_mft :: "'s read_fun \<Rightarrow> 's option \<Rightarrow> ((string, FileEntry list) result \<times> 's option) option" where
  "read_mft rd drive = (case drive of
       None \<Rightarrow> Some (Err ''NVMe offline'', None)
     | Some s \<Rightarrow> do {
         (r, s1) \<leftarrow> rd 0 s;
         Some (case r of Err _ \<Rightarrow> Err ''MFT Read Failed'' | Ok buf \<Rightarrow> Ok (parse_mft buf), Some s1)
       })"

definition render_entry :: "FileEntry \<Rightarrow> bytes" where
  "render_entry e = fname e @ [58] @ dec_u64 (start_lba e) @ [58] @ dec_u64 (block_count e) @ [10]"

definition render_mft :: "FileEntry list \<Rightarrow> bytes" where
  "render_mft entries = MFS_MAGIC @ [10] @ concat (map render_entry entries)"

definition mft_buffer :: "FileEntry list \<Rightarrow> bytes" where
  "mft_buffer entries = (
     let text = render_mft entries; bytes_to_copy = min (length text) 4096 in
     take bytes_to_copy text @ replicate (4096 - bytes_to_copy) 0)"

definition write_mft :: "'s write_fun \<Rightarrow> FileEntry list \<Rightarrow> 's option \<Rightarrow> ((string, unit) result \<times> 's option) option" where
  "write_mft wr entries drive = (case drive of
       None \<Rightarrow> Some (Err ''NVMe offline'', None)
     | Some s \<Rightarrow> do {
         (r, s1) \<leftarrow> wr 0 (mft_buffer entries) s;
         Some (case r of Err _ \<Rightarrow> Err ''MFT Write Failed'' | Ok _ \<Rightarrow> Ok (), Some s1)
       })"

text \<open>The loop of \<open>save_file\<close> over the block numbers of the data.\<close>

fun write_blocks :: "'s write_fun \<Rightarrow> bytes \<Rightarrow> u64 \<Rightarrow> nat list \<Rightarrow> 's \<Rightarrow> ((string, unit) result \<times> 's) option" where
  "write_blocks wr dat next_lba [] s = Some (Ok (), s)"
| "write_blocks wr dat next_lba (i # is) s = do {
     let offset = i * 4096;
     let chunk_end = min (offset + 4096) (length dat);
     chunk \<leftarrow> slice dat offset chunk_end;
     (r, s1) \<leftarrow> wr (next_lba + of_nat i) chunk s;
     case r of
       Err _ \<Rightarrow> Some (Err ''Data block write failed'', s1)
     | Ok _ \<Rightarrow> write_blocks wr dat next_lba is s1
   }"

definition save_file :: "'s read_fun \<Rightarrow> 's write_fun \<Rightarrow> bytes \<Rightarrow> bytes \<Rightarrow> 's option \<Rightarrow>
    ((string, unit) result \<times> 's option) option" where
  "save_file rd wr filename dat drive = do {
     (r, drive1) \<leftarrow> read_mft rd drive;
     case r of
       Err e \<Rightarrow> Some (Err e, drive1)
     | Ok entries \<Rightarrow>
         if \<exists>e \<in> set entries. fname e = filename then Some (Err ''File already exists'', drive1)
         else
           let next_lba = (if entries = [] then 1
                           else start_lba (last entries) + block_count (last entries));
               blocks_needed = (length dat + 4095) div 4096
           in case drive1 of
                None \<Rightarrow> Some (Err ''NVMe offline'', None)
              | Some s \<Rightarrow> do {
                  (r, s1) \<leftarrow> write_blocks wr dat next_lba [0..<blocks_needed] s;
                  case r of
                    Err e \<Rightarrow> Some (Err e, Some s1)
                  | Ok _ \<Rightarrow> write_mft wr (entries @ [\<lparr>fname = filename, start_lba = next_lba,
                      block_count = of_nat blocks_needed\<rparr>]) (Some s1)
                }
   }"

text \<open>The lines of the table up to the first one with a matching name and valid numbers.\<close>

fun find_line :: "bytes \<Rightarrow> bytes list \<Rightarrow> FileEntry option" where
  "find_line target [] = None"
| "find_line target (line # ls) = (case str_split 58 line of
       name # lba_str # count_str # _ \<Rightarrow>
         if eq_ignore_ascii_case (str_trim name) (str_trim target)
         then (case (parse_u64 lba_str, parse_u64 count_str) of
                 (Some lba, Some count) \<Rightarrow> Some \<lparr>fname = name, start_lba = lba, block_count = count\<rparr>
               | _ \<Rightarrow> find_line target ls)
         else find_line target ls
     | _ \<Rightarrow> find_line target ls)"

definition find_file :: "'s read_fun \<Rightarrow> bytes \<Rightarrow> 's option \<Rightarrow> (FileEntry option \<times> 's option) option" where
  "find_file rd target drive = (case drive of
       None \<Rightarrow> Some (None, None)
     | Some s \<Rightarrow> do {
         (r, s1) \<leftarrow> rd 0 s;
         Some (case r of Err _ \<Rightarrow> None
               | Ok buf \<Rightarrow> find_line target (drop 1 (str_lines (clean_mft buf))), Some s1)
       })"

definition MDO_MAGIC :: bytes where
  "MDO_MAGIC = [0x4D, 0x44, 0x4F, 0x01]"

text \<open>The check on the first block of a file: the offset of its payload, or why access is denied.\<close>

definition check_block :: "bytes \<Rightarrow> MdoContext \<Rightarrow> (string, nat) result option" where
  "check_block first_block ctx = do {
     magic \<leftarrow> slice first_block 0 4;
     if magic \<noteq> MDO_MAGIC then Some (Err ''Not a valid MDO file. Zero-Trust Access Denied.'')
     else do {
       len_bytes \<leftarrow> slice first_block 76 80;
       let bytecode_len = unat (from_le_bytes32 len_bytes);
       if bytecode_len > 3968 then Some (Err ''Corrupted MDO: Bytecode too large.'')
       else do {
         bytecode \<leftarrow> slice first_block 128 (128 + bytecode_len);
         verdict \<leftarrow> execute_mict_check bytecode ctx;
         Some (case verdict of
             Err _ \<Rightarrow> Err ''Access Denied by MDO Security Policy''
           | Ok _ \<Rightarrow> Ok (128 + bytecode_len))
       }
     }
   }"

definition verify_mdo_access :: "'s read_fun \<Rightarrow> u64 \<Rightarrow> MdoContext \<Rightarrow> 's option \<Rightarrow>
    ((string, nat) result \<times> 's option) option" where
  "verify_mdo_access rd lba ctx drive = (case drive of
       None \<Rightarrow> Some (Err ''NVMe offline'', None)
     | Some s \<Rightarrow> do {
         (r, s1) \<leftarrow> rd lba s;
         case r of
           Err _ \<Rightarrow> Some (Err ''Hardware read failed'', Some s1)
         | Ok first_block \<Rightarrow> do {
             v \<leftarrow> check_block first_block ctx;
             Some (v, Some s1)
           }
       })"

text \<open>The loop of \<open>read_file\<close> over the blocks after the first.\<close>

fun read_blocks :: "'s read_fun \<Rightarrow> u64 \<Rightarrow> nat list \<Rightarrow> bytes \<Rightarrow> 's \<Rightarrow> ((string, bytes) result \<times> 's) option" where
  "read_blocks rd start [] file_data s = Some (Ok file_data, s)"
| "read_blocks rd start (i # is) file_data s = do {
     (r, s1) \<leftarrow> rd (start + of_nat i) s;
     case r of
       Err _ \<Rightarrow> Some (Err ''Hardware read failed'', s1)
     | Ok buffer \<Rightarrow> read_blocks rd start is (file_data @ buffer) s1
   }"

text \<open>\<open>Vec::with_capacity\<close> panics when the capacity exceeds \<open>isize::MAX\<close>.\<close>

definition with_capacity :: "u64 \<Rightarrow> unit option" where
  "with_capacity n = (if unat n < 2 ^ 63 then Some () else None)"

definition read_file :: "'s read_fun \<Rightarrow> bytes \<Rightarrow> MdoContext \<Rightarrow> 's option \<Rightarrow>
    ((string, bytes) result \<times> 's option) option" where
  "read_file rd filename ctx drive = do {
     (found, drive1) \<leftarrow> find_file rd filename drive;
     case found of
       None \<Rightarrow> Some (Err ''File not found'', drive1)
     | Some entry \<Rightarrow> do {
         (v, drive2) \<leftarrow> verify_mdo_access rd (start_lba entry) ctx drive1;
         case v of
           Err e \<Rightarrow> Some (Err e, drive2)
         | Ok payload_start_offset \<Rightarrow> do {
             _ \<leftarrow> with_capacity (block_count entry * 4096);
             case drive2 of
               None \<Rightarrow> Some (Err ''NVMe offline'', None)
             | Some s \<Rightarrow> do {
                 (r, s1) \<leftarrow> rd (start_lba entry) s;
                 case r of
                   Err _ \<Rightarrow> Some (Err ''Hardware read failed'', Some s1)
                 | Ok buffer \<Rightarrow> do {
                     payload \<leftarrow> slice buffer payload_start_offset (length buffer);
                     (res, s2) \<leftarrow> read_blocks rd (start_lba entry) [1..<unat (block_count entry)] payload s1;
                     Some (res, Some s2)
                   }
               }
           }
       }
   }"

definition delete_file :: "'s read_fun \<Rightarrow> 's write_fun \<Rightarrow> bytes \<Rightarrow> MdoContext \<Rightarrow> 's option \<Rightarrow>
    ((string, unit) result \<times> 's option) option" where
  "delete_file rd wr filename ctx drive = do {
     (r, drive1) \<leftarrow> read_mft rd drive;
     case r of
       Err e \<Rightarrow> Some (Err e, drive1)
     | Ok entries \<Rightarrow>
         (case position (\<lambda>e. fname e = filename) entries of
            None \<Rightarrow> Some (Err ''File not found'', drive1)
          | Some pos \<Rightarrow> do {
              (v, drive2) \<leftarrow> verify_mdo_access rd (start_lba (entries ! pos)) ctx drive1;
              case v of
                Err e \<Rightarrow> Some (Err e, drive2)
              | Ok _ \<Rightarrow> write_mft wr (take pos entries @ drop (Suc pos) entries) drive2
            })
   }"

definition rename_file :: "'s read_fun \<Rightarrow> 's write_fun \<Rightarrow> bytes \<Rightarrow> bytes \<Rightarrow> MdoContext \<Rightarrow> 's option \<Rightarrow>
    ((string, unit) result \<times> 's option) option" where
  "rename_file rd wr old_name new_name ctx drive = do {
     (r, drive1) \<leftarrow> read_mft rd drive;
     case r of
       Err e \<Rightarrow> Some (Err e, drive1)
     | Ok entries \<Rightarrow>
         if \<exists>e \<in> set entries. fname e = new_name
         then Some (Err ''Target filename already exists.'', drive1)
         else
           (case position (\<lambda>e. fname e = old_name) entries of
              None \<Rightarrow> Some (Err ''File not found'', drive1)
            | Some pos \<Rightarrow> do {
                (v, drive2) \<leftarrow> verify_mdo_access rd (start_lba (entries ! pos)) ctx drive1;
                case v of
                  Err e \<Rightarrow> Some (Err e, drive2)
                | Ok _ \<Rightarrow> write_mft wr (entries[pos := (entries ! pos)\<lparr>fname := new_name\<rparr>]) drive2
              })
   }"

subsection \<open>The table as text\<close>

text \<open>A name that fits on a line: valid UTF-8 without line feeds and NULs. The text format can carry it when it has no
  separators either.\<close>

definition line_name :: "bytes \<Rightarrow> bool" where
  "line_name n \<longleftrightarrow> utf8_valid n \<and> 10 \<notin> set n \<and> 0 \<notin> set n"

definition name_ok :: "bytes \<Rightarrow> bool" where
  "name_ok n \<longleftrightarrow> line_name n \<and> 58 \<notin> set n"

definition table_ok :: "FileEntry list \<Rightarrow> bool" where
  "table_ok es \<longleftrightarrow> (\<forall>e \<in> set es. name_ok (fname e)) \<and> length (render_mft es) \<le> 4096"

lemma name_ok_line: "name_ok n \<Longrightarrow> line_name n"
  by (simp add: name_ok_def)

lemma table_ok_line: "table_ok es \<Longrightarrow> \<forall>e \<in> set es. line_name (fname e)"
  by (simp add: table_ok_def name_ok_line)

lemma dec_u64_no_sep [simp]: "58 \<notin> set (dec_u64 w)" "10 \<notin> set (dec_u64 w)" "0 \<notin> set (dec_u64 w)"
  using dec_u64_bytes [of _ w] by (auto dest!: dec_u64_bytes simp: word_le_nat_alt)

lemma dec_u64_ascii [simp]: "utf8_valid (dec_u64 w)"
proof (rule utf8_valid_ascii, rule ballI)
  fix b assume "b \<in> set (dec_u64 w)"
  then have "b \<le> 57" using dec_u64_bytes by blast
  then show "b < 0x80" by (simp add: word_le_nat_alt word_less_nat_alt)
qed

lemma dec_u64_nonempty [simp]: "dec_u64 w \<noteq> []"
  by (simp add: dec_u64_def dec_nat_nonempty)

definition entry_line :: "FileEntry \<Rightarrow> bytes" where
  "entry_line e = fname e @ 58 # dec_u64 (start_lba e) @ 58 # dec_u64 (block_count e)"

lemma render_entry_line: "render_entry e = entry_line e @ [10]"
  by (simp add: render_entry_def entry_line_def)

lemma entry_line_facts:
  assumes "line_name (fname e)"
  shows "10 \<notin> set (entry_line e)" "0 \<notin> set (entry_line e)" "utf8_valid (entry_line e)"
    "strip_cr (entry_line e) = entry_line e"
proof -
  show "10 \<notin> set (entry_line e)" "0 \<notin> set (entry_line e)" "utf8_valid (entry_line e)"
    using assms by (auto simp: entry_line_def line_name_def intro!: utf8_valid_append)
  have "last (entry_line e) = last (dec_u64 (block_count e))" by (simp add: entry_line_def)
  moreover have "last (dec_u64 (block_count e)) \<in> set (dec_u64 (block_count e))" by simp
  ultimately have "48 \<le> last (entry_line e)" using dec_u64_bytes by metis
  then show "strip_cr (entry_line e) = entry_line e" by (auto simp: strip_cr_def word_le_nat_alt)
qed

lemma entry_line_split:
  assumes "name_ok (fname e)"
  shows "str_split 58 (entry_line e) = [fname e, dec_u64 (start_lba e), dec_u64 (block_count e)]"
  using assms by (simp add: entry_line_def name_ok_def str_simps)

lemma parse_entry_line: "name_ok (fname e) \<Longrightarrow> parse_entry (entry_line e) = Some e"
  by (simp add: parse_entry_def entry_line_split parse_dec_u64)

lemma str_lines_entries:
  assumes "\<forall>e \<in> set es. line_name (fname e)"
  shows "str_lines (concat (map render_entry es)) = map entry_line es"
  using assms
  by (induction es) (simp_all add: render_entry_line str_lines_line entry_line_facts)

lemma str_lines_mft:
  assumes "\<forall>e \<in> set es. line_name (fname e)"
  shows "str_lines (render_mft es) = MFS_MAGIC # map entry_line es"
proof -
  have "10 \<notin> set MFS_MAGIC" "strip_cr MFS_MAGIC = MFS_MAGIC" by (simp_all add: MFS_MAGIC_def strip_cr_def)
  with assms show ?thesis by (simp add: render_mft_def str_lines_line str_lines_entries)
qed

lemma render_mft_text:
  assumes "\<forall>e \<in> set es. line_name (fname e)"
  shows "utf8_valid (render_mft es)" "0 \<notin> set (render_mft es)"
proof -
  have "utf8_valid (render_entry e)" "0 \<notin> set (render_entry e)" if "e \<in> set es" for e
    using that assms entry_line_facts [of e]
    by (auto simp: render_entry_line intro!: utf8_valid_append)
  moreover have "utf8_valid (MFS_MAGIC @ [10])"
    by (rule utf8_valid_ascii) (simp add: MFS_MAGIC_def)
  ultimately show "utf8_valid (render_mft es)" "0 \<notin> set (render_mft es)"
    using utf8_valid_append [of "MFS_MAGIC @ [10]" "concat (map render_entry es)"]
    by (auto simp: render_mft_def MFS_MAGIC_def intro!: utf8_valid_concat)
qed

lemma takeWhile_nonzero: "0 \<notin> set s \<Longrightarrow> takeWhile (\<lambda>b. b \<noteq> 0) (s @ replicate n (0 :: u8)) = s"
proof -
  assume "0 \<notin> set s"
  then have "takeWhile (\<lambda>b. b \<noteq> 0) (s @ replicate n 0) = s @ takeWhile (\<lambda>b. b \<noteq> 0) (replicate n 0)"
    by (intro takeWhile_append2) auto
  then show ?thesis by (cases n) simp_all
qed

lemma clean_mft_buffer:
  assumes es: "\<forall>e \<in> set es. line_name (fname e)" "length (render_mft es) \<le> 4096"
  shows "clean_mft (mft_buffer es) = render_mft es"
proof -
  have buf: "mft_buffer es = render_mft es @ replicate (4096 - length (render_mft es)) 0"
    using es(2) by (simp add: mft_buffer_def Let_def min_def)
  have "utf8_valid (replicate n 0)" for n by (rule utf8_valid_ascii) simp
  then have "utf8_valid (mft_buffer es)" unfolding buf by (intro utf8_valid_append render_mft_text es)
  then show ?thesis
    using takeWhile_nonzero [OF render_mft_text(2) [OF es(1)]] by (simp add: clean_mft_def) (simp add: buf)
qed

text \<open>What a table that fits reads as: each of its lines on its own.\<close>

lemma parse_mft_lines:
  assumes es: "\<forall>e \<in> set es. line_name (fname e)" "length (render_mft es) \<le> 4096"
  shows "parse_mft (mft_buffer es) = List.map_filter parse_entry (map entry_line es)"
proof -
  have "take (length MFS_MAGIC) (render_mft es) = MFS_MAGIC" by (simp add: render_mft_def)
  then show ?thesis by (simp add: parse_mft_def clean_mft_buffer [OF es] str_lines_mft [OF es(1)])
qed

lemma parse_entry_lines:
  "\<forall>e \<in> set es. name_ok (fname e) \<Longrightarrow> List.map_filter parse_entry (map entry_line es) = es"
  by (induction es) (simp_all add: map_filter_simps parse_entry_line)

lemma parse_mft_buffer:
  assumes "table_ok es"
  shows "parse_mft (mft_buffer es) = es"
  using assms by (simp add: table_ok_def parse_mft_lines parse_entry_lines name_ok_line)

end
