(* ===== verification/Mfs_Spec.thy ===== *)
theory Mfs_Spec
  imports Mfs
begin

text \<open>
  What the file system promises on a block device: the table and the extents of the files stay
  well formed, files do not disturb one another, and no file is read, deleted or renamed without
  the consent of its policy. The lemmas are proved once over the block device interface and then
  used on the NVMe driver.
\<close>

subsection \<open>Well-formed file systems\<close>

text \<open>The extents of the files are in order from block 1 on, do not overlap, are not empty and end on the drive.\<close>

fun extents_from :: "nat \<Rightarrow> nat \<Rightarrow> FileEntry list \<Rightarrow> bool" where
  "extents_from cap lo [] = (lo \<le> cap)"
| "extents_from cap lo (e # es) =
     (lo \<le> unat (start_lba e) \<and> 0 < unat (block_count e) \<and>
      extents_from cap (unat (start_lba e) + unat (block_count e)) es)"

definition fs_ok :: "nat \<Rightarrow> (nat \<Rightarrow> bytes) \<Rightarrow> FileEntry list \<Rightarrow> bool" where
  "fs_ok cap dsk es \<longleftrightarrow> 0 < cap \<and> cap < 2 ^ 51 \<and> dsk 0 = mft_buffer es \<and> table_ok es \<and> extents_from cap 1 es"

text \<open>What a save needs of a drive: block 0 reads as the table. A blank drive reads as the empty table.\<close>

definition fs_readable :: "nat \<Rightarrow> (nat \<Rightarrow> bytes) \<Rightarrow> FileEntry list \<Rightarrow> bool" where
  "fs_readable cap dsk es \<longleftrightarrow> 0 < cap \<and> cap < 2 ^ 51 \<and> parse_mft (dsk 0) = es \<and> extents_from cap 1 es"

lemma fs_ok_readable: "fs_ok cap dsk es \<Longrightarrow> fs_readable cap dsk es"
  by (simp add: fs_ok_def fs_readable_def parse_mft_buffer)

definition file_data :: "(nat \<Rightarrow> bytes) \<Rightarrow> FileEntry \<Rightarrow> bytes" where
  "file_data dsk e = concat (map (\<lambda>i. dsk (unat (start_lba e) + i)) [0..<unat (block_count e)])"

definition extent :: "FileEntry \<Rightarrow> nat set" where
  "extent e = {unat (start_lba e) ..< unat (start_lba e) + unat (block_count e)}"

fun end_from :: "nat \<Rightarrow> FileEntry list \<Rightarrow> nat" where
  "end_from lo [] = lo"
| "end_from lo (e # es) = end_from (unat (start_lba e) + unat (block_count e)) es"

lemma extents_end: "extents_from cap lo es \<Longrightarrow> lo \<le> end_from lo es \<and> end_from lo es \<le> cap"
  by (induction es arbitrary: lo) force+

lemma extents_mem:
  "extents_from cap lo es \<Longrightarrow> e \<in> set es \<Longrightarrow>
   extent e \<subseteq> {lo ..< end_from lo es} \<and> lo \<le> unat (start_lba e) \<and> 0 < unat (block_count e) \<and>
   unat (start_lba e) + unat (block_count e) \<le> cap"
proof (induction es arbitrary: lo)
  case (Cons a es)
  let ?n = "unat (start_lba a) + unat (block_count a)"
  have a: "lo \<le> unat (start_lba a)" "0 < unat (block_count a)" "extents_from cap ?n es" using Cons.prems by simp_all
  from extents_end [OF a(3)] have n: "?n \<le> end_from ?n es" "?n \<le> cap" by simp_all
  show ?case
  proof (cases "e = a")
    case True
    with a n show ?thesis by (auto simp: extent_def)
  next
    case False
    with Cons.IH [OF a(3)] Cons.prems a show ?thesis by (force simp: extent_def)
  qed
qed simp

lemma extents_append:
  "extents_from cap lo (es @ [e]) \<longleftrightarrow> extents_from cap lo es \<and> extents_from cap (end_from lo es) [e]"
proof (induction es arbitrary: lo)
  case Nil
  then show ?case by auto
qed auto

lemma end_from_last:
  "es \<noteq> [] \<Longrightarrow> end_from lo es = unat (start_lba (last es)) + unat (block_count (last es))"
  by (induction es arbitrary: lo) auto

lemma extents_lower: "extents_from cap lo es \<Longrightarrow> lo' \<le> lo \<Longrightarrow> extents_from cap lo' es"
  by (cases es) auto

lemma extents_remove:
  assumes "extents_from cap lo es" "pos < length es"
  shows "extents_from cap lo (take pos es @ drop (Suc pos) es)"
  using assms
proof (induction es arbitrary: lo pos)
  case (Cons a es)
  show ?case
  proof (cases pos)
    case 0
    with Cons.prems show ?thesis by (auto elim!: extents_lower)
  next
    case (Suc p)
    with Cons show ?thesis by simp
  qed
qed simp

lemma extents_rename:
  "extents_from cap lo (es[pos := (es ! pos)\<lparr>fname := n\<rparr>]) = extents_from cap lo es" if "pos < length es"
  using that
proof (induction es arbitrary: lo pos)
  case (Cons a es)
  then show ?case by (cases pos) simp_all
qed simp

lemma file_data_cong:
  "(\<And>n. n \<in> extent e \<Longrightarrow> dsk n = dsk' n) \<Longrightarrow> file_data dsk e = file_data dsk' e"
  unfolding file_data_def by (intro arg_cong [where f = concat] map_cong) (auto simp: extent_def)

subsection \<open>Splitting data into blocks\<close>

definition chunk :: "bytes \<Rightarrow> nat \<Rightarrow> bytes" where
  "chunk dat j = take 4096 (drop (j * 4096) dat)"

definition blocks_for :: "bytes \<Rightarrow> nat" where
  "blocks_for dat = (length dat + 4095) div 4096"

text \<open>The data filled up with zeros to whole blocks.\<close>

definition pad_file :: "bytes \<Rightarrow> bytes" where
  "pad_file dat = dat @ replicate (4096 * blocks_for dat - length dat) 0"

lemma chunk_slice:
  assumes "j < blocks_for dat"
  shows "slice dat (j * 4096) (min (j * 4096 + 4096) (length dat)) = Some (chunk dat j)" "length (chunk dat j) \<le> 4096"
proof -
  have "j * 4096 \<le> length dat" using assms by (simp add: blocks_for_def)
  then show "slice dat (j * 4096) (min (j * 4096 + 4096) (length dat)) = Some (chunk dat j)"
    by (simp add: slice_def chunk_def min_def)
qed (simp add: chunk_def)

lemma concat_chunks: "concat (map (\<lambda>j. pad_block (chunk dat j)) [0..<blocks_for dat]) = pad_file dat"
proof (induction "length dat" arbitrary: dat rule: less_induct)
  case less
  consider "dat = []" | "dat \<noteq> []" "length dat \<le> 4096" | "4096 < length dat" by linarith
  then show ?case
  proof cases
    case 2
    then have "0 < length dat" by simp
    with 2(2) have "blocks_for dat = 1" unfolding blocks_for_def by linarith
    with 2 show ?thesis by (simp add: pad_file_def chunk_def pad_block_def)
  next
    case 3
    let ?d = "drop 4096 dat"
    have b: "blocks_for dat = Suc (blocks_for ?d)" using 3 by (simp add: blocks_for_def)
    have c: "chunk dat (Suc j) = chunk ?d j" for j by (simp add: chunk_def add.commute)
    have "map (\<lambda>j. pad_block (chunk dat j)) [0..<blocks_for dat] =
        pad_block (chunk dat 0) # map (\<lambda>j. pad_block (chunk ?d j)) [0..<blocks_for ?d]"
      unfolding b upt_conv_Cons [OF zero_less_Suc] map_Suc_upt [symmetric] by (simp add: c)
    moreover have "pad_block (chunk dat 0) = take 4096 dat" using 3 by (simp add: chunk_def)
    moreover have "concat (map (\<lambda>j. pad_block (chunk ?d j)) [0..<blocks_for ?d]) = pad_file ?d"
      using 3 by (intro less) simp
    moreover have "take 4096 dat @ pad_file ?d = pad_file dat"
    proof -
      have "4096 * blocks_for ?d - length ?d = 4096 * blocks_for dat - length dat" using 3 by (simp add: b)
      then show ?thesis unfolding pad_file_def by (simp only: append_assoc [symmetric] append_take_drop_id)
    qed
    ultimately show ?thesis by simp
  qed (simp add: pad_file_def blocks_for_def)
qed

lemma blocks_for_pos: "dat \<noteq> [] \<Longrightarrow> 0 < blocks_for dat"
  by (cases dat) (simp_all add: blocks_for_def)

subsection \<open>The access check\<close>

lemma check_block_total:
  assumes "ctx_wf ctx" "length blk = 4096"
  shows "\<exists>v. check_block blk ctx = Some v \<and> (\<forall>off. v = Ok off \<longrightarrow> off \<le> 4096)"
proof -
  let ?n = "unat (from_le_bytes32 (take 4 (drop 76 blk)))"
  obtain v where "execute_mict_check (take ?n (drop 128 blk)) ctx = Some v"
    using execute_mict_check_refines [OF assms(1)] by blast
  with assms(2) show ?thesis
    by (cases "?n > 3968") (auto simp: check_block_def slice_def min_def split: sum.splits)
qed

text \<open>Consent: the block starts with the magic number and its bytecode, at bytes 128 on with the length kept at
  bytes 76 to 79, grants the context.\<close>

definition consents :: "bytes \<Rightarrow> MdoContext \<Rightarrow> bool" where
  "consents blk ctx \<longleftrightarrow> take 4 blk = MDO_MAGIC \<and> unat (from_le_bytes32 (take 4 (drop 76 blk))) \<le> 3968 \<and>
     execute_mict_check (take (unat (from_le_bytes32 (take 4 (drop 76 blk)))) (drop 128 blk)) ctx = Some (Ok ())"

lemma check_block_Ok_iff:
  assumes "length blk = 4096"
  shows "check_block blk ctx = Some (Ok off) \<longleftrightarrow>
    consents blk ctx \<and> off = 128 + unat (from_le_bytes32 (take 4 (drop 76 blk)))"
  using assms
  by (auto simp: check_block_def consents_def slice_def Let_def split: sum.splits if_splits bind_splits)

subsection \<open>Looking a file up\<close>

definition name_matches :: "bytes \<Rightarrow> FileEntry \<Rightarrow> bool" where
  "name_matches target e \<longleftrightarrow> eq_ignore_ascii_case (str_trim (fname e)) (str_trim target)"

lemma find_line_entries:
  assumes "\<forall>e \<in> set es. name_ok (fname e)"
  shows "find_line target (map entry_line es) = find (name_matches target) es"
  using assms
  by (induction es) (simp_all add: entry_line_split parse_dec_u64 name_matches_def)

text \<open>What the operations answer on a well-formed file system, as functions of the disk, the table and the context.
  A read asks only the first block of the file for consent.\<close>

definition entry_result :: "(nat \<Rightarrow> bytes) \<Rightarrow> FileEntry \<Rightarrow> MdoContext \<Rightarrow> (string, bytes) result" where
  "entry_result dsk e ctx = (case check_block (dsk (unat (start_lba e))) ctx of
      Some (Ok off) \<Rightarrow> Ok (drop off (file_data dsk e))
    | Some (Err m) \<Rightarrow> Err m
    | None \<Rightarrow> Err [])"

definition read_result :: "(nat \<Rightarrow> bytes) \<Rightarrow> FileEntry list \<Rightarrow> bytes \<Rightarrow> MdoContext \<Rightarrow> (string, bytes) result" where
  "read_result dsk es name ctx = (case find (name_matches name) es of
       None \<Rightarrow> Err ''File not found''
     | Some e \<Rightarrow> entry_result dsk e ctx)"

definition delete_result :: "(nat \<Rightarrow> bytes) \<Rightarrow> FileEntry list \<Rightarrow> bytes \<Rightarrow> MdoContext \<Rightarrow>
    (string, unit) result \<times> FileEntry list" where
  "delete_result dsk es name ctx = (case position (\<lambda>e. fname e = name) es of
       None \<Rightarrow> (Err ''File not found'', es)
     | Some pos \<Rightarrow> (case check_block (dsk (unat (start_lba (es ! pos)))) ctx of
           Some (Ok off) \<Rightarrow> (Ok (), take pos es @ drop (Suc pos) es)
         | Some (Err m) \<Rightarrow> (Err m, es)
         | None \<Rightarrow> (Err [], es)))"

definition rename_result :: "(nat \<Rightarrow> bytes) \<Rightarrow> FileEntry list \<Rightarrow> bytes \<Rightarrow> bytes \<Rightarrow> MdoContext \<Rightarrow>
    (string, unit) result \<times> FileEntry list" where
  "rename_result dsk es old new ctx =
     (if \<exists>e \<in> set es. fname e = new then (Err ''Target filename already exists.'', es)
      else case position (\<lambda>e. fname e = old) es of
          None \<Rightarrow> (Err ''File not found'', es)
        | Some pos \<Rightarrow> (case check_block (dsk (unat (start_lba (es ! pos)))) ctx of
              Some (Ok off) \<Rightarrow> (Ok (), es[pos := (es ! pos)\<lparr>fname := new\<rparr>])
            | Some (Err m) \<Rightarrow> (Err m, es)
            | None \<Rightarrow> (Err [], es)))"

lemma position_Some: "position p xs = Some i \<Longrightarrow> i < length xs \<and> p (xs ! i)"
  by (simp add: position_iff)

lemma find_mem: "find p xs = Some x \<Longrightarrow> x \<in> set xs \<and> p x"
  by (auto simp: find_Some_iff)

lemma length_remove_pos: "length (concat (map f (take p es @ drop (Suc p) es))) \<le> length (concat (map f es))"
proof (induction es arbitrary: p)
  case (Cons a es)
  show ?case using Cons.IH [of "p - 1"] by (cases p) simp_all
qed simp

lemma table_ok_remove: "table_ok es \<Longrightarrow> table_ok (take p es @ drop (Suc p) es)"
  using length_remove_pos [of render_entry p es]
  by (auto simp: table_ok_def render_mft_def dest!: in_set_takeD in_set_dropD)

text \<open>The entry \<open>save_file\<close> appends to the table \<open>es\<close>.\<close>

definition new_entry :: "FileEntry list \<Rightarrow> bytes \<Rightarrow> bytes \<Rightarrow> FileEntry" where
  "new_entry es name dat = \<lparr>fname = name,
     start_lba = (if es = [] then 1 else start_lba (last es) + block_count (last es)),
     block_count = of_nat (blocks_for dat)\<rparr>"

lemma new_entry_start:
  assumes "extents_from cap 1 es" "cap < 2 ^ 51"
  shows "unat (start_lba (new_entry es name dat)) = end_from 1 es"
proof (cases "es = []")
  case False
  have "end_from 1 es \<le> cap" using extents_end [OF assms(1)] by simp
  then have "unat (start_lba (last es)) + unat (block_count (last es)) < 2 ^ 64"
    using end_from_last [OF False, of 1] assms(2) by simp
  with unat_add_of_nat [of "start_lba (last es)" "unat (block_count (last es))"] False
  show ?thesis by (simp add: new_entry_def end_from_last)
qed (simp add: new_entry_def)

subsection \<open>The operations on a block device\<close>

context block_device
begin

lemma rd_ok: "inv s \<Longrightarrow> unat lba < cap \<Longrightarrow> \<exists>s'. rd lba s = Some (Ok (disk s (unat lba)), s') \<and> inv s' \<and> disk s' = disk s"
  using rd_law [of s lba] by force

lemma wr_ok: "inv s \<Longrightarrow> length dat \<le> 4096 \<Longrightarrow> unat lba < cap \<Longrightarrow>
    \<exists>s'. wr lba dat s = Some (Ok (), s') \<and> inv s' \<and> disk s' = (disk s)(unat lba := pad_block dat)"
  using wr_law [of s dat lba] by force

lemma wr_fail: "inv s \<Longrightarrow> length dat \<le> 4096 \<Longrightarrow> cap \<le> unat lba \<Longrightarrow>
    \<exists>e s'. wr lba dat s = Some (Err e, s') \<and> inv s' \<and> disk s' = disk s"
  using wr_law [of s dat lba] by force

lemma read_mft_readable:
  assumes "inv s" "fs_readable cap (disk s) es"
  shows "\<exists>s'. read_mft rd (Some s) = Some (Ok es, Some s') \<and> inv s' \<and> disk s' = disk s"
  using rd_ok [of s 0] assms by (auto simp: read_mft_def fs_readable_def)

lemma read_mft_ok:
  assumes "inv s" "fs_ok cap (disk s) es"
  shows "\<exists>s'. read_mft rd (Some s) = Some (Ok es, Some s') \<and> inv s' \<and> disk s' = disk s"
  by (rule read_mft_readable [OF assms(1) fs_ok_readable [OF assms(2)]])

lemma write_mft_ok:
  assumes "inv s" "0 < cap"
  shows "\<exists>s'. write_mft wr es (Some s) = Some (Ok (), Some s') \<and> inv s' \<and>
    disk s' = (disk s)(0 := mft_buffer es)"
proof -
  have "length (mft_buffer es) = 4096" by (simp add: mft_buffer_def Let_def min_def)
  then show ?thesis using wr_ok [of s "mft_buffer es" 0] assms by (auto simp: write_mft_def)
qed

lemma write_blocks_ok:
  assumes "inv s" "unat lba + i \<le> cap" "cap < 2 ^ 51" "i \<le> blocks_for dat"
  shows "\<exists>r s'. write_blocks wr dat lba [i..<blocks_for dat] s = Some (r, s') \<and> inv s' \<and>
    (\<forall>n. n \<notin> {unat lba + i ..< unat lba + blocks_for dat} \<longrightarrow> disk s' n = disk s n) \<and>
    (if unat lba + blocks_for dat \<le> cap \<or> i = blocks_for dat
     then r = Ok () \<and> (\<forall>j \<in> {i ..< blocks_for dat}. disk s' (unat lba + j) = pad_block (chunk dat j))
     else \<exists>e. r = Err e)"
  using assms(1,2,4)
proof (induction "blocks_for dat - i" arbitrary: i s)
  case 0
  then show ?case by simp
next
  case (Suc k)
  let ?n = "blocks_for dat"
  have i: "i < ?n" using Suc.hyps(2) by simp
  then have l: "[i..<?n] = i # [Suc i..<?n]" by (simp add: upt_conv_Cons)
  note ch = chunk_slice [OF i]
  show ?case
  proof (cases "unat lba + i < cap")
    case True
    have addr: "unat (lba + of_nat i) = unat lba + i"
      using True assms(3) by (intro unat_add_of_nat) simp
    from wr_ok [OF Suc.prems(1) ch(2), of "lba + of_nat i"] True obtain s1
      where s1: "wr (lba + of_nat i) (chunk dat i) s = Some (Ok (), s1)" "inv s1"
        "disk s1 = (disk s)(unat lba + i := pad_block (chunk dat i))" by (auto simp: addr)
    have k: "k = ?n - Suc i" using Suc.hyps(2) by simp
    have "unat lba + Suc i \<le> cap" "Suc i \<le> ?n" using True i by simp_all
    from Suc.hyps(1) [OF k s1(2) this] obtain r s'
      where r: "write_blocks wr dat lba [Suc i..<?n] s1 = Some (r, s')" "inv s'"
        "\<forall>n. n \<notin> {unat lba + Suc i ..< unat lba + ?n} \<longrightarrow> disk s' n = disk s1 n"
        "if unat lba + ?n \<le> cap \<or> Suc i = ?n
         then r = Ok () \<and> (\<forall>j \<in> {Suc i ..< ?n}. disk s' (unat lba + j) = pad_block (chunk dat j))
         else \<exists>e. r = Err e" by blast
    have "write_blocks wr dat lba [i..<?n] s = Some (r, s')"
      using ch(1) s1(1) r(1) by (simp add: l Let_def)
    moreover have "\<forall>n. n \<notin> {unat lba + i ..< unat lba + ?n} \<longrightarrow> disk s' n = disk s n"
      using r(3) s1(3) i by auto
    moreover have "disk s' (unat lba + i) = pad_block (chunk dat i)" using r(3) s1(3) by simp
    then have "\<forall>j \<in> {i ..< ?n}. disk s' (unat lba + j) = pad_block (chunk dat j)"
      if "\<forall>j \<in> {Suc i ..< ?n}. disk s' (unat lba + j) = pad_block (chunk dat j)"
      using that by (metis Suc_leI atLeastLessThan_iff le_neq_implies_less)
    ultimately show ?thesis using r(2,4) True by (intro exI [of _ r] exI [of _ s']) (auto split: if_splits)
  next
    case False
    then have "unat lba + i = cap" using Suc.prems(2) by simp
    moreover from this have "unat (lba + of_nat i) = cap"
      using assms(3) by (subst unat_add_of_nat) simp_all
    with wr_fail [OF Suc.prems(1) ch(2), of "lba + of_nat i"] obtain e s1
      where "wr (lba + of_nat i) (chunk dat i) s = Some (Err e, s1)" "inv s1" "disk s1 = disk s" by auto
    ultimately show ?thesis using ch(1) i by (simp add: l Let_def)
  qed
qed

lemma save_file_steps:
  assumes "inv s" "fs_readable cap (disk s) es" "\<forall>e \<in> set es. fname e \<noteq> name"
  obtains r s1 where "inv s1" "\<forall>n. n \<notin> {end_from 1 es ..< end_from 1 es + blocks_for dat} \<longrightarrow> disk s1 n = disk s n"
    "if end_from 1 es + blocks_for dat \<le> cap \<or> blocks_for dat = 0
     then r = Ok () \<and> (\<forall>j < blocks_for dat. disk s1 (end_from 1 es + j) = pad_block (chunk dat j))
     else \<exists>e. r = Err e"
    "save_file rd wr name dat (Some s) = (case r of
       Err e \<Rightarrow> Some (Err e, Some s1) | Ok _ \<Rightarrow> write_mft wr (es @ [new_entry es name dat]) (Some s1))"
proof -
  obtain s0 where s0: "read_mft rd (Some s) = Some (Ok es, Some s0)" "inv s0" "disk s0 = disk s"
    using read_mft_readable [OF assms(1,2)] by blast
  have ext: "extents_from cap 1 es" "cap < 2 ^ 51" using assms(2) by (simp_all add: fs_readable_def)
  let ?lba = "start_lba (new_entry es name dat)"
  have lba: "unat ?lba = end_from 1 es" by (rule new_entry_start [OF ext])
  have "unat ?lba + 0 \<le> cap" using extents_end [OF ext(1)] lba by simp
  from write_blocks_ok [OF s0(2) this ext(2), of dat] obtain r s1
    where r: "write_blocks wr dat ?lba [0..<blocks_for dat] s0 = Some (r, s1)" "inv s1"
      "\<forall>n. n \<notin> {unat ?lba ..< unat ?lba + blocks_for dat} \<longrightarrow> disk s1 n = disk s0 n"
      "if unat ?lba + blocks_for dat \<le> cap \<or> 0 = blocks_for dat
       then r = Ok () \<and> (\<forall>j \<in> {0 ..< blocks_for dat}. disk s1 (unat ?lba + j) = pad_block (chunk dat j))
       else \<exists>e. r = Err e" by auto
  have "save_file rd wr name dat (Some s) = (case r of
      Err e \<Rightarrow> Some (Err e, Some s1) | Ok _ \<Rightarrow> write_mft wr (es @ [new_entry es name dat]) (Some s1))"
    using s0(1) assms(3) r(1) unfolding save_file_def new_entry_def blocks_for_def
    by (simp add: Let_def cong: if_cong)
  with that [of s1 r] r s0(3) show ?thesis by (auto simp: lba split: if_splits)
qed

lemma save_file_readable:
  assumes "inv s" "fs_readable cap (disk s) es" "\<forall>e \<in> set es. fname e \<noteq> name" "dat \<noteq> []"
    "table_ok (es @ [new_entry es name dat])" "end_from 1 es + blocks_for dat \<le> cap"
  shows "\<exists>s'. save_file rd wr name dat (Some s) = Some (Ok (), Some s') \<and> inv s' \<and>
    fs_ok cap (disk s') (es @ [new_entry es name dat]) \<and>
    file_data (disk s') (new_entry es name dat) = pad_file dat \<and>
    (\<forall>e \<in> set es. file_data (disk s') e = file_data (disk s) e)"
proof -
  let ?e = "new_entry es name dat" and ?n = "blocks_for dat"
  have fs: "extents_from cap 1 es" "cap < 2 ^ 51" "0 < cap" using assms(2) by (simp_all add: fs_readable_def)
  obtain r s1 where s1: "inv s1" "\<forall>n. n \<notin> {end_from 1 es ..< end_from 1 es + ?n} \<longrightarrow> disk s1 n = disk s n"
    "if end_from 1 es + ?n \<le> cap \<or> ?n = 0
     then r = Ok () \<and> (\<forall>j < ?n. disk s1 (end_from 1 es + j) = pad_block (chunk dat j)) else \<exists>e. r = Err e"
    "save_file rd wr name dat (Some s) = (case r of
       Err e \<Rightarrow> Some (Err e, Some s1) | Ok _ \<Rightarrow> write_mft wr (es @ [?e]) (Some s1))"
    by (rule save_file_steps [OF assms(1-3), of dat]) (rule that)
  obtain s' where s': "write_mft wr (es @ [?e]) (Some s1) = Some (Ok (), Some s')" "inv s'"
    "disk s' = (disk s1)(0 := mft_buffer (es @ [?e]))" using write_mft_ok [OF s1(1) fs(3)] by blast
  have st: "unat (start_lba ?e) = end_from 1 es" by (rule new_entry_start [OF fs(1,2)])
  have lo: "1 \<le> end_from 1 es" using extents_end [OF fs(1)] by simp
  have n: "?n < 2 ^ 51" using assms(6) fs(2) by simp
  then have cnt: "unat (block_count ?e) = ?n" by (simp add: new_entry_def unat_of_nat take_bit_nat_def)
  have "extents_from cap 1 (es @ [?e])"
    unfolding extents_append using fs(1) st cnt blocks_for_pos [OF assms(4)] assms(6) by simp
  then have "fs_ok cap (disk s') (es @ [?e])" using fs assms(5) by (simp add: fs_ok_def s'(3))
  moreover have "file_data (disk s') ?e = pad_file dat"
    unfolding file_data_def st cnt concat_chunks [symmetric]
    using s1(3) assms(6) lo by (intro arg_cong [where f = concat] map_cong) (auto simp: s'(3))
  moreover have "file_data (disk s') e = file_data (disk s) e" if "e \<in> set es" for e
  proof (rule file_data_cong)
    fix n assume "n \<in> extent e"
    with extents_mem [OF fs(1) that] have "1 \<le> n" "n < end_from 1 es" by auto
    then show "disk s' n = disk s n" using s1(2) by (simp add: s'(3))
  qed
  moreover have "save_file rd wr name dat (Some s) = Some (Ok (), Some s')"
    using s1(3,4) s'(1) assms(6) by simp
  ultimately show ?thesis using s'(2) by blast
qed

lemma save_file_ok:
  assumes "inv s" "fs_ok cap (disk s) es" "\<forall>e \<in> set es. fname e \<noteq> name" "dat \<noteq> []"
    "table_ok (es @ [new_entry es name dat])" "end_from 1 es + blocks_for dat \<le> cap"
  shows "\<exists>s'. save_file rd wr name dat (Some s) = Some (Ok (), Some s') \<and> inv s' \<and>
    fs_ok cap (disk s') (es @ [new_entry es name dat]) \<and>
    file_data (disk s') (new_entry es name dat) = pad_file dat \<and>
    (\<forall>e \<in> set es. file_data (disk s') e = file_data (disk s) e)"
  using save_file_readable [OF assms(1) fs_ok_readable [OF assms(2)] assms(3-)] .

text \<open>A save that does not fit on the drive is refused and leaves the table and every file as they were.\<close>

lemma save_file_full:
  assumes "inv s" "fs_ok cap (disk s) es" "\<forall>e \<in> set es. fname e \<noteq> name" "dat \<noteq> []"
    "cap < end_from 1 es + blocks_for dat"
  shows "\<exists>e s'. save_file rd wr name dat (Some s) = Some (Err e, Some s') \<and> inv s' \<and>
    fs_ok cap (disk s') es \<and> (\<forall>e \<in> set es. file_data (disk s') e = file_data (disk s) e)"
proof -
  have fs: "extents_from cap 1 es" using assms(2) by (simp_all add: fs_ok_def)
  obtain r s1 where s1: "inv s1" "\<forall>n. n \<notin> {end_from 1 es ..< end_from 1 es + blocks_for dat} \<longrightarrow> disk s1 n = disk s n"
    "if end_from 1 es + blocks_for dat \<le> cap \<or> blocks_for dat = 0
     then r = Ok () \<and> (\<forall>j < blocks_for dat. disk s1 (end_from 1 es + j) = pad_block (chunk dat j))
     else \<exists>e. r = Err e"
    "save_file rd wr name dat (Some s) = (case r of
       Err e \<Rightarrow> Some (Err e, Some s1) | Ok _ \<Rightarrow> write_mft wr (es @ [new_entry es name dat]) (Some s1))"
    by (rule save_file_steps [OF assms(1) fs_ok_readable [OF assms(2)] assms(3), of dat]) (rule that)
  from s1(3) assms(5) blocks_for_pos [OF assms(4)] obtain e where r: "r = Err e" by auto
  have lo: "1 \<le> end_from 1 es" using extents_end [OF fs(1)] by simp
  then have "disk s1 0 = disk s 0" using s1(2) by simp
  then have "fs_ok cap (disk s1) es" using assms(2) by (simp add: fs_ok_def)
  moreover have "file_data (disk s1) e = file_data (disk s) e" if "e \<in> set es" for e
    using extents_mem [OF fs that] s1(2) by (intro file_data_cong) auto
  moreover have "save_file rd wr name dat (Some s) = Some (Err e, Some s1)" using s1(4) r by simp
  ultimately show ?thesis using s1(1) by blast
qed

lemma find_file_ok:
  assumes "inv s" "fs_ok cap (disk s) es"
  shows "\<exists>s'. find_file rd name (Some s) = Some (find (name_matches name) es, Some s') \<and> inv s' \<and> disk s' = disk s"
proof -
  have es: "\<forall>e \<in> set es. name_ok (fname e)" "length (render_mft es) \<le> 4096" "0 < cap" "disk s 0 = mft_buffer es"
    using assms(2) by (simp_all add: fs_ok_def table_ok_def)
  then show ?thesis
    using rd_ok [OF assms(1), of 0]
    by (auto simp: find_file_def clean_mft_buffer str_lines_mft find_line_entries name_ok_line)
qed

lemma verify_ok:
  assumes "inv s" "unat lba < cap" "ctx_wf ctx"
  shows "\<exists>v s'. check_block (disk s (unat lba)) ctx = Some v \<and> (\<forall>off. v = Ok off \<longrightarrow> off \<le> 4096) \<and>
    verify_mdo_access rd lba ctx (Some s) = Some (v, Some s') \<and> inv s' \<and> disk s' = disk s"
proof -
  obtain v where v: "check_block (disk s (unat lba)) ctx = Some v" "\<forall>off. v = Ok off \<longrightarrow> off \<le> 4096"
    using check_block_total [OF assms(3) sector [OF assms(1)]] by blast
  with rd_ok [OF assms(1,2)] show ?thesis by (auto simp: verify_mdo_access_def)
qed

lemma read_blocks_ok:
  assumes "inv s" "\<forall>i \<in> set is. unat lba + i < cap" "cap < 2 ^ 51"
  shows "\<exists>s'. read_blocks rd lba is acc s = Some (Ok (acc @ concat (map (\<lambda>i. disk s (unat lba + i)) is)), s') \<and>
    inv s' \<and> disk s' = disk s"
  using assms(1,2)
proof (induction "is" arbitrary: acc s)
  case (Cons i "is")
  then have "unat (lba + of_nat i) = unat lba + i" using assms(3) by (intro unat_add_of_nat) simp
  with rd_ok [OF Cons.prems(1), of "lba + of_nat i"] Cons.prems(2) obtain s1
    where s1: "rd (lba + of_nat i) s = Some (Ok (disk s (unat lba + i)), s1)" "inv s1" "disk s1 = disk s" by auto
  from Cons.IH [OF s1(2), of "acc @ disk s (unat lba + i)"] Cons.prems(2) s1 show ?case by auto
qed simp

lemma entry_blocks:
  assumes "0 < unat (block_count e)" "unat (start_lba e) + unat (block_count e) \<le> cap" "cap < 2 ^ 51"
  shows "unat (start_lba e) < cap"
    "file_data dsk e = dsk (unat (start_lba e)) @
      concat (map (\<lambda>i. dsk (unat (start_lba e) + i)) [1..<unat (block_count e)])"
    "\<forall>i \<in> set [1..<unat (block_count e)]. unat (start_lba e) + i < cap" "unat (block_count e * 4096) < 2 ^ 63"
proof -
  show "unat (start_lba e) < cap" "\<forall>i \<in> set [1..<unat (block_count e)]. unat (start_lba e) + i < cap"
    using assms by auto
  show "file_data dsk e = dsk (unat (start_lba e)) @
      concat (map (\<lambda>i. dsk (unat (start_lba e) + i)) [1..<unat (block_count e)])"
    using assms(1) by (simp add: file_data_def upt_conv_Cons)
  have "unat (block_count e) * 4096 < 2 ^ 63" using assms(2,3) by simp
  moreover from this have "unat (block_count e * 4096) = unat (block_count e) * 4096"
    by (simp add: unat_word_ariths)
  ultimately show "unat (block_count e * 4096) < 2 ^ 63" by simp
qed

lemma entry_in_bounds:
  assumes "e \<in> set es" "fs_ok cap dsk es"
  shows "1 \<le> unat (start_lba e)" "0 < unat (block_count e)" "unat (start_lba e) + unat (block_count e) \<le> cap" "cap < 2 ^ 51"
  using extents_mem [of cap 1 es e] assms by (auto simp: fs_ok_def)

lemma first_block_of_file:
  assumes "inv s" "e \<in> set es" "fs_ok cap (disk s) es"
  shows "unat (start_lba e) < cap" "unat (start_lba e) \<noteq> 0"
    "file_data (disk s) e = disk s (unat (start_lba e)) @
      concat (map (\<lambda>i. disk s (unat (start_lba e) + i)) [1..<unat (block_count e)])"
  using entry_in_bounds [OF assms(2,3)] entry_blocks(1) [of e] entry_blocks(2) [of e "disk s"] by auto

lemma read_found_ok:
  assumes found: "find_file rd name (Some s) = Some (Some e, Some s1)" "inv s1" and ctx: "ctx_wf ctx"
    and e: "0 < unat (block_count e)" "unat (start_lba e) + unat (block_count e) \<le> cap" "cap < 2 ^ 51"
  shows "\<exists>s'. read_file rd name ctx (Some s) = Some (entry_result (disk s1) e ctx, Some s') \<and>
    inv s' \<and> disk s' = disk s1"
proof -
  note f = entry_blocks [OF e]
  obtain v s2 where v: "check_block (disk s1 (unat (start_lba e))) ctx = Some v" "\<forall>off. v = Ok off \<longrightarrow> off \<le> 4096"
    "verify_mdo_access rd (start_lba e) ctx (Some s1) = Some (v, Some s2)" "inv s2" "disk s2 = disk s1"
    using verify_ok [OF found(2) f(1) ctx] by auto
  show ?thesis
  proof (cases v)
    case (Inl m)
    with found v show ?thesis by (simp add: read_file_def entry_result_def)
  next
    case (Inr off)
    let ?b = "disk s1 (unat (start_lba e))"
    obtain s3 where s3: "rd (start_lba e) s2 = Some (Ok ?b, s3)" "inv s3" "disk s3 = disk s1"
      using rd_ok [OF v(4) f(1)] v(5) by auto
    obtain s4 where s4: "read_blocks rd (start_lba e) [1..<unat (block_count e)] (drop off ?b) s3 =
        Some (Ok (drop off ?b @ concat (map (\<lambda>i. disk s1 (unat (start_lba e) + i)) [1..<unat (block_count e)])), s4)"
      "inv s4" "disk s4 = disk s1"
      using read_blocks_ok [OF s3(2) f(3) e(3), of "drop off ?b"] s3(3) by auto
    have len: "length ?b = 4096" "off \<le> 4096" using sector [OF found(2)] v(2) Inr by auto
    then have sl: "slice ?b off (length ?b) = Some (drop off ?b)" by (simp add: slice_def)
    have "read_file rd name ctx (Some s) =
        Some (Ok (drop off ?b @ concat (map (\<lambda>i. disk s1 (unat (start_lba e) + i)) [1..<unat (block_count e)])), Some s4)"
      unfolding read_file_def using found(1) v(3) Inr s3(1) sl s4(1) f(4) by (simp add: with_capacity_def)
    moreover have "entry_result (disk s1) e ctx = Ok (drop off ?b @
        concat (map (\<lambda>i. disk s1 (unat (start_lba e) + i)) [1..<unat (block_count e)]))"
      using v(1) Inr len by (simp add: entry_result_def f(2))
    ultimately show ?thesis using s4 by simp
  qed
qed

lemma read_file_ok:
  assumes "inv s" "fs_ok cap (disk s) es" "ctx_wf ctx"
  shows "\<exists>s'. read_file rd name ctx (Some s) = Some (read_result (disk s) es name ctx, Some s') \<and>
    inv s' \<and> disk s' = disk s"
proof -
  obtain s1 where s1: "find_file rd name (Some s) = Some (find (name_matches name) es, Some s1)" "inv s1"
    "disk s1 = disk s" using find_file_ok [OF assms(1,2)] by blast
  show ?thesis
  proof (cases "find (name_matches name) es")
    case None
    with s1 show ?thesis by (simp add: read_file_def read_result_def)
  next
    case (Some e)
    note b = entry_in_bounds [OF find_mem [OF Some, THEN conjunct1] assms(2)]
    from read_found_ok [OF s1(1) [unfolded Some] s1(2) assms(3) b(2-4)] Some s1(3)
    show ?thesis by (simp add: read_result_def)
  qed
qed

text \<open>Rewriting the table alone leaves the data of every file in place.\<close>

lemma table_update:
  assumes "inv s" "fs_ok cap (disk s) es" "table_ok es'" "extents_from cap 1 es'"
  shows "\<exists>s'. write_mft wr es' (Some s) = Some (Ok (), Some s') \<and> inv s' \<and> fs_ok cap (disk s') es' \<and>
    (\<forall>e. 0 \<notin> extent e \<longrightarrow> file_data (disk s') e = file_data (disk s) e)"
proof -
  have c: "0 < cap" "cap < 2 ^ 51" using assms(2) by (simp_all add: fs_ok_def)
  obtain s' where s': "write_mft wr es' (Some s) = Some (Ok (), Some s')" "inv s'"
    "disk s' = (disk s)(0 := mft_buffer es')" using write_mft_ok [OF assms(1) c(1)] by blast
  have "file_data (disk s') e = file_data (disk s) e" if "0 \<notin> extent e" for e
    using that by (intro file_data_cong) (auto simp: s'(3))
  with s' c assms(3,4) show ?thesis by (auto simp: fs_ok_def)
qed

lemma delete_file_ok:
  assumes "inv s" "fs_ok cap (disk s) es" "ctx_wf ctx"
  shows "\<exists>s'. delete_file rd wr name ctx (Some s) = Some (fst (delete_result (disk s) es name ctx), Some s') \<and>
    inv s' \<and> fs_ok cap (disk s') (snd (delete_result (disk s) es name ctx)) \<and>
    (\<forall>e. 0 \<notin> extent e \<longrightarrow> file_data (disk s') e = file_data (disk s) e)"
proof -
  obtain s1 where s1: "read_mft rd (Some s) = Some (Ok es, Some s1)" "inv s1" "disk s1 = disk s"
    using read_mft_ok [OF assms(1,2)] by blast
  show ?thesis
  proof (cases "position (\<lambda>e. fname e = name) es")
    case None
    with s1 assms(2) show ?thesis by (simp add: delete_file_def delete_result_def)
  next
    case (Some pos)
    note p = position_Some [OF Some]
    have "es ! pos \<in> set es" using p by simp
    note f = first_block_of_file [OF assms(1) this assms(2)]
    obtain v s2 where v: "check_block (disk s (unat (start_lba (es ! pos)))) ctx = Some v"
      "verify_mdo_access rd (start_lba (es ! pos)) ctx (Some s1) = Some (v, Some s2)" "inv s2" "disk s2 = disk s"
      using verify_ok [OF s1(2) f(1) assms(3)] s1(3) by auto
    show ?thesis
    proof (cases v)
      case (Inl m)
      with s1 Some v assms(2) show ?thesis by (simp add: delete_file_def delete_result_def)
    next
      case (Inr off)
      have "table_ok (take pos es @ drop (Suc pos) es)" "extents_from cap 1 (take pos es @ drop (Suc pos) es)"
        using assms(2) p table_ok_remove extents_remove by (auto simp: fs_ok_def)
      from table_update [OF v(3) _ this, of es] assms(2) v(4) s1(1) Some v(1,2) Inr show ?thesis
        by (simp add: delete_file_def delete_result_def)
    qed
  qed
qed

lemma rename_file_ok:
  assumes "inv s" "fs_ok cap (disk s) es" "ctx_wf ctx"
    "table_ok (snd (rename_result (disk s) es old new ctx))"
  shows "\<exists>s'. rename_file rd wr old new ctx (Some s) = Some (fst (rename_result (disk s) es old new ctx), Some s') \<and>
    inv s' \<and> fs_ok cap (disk s') (snd (rename_result (disk s) es old new ctx)) \<and>
    (\<forall>e. 0 \<notin> extent e \<longrightarrow> file_data (disk s') e = file_data (disk s) e)"
proof -
  obtain s1 where s1: "read_mft rd (Some s) = Some (Ok es, Some s1)" "inv s1" "disk s1 = disk s"
    using read_mft_ok [OF assms(1,2)] by blast
  show ?thesis
  proof (cases "(\<exists>e \<in> set es. fname e = new) \<or> position (\<lambda>e. fname e = old) es = None")
    case True
    with s1 assms(2) show ?thesis by (auto simp: rename_file_def rename_result_def)
  next
    case False
    then obtain pos where Some: "position (\<lambda>e. fname e = old) es = Some pos" by auto
    note p = position_Some [OF Some]
    have "es ! pos \<in> set es" using p by simp
    note f = first_block_of_file [OF assms(1) this assms(2)]
    obtain v s2 where v: "check_block (disk s (unat (start_lba (es ! pos)))) ctx = Some v"
      "verify_mdo_access rd (start_lba (es ! pos)) ctx (Some s1) = Some (v, Some s2)" "inv s2" "disk s2 = disk s"
      using verify_ok [OF s1(2) f(1) assms(3)] s1(3) by auto
    show ?thesis
    proof (cases v)
      case (Inl m)
      with s1 Some v assms(2) False show ?thesis by (simp add: rename_file_def rename_result_def)
    next
      case (Inr off)
      let ?es = "es[pos := (es ! pos)\<lparr>fname := new\<rparr>]"
      have "table_ok ?es" using assms(4) False Some v(1) Inr by (simp add: rename_result_def)
      moreover have "extents_from cap 1 ?es"
        using assms(2) p extents_rename [of pos es cap 1 new] by (simp add: fs_ok_def)
      ultimately show ?thesis
        using table_update [OF v(3), of es ?es] assms(2) v(4) s1(1) Some v(1,2) Inr False
        by (simp add: rename_file_def rename_result_def)
    qed
  qed
qed

text \<open>A denied delete or rename leaves the drive alone.\<close>

lemma delete_denied:
  assumes "inv s" "fs_ok cap (disk s) es" "ctx_wf ctx"
    "\<And>e off. e \<in> set es \<Longrightarrow> fname e = name \<Longrightarrow> check_block (disk s (unat (start_lba e))) ctx \<noteq> Some (Ok off)"
  shows "\<exists>m s'. delete_file rd wr name ctx (Some s) = Some (Err m, Some s') \<and> disk s' = disk s"
proof -
  obtain s1 where s1: "read_mft rd (Some s) = Some (Ok es, Some s1)" "inv s1" "disk s1 = disk s"
    using read_mft_ok [OF assms(1,2)] by blast
  show ?thesis
  proof (cases "position (\<lambda>e. fname e = name) es")
    case None
    with s1 show ?thesis by (simp add: delete_file_def)
  next
    case (Some pos)
    then have e: "es ! pos \<in> set es" "fname (es ! pos) = name" using position_Some [OF Some] by auto
    note f = first_block_of_file [OF assms(1) e(1) assms(2)]
    obtain m s2 where "verify_mdo_access rd (start_lba (es ! pos)) ctx (Some s1) = Some (Err m, Some s2)" "disk s2 = disk s"
      using verify_ok [OF s1(2) f(1) assms(3)] s1(3) assms(4) [OF e] by (metis sumE)
    with s1 Some show ?thesis by (simp add: delete_file_def)
  qed
qed

lemma rename_denied:
  assumes "inv s" "fs_ok cap (disk s) es" "ctx_wf ctx"
    "\<And>e off. e \<in> set es \<Longrightarrow> fname e = old \<Longrightarrow> check_block (disk s (unat (start_lba e))) ctx \<noteq> Some (Ok off)"
  shows "\<exists>m s'. rename_file rd wr old new ctx (Some s) = Some (Err m, Some s') \<and> disk s' = disk s"
proof -
  obtain s1 where s1: "read_mft rd (Some s) = Some (Ok es, Some s1)" "inv s1" "disk s1 = disk s"
    using read_mft_ok [OF assms(1,2)] by blast
  show ?thesis
  proof (cases "(\<exists>e \<in> set es. fname e = new) \<or> position (\<lambda>e. fname e = old) es = None")
    case True
    with s1 show ?thesis by (auto simp: rename_file_def)
  next
    case False
    then obtain pos where Some: "position (\<lambda>e. fname e = old) es = Some pos" by auto
    then have e: "es ! pos \<in> set es" "fname (es ! pos) = old" using position_Some [OF Some] by auto
    note f = first_block_of_file [OF assms(1) e(1) assms(2)]
    obtain m s2 where "verify_mdo_access rd (start_lba (es ! pos)) ctx (Some s1) = Some (Err m, Some s2)" "disk s2 = disk s"
      using verify_ok [OF s1(2) f(1) assms(3)] s1(3) assms(4) [OF e] by (metis sumE)
    with s1 Some False show ?thesis by (simp add: rename_file_def)
  qed
qed

end

end
