(* ===== verification/Mfs_Props.thy ===== *)
theory Mfs_Props
  imports Mfs_Spec
begin

text \<open>
  The properties of the file system on the NVMe driver, and the sealed demonstration file that
  \<^verbatim>\<open>kernel/src/main.rs\<close> writes and reads back at boot.
\<close>

subsection \<open>The demonstration file\<close>

definition vault_msg :: bytes where
  "vault_msg = map of_char ''TOP SECRET: PolyMorphOS Sovereign Kernel Verified!''"

definition forge_dummy_mdo_payload :: bytes where
  "forge_dummy_mdo_payload = (
     let p = replicate 4096 0;
         p = p[0 := 0x4D, 1 := 0x44, 2 := 0x4F, 3 := 0x01];
         p = foldl (\<lambda>p i. p[i := 0xAA]) p [4..<36];
         p = p[76 := 8];
         p = p[128 := 0x10, 129 := 0x01, 130 := 0x10, 131 := 0x03, 132 := 0x20, 133 := 0x30, 134 := 0x42,
               135 := 0x3F]
     in take 136 p @ vault_msg @ drop (136 + length vault_msg) p)"

definition bad_context :: MdoContext where
  "bad_context = \<lparr>requestor_id_hash = replicate 32 0xBB, action_hash = replicate 32 0,
     owner_id_hash = replicate 32 0, MdoContext.status = 0\<rparr>"

definition good_context :: MdoContext where
  "good_context = \<lparr>requestor_id_hash = replicate 32 0xAA, action_hash = replicate 32 0,
     owner_id_hash = replicate 32 0, MdoContext.status = 0\<rparr>"

definition vault_header :: bytes where
  "vault_header = [0x4D, 0x44, 0x4F, 0x01] @ replicate 32 0xAA @ replicate 40 0 @ [8, 0, 0, 0] @ replicate 48 0 @
     [0x10, 0x01, 0x10, 0x03, 0x20, 0x30, 0x42, 0x3F]"

lemma foldl_update_append:
  "\<forall>i \<in> set is. i < length xs \<Longrightarrow>
   foldl (\<lambda>p i. p[i := v]) (xs @ ys) is = foldl (\<lambda>p i. p[i := v]) xs is @ ys"
  by (induction "is" arbitrary: xs) (simp_all add: list_update_append1)

lemma length_foldl_update [simp]: "length (foldl (\<lambda>p i. p[i := v]) xs is) = length xs"
  by (induction "is" arbitrary: xs) simp_all

lemma vault_parts:
  "length vault_header = 136" "length vault_msg = 50" "take 4 vault_header = MDO_MAGIC"
  "take 32 (drop 4 vault_header) = replicate 32 0xAA" "take 4 (drop 76 vault_header) = [8, 0, 0, 0]"
  "drop 128 vault_header = assemble (owner_policy 0x42) @ [OP_HALT_OK]"
  by code_simp+

lemma vault_header_written:
  "(foldl (\<lambda>p i. p[i := 0xAA]) ((replicate 136 0)[0 := 0x4D, 1 := 0x44, 2 := 0x4F, 3 := 0x01]) [4..<36])
     [76 := 8, 128 := 0x10, 129 := 0x01, 130 := 0x10, 131 := 0x03, 132 := 0x20, 133 := 0x30, 134 := 0x42,
      135 := 0x3F] = vault_header"
  by code_simp

lemma forge_parts: "forge_dummy_mdo_payload = vault_header @ vault_msg @ replicate 3910 0"
proof -
  have "replicate 4096 (0 :: u8) = replicate 136 0 @ replicate 3960 0"
    by (simp only: replicate_add [symmetric]) simp
  then show ?thesis
    unfolding forge_dummy_mdo_payload_def Let_def vault_header_written [symmetric]
    by (simp add: list_update_append1 foldl_update_append vault_parts(2))
qed

lemma forge_layout:
  "length forge_dummy_mdo_payload = 4096" "take 4 forge_dummy_mdo_payload = MDO_MAGIC"
  "take 32 (drop 4 forge_dummy_mdo_payload) = replicate 32 0xAA"
  "take 4 (drop 76 forge_dummy_mdo_payload) = [8, 0, 0, 0]"
  "take 8 (drop 128 forge_dummy_mdo_payload) = drop 128 vault_header"
  "drop 136 forge_dummy_mdo_payload = vault_msg @ replicate 3910 0"
  by (simp_all add: forge_parts vault_parts(1-5))

lemma check_vault:
  assumes "ctx_wf ctx"
  shows "check_block forge_dummy_mdo_payload ctx = Some (if requestor_id_hash ctx = owner_id_hash ctx
    then Ok 136 else Err ''Access Denied by MDO Security Policy'')"
proof -
  have "unat (from_le_bytes32 [8, 0, 0, 0]) = 8" by simp
  then show ?thesis
    using run_owner_policy [OF assms, of "0x42" "[]"] forge_layout vault_parts(6)
    by (auto simp: check_block_def slice_def)
qed

definition vault_name :: bytes where
  "vault_name = map of_char ''vault.mdo''"

text \<open>The self-test of the boot code: what it prints of the file, if anything (the text is unwrapped, so bytes that
  are not UTF-8 panic).\<close>

definition boot_vault :: "'s read_fun \<Rightarrow> 's write_fun \<Rightarrow> 's option \<Rightarrow> (bytes option \<times> 's option) option" where
  "boot_vault rd wr drive = do {
     (_, drive) \<leftarrow> save_file rd wr vault_name forge_dummy_mdo_payload drive;
     (_, drive) \<leftarrow> read_file rd vault_name bad_context drive;
     (r, drive) \<leftarrow> read_file rd vault_name good_context drive;
     case r of
       Ok dat \<Rightarrow> if utf8_valid dat then Some (Some dat, drive) else None
     | Err _ \<Rightarrow> Some (None, drive)
   }"

subsection \<open>A formatted reference drive\<close>

definition formatted :: "nvme_dev nvme" where
  "formatted = (ref_state 4096 0x5000)\<lparr>hw := (hw (ref_state 4096 0x5000))\<lparr>
     d_disk := (\<lambda>_. replicate 4096 0)(0 := mft_buffer [])\<rparr>\<rparr>"

lemma length_mft_buffer: "length (mft_buffer es) = 4096"
  by (simp add: mft_buffer_def Let_def min_def)

lemma formatted_sync: "nvme_sync (\<lambda>d. d) 0x1000 0x5000 4096 formatted"
  using ref_state_sync [of 4096 "0x5000"]
  by (simp add: formatted_def nvme_sync_def nvme_armed_def length_mft_buffer)

lemma formatted_fs: "fs_ok 8 (d_disk (hw formatted)) []"
  by (simp add: formatted_def fs_ok_def table_ok_def render_mft_def MFS_MAGIC_def)

lemma blocks_for_vault: "blocks_for forge_dummy_mdo_payload = 1"
  by (simp add: blocks_for_def forge_layout)

lemma vault_table: "table_ok [new_entry [] vault_name forge_dummy_mdo_payload]"
proof -
  have "length vault_name = 9" "name_ok vault_name"
    by (simp_all add: vault_name_def name_ok_def line_name_def utf8_valid_ascii)
  moreover have "length (dec_u64 1) = 1" by (simp add: dec_u64_def dec_nat.simps)
  ultimately show ?thesis
    by (simp add: table_ok_def new_entry_def render_mft_def render_entry_def MFS_MAGIC_def blocks_for_vault)
qed

lemma vault_not_empty: "forge_dummy_mdo_payload \<noteq> []"
  by (simp add: forge_parts vault_header_def)

subsection \<open>Properties\<close>

lemma first_block_pad:
  assumes "block_device rd wr good disk cap" "good s" "fs_ok cap (disk s) (es @ [e])" "file_data (disk s) e = pad_file dat"
  shows "disk s (unat (start_lba e)) = take 4096 (pad_file dat)"
  using block_device.first_block_of_file(3) [OF assms(1,2) _ assms(3), of e] assms(4)
    block_device.sector [OF assms(1,2), of "unat (start_lba e)"] by simp

lemma find_append_last: "\<forall>e \<in> set es. \<not> p e \<Longrightarrow> p x \<Longrightarrow> find p (es @ [x]) = Some x"
  by (induction es) simp_all

lemma find_fresh:
  assumes "\<forall>e \<in> set es. \<not> name_matches name e"
  shows "find (name_matches name) (es @ [new_entry es name dat]) = Some (new_entry es name dat)"
  using assms by (rule find_append_last) (simp add: name_matches_def new_entry_def)

lemma saved_readable:
  assumes bd: "block_device rd wr good disk cap" and s: "good s" "fs_readable cap (disk s) es"
    and fresh: "\<forall>e \<in> set es. \<not> name_matches name e"
    and fits: "dat \<noteq> []" "table_ok (es @ [new_entry es name dat])" "end_from 1 es + blocks_for dat \<le> cap"
  obtains s1 where "save_file rd wr name dat (Some s) = Some (Ok (), Some s1)" "good s1"
    "fs_ok cap (disk s1) (es @ [new_entry es name dat])"
    "\<forall>ctx. read_result (disk s1) (es @ [new_entry es name dat]) name ctx =
      (case check_block (take 4096 (pad_file dat)) ctx of
        Some (Ok off) \<Rightarrow> Ok (drop off (pad_file dat)) | Some (Err m) \<Rightarrow> Err m | None \<Rightarrow> Err [])"
proof -
  have "fname e \<noteq> name" if "e \<in> set es" for e using fresh that by (auto simp: name_matches_def)
  with block_device.save_file_readable [OF bd s, of name dat] fits obtain s1
    where s1: "save_file rd wr name dat (Some s) = Some (Ok (), Some s1)" "good s1"
      "fs_ok cap (disk s1) (es @ [new_entry es name dat])" "file_data (disk s1) (new_entry es name dat) = pad_file dat"
    by blast
  show ?thesis
  proof (rule that [OF s1(1-3)], rule allI)
    fix ctx
    show "read_result (disk s1) (es @ [new_entry es name dat]) name ctx =
      (case check_block (take 4096 (pad_file dat)) ctx of
        Some (Ok off) \<Rightarrow> Ok (drop off (pad_file dat)) | Some (Err m) \<Rightarrow> Err m | None \<Rightarrow> Err [])"
      unfolding read_result_def find_fresh [OF fresh] option.case entry_result_def first_block_pad [OF bd s1(2-4)] s1(4) ..
  qed
qed

lemma saved_file:
  assumes bd: "block_device rd wr good disk cap" and s: "good s" "fs_ok cap (disk s) es"
    and fresh: "\<forall>e \<in> set es. \<not> name_matches name e"
    and fits: "dat \<noteq> []" "table_ok (es @ [new_entry es name dat])" "end_from 1 es + blocks_for dat \<le> cap"
  obtains s1 where "save_file rd wr name dat (Some s) = Some (Ok (), Some s1)" "good s1"
    "fs_ok cap (disk s1) (es @ [new_entry es name dat])"
    "\<forall>ctx. read_result (disk s1) (es @ [new_entry es name dat]) name ctx =
      (case check_block (take 4096 (pad_file dat)) ctx of
        Some (Ok off) \<Rightarrow> Ok (drop off (pad_file dat)) | Some (Err m) \<Rightarrow> Err m | None \<Rightarrow> Err [])"
  by (rule saved_readable [OF bd s(1) fs_ok_readable [OF s(2)] fresh fits]) (rule that)


lemma pad_vault: "pad_file forge_dummy_mdo_payload = forge_dummy_mdo_payload"
  by (simp add: pad_file_def blocks_for_vault forge_layout)




lemma check_block_denied:
  assumes "length blk = 4096" "\<not> consents blk ctx"
  shows "check_block blk ctx \<noteq> Some (Ok off)"
  using check_block_Ok_iff [OF assms(1), of ctx off] assms(2) by blast

text \<open>C1. The gate: no context gets at a file whose policy does not consent. Reading it gives no data, and deleting
  or renaming it gives an error and leaves every block of the drive as it was.\<close>

theorem mfs_gate:
  assumes "nvme_conforms D V base caph buf 4096 cap" "nvme_sync V base buf 4096 s"
    "fs_ok cap (d_disk (V (hw s))) es" "ctx_wf ctx"
    "\<forall>e \<in> set es. name_matches name e \<longrightarrow> \<not> consents (d_disk (V (hw s)) (unat (start_lba e))) ctx"
  shows "(\<exists>m s'. read_file (read_block D) name ctx (Some s) = Some (Err m, Some s')) \<and>
    (\<exists>m s'. delete_file (read_block D) (write_block D) name ctx (Some s) = Some (Err m, Some s') \<and>
       d_disk (V (hw s')) = d_disk (V (hw s))) \<and>
    (\<exists>m s'. rename_file (read_block D) (write_block D) name new ctx (Some s) = Some (Err m, Some s') \<and>
       d_disk (V (hw s')) = d_disk (V (hw s)))"
proof -
  note bd = nvme_block_device [OF assms(1)]
  note n = assms(2,3)
  let ?d = "d_disk (V (hw s))"
  have len: "length (?d k) = 4096" for k by (rule block_device.sector [OF bd n(1)])
  have no: "check_block (?d (unat (start_lba e))) ctx \<noteq> Some (Ok off)" if "e \<in> set es" "name_matches name e" for e off
    using check_block_denied [OF len] assms(5) that by blast
  have "read_result ?d es name ctx \<noteq> Ok x" for x
    using no by (auto simp: read_result_def entry_result_def split: option.splits sum.splits dest: find_mem)
  then have "\<exists>m s'. read_file (read_block D) name ctx (Some s) = Some (Err m, Some s')"
    using block_device.read_file_ok [OF bd n assms(4), of name] by (cases "read_result ?d es name ctx") auto
  moreover have "\<exists>m s'. delete_file (read_block D) (write_block D) name ctx (Some s) = Some (Err m, Some s') \<and>
      d_disk (V (hw s')) = ?d"
    by (rule block_device.delete_denied [OF bd n assms(4)]) (use no in \<open>simp add: name_matches_def\<close>)
  moreover have "\<exists>m s'. rename_file (read_block D) (write_block D) name new ctx (Some s) = Some (Err m, Some s') \<and>
      d_disk (V (hw s')) = ?d"
    by (rule block_device.rename_denied [OF bd n assms(4)]) (use no in \<open>simp add: name_matches_def\<close>)
  ultimately show ?thesis by blast
qed

lemma contexts_wf: "ctx_wf bad_context" "ctx_wf good_context"
  by (simp_all add: ctx_wf_def bad_context_def good_context_def)

lemma vault_denies:
  assumes "ctx_wf ctx" "requestor_id_hash ctx \<noteq> owner_id_hash ctx"
  shows "\<not> consents forge_dummy_mdo_payload ctx"
  using check_vault [OF assms(1)] assms(2) check_block_Ok_iff [OF forge_layout(1), of ctx]
  by auto

lemma strangers: "requestor_id_hash bad_context \<noteq> owner_id_hash bad_context"
  "requestor_id_hash good_context \<noteq> owner_id_hash good_context"
  by (simp_all add: bad_context_def good_context_def)

lemma vault_saved:
  obtains s1 where "save_file (read_block (ref_hw 4096 8 0x5000)) (write_block (ref_hw 4096 8 0x5000)) vault_name
      forge_dummy_mdo_payload (Some formatted) = Some (Ok (), Some s1)"
    "nvme_sync (\<lambda>d. d) 0x1000 0x5000 4096 s1"
    "fs_ok 8 (d_disk (hw s1)) [new_entry [] vault_name forge_dummy_mdo_payload]"
    "d_disk (hw s1) (unat (start_lba (new_entry [] vault_name forge_dummy_mdo_payload))) = forge_dummy_mdo_payload"
proof -
  let ?e = "new_entry [] vault_name forge_dummy_mdo_payload"
  from ref.save_file_ok [OF formatted_sync formatted_fs, of vault_name forge_dummy_mdo_payload] vault_table
  obtain s1 where s1: "save_file (read_block (ref_hw 4096 8 0x5000)) (write_block (ref_hw 4096 8 0x5000)) vault_name
      forge_dummy_mdo_payload (Some formatted) = Some (Ok (), Some s1)" "nvme_sync (\<lambda>d. d) 0x1000 0x5000 4096 s1"
      "fs_ok 8 (d_disk (hw s1)) [?e]" "file_data (d_disk (hw s1)) ?e = pad_file forge_dummy_mdo_payload"
    by (auto simp: blocks_for_vault vault_not_empty)
  moreover have "d_disk (hw s1) (unat (start_lba ?e)) = forge_dummy_mdo_payload"
    using first_block_pad [OF nvme_block_device [OF ref_hw_conforms] s1(2), of 8 "[]" ?e] s1(3,4)
      pad_vault forge_layout(1) by fastforce
  ultimately show ?thesis using that by blast
qed

theorem mfs_gate_witness:
  "\<exists>s1 m s2. save_file (read_block (ref_hw 4096 8 0x5000)) (write_block (ref_hw 4096 8 0x5000)) vault_name
      forge_dummy_mdo_payload (Some formatted) = Some (Ok (), Some s1) \<and>
    delete_file (read_block (ref_hw 4096 8 0x5000)) (write_block (ref_hw 4096 8 0x5000)) vault_name bad_context
      (Some s1) = Some (Err m, Some s2) \<and> d_disk (hw s2) = d_disk (hw s1)"
proof -
  obtain s1 where s1: "save_file (read_block (ref_hw 4096 8 0x5000)) (write_block (ref_hw 4096 8 0x5000)) vault_name
      forge_dummy_mdo_payload (Some formatted) = Some (Ok (), Some s1)" "nvme_sync (\<lambda>d. d) 0x1000 0x5000 4096 s1"
      "fs_ok 8 (d_disk (hw s1)) [new_entry [] vault_name forge_dummy_mdo_payload]"
      "d_disk (hw s1) (unat (start_lba (new_entry [] vault_name forge_dummy_mdo_payload))) = forge_dummy_mdo_payload"
    by (rule vault_saved)
  then show ?thesis
    using mfs_gate [OF ref_hw_conforms s1(2,3) contexts_wf(1), of vault_name]
      vault_denies [OF contexts_wf(1) strangers(1)] by auto
qed

lemma position_first:
  "\<forall>e' \<in> set es1. fname e' \<noteq> n \<Longrightarrow> fname e = n \<Longrightarrow> position (\<lambda>e. fname e = n) (es1 @ e # es2) = Some (length es1)"
  by (induction es1) auto

lemma extent_not_table:
  "extents_from cap 1 es \<Longrightarrow> e \<in> set es \<Longrightarrow> 0 \<notin> extent e"
  using extents_mem [of cap 1 es e] by auto

text \<open>C29. A delete that the policy of the file grants returns Ok and removes from the table that one file, the first
  with the name; the file system stays well formed and all other files keep their data.\<close>

theorem mfs_delete_removes_one:
  assumes "nvme_conforms D V base caph buf 4096 cap" "nvme_sync V base buf 4096 s"
    "fs_ok cap (d_disk (V (hw s))) (es1 @ e # es2)" "ctx_wf ctx" "\<forall>e' \<in> set es1. fname e' \<noteq> fname e"
    "consents (d_disk (V (hw s)) (unat (start_lba e))) ctx"
  shows "\<exists>s'. delete_file (read_block D) (write_block D) (fname e) ctx (Some s) = Some (Ok (), Some s') \<and>
    nvme_sync V base buf 4096 s' \<and> fs_ok cap (d_disk (V (hw s'))) (es1 @ es2) \<and>
    (\<forall>e' \<in> set (es1 @ es2). file_data (d_disk (V (hw s'))) e' = file_data (d_disk (V (hw s))) e')"
proof -
  note bd = nvme_block_device [OF assms(1)]
  obtain off where "check_block (d_disk (V (hw s)) (unat (start_lba e))) ctx = Some (Ok off)"
    using check_block_Ok_iff [OF block_device.sector [OF bd assms(2)]] assms(6) by blast
  then have "delete_result (d_disk (V (hw s))) (es1 @ e # es2) (fname e) ctx = (Ok (), es1 @ es2)"
    using position_first [OF assms(5) refl, of es2] by (simp add: delete_result_def)
  moreover have "0 \<notin> extent e'" if "e' \<in> set (es1 @ es2)" for e'
    using assms(3) that by (intro extent_not_table [of cap "es1 @ e # es2"]) (auto simp: fs_ok_def)
  ultimately show ?thesis using block_device.delete_file_ok [OF bd assms(2-4), of "fname e"] by auto
qed

theorem mfs_delete_removes_one_witness:
  "\<exists>s1 s2. save_file (read_block (ref_hw 4096 8 0x5000)) (write_block (ref_hw 4096 8 0x5000)) vault_name
      forge_dummy_mdo_payload (Some formatted) = Some (Ok (), Some s1) \<and>
    delete_file (read_block (ref_hw 4096 8 0x5000)) (write_block (ref_hw 4096 8 0x5000)) vault_name demo_ctx
      (Some s1) = Some (Ok (), Some s2) \<and> fs_ok 8 (d_disk (hw s2)) []"
proof -
  let ?e = "new_entry [] vault_name forge_dummy_mdo_payload"
  obtain s1 where s1: "save_file (read_block (ref_hw 4096 8 0x5000)) (write_block (ref_hw 4096 8 0x5000)) vault_name
      forge_dummy_mdo_payload (Some formatted) = Some (Ok (), Some s1)" "nvme_sync (\<lambda>d. d) 0x1000 0x5000 4096 s1"
      "fs_ok 8 (d_disk (hw s1)) [?e]" "d_disk (hw s1) (unat (start_lba ?e)) = forge_dummy_mdo_payload"
    by (rule vault_saved)
  have "check_block forge_dummy_mdo_payload demo_ctx = Some (Ok 136)"
    unfolding check_vault [OF demo_ctx_wf] by (simp add: demo_ctx_def)
  then have "consents forge_dummy_mdo_payload demo_ctx" using check_block_Ok_iff [OF forge_layout(1)] by blast
  moreover have "fname ?e = vault_name" by (simp add: new_entry_def)
  ultimately show ?thesis
    using mfs_delete_removes_one [OF ref_hw_conforms s1(2), of 8 "[]" ?e "[]" demo_ctx] s1 demo_ctx_wf by auto
qed

text \<open>A rename that the policy of the file grants, to a name that is not in the table, returns Ok and changes the
  name of that one file; its extent, its data and all other files stay.\<close>

theorem mfs_rename_moves_one:
  assumes "nvme_conforms D V base caph buf 4096 cap" "nvme_sync V base buf 4096 s"
    "fs_ok cap (d_disk (V (hw s))) (es1 @ e # es2)" "ctx_wf ctx" "\<forall>e' \<in> set es1. fname e' \<noteq> fname e"
    "consents (d_disk (V (hw s)) (unat (start_lba e))) ctx" "\<forall>e' \<in> set (es1 @ e # es2). fname e' \<noteq> new"
    "table_ok (es1 @ e\<lparr>fname := new\<rparr> # es2)"
  shows "\<exists>s'. rename_file (read_block D) (write_block D) (fname e) new ctx (Some s) = Some (Ok (), Some s') \<and>
    nvme_sync V base buf 4096 s' \<and> fs_ok cap (d_disk (V (hw s'))) (es1 @ e\<lparr>fname := new\<rparr> # es2) \<and>
    (\<forall>e' \<in> set (es1 @ e\<lparr>fname := new\<rparr> # es2).
       file_data (d_disk (V (hw s'))) e' = file_data (d_disk (V (hw s))) e')"
proof -
  note bd = nvme_block_device [OF assms(1)]
  obtain off where "check_block (d_disk (V (hw s)) (unat (start_lba e))) ctx = Some (Ok off)"
    using check_block_Ok_iff [OF block_device.sector [OF bd assms(2)]] assms(6) by blast
  then have r: "rename_result (d_disk (V (hw s))) (es1 @ e # es2) (fname e) new ctx =
      (Ok (), es1 @ e\<lparr>fname := new\<rparr> # es2)"
    using position_first [OF assms(5) refl, of es2] assms(7) by (auto simp: rename_result_def)
  from block_device.rename_file_ok [OF bd assms(2-4), of "fname e" new] assms(8) r obtain s'
    where s': "rename_file (read_block D) (write_block D) (fname e) new ctx (Some s) = Some (Ok (), Some s')"
      "nvme_sync V base buf 4096 s'" "fs_ok cap (d_disk (V (hw s'))) (es1 @ e\<lparr>fname := new\<rparr> # es2)"
      "\<forall>e. 0 \<notin> extent e \<longrightarrow> file_data (d_disk (V (hw s'))) e = file_data (d_disk (V (hw s))) e" by auto
  then show ?thesis using extent_not_table [of cap "es1 @ e\<lparr>fname := new\<rparr> # es2"] unfolding fs_ok_def by blast
qed

lemma vault_consents: "consents forge_dummy_mdo_payload demo_ctx"
proof -
  have "check_block forge_dummy_mdo_payload demo_ctx = Some (Ok 136)"
    unfolding check_vault [OF demo_ctx_wf] by (simp add: demo_ctx_def)
  then show ?thesis using check_block_Ok_iff [OF forge_layout(1)] by blast
qed

theorem mfs_rename_moves_one_witness:
  "\<exists>s1 s2. save_file (read_block (ref_hw 4096 8 0x5000)) (write_block (ref_hw 4096 8 0x5000)) vault_name
      forge_dummy_mdo_payload (Some formatted) = Some (Ok (), Some s1) \<and>
    rename_file (read_block (ref_hw 4096 8 0x5000)) (write_block (ref_hw 4096 8 0x5000)) vault_name [97] demo_ctx
      (Some s1) = Some (Ok (), Some s2)"
proof -
  let ?e = "new_entry [] vault_name forge_dummy_mdo_payload"
  obtain s1 where s1: "save_file (read_block (ref_hw 4096 8 0x5000)) (write_block (ref_hw 4096 8 0x5000)) vault_name
      forge_dummy_mdo_payload (Some formatted) = Some (Ok (), Some s1)" "nvme_sync (\<lambda>d. d) 0x1000 0x5000 4096 s1"
      "fs_ok 8 (d_disk (hw s1)) [?e]" "d_disk (hw s1) (unat (start_lba ?e)) = forge_dummy_mdo_payload"
    by (rule vault_saved)
  have n: "fname ?e = vault_name" "vault_name \<noteq> [97]" by (simp_all add: new_entry_def vault_name_def)
  have "length (dec_u64 1) = 1" by (simp add: dec_u64_def dec_nat.simps)
  then have "table_ok [?e\<lparr>fname := [97]\<rparr>]"
    by (simp add: table_ok_def new_entry_def render_mft_def render_entry_def MFS_MAGIC_def blocks_for_vault name_ok_def line_name_def)
  then show ?thesis
    using mfs_rename_moves_one [OF ref_hw_conforms s1(2), of 8 "[]" ?e "[]" demo_ctx "[97]"] s1 demo_ctx_wf
      vault_consents n by auto
qed



text \<open>The self-test at boot never shows the sealed text: the policy compares the requestor with the owner hash of
  the context, which the boot code leaves at zero, and not with the owner hash in the header of the
  file; so even the context meant for the true owner is denied.\<close>

theorem boot_vault_shows_nothing:
  assumes "nvme_conforms D V base caph buf 4096 cap" "nvme_sync V base buf 4096 s"
    "fs_readable cap (d_disk (V (hw s))) es" "\<forall>e \<in> set es. \<not> name_matches vault_name e"
    "table_ok (es @ [new_entry es vault_name forge_dummy_mdo_payload])" "end_from 1 es < cap"
  shows "requestor_id_hash good_context = take 32 (drop 4 forge_dummy_mdo_payload) \<and>
    (\<exists>s'. boot_vault (read_block D) (write_block D) (Some s) = Some (None, Some s') \<and> nvme_sync V base buf 4096 s' \<and>
      fs_ok cap (d_disk (V (hw s'))) (es @ [new_entry es vault_name forge_dummy_mdo_payload]))"
proof -
  note bd = nvme_block_device [OF assms(1)]
  let ?e = "new_entry es vault_name forge_dummy_mdo_payload"
  have denied: "check_block (take 4096 (pad_file forge_dummy_mdo_payload)) ctx =
      Some (Err ''Access Denied by MDO Security Policy'')"
    if "ctx_wf ctx" "requestor_id_hash ctx \<noteq> owner_id_hash ctx" for ctx
    using check_vault [OF that(1)] that(2) by (simp add: pad_vault forge_layout(1))
  have "end_from 1 es + blocks_for forge_dummy_mdo_payload \<le> cap" using assms(6) by (simp add: blocks_for_vault)
  then obtain s1 where s1: "save_file (read_block D) (write_block D) vault_name forge_dummy_mdo_payload (Some s) =
      Some (Ok (), Some s1)" "nvme_sync V base buf 4096 s1" "fs_ok cap (d_disk (V (hw s1))) (es @ [?e])"
      "\<forall>ctx. read_result (d_disk (V (hw s1))) (es @ [?e]) vault_name ctx =
        (case check_block (take 4096 (pad_file forge_dummy_mdo_payload)) ctx of
          Some (Ok off) \<Rightarrow> Ok (drop off (pad_file forge_dummy_mdo_payload)) | Some (Err m) \<Rightarrow> Err m | None \<Rightarrow> Err [])"
    using saved_readable [OF bd assms(2-4) vault_not_empty assms(5)] by blast
  then have r: "read_result (d_disk (V (hw s1))) (es @ [?e]) vault_name ctx = Err ''Access Denied by MDO Security Policy''"
    if "ctx_wf ctx" "requestor_id_hash ctx \<noteq> owner_id_hash ctx" for ctx using that by (simp add: denied)
  obtain s2 where s2: "read_file (read_block D) vault_name bad_context (Some s1) =
      Some (Err ''Access Denied by MDO Security Policy'', Some s2)" "nvme_sync V base buf 4096 s2"
      "d_disk (V (hw s2)) = d_disk (V (hw s1))"
    using block_device.read_file_ok [OF bd s1(2,3) contexts_wf(1), of vault_name] r contexts_wf strangers by auto
  have fs: "fs_ok cap (d_disk (V (hw s2))) (es @ [?e])" using s1(3) s2(3) by simp
  from block_device.read_file_ok [OF bd s2(2) fs contexts_wf(2), of vault_name]
  obtain s3 where "read_file (read_block D) vault_name good_context (Some s2) =
      Some (Err ''Access Denied by MDO Security Policy'', Some s3)" "nvme_sync V base buf 4096 s3"
      "d_disk (V (hw s3)) = d_disk (V (hw s2))"
    using r contexts_wf strangers by (auto simp: s2(3))
  with s1(1) s2(1) fs show ?thesis by (simp add: boot_vault_def good_context_def forge_layout)
qed

theorem boot_vault_shows_nothing_witness:
  "\<exists>s'. boot_vault (read_block (ref_hw 4096 8 0x5000)) (write_block (ref_hw 4096 8 0x5000)) (Some formatted) =
     Some (None, Some s')"
  using boot_vault_shows_nothing [OF ref_hw_conforms formatted_sync fs_ok_readable [OF formatted_fs]] vault_table by auto

end
