(* ===== verification/Pci.thy ===== *)
theory Pci
  imports Rust_I32 Rust_Str
begin

text \<open>
  The PCI layer: \<^verbatim>\<open>kernel/src/pci.rs\<close> and the capability walk of \<^verbatim>\<open>kernel/src/virtio_pci.rs\<close>. What the configuration
  mechanism answers on the data port is a parameter, a function of the address written to the address port. The
  initialisation of the drivers found by the boot scan is an argument too, one function per driver, because the scan
  only decides which is called, in which order and with which base address; \<^verbatim>\<open>Kernel_Main\<close> supplies the functions.
\<close>

subsection \<open>Configuration space\<close>

type_synonym config = "u32 \<Rightarrow> u32"

definition pci_address :: "u8 \<Rightarrow> u8 \<Rightarrow> u8 \<Rightarrow> u8 \<Rightarrow> u32" where
  "pci_address bus slot func offset = 0x80000000 OR push_bit 16 (ucast bus) OR push_bit 11 (ucast slot) OR
     push_bit 8 (ucast func) OR (ucast offset AND 0xFC)"

definition pci_read_word :: "config \<Rightarrow> u8 \<Rightarrow> u8 \<Rightarrow> u8 \<Rightarrow> u8 \<Rightarrow> u32" where
  "pci_read_word cfg bus slot func offset = cfg (pci_address bus slot func offset)"

subsection \<open>The boot scan\<close>

record 's drivers =
  init_nvme :: "u64 \<Rightarrow> 's \<Rightarrow> 's option"
  init_e1000 :: "u64 \<Rightarrow> 's \<Rightarrow> 's option"
  init_virtio :: "u8 \<Rightarrow> u8 \<Rightarrow> u8 \<Rightarrow> 's \<Rightarrow> 's option"

definition nvme_base :: "u32 \<Rightarrow> u32 \<Rightarrow> u64" where
  "nvme_base bar0 bar1 = (if bar0 AND 0x06 = 0x04 then push_bit 32 (ucast bar1) OR (ucast bar0 AND 0xFFFFFFF0)
     else ucast bar0 AND 0xFFFFFFF0)"

definition check_device :: "config \<Rightarrow> 's drivers \<Rightarrow> u8 \<Rightarrow> u8 \<Rightarrow> u8 \<Rightarrow> 's \<Rightarrow> 's option" where
  "check_device cfg ds bus slot func s = (
     let word0 = pci_read_word cfg bus slot func 0x00;
         vendor_id = word0 AND 0xFFFF; device_id = drop_bit 16 word0;
         word2 = pci_read_word cfg bus slot func 0x08;
         class_code = drop_bit 24 word2 AND 0xFF; subclass = drop_bit 16 word2 AND 0xFF
     in if class_code = 0x01 \<and> subclass = 0x08
        then let bar0 = pci_read_word cfg bus slot func 0x10; bar1 = pci_read_word cfg bus slot func 0x14 in
          if bar0 AND 0x01 = 0 then init_nvme ds (nvme_base bar0 bar1) s else Some s
        else if vendor_id = 0x8086 \<and> device_id = 0x100E
        then let bar0 = pci_read_word cfg bus slot func 0x10 in
          if bar0 AND 0x01 = 0 then init_e1000 ds (ucast (bar0 AND 0xFFFFFFF0)) s else Some s
        else if vendor_id = 0x1AF4 \<and> device_id = 0x1050 then init_virtio ds bus slot func s
        else Some s)"

text \<open>The ranges of the loops: \<open>1..8\<close>, \<open>0..=255\<close> and \<open>0..32\<close>.\<close>

definition higher_funcs :: "u8 list" where
  "higher_funcs = [1, 2, 3, 4, 5, 6, 7]"

definition buses :: "u8 list" where
  "buses = map of_nat [0..<256]"

definition slots :: "u8 list" where
  "slots = map of_nat [0..<32]"

text \<open>The body of the loops over buses and slots.\<close>

definition enumerate_slot :: "config \<Rightarrow> 's drivers \<Rightarrow> u8 \<Rightarrow> u8 \<Rightarrow> 's \<Rightarrow> 's option" where
  "enumerate_slot cfg ds bus slot s = (
     let vendor = pci_read_word cfg bus slot 0 0 AND 0xFFFF in
     if vendor = 0xFFFF then Some s
     else do {
       s \<leftarrow> check_device cfg ds bus slot 0 s;
       let header_type = drop_bit 16 (pci_read_word cfg bus slot 0 0x0C) AND 0xFF;
       if header_type AND 0x80 \<noteq> 0
       then for_each higher_funcs (\<lambda>func s.
         if pci_read_word cfg bus slot func 0 AND 0xFFFF \<noteq> 0xFFFF then check_device cfg ds bus slot func s else Some s) s
       else Some s })"

definition enumerate_buses :: "config \<Rightarrow> 's drivers \<Rightarrow> 's \<Rightarrow> 's option" where
  "enumerate_buses cfg ds = for_each buses (\<lambda>bus. for_each slots (enumerate_slot cfg ds bus))"

subsection \<open>The scan on request\<close>

definition hex_digit :: "nat \<Rightarrow> u8" where
  "hex_digit d = (if d < 10 then of_nat (48 + d) else of_nat (55 + d))"

fun hex_nat :: "nat \<Rightarrow> bytes" where
  "hex_nat n = (if n < 16 then [hex_digit n] else hex_nat (n div 16) @ [hex_digit (n mod 16)])"

declare hex_nat.simps [simp del]

text \<open>The formats \<open>{:02X}\<close> and \<open>{:04X}\<close>.\<close>

definition hex_pad :: "nat \<Rightarrow> nat \<Rightarrow> bytes" where
  "hex_pad w n = replicate (w - length (hex_nat n)) 48 @ hex_nat n"

definition device_name :: "u32 \<Rightarrow> u32 \<Rightarrow> u32 \<Rightarrow> u32 \<Rightarrow> string" where
  "device_name vendor_id device_id class_code subclass =
     (if class_code = 0x01 \<and> subclass = 0x08 then ''NVMe Controller''
      else if vendor_id = 0x8086 \<and> device_id = 0x100E then ''Intel E1000 Gigabit Network''
      else if vendor_id = 0x8086 \<and> device_id = 0x1237 then ''Intel Host Bridge''
      else if class_code = 0x03 \<and> subclass = 0x00 then ''VGA Compatible Controller''
      else ''Unknown Device'')"

definition probe_device_to_string :: "config \<Rightarrow> u8 \<Rightarrow> u8 \<Rightarrow> u8 \<Rightarrow> bytes" where
  "probe_device_to_string cfg bus slot func = (
     let word0 = pci_read_word cfg bus slot func 0x00;
         vendor_id = word0 AND 0xFFFF; device_id = drop_bit 16 word0;
         word2 = pci_read_word cfg bus slot func 0x08;
         class_code = drop_bit 24 word2 AND 0xFF; subclass = drop_bit 16 word2 AND 0xFF
     in map of_char ''  -> Bus '' @ hex_pad 2 (unat bus) @ map of_char '', Slot '' @ hex_pad 2 (unat slot) @
        map of_char '', Func '' @ dec_u64 (ucast func) @ map of_char '' | Ven: '' @ hex_pad 4 (unat vendor_id) @
        map of_char '', Dev: '' @ hex_pad 4 (unat device_id) @ map of_char ''['' @
        map of_char (device_name vendor_id device_id class_code subclass) @ map of_char '']'' @ [10])"

definition scan_slot :: "config \<Rightarrow> u8 \<Rightarrow> u8 \<Rightarrow> bytes \<Rightarrow> bytes" where
  "scan_slot cfg bus slot output = (
     let vendor = pci_read_word cfg bus slot 0 0 AND 0xFFFF in
     if vendor = 0xFFFF then output
     else let output = output @ probe_device_to_string cfg bus slot 0;
              header_type = drop_bit 16 (pci_read_word cfg bus slot 0 0x0C) AND 0xFF in
       if header_type AND 0x80 \<noteq> 0
       then fold (\<lambda>func output. if pci_read_word cfg bus slot func 0 AND 0xFFFF \<noteq> 0xFFFF
         then output @ probe_device_to_string cfg bus slot func else output) higher_funcs output
       else output)"

definition scan_pci_dynamic :: "config \<Rightarrow> bytes" where
  "scan_pci_dynamic cfg = fold (\<lambda>bus. fold (scan_slot cfg bus) slots) buses
     (map of_char ''[MICT: MAP] Initiating Dynamic PCIe Radar...'' @ [10]) @
     map of_char ''[MICT: MAP] Dynamic Scan Complete.'' @ [10]"

subsection \<open>The capability walk\<close>

record VirtioCapabilities =
  common_cfg_phys :: u64
  notify_cfg_phys :: u64
  isr_cfg_phys :: u64
  notify_off_multiplier :: u32

definition no_capabilities :: VirtioCapabilities where
  "no_capabilities = \<lparr>common_cfg_phys = 0, notify_cfg_phys = 0, isr_cfg_phys = 0, notify_off_multiplier = 0\<rparr>"

text \<open>The physical address a vendor capability describes: the base of its BAR plus its offset.\<close>

definition cap_address :: "(u8 \<Rightarrow> u32) \<Rightarrow> u8 \<Rightarrow> u64" where
  "cap_address rd cap = (
     let bar_idx = ucast (rd (cap + 4) AND 0xFF) :: u8; offset = ucast (rd (cap + 8)) :: u64;
         bar_val = rd (0x10 + bar_idx * 4);
         phys_base = ucast (bar_val AND 0xFFFFFFF0) :: u64;
         phys_base = (if bar_val AND 0x06 = 0x04 then phys_base OR push_bit 32 (ucast (rd (0x14 + bar_idx * 4))) else phys_base)
     in phys_base + offset)"

definition read_capability :: "(u8 \<Rightarrow> u32) \<Rightarrow> u8 \<Rightarrow> VirtioCapabilities \<Rightarrow> VirtioCapabilities" where
  "read_capability rd cap caps = (
     let word0 = rd cap; cap_id = ucast (word0 AND 0xFF) :: u8; cfg_type = ucast (drop_bit 24 word0 AND 0xFF) :: u8 in
     if cap_id = 0x09
     then if cfg_type = 1 then caps\<lparr>common_cfg_phys := cap_address rd cap\<rparr>
       else if cfg_type = 2 then caps\<lparr>notify_cfg_phys := cap_address rd cap, notify_off_multiplier := rd (cap + 12)\<rparr>
       else if cfg_type = 3 then caps\<lparr>isr_cfg_phys := cap_address rd cap\<rparr>
       else caps
     else caps)"

definition next_cap :: "(u8 \<Rightarrow> u32) \<Rightarrow> u8 \<Rightarrow> u8" where
  "next_cap rd cap = ucast (drop_bit 8 (rd cap) AND 0xFF)"

text \<open>The loop with its bound of 48 steps, which also ends on a cyclic list.\<close>

fun walk_capabilities :: "nat \<Rightarrow> (u8 \<Rightarrow> u32) \<Rightarrow> u8 \<Rightarrow> VirtioCapabilities \<Rightarrow> VirtioCapabilities" where
  "walk_capabilities 0 rd cap caps = caps"
| "walk_capabilities (Suc n) rd cap caps =
     (if cap = 0 then caps else walk_capabilities n rd (next_cap rd cap) (read_capability rd cap caps))"

definition find_capabilities :: "config \<Rightarrow> u8 \<Rightarrow> u8 \<Rightarrow> u8 \<Rightarrow> VirtioCapabilities option" where
  "find_capabilities cfg bus slot func = (
     let rd = pci_read_word cfg bus slot func; cap_ptr = ucast (rd 0x34 AND 0xFF) :: u8 in
     if cap_ptr = 0 then None
     else let caps = walk_capabilities 48 rd cap_ptr no_capabilities in
       if common_cfg_phys caps \<noteq> 0 \<and> notify_cfg_phys caps \<noteq> 0 then Some caps else None)"

subsection \<open>What the scans visit\<close>

text \<open>The functions a scan has to find: function 0 of every slot that answers, and the further functions that answer of
  a slot whose header says it has several.\<close>

definition responds :: "config \<Rightarrow> u8 \<Rightarrow> u8 \<Rightarrow> u8 \<Rightarrow> bool" where
  "responds cfg bus slot func \<longleftrightarrow> pci_read_word cfg bus slot 0 0 AND 0xFFFF \<noteq> 0xFFFF \<and>
     (func = 0 \<or> (drop_bit 16 (pci_read_word cfg bus slot 0 0x0C) AND 0xFF) AND 0x80 \<noteq> 0 \<and>
       pci_read_word cfg bus slot func 0 AND 0xFFFF \<noteq> 0xFFFF)"

definition all_funcs :: "u8 list" where
  "all_funcs = 0 # higher_funcs"

definition present :: "config \<Rightarrow> (u8 \<times> u8 \<times> u8) list" where
  "present cfg = filter (\<lambda>(bus, slot, func). responds cfg bus slot func) (List.product buses (List.product slots all_funcs))"

lemma for_each_concat: "for_each (concat (map f xs)) body = for_each xs (\<lambda>x. for_each (f x) body)"
proof
  fix s show "for_each (concat (map f xs)) body s = for_each xs (\<lambda>x. for_each (f x) body) s"
    by (induction xs arbitrary: s) (auto simp: for_each_append split: bind_split)
qed

lemma for_each_map: "for_each (map f xs) body = for_each xs (\<lambda>x. body (f x))"
proof
  fix s show "for_each (map f xs) body s = for_each xs (\<lambda>x. body (f x)) s"
    by (induction xs arbitrary: s) (auto split: bind_split)
qed

lemma for_each_filter_if: "for_each (filter P xs) body s = for_each xs (\<lambda>x s. if P x then body x s else Some s) s"
  by (induction xs arbitrary: s) (auto split: bind_split)

text \<open>The present functions, bus by bus and slot by slot.\<close>

lemma product_concat: "List.product xs ys = concat (map (\<lambda>x. map (Pair x) ys) xs)"
  by (induction xs) simp_all

lemma present_nested:
  "present cfg = concat (map (\<lambda>bus. concat (map (\<lambda>slot. map (\<lambda>func. (bus, slot, func)) (filter (responds cfg bus slot) all_funcs))
     slots)) buses)"
  unfolding present_def product_concat filter_concat map_map map_concat comp_def filter_map by simp

lemma responding:
  "filter (responds cfg bus slot) all_funcs =
    (if pci_read_word cfg bus slot 0 0 AND 0xFFFF = 0xFFFF then []
     else 0 # (if (drop_bit 16 (pci_read_word cfg bus slot 0 0x0C) AND 0xFF) AND 0x80 \<noteq> 0
       then filter (\<lambda>func. pci_read_word cfg bus slot func 0 AND 0xFFFF \<noteq> 0xFFFF) higher_funcs else []))"
proof -
  have "responds cfg bus slot func \<longleftrightarrow> pci_read_word cfg bus slot 0 0 AND 0xFFFF \<noteq> 0xFFFF \<and>
      (drop_bit 16 (pci_read_word cfg bus slot 0 0x0C) AND 0xFF) AND 0x80 \<noteq> 0 \<and> pci_read_word cfg bus slot func 0 AND 0xFFFF \<noteq> 0xFFFF"
    if "func \<in> set higher_funcs" for func using that by (auto simp: responds_def higher_funcs_def)
  then have "filter (responds cfg bus slot) higher_funcs = filter (\<lambda>func. pci_read_word cfg bus slot 0 0 AND 0xFFFF \<noteq> 0xFFFF \<and>
      (drop_bit 16 (pci_read_word cfg bus slot 0 0x0C) AND 0xFF) AND 0x80 \<noteq> 0 \<and> pci_read_word cfg bus slot func 0 AND 0xFFFF \<noteq> 0xFFFF)
      higher_funcs" by (intro filter_cong) auto
  then show ?thesis by (simp add: all_funcs_def responds_def)
qed

lemma slot_for_each:
  "enumerate_slot cfg ds bus slot = for_each (filter (responds cfg bus slot) all_funcs) (check_device cfg ds bus slot)"
proof
  fix s show "enumerate_slot cfg ds bus slot s = for_each (filter (responds cfg bus slot) all_funcs) (check_device cfg ds bus slot) s"
    unfolding responding enumerate_slot_def Let_def for_each_filter_if [symmetric] by (auto split: bind_split)
qed

lemma fold_if_filter: "fold (\<lambda>x acc. if P x then acc @ g x else acc) xs acc = acc @ concat (map g (filter P xs))"
  by (induction xs arbitrary: acc) simp_all

lemma slot_concat:
  "scan_slot cfg bus slot output =
     output @ concat (map (probe_device_to_string cfg bus slot) (filter (responds cfg bus slot) all_funcs))"
  unfolding responding scan_slot_def Let_def fold_if_filter by simp

lemma fold_append: "(\<And>x acc. f x acc = acc @ g x) \<Longrightarrow> fold f xs acc = acc @ concat (map g xs)"
  by (induction xs arbitrary: acc) simp_all

lemma concat_nested: "concat (concat (map f xs)) = concat (map (\<lambda>x. concat (f x)) xs)"
  by (induction xs) simp_all

lemma distinct_of_nat: "n \<le> 256 \<Longrightarrow> distinct (map of_nat [0..<n] :: u8 list)"
proof -
  assume n: "n \<le> 256"
  have "unat (of_nat k :: u8) = k" if "k < n" for k using that n by (simp add: unat_of_nat)
  then show ?thesis unfolding distinct_map by (auto intro!: inj_on_inverseI [of _ unat])
qed

text \<open>The two scans of the PCI buses agree: the boot scan calls \<open>check_device\<close>, and the scan on request lists, exactly the
  functions that answer, each once and in the same order.\<close>

theorem pci_scans_agree:
  "enumerate_buses cfg ds = for_each (present cfg) (\<lambda>(bus, slot, func). check_device cfg ds bus slot func) \<and>
   scan_pci_dynamic cfg = map of_char ''[MICT: MAP] Initiating Dynamic PCIe Radar...'' @ [10] @
     concat (map (\<lambda>(bus, slot, func). probe_device_to_string cfg bus slot func) (present cfg)) @
     map of_char ''[MICT: MAP] Dynamic Scan Complete.'' @ [10] \<and>
   distinct (present cfg)"
proof (intro conjI)
  show "enumerate_buses cfg ds = for_each (present cfg) (\<lambda>(bus, slot, func). check_device cfg ds bus slot func)"
    unfolding present_nested for_each_concat for_each_map enumerate_buses_def slot_for_each by simp
  have scan: "fold (scan_slot cfg bus) slots acc = acc @ concat (map (\<lambda>slot. concat (map (probe_device_to_string cfg bus slot)
      (filter (responds cfg bus slot) all_funcs))) slots)" for bus acc
    by (rule fold_append) (rule slot_concat)
  have "fold (\<lambda>bus. fold (scan_slot cfg bus) slots) buses acc = acc @ concat (map (\<lambda>bus. concat (map (\<lambda>slot.
      concat (map (probe_device_to_string cfg bus slot) (filter (responds cfg bus slot) all_funcs))) slots)) buses)" for acc
    by (rule fold_append) (rule scan)
  then show "scan_pci_dynamic cfg = map of_char ''[MICT: MAP] Initiating Dynamic PCIe Radar...'' @ [10] @
     concat (map (\<lambda>(bus, slot, func). probe_device_to_string cfg bus slot func) (present cfg)) @
     map of_char ''[MICT: MAP] Dynamic Scan Complete.'' @ [10]"
    unfolding scan_pci_dynamic_def present_nested by (simp add: map_concat comp_def concat_nested)
  have "distinct buses" "distinct slots" unfolding buses_def slots_def by (rule distinct_of_nat; simp)+
  moreover have "distinct all_funcs" by (simp add: all_funcs_def higher_funcs_def)
  ultimately show "distinct (present cfg)" unfolding present_def by (intro distinct_filter distinct_product)
qed

subsection \<open>What the capability walk finds\<close>

text \<open>The pointers of the first \<open>n\<close> steps along the list.\<close>

fun cap_list :: "nat \<Rightarrow> (u8 \<Rightarrow> u32) \<Rightarrow> u8 \<Rightarrow> u8 list" where
  "cap_list 0 rd cap = []"
| "cap_list (Suc n) rd cap = (if cap = 0 then [] else cap # cap_list n rd (next_cap rd cap))"

definition is_cap :: "(u8 \<Rightarrow> u32) \<Rightarrow> u8 \<Rightarrow> u8 \<Rightarrow> bool" where
  "is_cap rd cfg_type cap \<longleftrightarrow> (ucast (rd cap AND 0xFF) :: u8) = 0x09 \<and> (ucast (drop_bit 24 (rd cap) AND 0xFF) :: u8) = cfg_type"

text \<open>The last capability of a type.\<close>

definition last_cap :: "(u8 \<Rightarrow> u32) \<Rightarrow> u8 \<Rightarrow> u8 list \<Rightarrow> u8 option" where
  "last_cap rd cfg_type caps = find (is_cap rd cfg_type) (rev caps)"

lemma walk_fold: "walk_capabilities n rd cap caps = fold (read_capability rd) (cap_list n rd cap) caps"
  by (induction n arbitrary: cap caps) simp_all

definition cap_field :: "(u8 \<Rightarrow> u32) \<Rightarrow> u8 \<Rightarrow> u8 list \<Rightarrow> u64" where
  "cap_field rd cfg_type caps = (case last_cap rd cfg_type caps of Some cap \<Rightarrow> cap_address rd cap | None \<Rightarrow> 0)"

lemma read_capability_step:
  "read_capability rd cap caps =
    (if is_cap rd 1 cap then caps\<lparr>common_cfg_phys := cap_address rd cap\<rparr>
     else if is_cap rd 2 cap then caps\<lparr>notify_cfg_phys := cap_address rd cap, notify_off_multiplier := rd (cap + 12)\<rparr>
     else if is_cap rd 3 cap then caps\<lparr>isr_cfg_phys := cap_address rd cap\<rparr> else caps)"
  by (simp add: read_capability_def is_cap_def Let_def)

lemma read_capabilities_fold:
  "fold (read_capability rd) ps no_capabilities = \<lparr>common_cfg_phys = cap_field rd 1 ps, notify_cfg_phys = cap_field rd 2 ps,
     isr_cfg_phys = cap_field rd 3 ps,
     notify_off_multiplier = (case last_cap rd 2 ps of Some cap \<Rightarrow> rd (cap + 12) | None \<Rightarrow> 0)\<rparr>"
proof (induction ps rule: rev_induct)
  case Nil
  then show ?case by (simp add: no_capabilities_def cap_field_def last_cap_def)
next
  case (snoc p ps)
  have last: "last_cap rd ty (ps @ [p]) = (if is_cap rd ty p then Some p else last_cap rd ty ps)" for ty
    by (simp add: last_cap_def)
  note step = snoc read_capability_step [of rd p] cap_field_def last
  consider "is_cap rd 1 p" "\<not> is_cap rd 2 p" "\<not> is_cap rd 3 p" | "\<not> is_cap rd 1 p" "is_cap rd 2 p" "\<not> is_cap rd 3 p"
    | "\<not> is_cap rd 1 p" "\<not> is_cap rd 2 p" "is_cap rd 3 p" | "\<not> is_cap rd 1 p" "\<not> is_cap rd 2 p" "\<not> is_cap rd 3 p"
    by (auto simp: is_cap_def)
  then show ?case by cases (simp_all add: step)
qed

lemma cap_list_ended: "length (cap_list n rd cap) \<le> m \<Longrightarrow> m \<le> n \<Longrightarrow> cap_list n rd cap = cap_list m rd cap"
proof (induction m arbitrary: n cap)
  case (Suc m)
  then obtain k where "n = Suc k" by (cases n) auto
  with Suc.IH [of k "next_cap rd cap"] Suc.prems show ?case by auto
qed simp

text \<open>Between the end of the header and the end of configuration space there are 48 aligned words.\<close>

lemma aligned_pointers:
  assumes "distinct ps" "\<forall>p \<in> set ps. 0x40 \<le> unat (p :: u8) \<and> unat p mod 4 = 0"
  shows "length ps \<le> 48"
proof -
  let ?f = "\<lambda>p :: u8. unat p div 4"
  have "inj_on ?f (set ps)"
  proof (rule inj_onI)
    fix p q assume pq: "p \<in> set ps" "q \<in> set ps" "unat p div 4 = unat q div 4"
    then have "unat p = unat q" using assms(2) by (metis div_mult_mod_eq)
    then show "p = q" by (simp add: word_unat_eq_iff)
  qed
  moreover have "?f ` set ps \<subseteq> {16..<64}"
  proof
    fix x assume "x \<in> ?f ` set ps"
    then obtain p where p: "p \<in> set ps" "x = unat p div 4" by auto
    have "unat p < 256" using unsigned_less [of p] by simp
    then show "x \<in> {16..<64}" using p assms(2) by auto
  qed
  ultimately have "card (set ps) \<le> card {16..<64 :: nat}" by (intro card_inj_on_le) auto
  then show ?thesis using distinct_card [OF assms(1)] by simp
qed

text \<open>C34. The capability walk loses nothing: if the capability list of a device has no cycle and its entries lie at aligned
  offsets behind the header, as the PCI standard says, then, however long one follows the list, the 48 steps of the
  loop see all of it, and \<open>find_capabilities\<close> returns the addresses of the last capability of each type, or nothing
  when the common or the notification structure is missing. On a cyclic list the walk stops as well.\<close>

theorem capability_walk_complete:
  fixes cfg bus slot func n
  defines "rd \<equiv> pci_read_word cfg bus slot func"
  defines "ps \<equiv> cap_list n rd (ucast (rd 0x34 AND 0xFF))"
  assumes n: "48 \<le> n" and "distinct ps" and "\<forall>p \<in> set ps. 0x40 \<le> unat p \<and> unat p mod 4 = 0"
  shows "find_capabilities cfg bus slot func =
    (case (last_cap rd 1 ps, last_cap rd 2 ps) of
       (Some c, Some d) \<Rightarrow> if cap_address rd c = 0 \<or> cap_address rd d = 0 then None
         else Some \<lparr>common_cfg_phys = cap_address rd c, notify_cfg_phys = cap_address rd d, isr_cfg_phys = cap_field rd 3 ps,
           notify_off_multiplier = rd (d + 12)\<rparr>
     | _ \<Rightarrow> None)"
proof -
  have ps: "cap_list 48 rd (ucast (rd 0x34 AND 0xFF)) = ps"
    unfolding ps_def using aligned_pointers [OF assms(4,5)] n by (intro cap_list_ended [symmetric]) (simp_all add: ps_def)
  have "ps = []" if "(ucast (rd 0x34 AND 0xFF) :: u8) = 0" unfolding ps [symmetric] that by (simp add: numeral_eq_Suc)
  then have "find_capabilities cfg bus slot func = (let caps = fold (read_capability rd) ps no_capabilities in
      if common_cfg_phys caps \<noteq> 0 \<and> notify_cfg_phys caps \<noteq> 0 then Some caps else None)"
    unfolding find_capabilities_def Let_def rd_def [symmetric] walk_fold ps by (auto simp: no_capabilities_def)
  then show ?thesis unfolding read_capabilities_fold Let_def by (auto simp: cap_field_def split: option.splits)
qed

text \<open>A device with its common structure behind 0x40 and its notification structure behind 0x50, both in BAR 4.\<close>

definition demo_config :: config where
  "demo_config a = (let reg = a AND 0xFF in
     if reg = 0x34 then 0x40 else if reg = 0x40 then 0x01105009 else if reg = 0x50 then 0x02140009
     else if reg = 0x44 \<or> reg = 0x54 then 4 else if reg = 0x58 then 0x3000 else if reg = 0x5C then 4
     else if reg = 0x20 then 0xFE000004 else 0)"

lemma demo_caps:
  "cap_list 48 (pci_read_word demo_config 0 4 0) 0x40 = [0x40, 0x50]"
  "(ucast (pci_read_word demo_config 0 4 0 0x34 AND 0xFF) :: u8) = 0x40"
  "last_cap (pci_read_word demo_config 0 4 0) 1 [0x40, 0x50] = Some 0x40"
  "last_cap (pci_read_word demo_config 0 4 0) 2 [0x40, 0x50] = Some 0x50"
  "last_cap (pci_read_word demo_config 0 4 0) 3 [0x40, 0x50] = None"
  "cap_address (pci_read_word demo_config 0 4 0) 0x40 = 0xFE000000"
  "cap_address (pci_read_word demo_config 0 4 0) 0x50 = 0xFE003000"
  by code_simp+

theorem capability_walk_complete_witness:
  "find_capabilities demo_config 0 4 0 = Some \<lparr>common_cfg_phys = 0xFE000000, notify_cfg_phys = 0xFE003000,
     isr_cfg_phys = 0, notify_off_multiplier = 4\<rparr>"
proof -
  have "pci_read_word demo_config 0 4 0 (0x50 + 12) = 4" by code_simp
  with capability_walk_complete [of 48 demo_config 0 4 0] show ?thesis by (simp add: demo_caps cap_field_def)
qed

end
