(* ===== verification/Terminal.thy ===== *)
theory Terminal
  imports Utf8 Desktop_Tasks Mfs_Props E1000 Pci
begin

text \<open>
  The terminal in a window: the keyboard router and the command interpreter of \<^verbatim>\<open>kernel/src/splat.rs\<close>
  (\<open>process_keystroke\<close>, \<open>execute_command\<close>) and the keyboard task of \<^verbatim>\<open>kernel/src/task/keyboard.rs\<close>. What a command
  touches outside its window is the record \<open>world\<close>: the drive, the network card and the bytes written to the serial port
  (the remote terminal). The devices are parameters. A character is the list of its UTF-8 bytes.
\<close>

subsection \<open>Strings\<close>

definition lit :: "string \<Rightarrow> bytes" where
  "lit s = map of_char s"

text \<open>\<open>str::to_uppercase\<close>: ASCII letters by the code, every other character by the table of the Unicode standard, which is a
  parameter.\<close>

definition ascii_upper :: "u8 \<Rightarrow> u8" where
  "ascii_upper b = (if 97 \<le> b \<and> b \<le> 122 then b - 32 else b)"

definition to_uppercase :: "(bytes \<Rightarrow> bytes) \<Rightarrow> bytes \<Rightarrow> bytes" where
  "to_uppercase table s = concat (map (\<lambda>c. case ascii_of c of Some _ \<Rightarrow> map ascii_upper c | None \<Rightarrow> table c) (str_chars s))"

text \<open>\<open>split_whitespace\<close>.\<close>

fun words_from :: "bytes \<Rightarrow> bytes list \<Rightarrow> bytes list" where
  "words_from acc [] = (if acc = [] then [] else [acc])"
| "words_from acc (c # cs) =
     (if c \<in> set ws_chars then (if acc = [] then words_from [] cs else acc # words_from [] cs) else words_from (acc @ c) cs)"

definition split_whitespace :: "bytes \<Rightarrow> bytes list" where
  "split_whitespace s = words_from [] (str_chars s)"

text \<open>\<open>join(" ")\<close>.\<close>

fun join_words :: "bytes list \<Rightarrow> bytes" where
  "join_words [] = []"
| "join_words [w] = w"
| "join_words (w # ws) = w @ [32] @ join_words ws"

subsection \<open>The world outside the window\<close>

record ('s, 'h) platform =
  p_read :: "'s read_fun"
  p_write :: "'s write_fun"
  p_nic :: "'h Nic"
  p_pci :: config
  p_upper :: "bytes \<Rightarrow> bytes"

record ('s, 'h) world =
  nvme_drive :: "'s option"
  e1000_net :: "'h e1000_state option"
  serial_out :: bytes

type_synonym ('s, 'h) term_state = "SemanticWindow \<times> ('s, 'h) world"

definition serial_print :: "bytes \<Rightarrow> ('s, 'h) world \<Rightarrow> ('s, 'h) world" where
  "serial_print out w = w\<lparr>serial_out := serial_out w @ out\<rparr>"

definition serial_println :: "bytes \<Rightarrow> ('s, 'h) world \<Rightarrow> ('s, 'h) world" where
  "serial_println out w = serial_print (out @ [10]) w"

definition push_str :: "bytes \<Rightarrow> SemanticWindow \<Rightarrow> SemanticWindow" where
  "push_str out win = win\<lparr>text_buffer := text_buffer win @ out\<rparr>"

text \<open>A message on both terminals.\<close>

definition say :: "bytes \<Rightarrow> ('s, 'h) term_state \<Rightarrow> ('s, 'h) term_state" where
  "say out = (\<lambda>(win, w). (push_str out win, serial_println out w))"

definition say_raw :: "bytes \<Rightarrow> ('s, 'h) term_state \<Rightarrow> ('s, 'h) term_state" where
  "say_raw out = (\<lambda>(win, w). (push_str out win, serial_print out w))"

subsection \<open>The commands\<close>

definition help_text :: bytes where
  "help_text = lit ''Available Commands:'' @ [10] @
     lit ''  CLEAR     - Wipes the terminal screen'' @ [10] @
     lit ''  SCAN      - Ex: '' @ [39] @ lit ''SCAN PCI'' @ [39] @ lit ''. Enumerates hardware.'' @ [10] @
     lit ''  PING      - Ex: '' @ [39] @ lit ''PING NVME'' @ [39] @ lit ''. Checks storage.'' @ [10] @
     lit ''  SAVE      - Ex: '' @ [39] @ lit ''SAVE FILE.TXT'' @ [39] @ lit ''. Allocates a block.'' @ [10] @
     lit ''  READ      - Ex: '' @ [39] @ lit ''READ FILE.TXT'' @ [39] @ lit ''. Fetches a block.'' @ [10]"

text \<open>The echo of the input, before the command runs.\<close>

definition echo :: "('s, 'h) term_state \<Rightarrow> ('s, 'h) term_state" where
  "echo = (\<lambda>(win, w). (push_str (input_buffer win) (push_str (lit ''genesis> '') win),
     serial_println (lit ''genesis> '' @ str_trim (input_buffer win)) w))"

definition cmd_clear :: "('s, 'h) term_state \<Rightarrow> ('s, 'h) term_state" where
  "cmd_clear = (\<lambda>(win, w). (win\<lparr>text_buffer := []\<rparr>, serial_println (27 # lit ''[2J'' @ 27 # lit ''[H'') w))"

definition cmd_scan :: "('s, 'h) platform \<Rightarrow> bytes \<Rightarrow> ('s, 'h) term_state \<Rightarrow> ('s, 'h) term_state" where
  "cmd_scan p arg1 st = (if arg1 = lit ''PCI'' then say_raw (scan_pci_dynamic (p_pci p)) st
     else say (lit ''Usage: SCAN PCI'' @ [10]) st)"

text \<open>Sending a packet when there is a network card.\<close>

definition with_nic :: "('h e1000_state \<Rightarrow> 'h e1000_state option) \<Rightarrow> ('s, 'h) term_state \<Rightarrow> ('s, 'h) term_state option" where
  "with_nic send = (\<lambda>(win, w). case e1000_net w of
     None \<Rightarrow> Some (win, w)
   | Some nic \<Rightarrow> do { nic \<leftarrow> send nic; Some (win, w\<lparr>e1000_net := Some nic\<rparr>) })"

definition cmd_ping :: "('s, 'h) platform \<Rightarrow> bytes \<Rightarrow> ('s, 'h) term_state \<Rightarrow> ('s, 'h) term_state option" where
  "cmd_ping p arg1 st =
     (if arg1 = lit ''NVME'' then Some st
      else if arg1 = lit ''ROUTER''
      then with_nic (send_ping (p_nic p) [0x52, 0x54, 0x00, 0x12, 0x34, 0x56] [10, 0, 2, 2] [10, 0, 2, 15])
        (say (lit ''[MICT] Forging ICMP Echo Request...'' @ [10]) st)
      else Some (say (lit ''Usage: PING[NVME | ROUTER]'' @ [10]) st))"

definition cmd_arp :: "('s, 'h) platform \<Rightarrow> ('s, 'h) term_state \<Rightarrow> ('s, 'h) term_state option" where
  "cmd_arp p st = with_nic (send_arp_request (p_nic p) [10, 0, 2, 2] [10, 0, 2, 15])
     (say (lit ''[MICT] Broadcasting ARP Request to Virtual Router...'' @ [10]) st)"

definition fail_text :: "string \<Rightarrow> bytes" where
  "fail_text e = lit ''  [FAIL] '' @ lit e @ [10]"

definition cmd_save :: "('s, 'h) platform \<Rightarrow> bytes \<Rightarrow> ('s, 'h) term_state \<Rightarrow> ('s, 'h) term_state option" where
  "cmd_save p arg1 st =
     (if arg1 \<noteq> []
      then do {
        let (win, w) = say (lit ''Saving file: '' @ [39] @ arg1 @ [39, 10]) st;
        let payload = join_words (drop 2 (split_whitespace (input_buffer win)));
        (r, d) \<leftarrow> save_file (p_read p) (p_write p) arg1 payload (nvme_drive w);
        Some (say (case r of Ok _ \<Rightarrow> lit ''  [OK] File saved to MFS.'' @ [10] | Err e \<Rightarrow> fail_text e)
          (win, w\<lparr>nvme_drive := d\<rparr>)) }
      else Some (say (lit ''Usage: SAVE <FILENAME> <CONTENT>'' @ [10]) st))"

definition terminal_context :: MdoContext where
  "terminal_context = \<lparr>requestor_id_hash = replicate 32 0xAA, action_hash = replicate 32 0,
     owner_id_hash = replicate 32 0, MdoContext.status = 0\<rparr>"

text \<open>The text shown of a file: up to the first NUL, if it is UTF-8.\<close>

definition shown_text :: "bytes \<Rightarrow> bytes" where
  "shown_text dat = (let valid = takeWhile (\<lambda>b. b \<noteq> 0) dat in if utf8_valid valid then valid else lit ''[CORRUPT]'')"

definition cmd_read :: "('s, 'h) platform \<Rightarrow> bytes \<Rightarrow> ('s, 'h) term_state \<Rightarrow> ('s, 'h) term_state option" where
  "cmd_read p arg1 st =
     (if arg1 \<noteq> []
      then do {
        let (win, w) = say (lit ''Reading file: '' @ [39] @ arg1 @ [39, 10]) st;
        (r, d) \<leftarrow> read_file (p_read p) arg1 terminal_context (nvme_drive w);
        Some (say (case r of Ok dat \<Rightarrow> lit ''  -> CONTENTS: '' @ shown_text dat @ [10] | Err e \<Rightarrow> fail_text e)
          (win, w\<lparr>nvme_drive := d\<rparr>)) }
      else Some (say (lit ''Usage: READ <FILENAME>'' @ [10]) st))"

definition entry_text :: "FileEntry \<Rightarrow> bytes" where
  "entry_text e = lit ''  - '' @ fname e @ lit '' ('' @ dec_u64 (block_count e) @ lit '' blocks at LBA '' @
     dec_u64 (start_lba e) @ lit '')'' @ [10]"

definition cmd_list :: "('s, 'h) platform \<Rightarrow> ('s, 'h) term_state \<Rightarrow> ('s, 'h) term_state option" where
  "cmd_list p st = do {
     let (win, w) = say (lit ''Listing files in root directory:'' @ [10]) st;
     (r, d) \<leftarrow> read_mft (p_read p) (nvme_drive w);
     let st = (win, w\<lparr>nvme_drive := d\<rparr>);
     Some (case r of
         Ok entries \<Rightarrow> fold (\<lambda>e. say_raw (entry_text e)) entries
           (if entries = [] then say (lit ''  (No files found)'' @ [10]) st else st)
       | Err e \<Rightarrow> say (lit ''  [FAIL] Could not read MFT: '' @ lit e @ [10]) st) }"

definition cmd_request :: "('s, 'h) term_state \<Rightarrow> ('s, 'h) term_state" where
  "cmd_request st = (
     let prompt = join_words (drop 1 (split_whitespace (input_buffer (fst st)))) in
     if prompt \<noteq> []
     then let (win, w) = say (lit ''Sending Request to Agentic Gateway...'' @ [10]) st
       in (win, serial_println (lit ''<<API_REQ:'' @ prompt @ lit ''>>'') w)
     else say (lit ''Usage: REQUEST <PROMPT>'' @ [10]) st)"

definition word_at :: "nat \<Rightarrow> bytes list \<Rightarrow> bytes" where
  "word_at n parts = (if n < length parts then parts ! n else [])"

definition run_command :: "('s, 'h) platform \<Rightarrow> bytes \<Rightarrow> bytes \<Rightarrow> ('s, 'h) term_state \<Rightarrow> ('s, 'h) term_state option" where
  "run_command p cmd arg1 st =
     (if cmd = [] then Some st
      else if cmd = lit ''HELP'' then Some (say help_text st)
      else if cmd = lit ''CLEAR'' then Some (cmd_clear st)
      else if cmd = lit ''SCAN'' then Some (cmd_scan p arg1 st)
      else if cmd = lit ''PING'' then cmd_ping p arg1 st
      else if cmd = lit ''ARP'' then cmd_arp p st
      else if cmd = lit ''SAVE'' then cmd_save p arg1 st
      else if cmd = lit ''READ'' then cmd_read p arg1 st
      else if cmd = lit ''LIST'' then cmd_list p st
      else if cmd = lit ''REQUEST'' then Some (cmd_request st)
      else Some (say (lit ''Command not recognized: '' @ [39] @ cmd @ [39, 10]) st))"

definition execute_command :: "('s, 'h) platform \<Rightarrow> ('s, 'h) term_state \<Rightarrow> ('s, 'h) term_state option" where
  "execute_command p st = do {
     let parts = split_whitespace (to_uppercase (p_upper p) (str_trim (input_buffer (fst st))));
     (win, w) \<leftarrow> run_command p (word_at 0 parts) (word_at 1 parts) (echo st);
     text \<leftarrow> trim_log (text_buffer win);
     Some (win\<lparr>input_buffer := [], text_buffer := text\<rparr>, serial_print (lit ''genesis> '') w) }"

definition process_keystroke :: "('s, 'h) platform \<Rightarrow> bytes \<Rightarrow> ('s, 'h) term_state \<Rightarrow> ('s, 'h) term_state option" where
  "process_keystroke p c st =
     (if c = [8] then Some ((fst st)\<lparr>input_buffer := concat (butlast (str_chars (input_buffer (fst st))))\<rparr>, snd st)
      else if c = [10] \<or> c = [13] then execute_command p st
      else Some ((fst st)\<lparr>input_buffer := input_buffer (fst st) @ c\<rparr>, snd st))"

subsection \<open>The keyboard task\<close>

text \<open>One scancode: the decoder of the pc-keyboard crate is a parameter, from its state and the scancode to its
  state and the character typed, if any. The key goes to the top-most window, the desktop is drawn, and the
  character is echoed on the serial port.\<close>

definition type_char :: "('s, 'h) platform \<Rightarrow> bytes \<Rightarrow> SplatEngine \<Rightarrow> ('s, 'h) world \<Rightarrow> (SplatEngine \<times> ('s, 'h) world) option" where
  "type_char p c engine w = (if windows engine = [] then Some (engine, w)
     else do {
       (win, w) \<leftarrow> process_keystroke p c (last (windows engine), w);
       Some (engine\<lparr>windows := butlast (windows engine) @ [win]\<rparr>, w) })"

definition key_scancode :: "('s, 'h) platform \<Rightarrow> font \<Rightarrow> 'd GpuDevice \<Rightarrow> nat \<Rightarrow> bool \<Rightarrow> ('k \<Rightarrow> u8 \<Rightarrow> 'k \<times> bytes option) \<Rightarrow>
    u8 \<Rightarrow> 'k \<times> 'd desk \<times> ('s, 'h) world \<Rightarrow> ('k \<times> 'd desk \<times> ('s, 'h) world) option" where
  "key_scancode p font gd vb hv decode scancode = (\<lambda>(k, (ui, display, s), w).
     case decode k scancode of
       (k, None) \<Rightarrow> Some (k, (ui, display, s), w)
     | (k, Some c) \<Rightarrow> do {
         (desk, w) \<leftarrow> (case display of
             None \<Rightarrow> Some ((ui, display, s), w)
           | Some (engine, gpu) \<Rightarrow> do {
               (engine, w) \<leftarrow> type_char p c engine w;
               desk \<leftarrow> redraw font gd vb hv (ui, Some (engine, gpu), s);
               Some (desk, w) });
         Some (k, desk, serial_print c w) })"

subsection \<open>Strings stay valid\<close>

text \<open>The invariant of the type \<open>String\<close>.\<close>

definition texts_ok :: "SemanticWindow \<Rightarrow> bool" where
  "texts_ok win \<longleftrightarrow> utf8_valid (text_buffer win) \<and> utf8_valid (input_buffer win)"

text \<open>What is used of the upper-case table: it gives strings.\<close>

definition upper_ok :: "(bytes \<Rightarrow> bytes) \<Rightarrow> bool" where
  "upper_ok table \<longleftrightarrow> (\<forall>c. is_char c \<longrightarrow> utf8_valid (table c))"

lemma utf8_lit [simp]: "\<forall>c \<in> set s. of_char c < (0x80 :: u8) \<Longrightarrow> utf8_valid (lit s)"
  unfolding lit_def by (rule utf8_valid_lit)

lemma lit_valid [simp]: "\<forall>c \<in> set s. of_char c < (0x80 :: u8) \<Longrightarrow> utf8_valid (lit s @ t) = utf8_valid t"
  unfolding lit_def by (induction s) simp_all

lemma to_uppercase_valid [utf8_intros]:
  assumes "upper_ok table" "utf8_valid s"
  shows "utf8_valid (to_uppercase table s)"
proof -
  have "utf8_valid (case ascii_of c of Some _ \<Rightarrow> map ascii_upper c | None \<Rightarrow> table c)" if c: "is_char c" for c
  proof (cases "ascii_of c")
    case (Some n)
    then obtain b where "c = [b]" "b < 0x80" by (auto simp: ascii_of_def split: list.splits if_splits)
    moreover have "ascii_upper b < 0x80" if "b < 0x80" for b
      using that by (auto simp: ascii_upper_def word_less_nat_alt word_le_nat_alt unat_sub_if')
    ultimately show ?thesis using Some by simp
  qed (use c assms(1) in \<open>simp add: upper_ok_def\<close>)
  with str_chars_valid(2) [OF assms(2)] show ?thesis unfolding to_uppercase_def by (intro utf8_valid_concat) auto
qed

lemma words_from_valid:
  "utf8_valid acc \<Longrightarrow> \<forall>c \<in> set cs. is_char c \<Longrightarrow> w \<in> set (words_from acc cs) \<Longrightarrow> utf8_valid w"
  by (induction acc cs rule: words_from.induct) (auto simp: utf8_valid_append split: if_splits)

lemma split_whitespace_valid [utf8_intros]: "utf8_valid s \<Longrightarrow> w \<in> set (split_whitespace s) \<Longrightarrow> utf8_valid w"
  unfolding split_whitespace_def using words_from_valid [of "[]" "str_chars s" w] str_chars_valid(2) [of s] by simp

lemma word_at_valid: "\<forall>w \<in> set ws. utf8_valid w \<Longrightarrow> utf8_valid (word_at n ws)"
  by (simp add: word_at_def)

lemma hex_pad_valid [simp]: "utf8_valid (hex_pad w n)"
proof (rule utf8_valid_ascii)
  have digit: "hex_digit d < 0x80" if "d < 16" for d
  proof -
    have "unat (of_nat n :: u8) = n" if "n < 256" for n using that by (simp add: unat_of_nat)
    then have "unat (hex_digit d) < 128" using that unfolding hex_digit_def
      by (cases "d < 10") (simp_all del: of_nat_add)
    then show ?thesis by (simp add: word_less_nat_alt)
  qed
  have "\<forall>b \<in> set (hex_nat m). b < 0x80" for m
  proof (induction m rule: hex_nat.induct)
    case (1 m)
    then show ?case by (subst hex_nat.simps) (auto simp: digit)
  qed
  then show "\<forall>b \<in> set (hex_pad w n). b < 0x80" by (auto simp: hex_pad_def)
qed

text \<open>The messages of the file system are ASCII.\<close>

definition message_ok :: "(string, 'a) result \<Rightarrow> bool" where
  "message_ok r \<longleftrightarrow> (case r of Err e \<Rightarrow> \<forall>c \<in> set e. of_char c < (0x80 :: u8) | Ok _ \<Rightarrow> True)"

lemma read_mft_message: "read_mft rd d = Some (r, d') \<Longrightarrow> message_ok r"
  by (auto simp: read_mft_def message_ok_def split: option.splits bind_splits sum.splits)

lemma write_mft_message: "write_mft wr es d = Some (r, d') \<Longrightarrow> message_ok r"
  by (auto simp: write_mft_def message_ok_def split: option.splits bind_splits sum.splits)

lemma write_blocks_message: "write_blocks wr dat lba is s = Some (r, s') \<Longrightarrow> message_ok r"
  by (induction "is" arbitrary: s) (auto simp: message_ok_def Let_def split: bind_splits sum.splits)

lemma save_file_message: "save_file rd wr name dat d = Some (r, d') \<Longrightarrow> message_ok r"
  by (auto simp: save_file_def Let_def message_ok_def [of "Inl _"] split: bind_splits sum.splits if_splits option.splits
      dest!: read_mft_message write_mft_message write_blocks_message)

lemma check_block_message: "check_block blk ctx = Some v \<Longrightarrow> message_ok v"
  by (auto simp: check_block_def message_ok_def Let_def split: bind_splits sum.splits if_splits)

lemma verify_message: "verify_mdo_access rd lba ctx d = Some (v, d') \<Longrightarrow> message_ok v"
  by (auto simp: verify_mdo_access_def message_ok_def [of "Inl _"] split: option.splits bind_splits sum.splits
      dest!: check_block_message)

lemma read_blocks_message: "read_blocks rd lba is acc s = Some (r, s') \<Longrightarrow> message_ok r"
  by (induction "is" arbitrary: acc s) (auto simp: message_ok_def split: bind_splits sum.splits)

lemma read_file_message: "read_file rd name ctx d = Some (r, d') \<Longrightarrow> message_ok r"
  by (auto simp: read_file_def message_ok_def [of "Inl _"] split: option.splits bind_splits sum.splits
      dest!: verify_message read_blocks_message)

lemma fail_text_valid: "message_ok (Err e) \<Longrightarrow> utf8_valid (fail_text e)"
  by (simp add: fail_text_def message_ok_def)

text \<open>The names of a table read from the drive are strings.\<close>

lemma clean_mft_valid: "utf8_valid (clean_mft buf)"
proof (cases "utf8_valid buf")
  case True
  have "utf8_valid (takeWhile (\<lambda>b. b \<noteq> 0) buf @ dropWhile (\<lambda>b. b \<noteq> 0) buf)" using True by simp
  moreover have "dropWhile (\<lambda>b. b \<noteq> 0) buf = [] \<or> \<not> utf8_cont (hd (dropWhile (\<lambda>b. b \<noteq> 0) buf))"
    using hd_dropWhile [of "\<lambda>b. b \<noteq> 0" buf] by (auto simp: utf8_cont_def)
  ultimately have "utf8_valid (takeWhile (\<lambda>b. b \<noteq> 0) buf)" by (rule utf8_cut_at)
  with True show ?thesis by (simp add: clean_mft_def)
qed (simp add: clean_mft_def)

lemma parse_entry_valid: "utf8_valid line \<Longrightarrow> parse_entry line = Some e \<Longrightarrow> utf8_valid (fname e)"
  using str_split_valid [of line 58] by (auto simp: parse_entry_def split: list.splits option.splits)

lemma read_mft_names:
  assumes "read_mft rd d = Some (Ok es, d')" "e \<in> set es"
  shows "utf8_valid (fname e)"
proof -
  from assms(1) obtain buf where "es = parse_mft buf" by (auto simp: read_mft_def split: option.splits bind_splits sum.splits)
  with assms(2) obtain l where "l \<in> set (str_lines (clean_mft buf))" "parse_entry l = Some e"
    by (auto simp: parse_mft_def Let_def List.map_filter_def split: if_splits dest: in_set_dropD)
  then show ?thesis using parse_entry_valid str_lines_valid [OF clean_mft_valid] by blast
qed

lemma scan_valid: "utf8_valid (scan_pci_dynamic cfg)"
proof -
  have "utf8_valid (lit (device_name a b c d))" for a b c d by (rule utf8_lit) (simp add: device_name_def)
  then have "utf8_valid (probe_device_to_string cfg bus slot func)" for bus slot func
    unfolding probe_device_to_string_def Let_def
    by (simp add: utf8_valid_append utf8_valid_lit device_name_def)
  then have "utf8_valid (out @ concat (map (probe_device_to_string cfg bus slot) fs))" if "utf8_valid out" for out bus slot fs
    using that by (intro utf8_valid_append utf8_valid_concat) auto
  then have slot: "utf8_valid (scan_slot cfg bus slot out)" if "utf8_valid out" for out bus slot
    unfolding slot_concat using that by blast
  have "utf8_valid (fold (scan_slot cfg bus) ss out)" if "utf8_valid out" for out bus ss
    using that by (induction ss arbitrary: out) (simp_all add: slot)
  then have "utf8_valid (fold (\<lambda>bus. fold (scan_slot cfg bus) slots) bs out)" if "utf8_valid out" for out bs
    using that by (induction bs arbitrary: out) simp_all
  then show ?thesis unfolding scan_pci_dynamic_def by (intro utf8_valid_append) (auto intro!: utf8_valid_append utf8_valid_lit)
qed

lemma help_valid: "utf8_valid help_text"
  by (rule utf8_valid_ascii) (simp add: help_text_def lit_def)

lemma say_valid [utf8_intros]: "texts_ok (fst st) \<Longrightarrow> utf8_valid out \<Longrightarrow> texts_ok (fst (say out st))"
  by (cases st) (simp add: say_def push_str_def texts_ok_def utf8_valid_append)

lemma say_raw_valid [utf8_intros]: "texts_ok (fst st) \<Longrightarrow> utf8_valid out \<Longrightarrow> texts_ok (fst (say_raw out st))"
  by (cases st) (simp add: say_raw_def push_str_def texts_ok_def utf8_valid_append)

lemma say_input [simp]: "input_buffer (fst (say out st)) = input_buffer (fst st)"
  by (cases st) (simp add: say_def push_str_def)

lemma quoted_valid [simp]: "utf8_valid a \<Longrightarrow> utf8_valid (a @ [39, 10])"
  by (simp add: utf8_valid_append)

lemma with_nic_valid: "with_nic send st = Some st' \<Longrightarrow> fst st' = fst st"
  by (auto simp: with_nic_def split: prod.splits option.splits bind_splits)

lemma cmd_save_valid:
  assumes "texts_ok (fst st)" "utf8_valid arg1" "cmd_save p arg1 st = Some st'"
  shows "texts_ok (fst st')"
proof (cases "arg1 = []")
  case True
  then show ?thesis using assms by (auto simp: cmd_save_def lit_valid intro!: say_valid)
next
  case False
  obtain win w where st: "say (lit ''Saving file: '' @ 39 # arg1 @ [39, 10]) st = (win, w)" by fastforce
  have "texts_ok (fst (say (lit ''Saving file: '' @ 39 # arg1 @ [39, 10]) st))"
    using assms(1,2) by (intro say_valid) simp_all
  then have "texts_ok win" unfolding st by simp
  then show ?thesis using assms(3) False fail_text_valid
    by (auto simp: cmd_save_def st lit_valid split: bind_splits sum.splits intro!: say_valid dest!: save_file_message)
qed

lemma cmd_read_valid:
  assumes "texts_ok (fst st)" "utf8_valid arg1" "cmd_read p arg1 st = Some st'"
  shows "texts_ok (fst st')"
proof (cases "arg1 = []")
  case True
  then show ?thesis using assms by (auto simp: cmd_read_def lit_valid intro!: say_valid)
next
  case False
  obtain win w where st: "say (lit ''Reading file: '' @ 39 # arg1 @ [39, 10]) st = (win, w)" by fastforce
  have "texts_ok (fst (say (lit ''Reading file: '' @ 39 # arg1 @ [39, 10]) st))"
    using assms(1,2) by (intro say_valid) simp_all
  then have "texts_ok win" unfolding st by simp
  moreover have "utf8_valid (shown_text dat @ [10])" for dat
    by (rule utf8_valid_append) (simp_all add: shown_text_def Let_def utf8_valid_lit)
  ultimately show ?thesis using assms(3) False fail_text_valid
    by (auto simp: cmd_read_def st lit_valid split: bind_splits sum.splits intro!: say_valid dest!: read_file_message)
qed

lemma entry_text_valid: "utf8_valid (fname e) \<Longrightarrow> utf8_valid (entry_text e)"
  by (simp add: entry_text_def utf8_valid_append)

lemma say_entries_valid:
  "texts_ok (fst st) \<Longrightarrow> \<forall>e \<in> set es. utf8_valid (fname e) \<Longrightarrow> texts_ok (fst (fold (\<lambda>e. say_raw (entry_text e)) es st))"
  by (induction es arbitrary: st) (simp_all add: say_raw_valid entry_text_valid)

lemma cmd_list_valid:
  assumes "texts_ok (fst st)" "cmd_list p st = Some st'"
  shows "texts_ok (fst st')"
proof -
  obtain win w where st: "say (lit ''Listing files in root directory:'' @ [10]) st = (win, w)" by fastforce
  have "texts_ok (fst (say (lit ''Listing files in root directory:'' @ [10]) st))" using assms(1) by (intro say_valid) simp_all
  then have win: "texts_ok win" by (simp add: st)
  from assms(2) obtain r d where r: "read_mft (p_read p) (nvme_drive w) = Some (r, d)" by (auto simp: cmd_list_def st split: bind_splits)
  show ?thesis
  proof (cases r)
    case (Inl e)
    then have "utf8_valid (lit e @ [10])" using read_mft_message [OF r] by (simp add: message_ok_def lit_valid)
    with Inl r win assms(2) show ?thesis by (auto simp: cmd_list_def st lit_valid intro!: say_valid)
  next
    case (Inr es)
    then have "\<forall>e \<in> set es. utf8_valid (fname e)" using read_mft_names r by blast
    with Inr r win assms(2) show ?thesis by (auto simp: cmd_list_def st Let_def intro!: say_entries_valid say_valid)
  qed
qed

lemma join_words_valid: "\<forall>w \<in> set ws. utf8_valid w \<Longrightarrow> utf8_valid (join_words ws)"
  by (induction ws rule: join_words.induct) (simp_all add: utf8_valid_append)

lemma run_command_valid:
  assumes "texts_ok (fst st)" "utf8_valid cmd" "utf8_valid arg1" "run_command p cmd arg1 st = Some st'"
  shows "texts_ok (fst st')"
proof -
  have clear: "texts_ok (fst (cmd_clear st))" using assms(1) by (cases st) (simp add: cmd_clear_def texts_ok_def)
  have scan: "texts_ok (fst (cmd_scan p arg1 st))"
    unfolding cmd_scan_def using assms(1) by (auto intro!: say_raw_valid say_valid scan_valid)
  have ping: "texts_ok (fst st')" if "cmd_ping p arg1 st = Some st'"
    using that assms(1) by (auto simp: cmd_ping_def dest!: with_nic_valid split: if_splits intro!: say_valid)
  have arp: "texts_ok (fst st')" if "cmd_arp p st = Some st'"
    using that assms(1) by (auto simp: cmd_arp_def dest!: with_nic_valid intro!: say_valid)
  have request: "texts_ok (fst (cmd_request st))"
    using say_valid [OF assms(1)] by (auto simp: cmd_request_def Let_def case_prod_beta)
  have unknown: "texts_ok (fst (say (lit ''Command not recognized: '' @ [39] @ cmd @ [39, 10]) st))"
    using assms(1,2) by (intro say_valid) simp_all
  have help_ok: "texts_ok (fst (say help_text st))" using assms(1) help_valid by (rule say_valid)
  show ?thesis using assms(4) unfolding run_command_def
    using assms(1) clear scan ping arp request unknown help_ok cmd_save_valid [OF assms(1,3)] cmd_read_valid [OF assms(1,3)]
      cmd_list_valid [OF assms(1)]
    by (simp only: split: if_splits) auto
qed

lemma trim_log_valid:
  assumes "utf8_valid s" "trim_log s = Some t"
  shows "utf8_valid t"
proof (cases "2000 < length s")
  case True
  with assms(2) have t: "t = drop 500 s" "is_char_boundary 500 s" by (auto simp: trim_log_def split: if_splits)
  have "utf8_valid (take 500 s @ drop 500 s)" using assms(1) by simp
  moreover have "drop 500 s = [] \<or> \<not> utf8_cont (hd (drop 500 s))"
    using t(2) by (auto simp: is_char_boundary_def hd_drop_conv_nth)
  ultimately show ?thesis unfolding t by (rule utf8_cut_at(2))
qed (use assms in \<open>simp add: trim_log_def\<close>)

lemma echo_valid: "texts_ok (fst st) \<Longrightarrow> texts_ok (fst (echo st))"
  by (cases st) (simp add: echo_def push_str_def texts_ok_def utf8_valid_append)

lemma execute_command_valid:
  assumes "upper_ok (p_upper p)" "texts_ok (fst st)" "execute_command p st = Some st'"
  shows "texts_ok (fst st')"
proof -
  let ?parts = "split_whitespace (to_uppercase (p_upper p) (str_trim (input_buffer (fst st))))"
  have "\<forall>w \<in> set ?parts. utf8_valid w"
    using assms(1,2) by (auto simp: texts_ok_def intro: split_whitespace_valid to_uppercase_valid str_trim_valid)
  then have "utf8_valid (word_at n ?parts)" for n by (rule word_at_valid)
  note run = run_command_valid [OF echo_valid [OF assms(2)] this this]
  from assms(3) obtain win w t where "run_command p (word_at 0 ?parts) (word_at 1 ?parts) (echo st) = Some (win, w)"
    "trim_log (text_buffer win) = Some t" "fst st' = win\<lparr>input_buffer := [], text_buffer := t\<rparr>"
    by (auto simp: execute_command_def Let_def split: bind_splits)
  with run trim_log_valid show ?thesis by (fastforce simp: texts_ok_def)
qed

lemma process_keystroke_valid:
  assumes "upper_ok (p_upper p)" "texts_ok (fst st)" "is_char c" "process_keystroke p c st = Some st'"
  shows "texts_ok (fst st')"
proof -
  have "utf8_valid (concat (butlast (str_chars (input_buffer (fst st)))))"
    using assms(2) str_chars_valid(2) by (intro utf8_valid_concat_chars) (auto simp: texts_ok_def dest: in_set_butlastD)
  with assms show ?thesis
    by (auto simp: process_keystroke_def texts_ok_def [of "_\<lparr>input_buffer := _\<rparr>"] split: if_splits
        intro: execute_command_valid) (auto simp: texts_ok_def utf8_valid_append)
qed

text \<open>C28. The strings of a terminal stay strings: whatever is typed and whatever the drive holds, the log and the input line
  of the window are valid UTF-8 after every keystroke, backspaces, commands and the cutting of the log included (Rust
  treats anything else in a \<open>String\<close> as undefined behaviour).\<close>

theorem terminal_strings_stay_utf8:
  assumes "upper_ok (p_upper p)" "texts_ok (fst st)" "\<forall>c \<in> set keys. is_char c"
    "for_each keys (process_keystroke p) st = Some st'"
  shows "texts_ok (fst st')"
  using assms(2-4)
proof (induction keys arbitrary: st)
  case (Cons c keys)
  then obtain st1 where "process_keystroke p c st = Some st1" "for_each keys (process_keystroke p) st1 = Some st'"
    by (auto split: bind_splits)
  with Cons.IH [of st1] Cons.prems process_keystroke_valid [OF assms(1) Cons.prems(1), of c st1] show ?case by auto
qed simp

text \<open>A platform with a formatted drive and no network card, whose upper-case table leaves other characters alone.\<close>

definition demo_platform :: "(nvme_dev nvme, unit) platform" where
  "demo_platform = \<lparr>p_read = read_block (ref_hw 4096 8 0x5000), p_write = write_block (ref_hw 4096 8 0x5000),
     p_nic = \<lparr>nic_read = \<lambda>a h. (0, h), nic_write = \<lambda>a v h. h, nic_frame_in = \<lambda>f x. x\<rparr>, p_pci = \<lambda>_. 0xFFFFFFFF, p_upper = \<lambda>c. c\<rparr>"

definition demo_world :: "(nvme_dev nvme, unit) world" where
  "demo_world = \<lparr>nvme_drive = Some formatted, e1000_net = None, serial_out = []\<rparr>"

definition demo_window :: SemanticWindow where
  "demo_window = spawn 1 400 300 800 600"

lemma demo_upper: "upper_ok (p_upper demo_platform)"
  by (simp add: upper_ok_def demo_platform_def)

lemma demo_texts: "texts_ok demo_window"
proof -
  have "utf8_valid (spawn_text 1)" unfolding spawn_text_def by (intro utf8_valid_append utf8_valid_lit) simp_all
  then show ?thesis by (simp add: demo_window_def spawn_def Let_def texts_ok_def)
qed

theorem terminal_strings_stay_utf8_witness:
  "\<exists>win. for_each [[104], [0xC3, 0xA9], [8], [105]] (process_keystroke demo_platform) (demo_window, demo_world) = Some (win, demo_world) \<and>
     input_buffer win = [104, 105] \<and> texts_ok win"
proof -
  let ?win = "demo_window\<lparr>input_buffer := [104, 105]\<rparr>"
  have "str_chars [104, 0xC3, 0xA9] = [[104], [0xC3, 0xA9]]" by code_simp
  moreover have "input_buffer demo_window = []" by (simp add: demo_window_def spawn_def Let_def generate_cloud_def)
  ultimately have run: "for_each [[104], [0xC3, 0xA9], [8], [105]] (process_keystroke demo_platform) (demo_window, demo_world) = Some (?win, demo_world)"
    by (simp add: process_keystroke_def)
  have "texts_ok (fst (?win, demo_world))"
    by (rule terminal_strings_stay_utf8 [OF demo_upper _ _ run]) (simp_all add: demo_texts is_char_def utf8_cont_def)
  with run show ?thesis by simp
qed

end
