(* ===== verification/Mfs_Forge.thy ===== *)
theory Mfs_Forge
  imports Mfs_Props
begin

text \<open>
  What the text format of the file table costs the access check of \<^verbatim>\<open>kernel/src/mfs.rs\<close>: \<open>save_file\<close> writes
  names unescaped, so a name with separators is read back as the entry it spells, and \<open>read_file\<close> asks only the first
  block of an entry for consent.
\<close>

subsection \<open>A name that spells an entry\<close>

definition forged_name :: "FileEntry \<Rightarrow> bytes" where
  "forged_name e = fname e @ 58 # dec_u64 (start_lba e) @ 58 # dec_u64 (block_count e)"

lemma forged_name_line: "name_ok (fname e) \<Longrightarrow> line_name (forged_name e)"
  by (auto simp: forged_name_def name_ok_def line_name_def intro!: utf8_valid_append)

lemma forged_line_split:
  assumes "name_ok (fname e)"
  shows "str_split 58 (entry_line (new_entry es (forged_name e) dat)) =
    [fname e, dec_u64 (start_lba e), dec_u64 (block_count e),
     dec_u64 (start_lba (new_entry es (forged_name e) dat)), dec_u64 (block_count (new_entry es (forged_name e) dat))]"
proof -
  have "fname (new_entry es (forged_name e) dat) = forged_name e" by (simp add: new_entry_def)
  with assms show ?thesis by (simp add: entry_line_def forged_name_def name_ok_def str_simps)
qed

lemma find_line_append:
  "find_line t (xs @ ys) = (case find_line t xs of None \<Rightarrow> find_line t ys | Some e \<Rightarrow> Some e)"
  by (induction xs) (auto split: list.splits option.splits)

context block_device
begin

text \<open>The save succeeds, and the table that is read back then has the entry the name spells.\<close>

lemma save_forged:
  assumes s: "inv s" "fs_ok cap (disk s) es" and n: "name_ok (fname e)" "\<forall>e' \<in> set es. \<not> name_matches (fname e) e'"
    and fits: "length (render_mft (es @ [new_entry es (forged_name e) dat])) \<le> 4096" "end_from 1 es + blocks_for dat \<le> cap"
  obtains s1 s2 s3 where "save_file rd wr (forged_name e) dat (Some s) = Some (Ok (), Some s1)" "inv s1"
    "\<forall>k \<in> {1 ..< end_from 1 es}. disk s1 k = disk s k"
    "read_mft rd (Some s1) = Some (Ok (es @ [e]), Some s2)"
    "find_file rd (fname e) (Some s1) = Some (Some e, Some s3)" "inv s3" "disk s3 = disk s1"
proof -
  let ?new = "new_entry es (forged_name e) dat"
  have es: "\<forall>e \<in> set es. name_ok (fname e)" "0 < cap" using s(2) by (simp_all add: fs_ok_def table_ok_def)
  have "\<forall>e' \<in> set es. fname e' \<noteq> forged_name e" using es(1) by (auto simp: name_ok_def forged_name_def)
  then obtain r s0 where s0: "inv s0" "\<forall>n. n \<notin> {end_from 1 es ..< end_from 1 es + blocks_for dat} \<longrightarrow> disk s0 n = disk s n"
    "if end_from 1 es + blocks_for dat \<le> cap \<or> blocks_for dat = 0
     then r = Ok () \<and> (\<forall>j < blocks_for dat. disk s0 (end_from 1 es + j) = pad_block (chunk dat j))
     else \<exists>e. r = Err e"
    "save_file rd wr (forged_name e) dat (Some s) = (case r of
       Err e \<Rightarrow> Some (Err e, Some s0) | Ok _ \<Rightarrow> write_mft wr (es @ [?new]) (Some s0))"
    by (rule save_file_steps [OF s(1) fs_ok_readable [OF s(2)], of "forged_name e" dat]) (rule that)
  obtain s1 where s1: "write_mft wr (es @ [?new]) (Some s0) = Some (Ok (), Some s1)" "inv s1"
    "disk s1 = (disk s0)(0 := mft_buffer (es @ [?new]))"
    using write_mft_ok [OF s0(1) es(2)] by blast
  have lines: "\<forall>e' \<in> set (es @ [?new]). line_name (fname e')"
    using es(1) forged_name_line [OF n(1)] by (auto simp: new_entry_def name_ok_line)
  have "parse_entry (entry_line ?new) = Some e" by (simp add: parse_entry_def forged_line_split [OF n(1)] parse_dec_u64)
  moreover have "List.map_filter f (xs @ ys) = List.map_filter f xs @ List.map_filter f ys" for f :: "bytes \<Rightarrow> FileEntry option" and xs ys
    by (induction xs) (auto simp: map_filter_simps split: option.splits)
  ultimately have parse: "parse_mft (mft_buffer (es @ [?new])) = es @ [e]"
    by (simp add: parse_mft_lines [OF lines fits(1)] parse_entry_lines [OF es(1)] map_filter_simps)
  have "find_line (fname e) (map entry_line es) = None"
    using n(2) by (simp add: find_line_entries [OF es(1)] find_None_iff)
  then have "find_line (fname e) (map entry_line (es @ [?new])) = Some e"
    by (simp add: find_line_append forged_line_split [OF n(1)] parse_dec_u64)
  then have find: "find_line (fname e) (drop 1 (str_lines (clean_mft (mft_buffer (es @ [?new]))))) = Some e"
    by (simp add: clean_mft_buffer [OF lines fits(1)] str_lines_mft [OF lines])
  obtain s3 where s3: "rd 0 s1 = Some (Ok (mft_buffer (es @ [?new])), s3)" "inv s3" "disk s3 = disk s1"
    using rd_ok [OF s1(2), of 0] es(2) s1(3) by auto
  show ?thesis
  proof (rule that [of s1 s3 s3])
    show "save_file rd wr (forged_name e) dat (Some s) = Some (Ok (), Some s1)" using s0(3,4) s1(1) fits(2) by simp
    show "\<forall>k \<in> {1 ..< end_from 1 es}. disk s1 k = disk s k" using s0(2) s1(3) by auto
    show "read_mft rd (Some s1) = Some (Ok (es @ [e]), Some s3)" using s3(1) parse by (simp add: read_mft_def)
    show "find_file rd (fname e) (Some s1) = Some (Some e, Some s3)" using s3(1) find by (simp add: find_file_def)
  qed (use s1(2) s3(2,3) in simp_all)
qed

end

subsection \<open>The forged entry reads past the policies\<close>

text \<open>C13. A file name can forge an entry of the table, and through it the access check is bypassed: in a well-formed file
  system with room, saving a file whose name spells \<open>name:lba:count\<close> succeeds, lists an entry \<open>name\<close> at those blocks, and a
  read of \<open>name\<close> gives all of those blocks to every reader that the first of them consents to, whatever files the other
  blocks belong to.\<close>

theorem forged_name_reads_past_policies:
  assumes "nvme_conforms D V base caph buf 4096 cap" "nvme_sync V base buf 4096 s" "fs_ok cap (d_disk (V (hw s))) es"
    "name_ok (fname e)" "\<forall>e' \<in> set es. \<not> name_matches (fname e) e'"
    "length (render_mft (es @ [new_entry es (forged_name e) dat])) \<le> 4096" "end_from 1 es + blocks_for dat \<le> cap"
    "0 < unat (start_lba e)" "0 < unat (block_count e)" "unat (start_lba e) + unat (block_count e) \<le> end_from 1 es"
    "ctx_wf ctx" "consents (d_disk (V (hw s)) (unat (start_lba e))) ctx"
  shows "\<exists>s1 s2 s3. save_file (read_block D) (write_block D) (forged_name e) dat (Some s) = Some (Ok (), Some s1) \<and>
    read_mft (read_block D) (Some s1) = Some (Ok (es @ [e]), Some s2) \<and>
    read_file (read_block D) (fname e) ctx (Some s1) =
      Some (Ok (drop (128 + unat (from_le_bytes32 (take 4 (drop 76 (d_disk (V (hw s)) (unat (start_lba e)))))))
        (file_data (d_disk (V (hw s))) e)), Some s3)"
proof -
  note bd = nvme_block_device [OF assms(1)]
  let ?disk = "\<lambda>s. d_disk (V (hw s))"
  obtain s1 s2 s3 where s1: "save_file (read_block D) (write_block D) (forged_name e) dat (Some s) = Some (Ok (), Some s1)"
    "\<forall>k \<in> {1 ..< end_from 1 es}. ?disk s1 k = ?disk s k" "read_mft (read_block D) (Some s1) = Some (Ok (es @ [e]), Some s2)"
    "find_file (read_block D) (fname e) (Some s1) = Some (Some e, Some s3)" "nvme_sync V base buf 4096 s3" "?disk s3 = ?disk s1"
    by (rule block_device.save_forged [OF bd assms(2-7)]) (rule that)
  have cap: "end_from 1 es \<le> cap" "cap < 2 ^ 51" using assms(3) extents_end [of cap 1 es] by (auto simp: fs_ok_def)
  then have "unat (start_lba e) + unat (block_count e) \<le> cap" using assms(10) by simp
  from block_device.read_found_ok [OF bd s1(4,5) assms(11,9) this cap(2)] obtain s4
    where s4: "read_file (read_block D) (fname e) ctx (Some s1) = Some (entry_result (?disk s1) e ctx, Some s4)"
    using s1(6) by auto
  have same: "?disk s1 (unat (start_lba e) + i) = ?disk s (unat (start_lba e) + i)" if "i < unat (block_count e)" for i
    using s1(2) that assms(8,10) by auto
  then have "file_data (?disk s1) e = file_data (?disk s) e" unfolding file_data_def by (intro arg_cong [of _ _ concat] map_cong) simp_all
  moreover have "check_block (?disk s (unat (start_lba e))) ctx =
      Some (Ok (128 + unat (from_le_bytes32 (take 4 (drop 76 (?disk s (unat (start_lba e))))))))"
    using check_block_Ok_iff [OF block_device.sector [OF bd assms(2)]] assms(12) by blast
  ultimately have "entry_result (?disk s1) e ctx =
      Ok (drop (128 + unat (from_le_bytes32 (take 4 (drop 76 (?disk s (unat (start_lba e))))))) (file_data (?disk s) e))"
    using same [of 0] assms(9) by (simp add: entry_result_def)
  with s1(1,3) s4 show ?thesis by simp
qed

text \<open>A drive with the sealed file of the boot sequence and a file without a policy, which nobody may read.\<close>

definition private_entry :: FileEntry where
  "private_entry = \<lparr>fname = [80], start_lba = 2, block_count = 1\<rparr>"

definition two_files :: "nvme_dev nvme" where
  "two_files = (ref_state 4096 0x5000)\<lparr>hw := (hw (ref_state 4096 0x5000))\<lparr>
     d_disk := (\<lambda>_. replicate 4096 0)(0 := mft_buffer [new_entry [] vault_name forge_dummy_mdo_payload, private_entry],
       1 := forge_dummy_mdo_payload, 2 := replicate 4096 83)\<rparr>\<rparr>"

lemma two_files_sync: "nvme_sync (\<lambda>d. d) 0x1000 0x5000 4096 two_files"
  using ref_state_sync [of 4096 "0x5000"]
  by (simp add: two_files_def nvme_sync_def nvme_armed_def length_mft_buffer forge_layout(1))

lemma dec_small: "n < 10 \<Longrightarrow> dec_u64 (of_nat n) = [of_nat (48 + n)]"
  by (simp add: dec_u64_def dec_nat.simps unat_of_nat)

lemma two_files_fs:
  "fs_ok 8 (d_disk (hw two_files)) [new_entry [] vault_name forge_dummy_mdo_payload, private_entry]"
proof -
  have "length vault_name = 9" "name_ok vault_name" "name_ok [80]"
    by (simp_all add: vault_name_def name_ok_def line_name_def utf8_valid_ascii)
  then show ?thesis using dec_small [of 1] dec_small [of 2]
    by (simp add: two_files_def fs_ok_def table_ok_def new_entry_def private_entry_def render_mft_def render_entry_def
        MFS_MAGIC_def blocks_for_vault)
qed

theorem forged_name_reads_past_policies_witness:
  "\<exists>s1 s3. save_file (read_block (ref_hw 4096 8 0x5000)) (write_block (ref_hw 4096 8 0x5000)) [65, 58, 49, 58, 50] [120]
      (Some two_files) = Some (Ok (), Some s1) \<and>
    read_file (read_block (ref_hw 4096 8 0x5000)) [65] demo_ctx (Some s1) =
      Some (Ok (vault_msg @ replicate 3910 0 @ replicate 4096 83), Some s3)"
proof -
  let ?e = "\<lparr>fname = [65], start_lba = 1, block_count = 2\<rparr>"
  let ?es = "[new_entry [] vault_name forge_dummy_mdo_payload, private_entry]"
  have name: "forged_name ?e = [65, 58, 49, 58, 50]" using dec_small [of 1] dec_small [of 2] by (simp add: forged_name_def)
  have ok: "name_ok [65]" by (simp add: name_ok_def line_name_def)
  have other: "\<forall>e' \<in> set ?es. \<not> name_matches [65] e'"
    by (simp add: name_matches_def new_entry_def private_entry_def vault_name_def) code_simp
  have "length vault_name = 9" by (simp add: vault_name_def)
  then have room: "length (render_mft (?es @ [new_entry ?es [65, 58, 49, 58, 50] [120]])) \<le> 4096"
    using dec_small [of 1] dec_small [of 2] dec_small [of 3]
    by (simp add: render_mft_def render_entry_def MFS_MAGIC_def new_entry_def private_entry_def blocks_for_vault
        blocks_for_def [of "[_]"])
  have disk: "d_disk (hw two_files) (Suc 0) = forge_dummy_mdo_payload" "d_disk (hw two_files) 2 = replicate 4096 83"
    by (simp_all add: two_files_def)
  have fit: "end_from 1 ?es = 3" "blocks_for [120] = 1"
    by (simp_all add: new_entry_def private_entry_def blocks_for_vault blocks_for_def [of "[_]"])
  have "file_data (d_disk (hw two_files)) ?e = forge_dummy_mdo_payload @ replicate 4096 83"
    using disk by (simp add: file_data_def upt_conv_Cons numeral_2_eq_2 [symmetric])
  with forge_layout(1,4,6) have "drop (128 + unat (from_le_bytes32 (take 4 (drop 76 (d_disk (hw two_files) 1)))))
      (file_data (d_disk (hw two_files)) ?e) = vault_msg @ replicate 3910 0 @ replicate 4096 83"
    by (simp add: disk)
  then show ?thesis
    using forged_name_reads_past_policies [OF ref_hw_conforms two_files_sync, of 8 ?es ?e "[120]" demo_ctx]
      two_files_fs ok other room fit demo_ctx_wf vault_consents by (simp add: name disk) blast
qed

end
