(* ===== verification/Terminal_Props.thy ===== *)
theory Terminal_Props
  imports Terminal Mfs_Forge
begin

text \<open>
  When the terminal of \<^verbatim>\<open>kernel/src/splat.rs\<close> comes back from a command. The operations of the file system are total on a
  block device with any contents, a corrupt file table included, but for the reservation of the buffer of a file whose
  entry claims too many blocks. The lemmas are proved over the interface \<open>block_device\<close>.
\<close>

subsection \<open>The file system on any disk\<close>

text \<open>The entry a name is looked up to.\<close>

definition looked_up :: "(nat \<Rightarrow> bytes) \<Rightarrow> bytes \<Rightarrow> FileEntry option" where
  "looked_up dsk name = find_line name (drop 1 (str_lines (clean_mft (dsk 0))))"

text \<open>A read of the name is granted, and the entry claims more bytes than a vector can have.\<close>

definition read_overflows :: "nat \<Rightarrow> (nat \<Rightarrow> bytes) \<Rightarrow> bytes \<Rightarrow> MdoContext \<Rightarrow> bool" where
  "read_overflows cap dsk name ctx \<longleftrightarrow> (case looked_up dsk name of
       None \<Rightarrow> False
     | Some e \<Rightarrow> unat (start_lba e) < cap \<and> consents (dsk (unat (start_lba e))) ctx \<and> 2 ^ 63 \<le> unat (block_count e * 4096))"

context block_device
begin

lemma rd_total: "inv s \<Longrightarrow> \<exists>r s'. rd lba s = Some (r, s') \<and> inv s' \<and> disk s' = disk s"
  using rd_law [of s lba] by blast

lemma wr_total: "inv s \<Longrightarrow> length dat \<le> 4096 \<Longrightarrow> \<exists>r s'. wr lba dat s = Some (r, s') \<and> inv s'"
  using wr_law [of s dat lba] by blast

lemma read_mft_total:
  assumes "inv s"
  shows "\<exists>r s'. read_mft rd (Some s) = Some (r, Some s') \<and> inv s' \<and> disk s' = disk s"
  using rd_total [OF assms, of 0] by (auto simp: read_mft_def)

lemma write_mft_total:
  assumes "inv s"
  shows "\<exists>r s'. write_mft wr es (Some s) = Some (r, Some s') \<and> inv s'"
  using wr_total [OF assms, of "mft_buffer es" 0] by (auto simp: write_mft_def length_mft_buffer)

lemma write_blocks_total:
  assumes "inv s" "\<forall>i \<in> set is. i < blocks_for dat"
  shows "\<exists>r s'. write_blocks wr dat lba is s = Some (r, s') \<and> inv s'"
  using assms
proof (induction "is" arbitrary: s)
  case (Cons i "is")
  then have ch: "slice dat (i * 4096) (min (i * 4096 + 4096) (length dat)) = Some (chunk dat i)" "length (chunk dat i) \<le> 4096"
    using chunk_slice [of i dat] by simp_all
  obtain r s1 where s1: "wr (lba + of_nat i) (chunk dat i) s = Some (r, s1)" "inv s1"
    using wr_total [OF Cons.prems(1) ch(2)] by blast
  with Cons.IH [OF s1(2)] Cons.prems(2) ch(1) show ?case by (cases r) (auto simp: Let_def)
qed simp

lemma save_file_total:
  assumes "inv s"
  shows "\<exists>r s'. save_file rd wr name dat (Some s) = Some (r, Some s') \<and> inv s'"
proof -
  obtain r s1 where s1: "read_mft rd (Some s) = Some (r, Some s1)" "inv s1" using read_mft_total [OF assms] by blast
  have "\<exists>r s'. write_blocks wr dat lba [0..<(length dat + 4095) div 4096] s1 = Some (r, s') \<and> inv s'" for lba
    using write_blocks_total [OF s1(2), of "[0..<blocks_for dat]" dat lba] by (simp add: blocks_for_def)
  then obtain b d where b: "\<And>lba. write_blocks wr dat lba [0..<(length dat + 4095) div 4096] s1 = Some (b lba, d lba)" "\<And>lba. inv (d lba)"
    by metis
  show ?thesis
  proof (cases r)
    case (Inr es)
    let ?lba = "if es = [] then 1 else start_lba (last es) + block_count (last es)"
    show ?thesis
      using s1 b [of ?lba] write_mft_total [OF b(2) [of ?lba]] unfolding save_file_def Inr
      by (cases "b ?lba"; cases "\<exists>e \<in> set es. fname e = name") (simp_all add: Let_def)
  qed (use s1 in \<open>simp add: save_file_def\<close>)
qed

lemma find_file_total:
  assumes "inv s" "0 < cap"
  shows "\<exists>s'. find_file rd name (Some s) = Some (looked_up (disk s) name, Some s') \<and> inv s' \<and> disk s' = disk s"
  using rd_ok [OF assms(1), of 0] assms(2) by (auto simp: find_file_def looked_up_def)

lemma read_blocks_total:
  assumes "inv s"
  shows "\<exists>r s'. read_blocks rd lba is acc s = Some (r, s') \<and> inv s' \<and> disk s' = disk s"
  using assms
proof (induction "is" arbitrary: acc s)
  case (Cons i "is")
  obtain r s1 where s1: "rd (lba + of_nat i) s = Some (r, s1)" "inv s1" "disk s1 = disk s"
    using rd_total [OF Cons.prems] by blast
  show ?case
  proof (cases r)
    case (Inr b)
    with Cons.IH [OF s1(2), of "acc @ b"] s1 show ?thesis by auto
  qed (use s1 in simp)
qed simp

lemma read_found_total:
  assumes found: "find_file rd name (Some s) = Some (Some e, Some s1)" "inv s1" and ctx: "ctx_wf ctx"
    and fits: "\<not> (unat (start_lba e) < cap \<and> consents (disk s1 (unat (start_lba e))) ctx \<and> 2 ^ 63 \<le> unat (block_count e * 4096))"
  shows "\<exists>r s'. read_file rd name ctx (Some s) = Some (r, Some s') \<and> inv s' \<and> disk s' = disk s1"
proof (cases "unat (start_lba e) < cap")
  case False
  then obtain m s2 where "rd (start_lba e) s1 = Some (Err m, s2)" "inv s2" "disk s2 = disk s1"
    using rd_law [OF found(2), of "start_lba e"] by auto
  with found show ?thesis by (simp add: read_file_def verify_mdo_access_def)
next
  case True
  let ?b = "disk s1 (unat (start_lba e))"
  obtain v s2 where v: "check_block ?b ctx = Some v" "\<forall>off. v = Ok off \<longrightarrow> off \<le> 4096"
    "verify_mdo_access rd (start_lba e) ctx (Some s1) = Some (v, Some s2)" "inv s2" "disk s2 = disk s1"
    using verify_ok [OF found(2) True ctx] by auto
  show ?thesis
  proof (cases v)
    case (Inr off)
    then have "consents ?b ctx" using v(1) check_block_Ok_iff [OF sector [OF found(2)]] by blast
    then have cap: "with_capacity (block_count e * 4096) = Some ()" using fits True by (simp add: with_capacity_def)
    obtain s3 where s3: "rd (start_lba e) s2 = Some (Ok ?b, s3)" "inv s3" "disk s3 = disk s1"
      using rd_ok [OF v(4) True] v(5) by auto
    have "slice ?b off (length ?b) = Some (drop off ?b)" using v(2) Inr sector [OF found(2)] by (simp add: slice_def)
    with found(1) v(3) Inr s3 cap read_blocks_total [OF s3(2), of "start_lba e" "[1..<unat (block_count e)]" "drop off ?b"]
    show ?thesis by (auto simp: read_file_def)
  qed (use found v in \<open>simp add: read_file_def\<close>)
qed

lemma read_file_total:
  assumes "inv s" "0 < cap" "ctx_wf ctx" "\<not> read_overflows cap (disk s) name ctx"
  shows "\<exists>r s'. read_file rd name ctx (Some s) = Some (r, Some s') \<and> inv s' \<and> disk s' = disk s"
proof -
  obtain s1 where s1: "find_file rd name (Some s) = Some (looked_up (disk s) name, Some s1)" "inv s1" "disk s1 = disk s"
    using find_file_total [OF assms(1,2)] by blast
  show ?thesis
  proof (cases "looked_up (disk s) name")
    case (Some e)
    from read_found_total [OF s1(1) [unfolded Some] s1(2) assms(3)] assms(4) Some s1(3)
    show ?thesis by (auto simp: read_overflows_def)
  qed (use s1 in \<open>simp add: read_file_def\<close>)
qed

lemma read_file_overflow:
  assumes "inv s" "0 < cap" "read_overflows cap (disk s) name ctx"
  shows "read_file rd name ctx (Some s) = None"
proof -
  obtain e where e: "looked_up (disk s) name = Some e" "unat (start_lba e) < cap" "consents (disk s (unat (start_lba e))) ctx"
    "with_capacity (block_count e * 4096) = None"
    using assms(3) by (auto simp: read_overflows_def with_capacity_def split: option.splits)
  obtain s1 where s1: "find_file rd name (Some s) = Some (Some e, Some s1)" "inv s1" "disk s1 = disk s"
    using find_file_total [OF assms(1,2), of name] e(1) by auto
  obtain s2 where s2: "rd (start_lba e) s1 = Some (Ok (disk s (unat (start_lba e))), s2)"
    using rd_ok [OF s1(2) e(2)] s1(3) by auto
  obtain off where "check_block (disk s (unat (start_lba e))) ctx = Some (Ok off)"
    using check_block_Ok_iff [OF sector [OF assms(1)]] e(3) by blast
  with s1 s2 e(4) show ?thesis by (simp add: read_file_def verify_mdo_access_def)
qed

end

subsection \<open>A command returns\<close>

text \<open>What a command needs of the devices: a working drive, if there is one, and the six bytes of the address of the network
  card, if there is one. Every command keeps it.\<close>

definition world_ok :: "('s \<Rightarrow> bool) \<Rightarrow> ('s, 'h) world \<Rightarrow> bool" where
  "world_ok good w \<longleftrightarrow> (\<forall>s. nvme_drive w = Some s \<longrightarrow> good s) \<and>
     (\<forall>nic. e1000_net w = Some nic \<longrightarrow> length (mac_address (drv nic)) = 6)"

lemma world_ok_serial [simp]:
  "world_ok good (serial_print out w) = world_ok good w" "world_ok good (serial_println out w) = world_ok good w"
  "world_ok good (w\<lparr>nvme_drive := d\<rparr>) \<longleftrightarrow>
    (\<forall>s. d = Some s \<longrightarrow> good s) \<and> (\<forall>nic. e1000_net w = Some nic \<longrightarrow> length (mac_address (drv nic)) = 6)"
  by (simp_all add: world_ok_def serial_print_def serial_println_def)

lemma world_ok_say [simp]:
  "world_ok good (snd (say out st)) = world_ok good (snd st)" "world_ok good (snd (say_raw out st)) = world_ok good (snd st)"
  "world_ok good (snd (echo st)) = world_ok good (snd st)"
  by (simp_all add: say_def say_raw_def echo_def case_prod_beta)

lemma world_ok_entries [simp]:
  "world_ok good (snd (fold (\<lambda>e. say_raw (entry_text e)) es st)) = world_ok good (snd st)"
  by (induction es arbitrary: st) simp_all

lemma drive_say [simp]:
  "nvme_drive (snd (say out st)) = nvme_drive (snd st)" "nvme_drive (snd (echo st)) = nvme_drive (snd st)"
  "e1000_net (snd (say out st)) = e1000_net (snd st)"
  by (simp_all add: say_def echo_def serial_println_def serial_print_def case_prod_beta)

lemma transmit_mac [simp]: "mac_address (drv (transmit_packet_secure nic pkt s)) = mac_address (drv s)"
  by (simp add: transmit_packet_secure_def Let_def)

definition returns :: "('s \<Rightarrow> bool) \<Rightarrow> ('s, 'h) term_state option \<Rightarrow> bool" where
  "returns good r \<longleftrightarrow> (\<exists>st'. r = Some st' \<and> world_ok good (snd st'))"

lemma returns_Some [simp]: "returns good (Some st) = world_ok good (snd st)"
  by (simp add: returns_def)

lemma with_nic_returns:
  assumes "world_ok good (snd st)"
    and "\<And>nic. length (mac_address (drv nic)) = 6 \<Longrightarrow> \<exists>nic'. send nic = Some nic' \<and> length (mac_address (drv nic')) = 6"
  shows "returns good (with_nic send st)"
proof (cases "e1000_net (snd st)")
  case (Some nic)
  then have "length (mac_address (drv nic)) = 6" using assms(1) by (simp add: world_ok_def)
  with assms(2) [of nic] Some assms(1) show ?thesis by (auto simp: with_nic_def case_prod_beta world_ok_def)
qed (use assms(1) in \<open>simp add: with_nic_def case_prod_beta\<close>)

lemma cmd_ping_returns: "world_ok good (snd st) \<Longrightarrow> returns good (cmd_ping p arg1 st)"
  unfolding cmd_ping_def by (auto simp: send_ping_def ping_packet_eq intro!: with_nic_returns)

lemma cmd_arp_returns: "world_ok good (snd st) \<Longrightarrow> returns good (cmd_arp p st)"
  unfolding cmd_arp_def by (intro with_nic_returns) (auto simp: send_arp_request_def arp_packet_eq)

lemma cmd_save_returns:
  assumes bd: "block_device (p_read p) (p_write p) good disk cap" and ok: "world_ok good (snd st)"
  shows "returns good (cmd_save p arg1 st)"
proof (cases "arg1 = []")
  case False
  obtain win w where st: "say (lit ''Saving file: '' @ [39] @ arg1 @ [39, 10]) st = (win, w)" by fastforce
  have w: "world_ok good w" using ok world_ok_say(1) [of good _ st] by (metis st snd_conv)
  let ?dat = "join_words (drop 2 (split_whitespace (input_buffer win)))"
  have "\<exists>r d. save_file (p_read p) (p_write p) arg1 ?dat (nvme_drive w) = Some (r, d) \<and> (\<forall>s. d = Some s \<longrightarrow> good s)"
  proof (cases "nvme_drive w")
    case None
    then show ?thesis by (simp add: save_file_def read_mft_def)
  next
    case (Some s)
    then have "good s" using w by (simp add: world_ok_def)
    from block_device.save_file_total [OF bd this, of arg1 ?dat] Some show ?thesis by auto
  qed
  then obtain r d where r: "save_file (p_read p) (p_write p) arg1 ?dat (nvme_drive w) = Some (r, d)" "\<forall>s. d = Some s \<longrightarrow> good s"
    by blast
  have "world_ok good (w\<lparr>nvme_drive := d\<rparr>)" using w r(2) by (simp add: world_ok_def)
  then show ?thesis using r(1) False unfolding cmd_save_def st by simp
qed (use ok in \<open>simp add: cmd_save_def\<close>)

lemma cmd_list_returns:
  assumes bd: "block_device (p_read p) (p_write p) good disk cap" and ok: "world_ok good (snd st)"
  shows "returns good (cmd_list p st)"
proof -
  obtain win w where st: "say (lit ''Listing files in root directory:'' @ [10]) st = (win, w)" by fastforce
  have w: "world_ok good w" using ok world_ok_say(1) [of good _ st] by (metis st snd_conv)
  have "\<exists>r d. read_mft (p_read p) (nvme_drive w) = Some (r, d) \<and> (\<forall>s. d = Some s \<longrightarrow> good s)"
  proof (cases "nvme_drive w")
    case None
    then show ?thesis by (simp add: read_mft_def)
  next
    case (Some s)
    then have "good s" using w by (simp add: world_ok_def)
    from block_device.read_mft_total [OF bd this] Some show ?thesis by auto
  qed
  then obtain r d where r: "read_mft (p_read p) (nvme_drive w) = Some (r, d)" "\<forall>s. d = Some s \<longrightarrow> good s" by blast
  have "world_ok good (w\<lparr>nvme_drive := d\<rparr>)" using w r(2) by (simp add: world_ok_def)
  then show ?thesis using r(1) unfolding cmd_list_def st by (cases r) (simp_all add: Let_def)
qed

lemma terminal_context_wf: "ctx_wf terminal_context"
  by (simp add: ctx_wf_def terminal_context_def)

lemma cmd_read_returns:
  assumes bd: "block_device (p_read p) (p_write p) good disk cap" and ok: "world_ok good (snd st)" "0 < cap"
    and fits: "\<forall>s. nvme_drive (snd st) = Some s \<longrightarrow> \<not> read_overflows cap (disk s) arg1 terminal_context"
  shows "returns good (cmd_read p arg1 st)"
proof (cases "arg1 = []")
  case False
  obtain win w where st: "say (lit ''Reading file: '' @ [39] @ arg1 @ [39, 10]) st = (win, w)" by fastforce
  have w: "world_ok good w" "nvme_drive w = nvme_drive (snd st)"
    using ok world_ok_say(1) [of good _ st] drive_say(1) [of _ st] by (metis st snd_conv)+
  have "\<exists>r d. read_file (p_read p) arg1 terminal_context (nvme_drive w) = Some (r, d) \<and> (\<forall>s. d = Some s \<longrightarrow> good s)"
  proof (cases "nvme_drive w")
    case None
    then show ?thesis by (simp add: read_file_def find_file_def)
  next
    case (Some s)
    then have "good s" "\<not> read_overflows cap (disk s) arg1 terminal_context" using w fits by (simp_all add: world_ok_def)
    from block_device.read_file_total [OF bd this(1) ok(2) terminal_context_wf this(2)] Some show ?thesis by auto
  qed
  then obtain r d where r: "read_file (p_read p) arg1 terminal_context (nvme_drive w) = Some (r, d)" "\<forall>s. d = Some s \<longrightarrow> good s"
    by blast
  have "world_ok good (w\<lparr>nvme_drive := d\<rparr>)" using w r(2) by (simp add: world_ok_def)
  then show ?thesis using r(1) False unfolding cmd_read_def st by simp
qed (use ok in \<open>simp add: cmd_read_def\<close>)

lemma run_command_returns:
  assumes bd: "block_device (p_read p) (p_write p) good disk cap" and ok: "world_ok good (snd st)" "0 < cap"
    and fits: "\<forall>s. cmd = lit ''READ'' \<longrightarrow> nvme_drive (snd st) = Some s \<longrightarrow> \<not> read_overflows cap (disk s) arg1 terminal_context"
  shows "returns good (run_command p cmd arg1 st)"
proof -
  have "world_ok good (snd (cmd_clear st))" "world_ok good (snd (cmd_scan p arg1 st))" "world_ok good (snd (cmd_request st))"
    using ok(1) by (simp_all add: cmd_clear_def cmd_scan_def cmd_request_def case_prod_beta Let_def)
  then show ?thesis
    using ok(1) cmd_ping_returns [OF ok(1)] cmd_arp_returns [OF ok(1)] cmd_save_returns [OF bd ok(1)] cmd_list_returns [OF bd ok(1)]
      cmd_read_returns [OF bd ok, of arg1] fits
    by (simp add: run_command_def)
qed

text \<open>The words of the input line a command is chosen by.\<close>

definition typed_word :: "('s, 'h) platform \<Rightarrow> nat \<Rightarrow> SemanticWindow \<Rightarrow> bytes" where
  "typed_word p n win = word_at n (split_whitespace (to_uppercase (p_upper p) (str_trim (input_buffer win))))"

lemma trim_log_None_iff: "trim_log t = None \<longleftrightarrow> 2000 < length t \<and> \<not> is_char_boundary 500 t"
  by (simp add: trim_log_def)

lemma execute_command_None_iff:
  "execute_command p st = None \<longleftrightarrow>
    (case run_command p (typed_word p 0 (fst st)) (typed_word p 1 (fst st)) (echo st) of
      None \<Rightarrow> True | Some st' \<Rightarrow> trim_log (text_buffer (fst st')) = None)"
  by (auto simp: execute_command_def typed_word_def Let_def split: bind_splits option.splits)

lemma execute_command_world:
  assumes "execute_command p st = Some st'" "returns good (run_command p (typed_word p 0 (fst st)) (typed_word p 1 (fst st)) (echo st))"
  shows "world_ok good (snd st')"
  using assms by (auto simp: execute_command_def typed_word_def Let_def split: bind_splits)



end
