(* ===== verification/Neural_Link.thy ===== *)
theory Neural_Link
  imports Terminal_Props
begin

text \<open>
  The neural link, \<open>genesis_init_task\<close> of \<^verbatim>\<open>kernel/src/main.rs\<close>: bytes from the serial port are collected from an opening
  brace to a back tick; the text between them is either a command for the top-most terminal or a payload that is saved
  under the first free name. The step function is one round of the task's loop.
\<close>

subsection \<open>Strings\<close>

text \<open>A byte as a character: its code point is the byte.\<close>

definition char_of_byte :: "u8 \<Rightarrow> bytes" where
  "char_of_byte b = (if b < 0x80 then [b] else [0xC0 OR drop_bit 6 b, 0x80 OR (b AND 0x3F)])"

text \<open>\<open>str::find\<close> of a string: the first position it occurs at.\<close>

fun str_find :: "bytes \<Rightarrow> bytes \<Rightarrow> nat option" where
  "str_find pat [] = (if pat = [] then Some 0 else None)"
| "str_find pat (b # s) = (if take (length pat) (b # s) = pat then Some 0 else map_option Suc (str_find pat s))"

definition str_contains :: "bytes \<Rightarrow> bytes \<Rightarrow> bool" where
  "str_contains pat s \<longleftrightarrow> str_find pat s \<noteq> None"

text \<open>A slice of a string panics outside of it and inside a character.\<close>

definition str_slice :: "nat \<Rightarrow> nat \<Rightarrow> bytes \<Rightarrow> bytes option" where
  "str_slice i j s = (if i \<le> j \<and> is_char_boundary i s \<and> is_char_boundary j s then slice s i j else None)"

definition dec_i32 :: "i32 \<Rightarrow> bytes" where
  "dec_i32 c = (if c <s 0 then 45 # dec_nat (nat (- sint c)) else dec_nat (nat (sint c)))"

subsection \<open>Commands and payloads\<close>

definition quoted :: "string \<Rightarrow> bytes" where
  "quoted s = 34 # lit s @ [34]"

text \<open>The command in the text, up to the next quote.\<close>

definition command_str :: "bytes \<Rightarrow> bytes option option" where
  "command_str json = (case str_find (quoted ''command'' @ [58, 34]) json of
     None \<Rightarrow> Some None
   | Some cmd_idx \<Rightarrow> do {
       let start = cmd_idx + 11;
       rest \<leftarrow> str_slice start (length json) json;
       (case str_find [34] rest of
          None \<Rightarrow> Some None
        | Some n \<Rightarrow> do { c \<leftarrow> str_slice start (start + n) json; Some (Some c) }) })"

text \<open>The command runs in the top-most window, as if it had been typed.\<close>

definition remote_command :: "('s, 'h) platform \<Rightarrow> bytes \<Rightarrow> SplatEngine \<Rightarrow> ('s, 'h) world \<Rightarrow> (SplatEngine \<times> ('s, 'h) world) option" where
  "remote_command p c engine w = (if windows engine = [] then Some (engine, w)
     else do {
       (win, w) \<leftarrow> execute_command p ((last (windows engine))\<lparr>input_buffer := c @ [10]\<rparr>, w);
       Some (engine\<lparr>windows := butlast (windows engine) @ [win]\<rparr>, w) })"

definition run_json_command :: "('s, 'h) platform \<Rightarrow> bytes \<Rightarrow> 'd desk \<times> ('s, 'h) world \<Rightarrow> ('d desk \<times> ('s, 'h) world) option" where
  "run_json_command p json = (\<lambda>((ui, display, s), w). do {
     c \<leftarrow> command_str json;
     (case (c, display) of
        (Some c, Some (engine, gpu)) \<Rightarrow> do {
          (engine, w) \<leftarrow> remote_command p c engine w;
          Some ((ui, Some (engine, gpu), s), w) }
      | _ \<Rightarrow> Some ((ui, display, s), w)) })"

definition payload_name :: "i32 \<Rightarrow> bytes" where
  "payload_name c = lit ''payload_'' @ dec_i32 c @ lit ''.mdo''"

text \<open>The loop that looks for a free name; it may not end.\<close>

partial_function (option) free_payload :: "'s read_fun \<Rightarrow> i32 \<Rightarrow> 's option \<Rightarrow> (i32 \<times> 's option) option" where
  "free_payload rd c drive = do {
     (found, drive) \<leftarrow> find_file rd (payload_name c) drive;
     if found = None then Some (c, drive) else free_payload rd (c + 1) drive }"

definition store_payload :: "'s read_fun \<Rightarrow> 's write_fun \<Rightarrow> bytes \<Rightarrow> i32 \<Rightarrow> 's option \<Rightarrow>
    ((string, unit) result \<times> i32 \<times> 's option) option" where
  "store_payload rd wr json c drive = do {
     (c, drive) \<leftarrow> free_payload rd c drive;
     (r, drive) \<leftarrow> save_file rd wr (payload_name c) json drive;
     Some (r, c, drive) }"

definition payload_text :: "(string, unit) result \<Rightarrow> i32 \<Rightarrow> bytes" where
  "payload_text r c = (case r of
     Ok _ \<Rightarrow> 10 # lit ''[KERNEL] AI Response saved to '' @ payload_name c @ 10 # lit ''genesis> ''
   | Err e \<Rightarrow> 10 # lit ''[KERNEL] MFS SAVE FAILED: '' @ lit e @ 10 # lit ''genesis> '')"

subsection \<open>The task\<close>

record link =
  json_buffer :: bytes
  receiving_json :: bool
  payload_count :: i32

text \<open>What is done with a complete text.\<close>

definition handle_json :: "('s, 'h) platform \<Rightarrow> font \<Rightarrow> 'd GpuDevice \<Rightarrow> nat \<Rightarrow> bool \<Rightarrow> bytes \<Rightarrow>
    i32 \<times> 'd desk \<times> ('s, 'h) world \<Rightarrow> (i32 \<times> 'd desk \<times> ('s, 'h) world) option" where
  "handle_json p font gd vb hv json = (\<lambda>(count, desk, w).
     if str_contains (quoted ''command'') json
     then do { (desk, w) \<leftarrow> run_json_command p json (desk, w); Some (count, desk, w) }
     else if str_contains (quoted ''payload'') json
     then do {
       (r, count, drive) \<leftarrow> store_payload (p_read p) (p_write p) json count (nvme_drive w);
       let out = payload_text r count;
       desk \<leftarrow> screen_print font gd vb hv [out, [10]] desk;
       Some (count, desk, serial_print out (w\<lparr>nvme_drive := drive\<rparr>)) }
     else Some (count, desk, w))"

definition link_byte :: "('s, 'h) platform \<Rightarrow> font \<Rightarrow> 'd GpuDevice \<Rightarrow> nat \<Rightarrow> bool \<Rightarrow> u8 \<Rightarrow>
    link \<times> 'd desk \<times> ('s, 'h) world \<Rightarrow> (link \<times> 'd desk \<times> ('s, 'h) world) option" where
  "link_byte p font gd vb hv byte = (\<lambda>(l, desk, w).
     let c = char_of_byte byte in
     if c = [123] \<and> \<not> receiving_json l
     then Some (l\<lparr>receiving_json := True, json_buffer := c\<rparr>, desk, w)
     else if receiving_json l
     then let l = l\<lparr>json_buffer := json_buffer l @ c\<rparr> in
       if c = [96]
       then do {
         let json = concat (butlast (str_chars (json_buffer l)));
         (count, desk, w) \<leftarrow> handle_json p font gd vb hv json (payload_count l, desk, w);
         Some (l\<lparr>receiving_json := False, json_buffer := [], payload_count := count\<rparr>, desk, w) }
       else Some (l, desk, w)
     else Some (l, desk, w))"

subsection \<open>Framing\<close>

lemma char_of_byte_is_char: "is_char (char_of_byte b)"
proof (cases "b < 0x80")
  case False
  have "\<forall>x \<in> set [0x80 .. 0xFF]. is_char [0xC0 OR drop_bit 6 (word_of_int x), 0x80 OR (word_of_int x AND 0x3F :: u8)]" by code_simp
  moreover have "uint b \<in> set [0x80 .. 0xFF]"
    using False uint_bounded [of b] unfolding set_upto by (simp add: word_less_alt)
  ultimately have "is_char [0xC0 OR drop_bit 6 (word_of_int (uint b)), 0x80 OR (word_of_int (uint b) AND 0x3F :: u8)]" by blast
  then show ?thesis using False by (simp add: char_of_byte_def)
qed (simp add: char_of_byte_def is_char_ascii)

lemma char_of_byte_ascii: "c < 0x80 \<Longrightarrow> char_of_byte b = [c] \<longleftrightarrow> b = c"
  by (auto simp: char_of_byte_def)

definition decoded :: "bytes \<Rightarrow> bytes" where
  "decoded bs = concat (map char_of_byte bs)"

lemma for_each_one: "for_each [x] f s = f x s"
  by (cases "f x s") simp_all

lemma link_noise:
  assumes "\<not> receiving_json l" "123 \<notin> set noise"
  shows "for_each noise (link_byte p font gd vb hv) (l, desk, w) = Some (l, desk, w)"
  using assms by (induction noise) (auto simp: link_byte_def Let_def char_of_byte_ascii)

lemma link_body:
  assumes "receiving_json l" "96 \<notin> set body"
  shows "for_each body (link_byte p font gd vb hv) (l, desk, w) = Some (l\<lparr>json_buffer := json_buffer l @ decoded body\<rparr>, desk, w)"
  using assms
proof (induction body arbitrary: l)
  case (Cons b body)
  let ?l = "l\<lparr>json_buffer := json_buffer l @ char_of_byte b\<rparr>"
  have "link_byte p font gd vb hv b (l, desk, w) = Some (?l, desk, w)"
    using Cons.prems by (auto simp: link_byte_def Let_def char_of_byte_ascii)
  with Cons.IH [of ?l] Cons.prems show ?case by (simp add: decoded_def)
qed (simp add: decoded_def)

lemma decoded_chars: "str_chars (decoded bs @ [96]) = map char_of_byte bs @ [[96]]"
proof -
  have "str_chars (concat (map char_of_byte bs @ [[96]])) = map char_of_byte bs @ [[96]]"
    by (rule str_chars_concat) (auto simp: char_of_byte_is_char is_char_ascii)
  then show ?thesis by (simp add: decoded_def)
qed

lemma link_frame:
  assumes "\<not> receiving_json l" "123 \<notin> set noise" "96 \<notin> set body"
  shows "for_each (noise @ 123 # body @ [96]) (link_byte p font gd vb hv) (l, desk, w) =
    map_option (\<lambda>(count, desk, w). (\<lparr>json_buffer = [], receiving_json = False, payload_count = count\<rparr>, desk, w))
      (handle_json p font gd vb hv (decoded (123 # body)) (payload_count l, desk, w))"
proof -
  let ?l = "l\<lparr>receiving_json := True, json_buffer := [123]\<rparr>" and ?json = "decoded (123 # body)"
  have "char_of_byte 123 = [123]" "char_of_byte 96 = [96]" by (simp_all add: char_of_byte_ascii)
  moreover from this have json: "?json = 123 # decoded body" by (simp add: decoded_def)
  ultimately have start: "for_each (123 # body) (link_byte p font gd vb hv) (l, desk, w) = Some (?l\<lparr>json_buffer := ?json\<rparr>, desk, w)"
    using assms link_body [of ?l body] by (simp add: link_byte_def Let_def)
  have "concat (butlast (str_chars (?json @ [96]))) = ?json" by (simp add: decoded_chars) (simp add: decoded_def)
  then have stop: "link_byte p font gd vb hv 96 (?l\<lparr>json_buffer := ?json\<rparr>, desk, w) =
    map_option (\<lambda>(count, desk, w). (\<lparr>json_buffer = [], receiving_json = False, payload_count = count\<rparr>, desk, w))
      (handle_json p font gd vb hv ?json (payload_count l, desk, w))"
    using char_of_byte_ascii [of 96 96]
    by (cases "handle_json p font gd vb hv ?json (payload_count l, desk, w)") (auto simp: link_byte_def Let_def)
  have "noise @ 123 # body @ [96] = noise @ (123 # body) @ [96]" by simp
  then show ?thesis
    using link_noise [OF assms(1,2), of p font gd vb hv desk w] start stop
    by (simp only: for_each_append for_each_one bind.bind_lunit)
qed

subsection \<open>Names of payloads\<close>

lemma strip_prefixes_hd:
  assumes "s \<noteq> []" "\<forall>w \<in> set ws. w \<noteq> [] \<longrightarrow> hd w \<noteq> hd s"
  shows "strip_prefixes ws s = s"
proof -
  have "find (\<lambda>w. w \<noteq> [] \<and> take (length w) s = w) ws = None"
    using assms by (auto simp: find_None_iff) (metis hd_take length_greater_0_conv)
  then show ?thesis by (subst strip_prefixes.simps) simp
qed

lemma str_trim_plain:
  assumes "s \<noteq> []" "\<forall>w \<in> set ws_chars. hd w \<noteq> hd s" "\<forall>w \<in> set ws_chars. last w \<noteq> last s"
  shows "str_trim s = s"
proof -
  have "strip_prefixes ws_chars s = s" using assms(1,2) by (intro strip_prefixes_hd) auto
  moreover have "strip_prefixes (map rev ws_chars) (rev s) = rev s"
    using assms(1,3) by (intro strip_prefixes_hd) (auto simp: hd_rev)
  ultimately show ?thesis by (simp add: str_trim_def)
qed

lemma dec_nat_inject: "m < 2 ^ 64 \<Longrightarrow> n < 2 ^ 64 \<Longrightarrow> dec_nat m = dec_nat n \<Longrightarrow> m = n"
  using parse_digits_dec by (metis option.inject)

lemma payload_name_trim: "str_trim (payload_name c) = payload_name c"
proof (rule str_trim_plain)
  have "hd (payload_name c) = 112" "last (payload_name c) = 111" by (simp_all add: payload_name_def lit_def)
  then show "\<forall>w \<in> set ws_chars. hd w \<noteq> hd (payload_name c)" "\<forall>w \<in> set ws_chars. last w \<noteq> last (payload_name c)"
    by (simp_all only:) code_simp+
qed (simp add: payload_name_def lit_def)

lemma payload_name_lower:
  assumes "0 \<le> sint c"
  shows "map ascii_lower (payload_name c) = payload_name c"
proof -
  have "map ascii_lower (dec_nat n) = dec_nat n" for n
  proof (rule map_idI)
    fix b assume "b \<in> set (dec_nat n)"
    then have "b \<le> 57" using dec_nat_digits by blast
    then show "ascii_lower b = b" by (simp add: ascii_lower_def word_le_nat_alt)
  qed
  moreover have "map ascii_lower (map of_char ''payload_'') = map of_char ''payload_''"
    "map ascii_lower (map of_char ''.mdo'') = map of_char ''.mdo''" by code_simp+
  ultimately show ?thesis
    using assms unfolding payload_name_def lit_def dec_i32_def by (simp only: map_append word_sless_alt) simp
qed

lemma payload_name_inject:
  assumes "0 \<le> sint c" "0 \<le> sint d" "payload_name c = payload_name d"
  shows "c = d"
proof -
  have "dec_nat (nat (sint c)) = dec_nat (nat (sint d))"
    using assms by (simp add: payload_name_def dec_i32_def word_sless_alt)
  then have "nat (sint c) = nat (sint d)"
    using sint_range [of c] sint_range [of d] by (intro dec_nat_inject) simp_all
  then have "sint c = sint d" using assms by simp
  then show ?thesis by (rule signed_word_eqI)
qed

text \<open>An entry answers to at most one of the names.\<close>

lemma payload_name_matches:
  assumes "0 \<le> sint c" "0 \<le> sint d" "name_matches (payload_name c) e" "name_matches (payload_name d) e"
  shows "c = d"
proof (rule payload_name_inject [OF assms(1,2)])
  have "map ascii_lower (payload_name c) = map ascii_lower (payload_name d)"
    using assms(3,4) by (simp add: name_matches_def eq_ignore_ascii_case_def payload_name_trim)
  then show "payload_name c = payload_name d" by (simp only: payload_name_lower assms(1,2))
qed

lemma sint_add_nat:
  assumes "0 \<le> sint (c :: i32)" "sint c + int k < 2147483648"
  shows "sint (c + of_nat k) = sint c + int k"
proof -
  have eq: "c + of_nat k = word_of_int (sint c + int k)" by (simp add: wi_hom_add [symmetric])
  show ?thesis unfolding eq by (rule sint_of_int) (use assms in linarith)+
qed

lemma free_payload_exists:
  assumes "0 \<le> sint c" "sint c + int (length es) < 2147483648"
  shows "\<exists>k \<le> length es. \<forall>e \<in> set es. \<not> name_matches (payload_name (c + of_nat k)) e"
proof (rule ccontr)
  assume "\<not> ?thesis"
  then obtain f where f: "\<And>k. k \<le> length es \<Longrightarrow> f k \<in> set es \<and> name_matches (payload_name (c + of_nat k)) (f k)"
    by metis
  have sint: "sint (c + of_nat k) = sint c + int k" if "k \<le> length es" for k
    using assms that by (intro sint_add_nat) simp_all
  have "inj_on f {..length es}"
  proof (rule inj_onI)
    fix i j assume ij: "i \<in> {..length es}" "j \<in> {..length es}" "f i = f j"
    have "c + of_nat i = c + of_nat j"
    proof (rule payload_name_matches)
      show "name_matches (payload_name (c + of_nat i)) (f i)" "name_matches (payload_name (c + of_nat j)) (f i)"
        using f [of i] f [of j] ij by simp_all
    qed (use sint ij assms(1) in simp_all)
    then have "sint (c + of_nat i) = sint (c + of_nat j)" by (rule arg_cong)
    then show "i = j" using ij(1,2) by (simp only: sint atMost_iff)
  qed
  moreover have "f ` {..length es} \<subseteq> set es" using f by auto
  ultimately have "card {..length es} \<le> card (set es)" by (intro card_inj_on_le) simp_all
  then show False using card_length [of es] by simp
qed

lemma dec_nat_length: "n < 10 ^ Suc k \<Longrightarrow> length (dec_nat n) \<le> Suc k"
proof (induction k arbitrary: n)
  case (Suc k)
  then have "length (dec_nat (n div 10)) \<le> Suc k" by (intro Suc.IH) simp
  then show ?case by (subst dec_nat.simps) simp
qed (subst dec_nat.simps, simp)

lemma payload_name_ok:
  assumes "0 \<le> sint c"
  shows "name_ok (payload_name c)" "length (payload_name c) \<le> 22"
proof -
  have dec: "dec_i32 c = dec_nat (nat (sint c))" using assms by (simp add: dec_i32_def word_sless_alt)
  have "\<forall>b \<in> set (map of_char ''payload_''). b < (0x80 :: u8) \<and> b \<notin> {58, 10, 0}"
    "\<forall>b \<in> set (map of_char ''.mdo''). b < (0x80 :: u8) \<and> b \<notin> {58, 10, 0}" by simp_all
  moreover have "\<forall>b \<in> set (dec_nat n). b < 0x80 \<and> b \<notin> {58, 10, 0}" for n
    using dec_nat_digits [of n] by (auto simp: word_le_nat_alt word_less_nat_alt)
  ultimately have "\<forall>b \<in> set (payload_name c). b < 0x80 \<and> b \<notin> {58, 10, 0}"
    unfolding payload_name_def lit_def dec set_append by blast
  then show "name_ok (payload_name c)" by (auto simp: name_ok_def line_name_def intro: utf8_valid_ascii)
  have "length (dec_nat (nat (sint c))) \<le> Suc 9" using sint_range [of c] by (intro dec_nat_length) simp
  then show "length (payload_name c) \<le> 22" by (simp add: payload_name_def lit_def dec)
qed

text \<open>The line of a payload takes at most 65 bytes of the table.\<close>

lemma payload_table:
  assumes "table_ok es" "length (render_mft es) + 65 \<le> 4096" "0 \<le> sint c"
  shows "table_ok (es @ [new_entry es (payload_name c) json])"
proof -
  have "length (dec_u64 x) \<le> Suc 19" for x
    unfolding dec_u64_def using unsigned_less [of x, where ?'a = nat] by (intro dec_nat_length) simp
  then have "length (dec_u64 (start_lba (new_entry es (payload_name c) json))) +
      length (dec_u64 (block_count (new_entry es (payload_name c) json))) \<le> 40" by (simp add: add_le_mono [of _ 20 _ 20, simplified])
  moreover have "fname (new_entry es (payload_name c) json) = payload_name c" by (simp add: new_entry_def)
  ultimately show ?thesis
    using assms payload_name_ok [OF assms(3)] by (auto simp: table_ok_def render_mft_def render_entry_def)
qed

text \<open>A text that starts with a brace is never a file with a policy.\<close>

lemma json_denied:
  assumes "json = 123 # rest"
  shows "check_block (take 4096 (pad_file json)) ctx = Some (Err ''Not a valid MDO file. Zero-Trust Access Denied.'')"
proof -
  have "take 4096 (pad_file json) = 123 # take 4095 (rest @ replicate (4096 * blocks_for json - length json) 0)"
    by (simp add: assms pad_file_def)
  moreover have "4 \<le> length (take 4096 (pad_file json))"
  proof -
    have "1 \<le> blocks_for json" using blocks_for_pos [of json] assms by simp
    then have "4096 \<le> length (pad_file json)" by (simp add: pad_file_def)
    then show ?thesis by simp
  qed
  ultimately show ?thesis by (simp add: check_block_def slice_def MDO_MAGIC_def)
qed

context block_device
begin

lemma free_payload_steps:
  assumes "inv s" "fs_ok cap (disk s) es" "\<forall>j < k. \<exists>e \<in> set es. name_matches (payload_name (c + of_nat j)) e"
    "\<forall>e \<in> set es. \<not> name_matches (payload_name (c + of_nat k)) e"
  shows "\<exists>s'. free_payload rd c (Some s) = Some (c + of_nat k, Some s') \<and> inv s' \<and> disk s' = disk s"
  using assms
proof (induction k arbitrary: c s)
  case 0
  then have "find (name_matches (payload_name c)) es = None" by (simp add: find_None_iff)
  with find_file_ok [OF 0(1,2), of "payload_name c"] show ?case by (subst free_payload.simps) auto
next
  case (Suc k)
  have "\<exists>e \<in> set es. name_matches (payload_name c) e" using Suc.prems(3) [rule_format, of 0] by simp
  then have "find (name_matches (payload_name c)) es \<noteq> None" by (auto simp: find_None_iff)
  then obtain s1 where s1: "find_file rd (payload_name c) (Some s) = Some (find (name_matches (payload_name c)) es, Some s1)"
    "inv s1" "disk s1 = disk s" "find (name_matches (payload_name c)) es \<noteq> None"
    using find_file_ok [OF Suc.prems(1,2), of "payload_name c"] by blast
  have "\<forall>j < k. \<exists>e \<in> set es. name_matches (payload_name (c + 1 + of_nat j)) e"
    using Suc.prems(3) by (metis Suc_less_eq add.assoc of_nat_Suc)
  moreover have "\<forall>e \<in> set es. \<not> name_matches (payload_name (c + 1 + of_nat k)) e" using Suc.prems(4) by (simp add: add.assoc)
  ultimately obtain s' where "free_payload rd (c + 1) (Some s1) = Some (c + 1 + of_nat k, Some s')" "inv s'" "disk s' = disk s"
    using Suc.IH [of s1 "c + 1"] s1 Suc.prems(2) by auto
  with s1(1,4) show ?case by (subst free_payload.simps) (auto simp: add.assoc)
qed

lemma free_payload_ok:
  assumes "inv s" "fs_ok cap (disk s) es" "0 \<le> sint c" "sint c + int (length es) < 2147483648"
  obtains k s' where "k \<le> length es" "free_payload rd c (Some s) = Some (c + of_nat k, Some s')" "inv s'" "disk s' = disk s"
    "\<forall>e \<in> set es. \<not> name_matches (payload_name (c + of_nat k)) e"
    "\<forall>j < k. \<exists>e \<in> set es. name_matches (payload_name (c + of_nat j)) e"
proof -
  let ?P = "\<lambda>k. \<forall>e \<in> set es. \<not> name_matches (payload_name (c + of_nat k)) e"
  obtain n where n: "n \<le> length es" "?P n" using free_payload_exists [OF assms(3,4)] by blast
  let ?k = "LEAST k. ?P k"
  have k: "?P ?k" using n(2) by (rule LeastI)
  have le: "?k \<le> length es" using Least_le [of ?P n] n by simp
  have least: "\<forall>j < ?k. \<exists>e \<in> set es. name_matches (payload_name (c + of_nat j)) e" using not_less_Least [of _ ?P] by blast
  from free_payload_steps [OF assms(1,2) least k] that [OF le] k least show ?thesis by blast
qed

lemma store_payload_ok:
  assumes s: "inv s" "fs_ok cap (disk s) es" and c: "0 \<le> sint c" "sint c + int (length es) < 2147483648"
    and json: "json = 123 # rest" and fits: "length (render_mft es) + 65 \<le> 4096" "end_from 1 es + blocks_for json \<le> cap"
  obtains k s1 where "k \<le> length es" "store_payload rd wr json c (Some s) = Some (Ok (), c + of_nat k, Some s1)" "inv s1"
    "fs_ok cap (disk s1) (es @ [new_entry es (payload_name (c + of_nat k)) json])"
    "\<forall>j < k. \<exists>e \<in> set es. name_matches (payload_name (c + of_nat j)) e"
    "\<forall>e \<in> set es. \<not> name_matches (payload_name (c + of_nat k)) e"
    "file_data (disk s1) (new_entry es (payload_name (c + of_nat k)) json) = pad_file json"
    "\<forall>ctx. ctx_wf ctx \<longrightarrow> (\<exists>s2. read_file rd (payload_name (c + of_nat k)) ctx (Some s1) =
       Some (Err ''Not a valid MDO file. Zero-Trust Access Denied.'', Some s2))"
proof -
  obtain k s0 where k: "k \<le> length es" "free_payload rd c (Some s) = Some (c + of_nat k, Some s0)" "inv s0" "disk s0 = disk s"
    "\<forall>e \<in> set es. \<not> name_matches (payload_name (c + of_nat k)) e"
    "\<forall>j < k. \<exists>e \<in> set es. name_matches (payload_name (c + of_nat j)) e"
    by (rule free_payload_ok [OF s c]) (rule that)
  let ?name = "payload_name (c + of_nat k)"
  let ?es = "es @ [new_entry es ?name json]"
  have "sint (c + of_nat k) = sint c + int k" using c k(1) by (intro sint_add_nat) linarith+
  then have table: "table_ok ?es" using s(2) fits(1) c(1) by (intro payload_table) (simp_all add: fs_ok_def)
  have fresh: "\<forall>e \<in> set es. fname e \<noteq> ?name" using k(5) by (auto simp: name_matches_def)
  have fs: "fs_ok cap (disk s0) es" using s(2) k(4) by simp
  obtain s1 where s1: "save_file rd wr ?name json (Some s0) = Some (Ok (), Some s1)" "inv s1" "fs_ok cap (disk s1) ?es"
    "file_data (disk s1) (new_entry es ?name json) = pad_file json"
    using save_file_ok [OF k(3) fs fresh _ table fits(2)] json by blast
  have first_block: "disk s1 (unat (start_lba (new_entry es ?name json))) = take 4096 (pad_file json)"
    using first_block_of_file(3) [OF s1(2) _ s1(3), of "new_entry es ?name json"] s1(4) sector [OF s1(2)] by simp
  have "read_result (disk s1) ?es ?name ctx = Err ''Not a valid MDO file. Zero-Trust Access Denied.''" for ctx
    unfolding read_result_def find_fresh [OF k(5)] by (simp add: entry_result_def first_block json_denied [OF json])
  then have "\<forall>ctx. ctx_wf ctx \<longrightarrow> (\<exists>s2. read_file rd ?name ctx (Some s1) =
       Some (Err ''Not a valid MDO file. Zero-Trust Access Denied.'', Some s2))"
    using read_file_ok [OF s1(2,3), of _ ?name] by metis
  moreover have "store_payload rd wr json c (Some s) = Some (Ok (), c + of_nat k, Some s1)"
    using k(2) s1(1) by (simp add: store_payload_def)
  ultimately show ?thesis using that [of k s1] k(1,5,6) s1(2-4) by simp
qed

end

subsection \<open>Payloads are stored and locked away\<close>

text \<open>A payload sent over the serial port is stored under the first free name, and nobody can ever read it: on a conforming
  drive with a well-formed file system and room, after any noise, the bytes from an opening brace to a back tick that mention a
  payload and no command end in a new file \<open>payload_k.mdo\<close>, where every smaller number from the counter on is taken, with
  the text as its data and all other files listed as before; the search for the name ends; and every read of the file is
  refused, whoever asks, because the text has no policy header.\<close>

theorem payload_frame_is_stored:
  assumes "nvme_conforms D V base caph buf 4096 cap" "p_read p = read_block D" "p_write p = write_block D"
    "nvme_drive w = Some s" "nvme_sync V base buf 4096 s" "fs_ok cap (d_disk (V (nvme.hw s))) es"
    "\<not> receiving_json l" "0 \<le> sint (payload_count l)" "sint (payload_count l) + int (length es) < 2147483648"
    "123 \<notin> set noise" "96 \<notin> set body" "\<not> str_contains (quoted ''command'') (decoded (123 # body))"
    "str_contains (quoted ''payload'') (decoded (123 # body))"
    "length (render_mft es) + 65 \<le> 4096" "end_from 1 es + blocks_for (decoded (123 # body)) \<le> cap"
  shows "\<exists>c k s1. c = payload_count l + of_nat k \<and> k \<le> length es \<and>
    for_each (noise @ 123 # body @ [96]) (link_byte p font gd vb hv) (l, desk, w) =
      map_option (\<lambda>desk. (\<lparr>json_buffer = [], receiving_json = False, payload_count = c\<rparr>, desk,
          serial_print (payload_text (Ok ()) c) (w\<lparr>nvme_drive := Some s1\<rparr>)))
        (screen_print font gd vb hv [payload_text (Ok ()) c, [10]] desk) \<and>
    nvme_sync V base buf 4096 s1 \<and>
    fs_ok cap (d_disk (V (nvme.hw s1))) (es @ [new_entry es (payload_name c) (decoded (123 # body))]) \<and>
    file_data (d_disk (V (nvme.hw s1))) (new_entry es (payload_name c) (decoded (123 # body))) = pad_file (decoded (123 # body)) \<and>
    (\<forall>e \<in> set es. \<not> name_matches (payload_name c) e) \<and>
    (\<forall>j < k. \<exists>e \<in> set es. name_matches (payload_name (payload_count l + of_nat j)) e) \<and>
    (\<forall>ctx. ctx_wf ctx \<longrightarrow> (\<exists>s2. read_file (p_read p) (payload_name c) ctx (Some s1) =
      Some (Err ''Not a valid MDO file. Zero-Trust Access Denied.'', Some s2)))"
proof -
  note bd = nvme_block_device [OF assms(1)]
  have json: "decoded (123 # body) = 123 # decoded body" by (simp add: decoded_def char_of_byte_def)
  obtain k s1 where k: "k \<le> length es"
    "store_payload (read_block D) (write_block D) (decoded (123 # body)) (payload_count l) (Some s) =
      Some (Ok (), payload_count l + of_nat k, Some s1)" "nvme_sync V base buf 4096 s1"
    "fs_ok cap (d_disk (V (nvme.hw s1))) (es @ [new_entry es (payload_name (payload_count l + of_nat k)) (decoded (123 # body))])"
    "\<forall>j < k. \<exists>e \<in> set es. name_matches (payload_name (payload_count l + of_nat j)) e"
    "\<forall>e \<in> set es. \<not> name_matches (payload_name (payload_count l + of_nat k)) e"
    "file_data (d_disk (V (nvme.hw s1))) (new_entry es (payload_name (payload_count l + of_nat k)) (decoded (123 # body))) =
      pad_file (decoded (123 # body))"
    "\<forall>ctx. ctx_wf ctx \<longrightarrow> (\<exists>s2. read_file (read_block D) (payload_name (payload_count l + of_nat k)) ctx (Some s1) =
       Some (Err ''Not a valid MDO file. Zero-Trust Access Denied.'', Some s2))"
    by (rule block_device.store_payload_ok [OF bd assms(5,6,8,9) json assms(14,15)]) (rule that)
  let ?c = "payload_count l + of_nat k"
  have "handle_json p font gd vb hv (decoded (123 # body)) (payload_count l, desk, w) =
      map_option (\<lambda>desk. (?c, desk, serial_print (payload_text (Ok ()) ?c) (w\<lparr>nvme_drive := Some s1\<rparr>)))
        (screen_print font gd vb hv [payload_text (Ok ()) ?c, [10]] desk)"
    using assms(2-4,12,13) k(2)
    by (cases "screen_print font gd vb hv [payload_text (Ok ()) ?c, [10]] desk") (simp_all add: handle_json_def)
  with link_frame [OF assms(7,10,11), of p font gd vb hv desk w]
  have "for_each (noise @ 123 # body @ [96]) (link_byte p font gd vb hv) (l, desk, w) =
      map_option (\<lambda>desk. (\<lparr>json_buffer = [], receiving_json = False, payload_count = ?c\<rparr>, desk,
          serial_print (payload_text (Ok ()) ?c) (w\<lparr>nvme_drive := Some s1\<rparr>)))
        (screen_print font gd vb hv [payload_text (Ok ()) ?c, [10]] desk)"
    by (simp add: option.map_comp o_def)
  with k(1,3-8) show ?thesis unfolding assms(2) by (intro exI [of _ ?c] exI [of _ k] exI [of _ s1]) simp
qed

end
