(* ===== verification/Kernel_Loop.thy ===== *)
theory Kernel_Loop
  imports Interrupts Executor Neural_Link "HOL-Library.Multiset"
begin

text \<open>
  The running kernel: the four tasks that \<open>kernel_main\<close> of \<^verbatim>\<open>kernel/src/main.rs\<close> spawns, polled by the executor, fed by the
  interrupt handlers through the rings of the streams. This theory puts the components together: \<open>kernel_poll\<close> is what the
  executor polls, and the interrupts that arrive during a poll are a parameter, the schedule. What is shown is that no task is
  ever lost: each one is at any time in exactly one place, the ready queue or the waker of its stream.
\<close>

subsection \<open>The machine\<close>

text \<open>What happens outside of the processor: a device changes, or an interrupt is raised.\<close>

datatype 'p hw_event = Device "'p \<Rightarrow> 'p" | Raise u8

fun deliver :: "'p Ports \<Rightarrow> ('c, 'w) AtomicWaker \<Rightarrow> 'p hw_event \<Rightarrow> ('p, 'c, 'w) irq_state \<Rightarrow> ('p, 'c, 'w) irq_state option" where
  "deliver P aw (Device f) i = Some (i\<lparr>ports := f (ports i)\<rparr>)"
| "deliver P aw (Raise v) i = (case IDT v of None \<Rightarrow> None | Some h \<Rightarrow> run_handler P aw h i)"

text \<open>The parameters of all components, and the state they share. The schedule has the events up to the next poll of a stream,
  then those up to the one after it, and so on.\<close>

record ('p, 'c, 'd, 's, 'h, 'k) machine =
  m_ports :: "'p Ports"
  m_waker :: "('c, TaskId) AtomicWaker"
  m_platform :: "('s, 'h) platform"
  m_font :: font
  m_gpu :: "'d GpuDevice"
  m_backing :: nat
  m_virtio :: bool
  m_decode :: "'k \<Rightarrow> u8 \<Rightarrow> 'k \<times> bytes option"

record ('p, 'c, 'd, 's, 'h) kernel =
  irqs :: "('p, 'c, TaskId) irq_state"
  kdesk :: "'d desk"
  kworld :: "('s, 'h) world"
  schedule :: "'p hw_event list list"

definition hardware :: "('p, 'c, 'd, 's, 'h, 'k) machine \<Rightarrow> ('p, 'c, 'd, 's, 'h) kernel \<Rightarrow> ('p, 'c, 'd, 's, 'h) kernel option" where
  "hardware m k = do {
     i \<leftarrow> for_each (case schedule k of [] \<Rightarrow> [] | evs # _ \<Rightarrow> evs) (deliver (m_ports m) (m_waker m)) (irqs k);
     Some (k\<lparr>irqs := i, schedule := tl (schedule k)\<rparr>) }"

subsection \<open>The tasks\<close>

text \<open>The loop \<open>while let Some(byte) = stream.next().await\<close>: one turn of it, with the ring of the stream and its body as
  arguments, and the run of it until the stream is pending.\<close>

definition stream_turn :: "('p, 'c, 'd, 's, 'h, 'k) machine \<Rightarrow> (('p, 'c, TaskId) irq_state \<Rightarrow> 'c ring) \<Rightarrow>
    (('c ring \<Rightarrow> 'c ring) \<Rightarrow> ('p, 'c, TaskId) irq_state \<Rightarrow> ('p, 'c, TaskId) irq_state) \<Rightarrow>
    (('c, TaskId) AtomicWaker \<Rightarrow> TaskId \<Rightarrow> 'c ring \<Rightarrow> ('c ring \<times> poll) option) \<Rightarrow>
    (u8 \<Rightarrow> 't \<times> ('p, 'c, 'd, 's, 'h) kernel \<Rightarrow> ('t \<times> ('p, 'c, 'd, 's, 'h) kernel) option) \<Rightarrow> TaskId \<Rightarrow>
    't \<times> ('p, 'c, 'd, 's, 'h) kernel \<Rightarrow> (bool \<times> 't \<times> ('p, 'c, 'd, 's, 'h) kernel) option" where
  "stream_turn m ring ring_update poll_next body waker = (\<lambda>(t, k). do {
     k \<leftarrow> hardware m k;
     (r, x) \<leftarrow> poll_next (m_waker m) waker (ring (irqs k));
     let k = k\<lparr>irqs := ring_update (\<lambda>_. r) (irqs k)\<rparr>;
     (case x of
        Pending \<Rightarrow> Some (False, t, k)
      | Ready byte \<Rightarrow> do { (t, k) \<leftarrow> body byte (t, k); Some (True, t, k) }) })"

partial_function (option) stream_loop :: "('s \<Rightarrow> (bool \<times> 's) option) \<Rightarrow> 's \<Rightarrow> 's option" where
  "stream_loop turn s = do { (again, s) \<leftarrow> turn s; if again then stream_loop turn s else Some s }"

definition genesis_body :: "('p, 'c, 'd, 's, 'h, 'k) machine \<Rightarrow> u8 \<Rightarrow> link \<times> ('p, 'c, 'd, 's, 'h) kernel \<Rightarrow>
    (link \<times> ('p, 'c, 'd, 's, 'h) kernel) option" where
  "genesis_body m byte = (\<lambda>(l, k). do {
     (l, desk, w) \<leftarrow> link_byte (m_platform m) (m_font m) (m_gpu m) (m_backing m) (m_virtio m) byte (l, kdesk k, kworld k);
     Some (l, k\<lparr>kdesk := desk, kworld := w\<rparr>) })"

definition keypress_body :: "('p, 'c, 'd, 's, 'h, 'k) machine \<Rightarrow> u8 \<Rightarrow> 'k \<times> ('p, 'c, 'd, 's, 'h) kernel \<Rightarrow>
    ('k \<times> ('p, 'c, 'd, 's, 'h) kernel) option" where
  "keypress_body m scancode = (\<lambda>(kb, k). do {
     (kb, desk, w) \<leftarrow> key_scancode (m_platform m) (m_font m) (m_gpu m) (m_backing m) (m_virtio m) (m_decode m) scancode
       (kb, kdesk k, kworld k);
     Some (kb, k\<lparr>kdesk := desk, kworld := w\<rparr>) })"

definition compositor_body :: "('p, 'c, 'd, 's, 'h, 'k) machine \<Rightarrow> u8 \<Rightarrow> MouseTask \<times> ('p, 'c, 'd, 's, 'h) kernel \<Rightarrow>
    (MouseTask \<times> ('p, 'c, 'd, 's, 'h) kernel) option" where
  "compositor_body m byte = (\<lambda>(mt, k). do {
     (mt, desk) \<leftarrow> mouse_byte (m_font m) (m_gpu m) (m_backing m) (m_virtio m) byte (mouse_has_data (mouse_ring (irqs k))) mt (kdesk k);
     Some (mt, k\<lparr>kdesk := desk\<rparr>) })"

definition physics_body :: "('p, 'c, 'd, 's, 'h, 'k) machine \<Rightarrow> ('p, 'c, 'd, 's, 'h) kernel \<Rightarrow> ('p, 'c, 'd, 's, 'h) kernel option" where
  "physics_body m k = do {
     k \<leftarrow> hardware m k;
     desk \<leftarrow> physics_round (m_font m) (m_gpu m) (m_backing m) (m_virtio m) (kdesk k);
     Some (k\<lparr>kdesk := desk\<rparr>) }"

text \<open>A future has the local variables of its function.\<close>

datatype 'k kernel_task = Genesis_init link | Print_keypresses 'k | Desktop_compositor MouseTask | Physics_tick "YieldNow option"

definition genesis_init :: link where
  "genesis_init = \<lparr>json_buffer = [], receiving_json = False, payload_count = 0\<rparr>"

text \<open>A poll of a stream task: the loop, and the events before the executor has the result. \<open>None\<close> is a kernel that has halted.\<close>

definition stream_poll :: "('p, 'c, 'd, 's, 'h, 'k) machine \<Rightarrow> ('t \<Rightarrow> 'k kernel_task) \<Rightarrow>
    ('t \<times> ('p, 'c, 'd, 's, 'h) kernel \<Rightarrow> (bool \<times> 't \<times> ('p, 'c, 'd, 's, 'h) kernel) option) \<Rightarrow> 't \<Rightarrow> ('p, 'c, 'd, 's, 'h) kernel \<Rightarrow>
    pollr \<times> 'k kernel_task \<times> TaskId list \<times> ('p, 'c, 'd, 's, 'h) kernel option" where
  "stream_poll m fut turn t k = (case (do { (t, k) \<leftarrow> stream_loop turn (t, k); k \<leftarrow> hardware m k; Some (t, k) }) of
       None \<Rightarrow> (Blocked, fut t, [], None)
     | Some (t, k) \<Rightarrow> (Blocked, fut t, wakers (irqs k), Some k))"

definition serial_turn :: "('p, 'c, 'd, 's, 'h, 'k) machine \<Rightarrow> TaskId \<Rightarrow> link \<times> ('p, 'c, 'd, 's, 'h) kernel \<Rightarrow>
    (bool \<times> link \<times> ('p, 'c, 'd, 's, 'h) kernel) option" where
  "serial_turn m = stream_turn m serial_ring serial_ring_update serial_poll_next (genesis_body m)"

definition keyboard_turn :: "('p, 'c, 'd, 's, 'h, 'k) machine \<Rightarrow> TaskId \<Rightarrow> 'k \<times> ('p, 'c, 'd, 's, 'h) kernel \<Rightarrow>
    (bool \<times> 'k \<times> ('p, 'c, 'd, 's, 'h) kernel) option" where
  "keyboard_turn m = stream_turn m keyboard_ring keyboard_ring_update scancode_poll_next (keypress_body m)"

definition mouse_turn :: "('p, 'c, 'd, 's, 'h, 'k) machine \<Rightarrow> TaskId \<Rightarrow> MouseTask \<times> ('p, 'c, 'd, 's, 'h) kernel \<Rightarrow>
    (bool \<times> MouseTask \<times> ('p, 'c, 'd, 's, 'h) kernel) option" where
  "mouse_turn m = stream_turn m mouse_ring mouse_ring_update mouse_poll_next (compositor_body m)"

definition kernel_poll :: "('p, 'c, 'd, 's, 'h, 'k) machine \<Rightarrow> ('k kernel_task, ('p, 'c, 'd, 's, 'h) kernel option) poll_fun" where
  "kernel_poll m fut waker env = (case env of
       None \<Rightarrow> (Blocked, fut, [], None)
     | Some k \<Rightarrow>
         let k = k\<lparr>irqs := (irqs k)\<lparr>wakers := []\<rparr>\<rparr> in
         (case fut of
            Genesis_init l \<Rightarrow> stream_poll m Genesis_init (serial_turn m waker) l k
          | Print_keypresses kb \<Rightarrow> stream_poll m Print_keypresses (keyboard_turn m waker) kb k
          | Desktop_compositor mt \<Rightarrow> stream_poll m Desktop_compositor (mouse_turn m waker) mt k
          | Physics_tick y \<Rightarrow>
              let (r, y, woken, env) = physics_poll (\<lambda>env. Option.bind env (physics_body m)) y waker (Some k)
              in (r, Physics_tick y, (case env of None \<Rightarrow> [] | Some k \<Rightarrow> wakers (irqs k)) @ woken, env)))"

subsection \<open>The event loop\<close>

text \<open>The tasks, in the order in which \<open>kernel_main\<close> spawns them.\<close>

definition kernel_tasks :: "'k \<Rightarrow> 'k kernel_task list" where
  "kernel_tasks keyboard = [Genesis_init genesis_init, Print_keypresses keyboard, Desktop_compositor MouseTask_init, Physics_tick None]"

definition spawn_tasks :: "'q ArrayQueue \<Rightarrow> 'k \<Rightarrow> ('k kernel_task, 'q) MictExecutor option" where
  "spawn_tasks Q keyboard = spawn_all Q (kernel_tasks keyboard) 0 (MictExecutor_new Q)"

text \<open>\<open>n\<close> rounds of the loop of \<open>run_ready_tasks\<close>.\<close>

fun kernel_rounds :: "'q ArrayQueue \<Rightarrow> ('f, 'env) poll_fun \<Rightarrow> nat \<Rightarrow> ('f, 'q) MictExecutor \<times> 'env \<Rightarrow>
    (('f, 'q) MictExecutor \<times> 'env) option" where
  "kernel_rounds Q F 0 s = Some s"
| "kernel_rounds Q F (Suc n) (ex, env) = (case aq_pop Q (ready_queue ex) of
       None \<Rightarrow> Some (ex, env)
     | Some (task_id, q) \<Rightarrow> do { s \<leftarrow> run_task Q F task_id (ex\<lparr>ready_queue := q\<rparr>) env; kernel_rounds Q F n s })"

lemma kernel_rounds_run:
  "kernel_rounds Q F n (ex, env) = Some (ex', env') \<Longrightarrow> run_ready_tasks Q F ex env = run_ready_tasks Q F ex' env'"
proof (induction n arbitrary: ex env)
  case (Suc n)
  show ?case
  proof (cases "aq_pop Q (ready_queue ex)")
    case (Some tq)
    obtain t q where tq: "tq = (t, q)" by fastforce
    with Some Suc.prems obtain e v where "run_task Q F t (ex\<lparr>ready_queue := q\<rparr>) env = Some (e, v)"
      "kernel_rounds Q F n (e, v) = Some (ex', env')" by (auto split: bind_splits)
    with Suc.IH [of e v] Some tq show ?thesis by (subst run_ready_tasks.simps) simp
  qed (use Suc.prems in simp)
qed simp

subsection \<open>Every task is in one place\<close>

text \<open>\<open>M\<close> has the ids in the ready queue, the ids woken since and the task that runs. The task of a stream is either one of
  them, and then the stream holds no waker, or it sleeps: the stream holds its waker and has no byte for it.\<close>

definition placed :: "('c \<Rightarrow> TaskId option) \<Rightarrow> nat \<Rightarrow> TaskId \<Rightarrow> TaskId multiset \<Rightarrow> 'c ring \<Rightarrow> bool" where
  "placed held n i M r \<longleftrightarrow> ring_inv n r \<and> (case held (WAKER r) of
     None \<Rightarrow> count M i = 1 | Some w \<Rightarrow> w = i \<and> count M i = 0 \<and> content n r = [])"

definition tasks_placed :: "('c \<Rightarrow> TaskId option) \<Rightarrow> TaskId multiset \<Rightarrow> ('p, 'c, TaskId) irq_state \<Rightarrow> bool" where
  "tasks_placed held M i \<longleftrightarrow> placed held 65536 0 M (serial_ring i) \<and> placed held 256 1 M (keyboard_ring i) \<and>
     placed held 65536 2 M (mouse_ring i) \<and> count M 3 = 1 \<and> set_mset M \<subseteq> {0, 1, 2, 3}"

text \<open>The vectors that the hardware of the kernel raises.\<close>

fun event_ok :: "'p hw_event \<Rightarrow> bool" where
  "event_ok (Device f) = True"
| "event_ok (Raise v) = (v \<in> {3, 32, 33, 36, 39, 44})"

lemma placed_other: "i \<notin> set ws \<Longrightarrow> placed held n i (M + mset ws) r = placed held n i M r"
  by (simp add: placed_def count_eq_zero_iff [THEN iffD2] split: option.split)

lemma set_wake_list: "set (wake_list w) = set_option w"
  by (cases w) (simp_all add: wake_list_def)

lemma ring_add_placed:
  assumes "atomic_waker aw held" "placed held n i M r" "1 < n"
  shows "\<exists>r' w stored. ring_add aw n b r = Some (r', w, stored) \<and> placed held n i (M + mset (wake_list w)) r' \<and> set (wake_list w) \<subseteq> {i}"
proof -
  have inv: "ring_inv n r" using assms(2) by (simp add: placed_def)
  show ?thesis
  proof (cases "ring_len n r < n - 1")
    case True
    then obtain r' where r': "ring_add aw n b r = Some (r', snd (aw_wake aw (WAKER r)), True)" "ring_inv n r'"
      "WAKER r' = fst (aw_wake aw (WAKER r))" using ring_add_spec [OF inv, of aw b] by auto
    moreover have "snd (aw_wake aw (WAKER r)) = held (WAKER r)" "held (WAKER r') = None"
      using assms(1) r'(3) by (simp_all add: atomic_waker_def)
    ultimately show ?thesis using assms(2)
      by (intro exI [of _ r'] exI [of _ "held (WAKER r)"] exI [of _ True])
        (auto simp: placed_def set_wake_list wake_list_def split: option.splits)
  qed (use ring_add_spec [OF inv, of aw b] assms in \<open>auto simp: wake_list_def\<close>)
qed

text \<open>What a handler leaves: the ring of its device filled, the wakers it woke added.\<close>

lemma drain_fifo_placed:
  assumes "uart_conforms P rx" "atomic_waker aw held" "placed held 65536 i (M + mset (wakers s)) (serial_ring s)"
  shows "\<exists>p r ws. drain_fifo P aw s = Some (s\<lparr>ports := p, serial_ring := r, wakers := wakers s @ ws\<rparr>) \<and>
    placed held 65536 i (M + mset (wakers s @ ws)) r \<and> set ws \<subseteq> {i}"
  using assms(3)
proof (induction "rx (ports s)" arbitrary: s)
  case Nil
  obtain lsr p where p: "port_read P 0x3FD (ports s) = (lsr, p)" by fastforce
  then have "lsr AND 1 = 0" using assms(1) Nil(1) by (auto simp: uart_conforms_def dest: spec [of _ "ports s"])
  with p Nil show ?case
    by (subst drain_fifo.simps) (auto intro!: exI [of _ p] exI [of _ "serial_ring s"] exI [of _ "[]"])
next
  case (Cons b bs)
  obtain lsr p where p: "port_read P 0x3FD (ports s) = (lsr, p)" by fastforce
  have lsr: "lsr AND 1 \<noteq> 0" "rx p = b # bs"
    using assms(1) Cons.hyps(2) p unfolding uart_conforms_def by (metis fst_conv list.distinct(1), metis snd_conv)
  obtain b' p' where p': "port_read P 0x3F8 p = (b', p')" by fastforce
  have bs: "rx p' = bs" using assms(1) lsr(2) p' unfolding uart_conforms_def by (metis snd_conv list.sel(3) list.distinct(1))
  obtain r w stored where r: "ring_add aw 65536 b' (serial_ring s) = Some (r, w, stored)"
    "placed held 65536 i (M + mset (wakers s) + mset (wake_list w)) r" "set (wake_list w) \<subseteq> {i}"
    using ring_add_placed [OF assms(2) Cons.prems] by fastforce
  let ?s = "s\<lparr>ports := p', serial_ring := r, wakers := wakers s @ wake_list w\<rparr>"
  have "placed held 65536 i (M + mset (wakers ?s)) (serial_ring ?s)" using r(2) by (simp add: union_assoc)
  with Cons.hyps(1) [of ?s] bs obtain p2 r2 ws where d: "drain_fifo P aw ?s = Some (?s\<lparr>ports := p2, serial_ring := r2, wakers := wakers ?s @ ws\<rparr>)"
    "placed held 65536 i (M + mset (wakers ?s @ ws)) r2" "set ws \<subseteq> {i}" by auto
  have "drain_fifo P aw s = drain_fifo P aw ?s"
    using p p' lsr(1) r(1) by (subst drain_fifo.simps) (simp add: serial_add_byte_def SERIAL_BUF_SIZE_def)
  with d r(3) show ?case by (intro exI [of _ p2] exI [of _ r2] exI [of _ "wake_list w @ ws"]) simp
qed

lemma tasks_placed_wake:
  assumes "tasks_placed held M s" "set ws \<subseteq> {i}" "ports s' = p"
    "i = 0 \<and> keyboard_ring s' = keyboard_ring s \<and> mouse_ring s' = mouse_ring s \<and> placed held 65536 0 (M + mset ws) (serial_ring s') \<or>
     i = 1 \<and> serial_ring s' = serial_ring s \<and> mouse_ring s' = mouse_ring s \<and> placed held 256 1 (M + mset ws) (keyboard_ring s') \<or>
     i = 2 \<and> serial_ring s' = serial_ring s \<and> keyboard_ring s' = keyboard_ring s \<and> placed held 65536 2 (M + mset ws) (mouse_ring s')"
  shows "tasks_placed held (M + mset ws) s'"
proof -
  have "j \<notin> set ws" if "j \<noteq> i" for j using assms(2) that by blast
  then have "placed held n j (M + mset ws) r = placed held n j M r" "count (mset ws) j = 0" if "j \<noteq> i" for n j and r :: "'a ring"
    using that by (simp_all add: placed_other count_mset_0_iff)
  then show ?thesis using assms unfolding tasks_placed_def by auto
qed

lemma deliver_ok:
  assumes "uart_conforms P rx" "atomic_waker aw held" "event_ok e" "tasks_placed held (M + mset (wakers s)) s"
  shows "\<exists>s'. deliver P aw e s = Some s' \<and> tasks_placed held (M + mset (wakers s')) s'"
proof (cases e)
  case (Device f)
  then show ?thesis using assms(4) by (simp add: tasks_placed_def)
next
  case (Raise v)
  note rings = assms(4) [unfolded tasks_placed_def]
  consider "v = 3 \<or> v = 39" | "v = 32" | "v = 33" | "v = 36" | "v = 44" using assms(3) Raise by auto
  then show ?thesis
  proof cases
    case 1
    then show ?thesis using assms(4) Raise by (auto simp: IDT_def PIC_1_OFFSET_def)
  next
    case 2
    then show ?thesis using rings Raise by (simp add: IDT_def PIC_1_OFFSET_def timer_interrupt_handler_def tasks_placed_def)
  next
    case 3
    obtain b p where p: "port_read P 0x60 (ports s) = (b, p)" by fastforce
    obtain r w stored where r: "ring_add aw 256 b (keyboard_ring s) = Some (r, w, stored)"
      "placed held 256 1 (M + mset (wakers s) + mset (wake_list w)) r" "set (wake_list w) \<subseteq> {1}"
      using ring_add_placed [OF assms(2), of 256 1 "M + mset (wakers s)" "keyboard_ring s" b] rings by auto
    let ?s = "s\<lparr>ports := notify_end_of_interrupt P 33 p, keyboard_ring := r, wakers := wakers s @ wake_list w\<rparr>"
    have "tasks_placed held (M + mset (wakers s) + mset (wake_list w)) ?s"
      by (rule tasks_placed_wake [OF assms(4) r(3) refl]) (use r(2) in simp)
    with 3 Raise p r(1) show ?thesis
      by (simp add: IDT_def PIC_1_OFFSET_def keyboard_interrupt_handler_def add_scancode_def KEYBOARD_BUF_SIZE_def union_assoc)
  next
    case 4
    obtain p r ws where d: "drain_fifo P aw s = Some (s\<lparr>ports := p, serial_ring := r, wakers := wakers s @ ws\<rparr>)"
      "placed held 65536 0 (M + mset (wakers s @ ws)) r" "set ws \<subseteq> {0}"
      using drain_fifo_placed [OF assms(1,2), of 0 M s] rings by auto
    let ?s = "s\<lparr>serial_ring := r, wakers := wakers s @ ws, ports := notify_end_of_interrupt P 36 p\<rparr>"
    have "tasks_placed held (M + mset (wakers s) + mset ws) ?s"
      by (rule tasks_placed_wake [OF assms(4) d(3) refl]) (use d(2) in \<open>simp add: union_assoc\<close>)
    with 4 Raise d(1) show ?thesis by (simp add: IDT_def PIC_1_OFFSET_def serial1_interrupt_handler_def union_assoc)
  next
    case 5
    obtain b p where p: "port_read P 0x60 (ports s) = (b, p)" by fastforce
    obtain r w stored where r: "ring_add aw 65536 b (mouse_ring s) = Some (r, w, stored)"
      "placed held 65536 2 (M + mset (wakers s) + mset (wake_list w)) r" "set (wake_list w) \<subseteq> {2}"
      using ring_add_placed [OF assms(2), of 65536 2 "M + mset (wakers s)" "mouse_ring s" b] rings by auto
    let ?s = "s\<lparr>ports := notify_end_of_interrupt P 44 p, mouse_ring := r, wakers := wakers s @ wake_list w\<rparr>"
    have "tasks_placed held (M + mset (wakers s) + mset (wake_list w)) ?s"
      by (rule tasks_placed_wake [OF assms(4) r(3) refl]) (use r(2) in simp)
    with 5 Raise p r(1) show ?thesis
      by (simp add: IDT_def PIC_1_OFFSET_def mouse_interrupt_handler_def mouse_add_byte_def MOUSE_BUF_SIZE_def union_assoc)
  qed
qed

lemma deliver_all_ok:
  assumes "uart_conforms P rx" "atomic_waker aw held" "\<forall>e \<in> set es. event_ok e" "tasks_placed held (M + mset (wakers s)) s"
  shows "\<exists>s'. for_each es (deliver P aw) s = Some s' \<and> tasks_placed held (M + mset (wakers s')) s'"
  using assms(3,4)
proof (induction es arbitrary: s)
  case (Cons e es)
  then show ?case using deliver_ok [OF assms(1,2), of e M s] by fastforce
qed simp

lemma tasks_placed_size:
  assumes "tasks_placed held M s"
  shows "size M \<le> 4"
proof -
  have "count M j \<le> 1" if "j \<in> set_mset M" for j
    using that assms by (auto simp: tasks_placed_def placed_def split: option.splits)
  then have "sum (count M) (set_mset M) \<le> sum (\<lambda>_. 1) (set_mset M)" by (intro sum_mono) blast
  also have "\<dots> \<le> card {0, 1, 2, 3 :: TaskId}"
    using assms by (simp only: sum_constant mult_1_right of_nat_id) (intro card_mono, auto simp: tasks_placed_def)
  finally show ?thesis by (simp add: size_multiset_overloaded_eq)
qed

lemma tasks_placed_distinct:
  assumes "tasks_placed held (mset xs) s"
  shows "distinct xs"
proof -
  have "count (mset xs) j \<le> 1" if "j \<in> set xs" for j
    using that assms by (auto simp: tasks_placed_def placed_def split: option.splits)
  moreover have "count (mset xs) j > 0" if "j \<in> set xs" for j using that by simp
  ultimately show ?thesis unfolding distinct_count_atmost_1
    by (metis One_nat_def count_eq_zero_iff le_antisym less_one linorder_not_less set_mset_mset)
qed

text \<open>A task that is not in the queue has nothing to do.\<close>

lemma placed_idle: "placed held n i M r \<Longrightarrow> i \<notin># M \<Longrightarrow> content n r = []"
  by (auto simp: placed_def not_in_iff split: option.splits)

subsection \<open>A task that reads a stream\<close>

definition schedule_ok :: "('p, 'c, 'd, 's, 'h) kernel \<Rightarrow> bool" where
  "schedule_ok k \<longleftrightarrow> (\<forall>es \<in> set (schedule k). \<forall>e \<in> set es. event_ok e)"

lemma hardware_ok:
  assumes "uart_conforms (m_ports m) rx" "atomic_waker (m_waker m) held" "schedule_ok k" "tasks_placed held (M + mset (wakers (irqs k))) (irqs k)"
  shows "\<exists>s. hardware m k = Some (k\<lparr>irqs := s, schedule := tl (schedule k)\<rparr>) \<and> tasks_placed held (M + mset (wakers s)) s \<and>
    schedule_ok (k\<lparr>irqs := s, schedule := tl (schedule k)\<rparr>) \<and> (schedule k = [] \<longrightarrow> s = irqs k)"
proof -
  let ?es = "case schedule k of [] \<Rightarrow> [] | evs # _ \<Rightarrow> evs"
  have "\<forall>e \<in> set ?es. event_ok e" using assms(3) by (cases "schedule k") (auto simp: schedule_ok_def)
  from deliver_all_ok [OF assms(1,2) this assms(4)] obtain s where
    "for_each ?es (deliver (m_ports m) (m_waker m)) (irqs k) = Some s" "tasks_placed held (M + mset (wakers s)) s" by blast
  moreover have "schedule_ok (k\<lparr>irqs := s, schedule := tl (schedule k)\<rparr>)"
    using assms(3) by (cases "schedule k") (auto simp: schedule_ok_def)
  ultimately show ?thesis by (auto simp: hardware_def split: list.splits)
qed

text \<open>What the three stream tasks share: the ring of the task is a part of the state of the interrupts, and the body of its loop
  returns, keeps an invariant of the task and leaves the rings alone.\<close>

locale stream_task =
  fixes m :: "('p, 'c, 'd, 's, 'h, 'k) machine" and held :: "'c \<Rightarrow> TaskId option" and rx :: "'p \<Rightarrow> bytes"
    and ring :: "('p, 'c, TaskId) irq_state \<Rightarrow> 'c ring"
    and ring_update :: "('c ring \<Rightarrow> 'c ring) \<Rightarrow> ('p, 'c, TaskId) irq_state \<Rightarrow> ('p, 'c, TaskId) irq_state"
    and poll_next :: "('c, TaskId) AtomicWaker \<Rightarrow> TaskId \<Rightarrow> 'c ring \<Rightarrow> ('c ring \<times> poll) option"
    and body :: "u8 \<Rightarrow> 't \<times> ('p, 'c, 'd, 's, 'h) kernel \<Rightarrow> ('t \<times> ('p, 'c, 'd, 's, 'h) kernel) option"
    and i :: TaskId and n :: nat and J :: "'t \<Rightarrow> 'd desk \<Rightarrow> ('s, 'h) world \<Rightarrow> bool"
  assumes uart: "uart_conforms (m_ports m) rx" and waker: "atomic_waker (m_waker m) held"
    and poll: "poll_next aw = ring_poll_next aw n"
    and ring: "tasks_placed held M s \<Longrightarrow> placed held n i M (ring s)"
    and ring_update: "ring (ring_update f s) = f (ring s)" "wakers (ring_update f s) = wakers s"
    and placed: "tasks_placed held M s \<Longrightarrow> placed held n i N r \<Longrightarrow> (\<And>j. j \<noteq> i \<Longrightarrow> count N j = count M j) \<Longrightarrow>
      tasks_placed held N (ring_update (\<lambda>_. r) s)"
    and body: "J t (kdesk k) (kworld k) \<Longrightarrow> \<exists>t' d w. body b (t, k) = Some (t', k\<lparr>kdesk := d, kworld := w\<rparr>) \<and> J t' d w"
begin

abbreviation "turn \<equiv> stream_turn m ring ring_update poll_next body i"

lemma turn_ok:
  assumes "tasks_placed held (add_mset i (M + mset (wakers (irqs k)))) (irqs k)" "schedule_ok k" "J t (kdesk k) (kworld k)"
  obtains again t' k' where "turn (t, k) = Some (again, t', k')" "J t' (kdesk k') (kworld k')" "schedule_ok k'"
    "tasks_placed held ((if again then add_mset i else id) (M + mset (wakers (irqs k')))) (irqs k')"
    "schedule k' = tl (schedule k)" "schedule k = [] \<Longrightarrow> wakers (irqs k') = wakers (irqs k)"
    "again \<Longrightarrow> schedule k = [] \<Longrightarrow> length (content n (ring (irqs k'))) < length (content n (ring (irqs k)))"
proof -
  have "tasks_placed held (add_mset i M + mset (wakers (irqs k))) (irqs k)" using assms(1) by simp
  from hardware_ok [OF uart waker assms(2) this] obtain s where s: "hardware m k = Some (k\<lparr>irqs := s, schedule := tl (schedule k)\<rparr>)"
    "tasks_placed held (add_mset i (M + mset (wakers s))) s" "schedule_ok (k\<lparr>irqs := s, schedule := tl (schedule k)\<rparr>)"
    "schedule k = [] \<Longrightarrow> s = irqs k" by auto
  have here: "placed held n i (add_mset i (M + mset (wakers s))) (ring s)" by (rule ring [OF s(2)])
  then have inv: "ring_inv n (ring s)" and count: "held (WAKER (ring s)) = None" "count (M + mset (wakers s)) i = 0"
    by (auto simp: placed_def split: option.splits)
  show ?thesis
  proof (cases "content n (ring s)")
    case Nil
    let ?r = "(ring s)\<lparr>WAKER := aw_register (m_waker m) i (WAKER (ring s))\<rparr>"
    let ?k = "k\<lparr>irqs := ring_update (\<lambda>_. ?r) s, schedule := tl (schedule k)\<rparr>"
    have "HEAD (ring s) = TAIL (ring s)" using Nil content_Nil [OF inv] by blast
    then have "turn (t, k) = Some (False, t, ?k)" using s(1) by (simp add: stream_turn_def poll ring_poll_next_def)
    moreover have "held (WAKER ?r) = Some i" using waker by (simp add: atomic_waker_def)
    then have "placed held n i (M + mset (wakers s)) ?r" using inv Nil count(2) by (simp add: placed_def)
    then have "tasks_placed held (M + mset (wakers (irqs ?k))) (irqs ?k)" using placed [OF s(2)] by (simp add: ring_update)
    moreover have "schedule_ok ?k" using s(3) by (simp add: schedule_ok_def)
    ultimately show ?thesis using that [of False t ?k] assms(3) s(4) by (simp add: ring_update)
  next
    case (Cons b bs)
    obtain r where r: "ring_inv n r" "content n r = bs" "ring_poll_next (m_waker m) n i (ring s) = Some (r, Ready b)" "WAKER r = WAKER (ring s)"
    proof -
      have "HEAD (ring s) \<noteq> TAIL (ring s)" using Cons content_Nil [OF inv] by auto
      with that [of "(ring s)\<lparr>TAIL := (TAIL (ring s) + 1) mod n\<rparr>"] content_read [OF inv] Cons inv show ?thesis
        by (simp add: ring_poll_next_def ring_pop_def array_simps ring_inv_def)
    qed
    let ?k = "k\<lparr>schedule := tl (schedule k), irqs := ring_update (\<lambda>_. r) s\<rparr>"
    obtain t' d w where b: "body b (t, ?k) = Some (t', ?k\<lparr>kdesk := d, kworld := w\<rparr>)" "J t' d w" using body [of t ?k b] assms(3) by auto
    have "turn (t, k) = Some (True, t', ?k\<lparr>kdesk := d, kworld := w\<rparr>)" using s(1) r(3) b(1) by (simp add: stream_turn_def poll)
    moreover have "placed held n i (add_mset i (M + mset (wakers s))) r" using here r(1,4) count by (simp add: placed_def)
    then have "tasks_placed held (add_mset i (M + mset (wakers s))) (ring_update (\<lambda>_. r) s)" using placed [OF s(2)] by simp
    moreover have "schedule_ok (?k\<lparr>kdesk := d, kworld := w\<rparr>)" using s(3) by (simp add: schedule_ok_def)
    moreover have "schedule k = [] \<Longrightarrow> length (content n (ring (irqs ?k))) < length (content n (ring (irqs k)))"
      using s(4) arg_cong [OF Cons, of length] arg_cong [OF r(2), of length] by (simp add: ring_update)
    ultimately show ?thesis using that [of True t' "?k\<lparr>kdesk := d, kworld := w\<rparr>"] b(2) s(4) by (simp add: ring_update)
  qed
qed

text \<open>The loop ends, whatever the schedule, and the task sleeps.\<close>

lemma loop_ok:
  assumes "tasks_placed held (add_mset i (M + mset (wakers (irqs k)))) (irqs k)" "schedule_ok k" "J t (kdesk k) (kworld k)"
  shows "\<exists>t' k'. stream_loop turn (t, k) = Some (t', k') \<and> J t' (kdesk k') (kworld k') \<and> schedule_ok k' \<and>
    tasks_placed held (M + mset (wakers (irqs k'))) (irqs k') \<and>
    (schedule k = [] \<longrightarrow> schedule k' = [] \<and> wakers (irqs k') = wakers (irqs k))"
  using assms
proof (induction "(length (schedule k), length (content n (ring (irqs k))))" arbitrary: t k rule: wf_induct_rule [OF wf_less_than [THEN wf_lex_prod, OF wf_less_than]])
  case (1 k t)
  from 1(2-4) obtain again t1 k1 where k1: "turn (t, k) = Some (again, t1, k1)" "J t1 (kdesk k1) (kworld k1)" "schedule_ok k1"
    "tasks_placed held ((if again then add_mset i else id) (M + mset (wakers (irqs k1)))) (irqs k1)"
    "schedule k1 = tl (schedule k)" "schedule k = [] \<Longrightarrow> wakers (irqs k1) = wakers (irqs k)"
    "again \<Longrightarrow> schedule k = [] \<Longrightarrow> length (content n (ring (irqs k1))) < length (content n (ring (irqs k)))"
    by (rule turn_ok) (rule that)
  show ?case
  proof (cases again)
    case True
    have "((length (schedule k1), length (content n (ring (irqs k1)))), length (schedule k), length (content n (ring (irqs k))))
        \<in> less_than <*lex*> less_than"
      using k1(5) k1(7) [OF True] by (cases "schedule k") (simp_all del: length_content)
    from 1(1) [OF this _ k1(3,2)] k1(1,4-6) True show ?thesis by (subst stream_loop.simps) fastforce
  next
    case False
    with k1 show ?thesis by (subst stream_loop.simps) (auto simp: id_def)
  qed
qed

text \<open>A poll of the task by the executor.\<close>

lemma poll_ok:
  assumes "tasks_placed held (add_mset i M) (irqs k)" "wakers (irqs k) = []" "schedule_ok k" "J t (kdesk k) (kworld k)"
  shows "\<exists>t' k'. stream_poll m fut turn t k = (Blocked, fut t', wakers (irqs k'), Some k') \<and> J t' (kdesk k') (kworld k') \<and>
    schedule_ok k' \<and> tasks_placed held (M + mset (wakers (irqs k'))) (irqs k') \<and>
    (schedule k = [] \<longrightarrow> schedule k' = [] \<and> wakers (irqs k') = [])"
proof -
  obtain t1 k1 where k1: "stream_loop turn (t, k) = Some (t1, k1)" "J t1 (kdesk k1) (kworld k1)" "schedule_ok k1"
    "tasks_placed held (M + mset (wakers (irqs k1))) (irqs k1)"
    "schedule k = [] \<longrightarrow> schedule k1 = [] \<and> wakers (irqs k1) = wakers (irqs k)"
    using loop_ok [of M k t] assms by auto
  from hardware_ok [OF uart waker k1(3,4)] obtain s where "hardware m k1 = Some (k1\<lparr>irqs := s, schedule := tl (schedule k1)\<rparr>)"
    "tasks_placed held (M + mset (wakers s)) s" "schedule_ok (k1\<lparr>irqs := s, schedule := tl (schedule k1)\<rparr>)" "schedule k1 = [] \<longrightarrow> s = irqs k1"
    by blast
  with k1 assms(2) show ?thesis
    by (intro exI [of _ t1] exI [of _ "k1\<lparr>irqs := s, schedule := tl (schedule k1)\<rparr>"]) (simp add: stream_poll_def)
qed

end

subsection \<open>The kernel\<close>

text \<open>An invariant \<open>J\<close> of the local variables of the tasks, the desktop and the devices under which no task panics.\<close>

definition tasks_keep :: "('p, 'c, 'd, 's, 'h, 'k) machine \<Rightarrow> (link \<Rightarrow> 'k \<Rightarrow> MouseTask \<Rightarrow> 'd desk \<Rightarrow> ('s, 'h) world \<Rightarrow> bool) \<Rightarrow> bool" where
  "tasks_keep m J \<longleftrightarrow> (\<forall>l kb mt d w. J l kb mt d w \<longrightarrow>
     (\<forall>b. \<exists>l' d' w'. link_byte (m_platform m) (m_font m) (m_gpu m) (m_backing m) (m_virtio m) b (l, d, w) = Some (l', d', w') \<and> J l' kb mt d' w') \<and>
     (\<forall>b. \<exists>kb' d' w'. key_scancode (m_platform m) (m_font m) (m_gpu m) (m_backing m) (m_virtio m) (m_decode m) b (kb, d, w) =
        Some (kb', d', w') \<and> J l kb' mt d' w') \<and>
     (\<forall>b has_data. \<exists>mt' d'. mouse_byte (m_font m) (m_gpu m) (m_backing m) (m_virtio m) b has_data mt d = Some (mt', d') \<and> J l kb mt' d' w) \<and>
     (\<exists>d'. physics_round (m_font m) (m_gpu m) (m_backing m) (m_virtio m) d = Some d' \<and> J l kb mt d' w))"

text \<open>The four tasks are registered under the ids they were spawned with.\<close>

definition registered :: "('k kernel_task, 'q) MictExecutor \<Rightarrow> link \<Rightarrow> 'k \<Rightarrow> MouseTask \<Rightarrow> YieldNow option \<Rightarrow> bool" where
  "registered ex l kb mt y \<longleftrightarrow> process_registry ex 0 = Some \<lparr>tid = 0, future = Genesis_init l\<rparr> \<and>
     process_registry ex 1 = Some \<lparr>tid = 1, future = Print_keypresses kb\<rparr> \<and>
     process_registry ex 2 = Some \<lparr>tid = 2, future = Desktop_compositor mt\<rparr> \<and>
     process_registry ex 3 = Some \<lparr>tid = 3, future = Physics_tick y\<rparr>"

definition loop_inv :: "('c \<Rightarrow> TaskId option) \<Rightarrow> ('q \<Rightarrow> TaskId list) \<Rightarrow> (link \<Rightarrow> 'k \<Rightarrow> MouseTask \<Rightarrow> 'd desk \<Rightarrow> ('s, 'h) world \<Rightarrow> bool) \<Rightarrow>
    ('k kernel_task, 'q) MictExecutor \<Rightarrow> ('p, 'c, 'd, 's, 'h) kernel \<Rightarrow> bool" where
  "loop_inv held view J ex k \<longleftrightarrow> exec_inv ex \<and> schedule_ok k \<and> tasks_placed held (mset (view (ready_queue ex))) (irqs k) \<and>
     (\<exists>l kb mt y. registered ex l kb mt y \<and> J l kb mt (kdesk k) (kworld k))"

lemma registered_upd:
  assumes "registered ex l kb mt y"
  shows "process_registry ex' = (process_registry ex)(0 \<mapsto> \<lparr>tid = 0, future = Genesis_init l'\<rparr>) \<Longrightarrow> registered ex' l' kb mt y"
    "process_registry ex' = (process_registry ex)(1 \<mapsto> \<lparr>tid = 1, future = Print_keypresses kb'\<rparr>) \<Longrightarrow> registered ex' l kb' mt y"
    "process_registry ex' = (process_registry ex)(2 \<mapsto> \<lparr>tid = 2, future = Desktop_compositor mt'\<rparr>) \<Longrightarrow> registered ex' l kb mt' y"
    "process_registry ex' = (process_registry ex)(3 \<mapsto> \<lparr>tid = 3, future = Physics_tick y'\<rparr>) \<Longrightarrow> registered ex' l kb mt y'"
  using assms by (simp_all add: registered_def)

lemma tasks_placed_wakers [simp]: "tasks_placed held M (s\<lparr>wakers := ws\<rparr>) = tasks_placed held M s"
  by (simp add: tasks_placed_def)

text \<open>A poll of a registered task, in the executor.\<close>

lemma run_blocked:
  assumes "array_queue Q view 100" "exec_inv ex" "process_registry ex t = Some \<lparr>tid = t, future = fut\<rparr>"
    "F fut t env = (Blocked, fut', ws, env')" "length (view (ready_queue ex) @ ws) \<le> 4"
  shows "\<exists>ex'. run_task Q F t ex env = Some (ex', env') \<and> exec_inv ex' \<and> view (ready_queue ex') = view (ready_queue ex) @ ws \<and>
    process_registry ex' = (process_registry ex)(t \<mapsto> \<lparr>tid = t, future = fut'\<rparr>)"
proof -
  obtain q where q: "wake_all Q ws (ready_queue ex) = Some q" "view q = view (ready_queue ex) @ ws"
    using wake_all_ok [OF assms(1), of "ready_queue ex" ws] assms(5) by auto
  have "F (future \<lparr>tid = t, future = fut\<rparr>) t env = (Blocked, fut', ws, env')" using assms(4) by simp
  note run = run_task_eq [where F = F, OF assms(2,3) this, of Q]
  have "\<exists>ex'. run_task Q F t ex env = Some (ex', env') \<and> view (ready_queue ex') = view q \<and>
    process_registry ex' = (process_registry ex)(t \<mapsto> \<lparr>tid = t, future = fut'\<rparr>)"
    unfolding run using q(1) by simp
  with q(2) run_task_inv [OF assms(2)] show ?thesis by metis
qed

text \<open>What the boot code spawns.\<close>

lemma spawn_all_inv: "spawn_all Q fs n ex = Some ex' \<Longrightarrow> exec_inv ex \<Longrightarrow> exec_inv ex'"
proof (induction fs arbitrary: n ex)
  case (Cons f fs)
  then show ?case using spawn_inv by (fastforce simp: Task_new_def TaskId_new_def split: bind_splits)
qed simp

lemma spawn_tasks_queued:
  fixes Q :: "'q ArrayQueue" and kb :: 'k
  assumes "array_queue Q view 100"
  shows "\<exists>ex. spawn_tasks Q kb = Some ex \<and> view (ready_queue ex) = [0, 1, 2, 3] \<and> exec_inv ex \<and> registered ex genesis_init kb MouseTask_init None"
proof -
  let ?new = "MictExecutor_new Q :: ('k kernel_task, 'q) MictExecutor"
  have "view (ready_queue ?new) = []" using array_queue_laws(4) [OF assms] by (simp add: MictExecutor_new_def)
  moreover have "length (kernel_tasks kb) = 4" by (simp add: kernel_tasks_def)
  moreover have "\<forall>j. process_registry ?new j \<noteq> None \<longrightarrow> j < 0" by (simp add: MictExecutor_new_def)
  ultimately obtain ex where ex: "spawn_tasks Q kb = Some ex"
    "view (ready_queue ex) = map of_nat [0..<4]"
    "\<forall>i < 4. process_registry ex (of_nat i) = Some \<lparr>tid = of_nat i, future = kernel_tasks kb ! i\<rparr>"
    using spawn_all_ok [OF assms, of 0 "kernel_tasks kb" ?new] unfolding spawn_tasks_def by auto
  have "registered ex genesis_init kb MouseTask_init None"
    using ex(3) [rule_format, of 0] ex(3) [rule_format, of 1] ex(3) [rule_format, of 2] ex(3) [rule_format, of 3]
    by (simp add: registered_def kernel_tasks_def)
  moreover have "view (ready_queue ex) = [0, 1, 2, 3]" unfolding ex(2) by (simp add: upt_rec)
  ultimately show ?thesis using ex(1) spawn_all_inv [OF ex(1) [unfolded spawn_tasks_def] exec_inv_new] by blast
qed

locale kernel_machine =
  fixes m :: "('p, 'c, 'd, 's, 'h, 'k) machine" and held :: "'c \<Rightarrow> TaskId option" and rx :: "'p \<Rightarrow> bytes"
    and J :: "link \<Rightarrow> 'k \<Rightarrow> MouseTask \<Rightarrow> 'd desk \<Rightarrow> ('s, 'h) world \<Rightarrow> bool" and Q :: "'q ArrayQueue" and view :: "'q \<Rightarrow> TaskId list"
  assumes uart: "uart_conforms (m_ports m) rx" and waker: "atomic_waker (m_waker m) held"
    and queue: "array_queue Q view 100" and keep: "tasks_keep m J"

text \<open>Each of the three stream tasks keeps the invariant, whatever the local variables of the other two are.\<close>

lemma tasks_placed_moved:
  assumes "tasks_placed held M s" "\<And>j. j \<noteq> i \<Longrightarrow> count N j = count M j" "i = 0 \<or> i = 1 \<or> i = 2"
  shows "j \<noteq> i \<Longrightarrow> placed held n j N r = placed held n j M r" "count N 3 = 1" "set_mset N \<subseteq> {0, 1, 2, 3}"
proof -
  show "count N 3 = 1" using assms(1,3) assms(2) [of 3] by (auto simp: tasks_placed_def)
  show "set_mset N \<subseteq> {0, 1, 2, 3}"
  proof
    fix j assume "j \<in># N"
    then have "j = i \<or> j \<in># M" using assms(2) [of j] by (cases "j = i") (simp_all add: count_greater_zero_iff [symmetric] del: count_greater_zero_iff)
    then show "j \<in> {0, 1, 2, 3}" using assms(1,3) by (auto simp: tasks_placed_def)
  qed
  show "placed held n j N r = placed held n j M r" if "j \<noteq> i" unfolding placed_def assms(2) [OF that] ..
qed

sublocale kernel_machine \<subseteq> serial: stream_task m held rx serial_ring serial_ring_update serial_poll_next "genesis_body m" 0 65536
    "\<lambda>l. J l kb mt" for kb mt
proof unfold_locales
  fix k :: "('p, 'c, 'd, 's, 'h) kernel" and l b
  assume "J l kb mt (kdesk k) (kworld k)"
  then obtain l' d w where "link_byte (m_platform m) (m_font m) (m_gpu m) (m_backing m) (m_virtio m) b (l, kdesk k, kworld k) = Some (l', d, w)"
    "J l' kb mt d w" using keep unfolding tasks_keep_def by metis
  then show "\<exists>t' d w. genesis_body m b (l, k) = Some (t', k\<lparr>kdesk := d, kworld := w\<rparr>) \<and> J t' kb mt d w"
    by (intro exI [of _ l'] exI [of _ d] exI [of _ w]) (simp add: genesis_body_def)
next
  fix M N and s :: "('p, 'c, TaskId) irq_state" and r
  assume M: "tasks_placed held M s" and r: "placed held 65536 0 N r" and N: "\<And>j. j \<noteq> 0 \<Longrightarrow> count N j = count M j"
  note moved = tasks_placed_moved [OF M N, simplified]
  show "tasks_placed held N (s\<lparr>serial_ring := r\<rparr>)" using M r moved unfolding tasks_placed_def by simp
qed (simp_all add: uart waker serial_poll_next_def SERIAL_BUF_SIZE_def tasks_placed_def)

sublocale kernel_machine \<subseteq> keyboard: stream_task m held rx keyboard_ring keyboard_ring_update scancode_poll_next "keypress_body m" 1 256
    "\<lambda>kb. J l kb mt" for l mt
proof unfold_locales
  fix k :: "('p, 'c, 'd, 's, 'h) kernel" and kb b
  assume "J l kb mt (kdesk k) (kworld k)"
  then obtain kb' d w where "key_scancode (m_platform m) (m_font m) (m_gpu m) (m_backing m) (m_virtio m) (m_decode m) b (kb, kdesk k, kworld k) =
    Some (kb', d, w)" "J l kb' mt d w" using keep unfolding tasks_keep_def by metis
  then show "\<exists>t' d w. keypress_body m b (kb, k) = Some (t', k\<lparr>kdesk := d, kworld := w\<rparr>) \<and> J l t' mt d w"
    by (intro exI [of _ kb'] exI [of _ d] exI [of _ w]) (simp add: keypress_body_def)
next
  fix M N and s :: "('p, 'c, TaskId) irq_state" and r
  assume M: "tasks_placed held M s" and r: "placed held 256 1 N r" and N: "\<And>j. j \<noteq> 1 \<Longrightarrow> count N j = count M j"
  note moved = tasks_placed_moved [OF M N, simplified]
  show "tasks_placed held N (s\<lparr>keyboard_ring := r\<rparr>)" using M r moved unfolding tasks_placed_def by simp
qed (simp_all add: uart waker scancode_poll_next_def KEYBOARD_BUF_SIZE_def tasks_placed_def)

sublocale kernel_machine \<subseteq> mouse: stream_task m held rx mouse_ring mouse_ring_update mouse_poll_next "compositor_body m" 2 65536
    "\<lambda>mt. J l kb mt" for l kb
proof unfold_locales
  fix k :: "('p, 'c, 'd, 's, 'h) kernel" and mt b
  assume "J l kb mt (kdesk k) (kworld k)"
  then obtain mt' d where "mouse_byte (m_font m) (m_gpu m) (m_backing m) (m_virtio m) b (mouse_has_data (mouse_ring (irqs k))) mt (kdesk k) =
    Some (mt', d)" "J l kb mt' d (kworld k)" using keep unfolding tasks_keep_def by metis
  then show "\<exists>t' d w. compositor_body m b (mt, k) = Some (t', k\<lparr>kdesk := d, kworld := w\<rparr>) \<and> J l kb t' d w"
    by (intro exI [of _ mt'] exI [of _ d] exI [of _ "kworld k"]) (simp add: compositor_body_def)
next
  fix M N and s :: "('p, 'c, TaskId) irq_state" and r
  assume M: "tasks_placed held M s" and r: "placed held 65536 2 N r" and N: "\<And>j. j \<noteq> 2 \<Longrightarrow> count N j = count M j"
  note moved = tasks_placed_moved [OF M N, simplified]
  show "tasks_placed held N (s\<lparr>mouse_ring := r\<rparr>)" using M r moved unfolding tasks_placed_def by simp
qed (simp_all add: uart waker mouse_poll_next_def MOUSE_BUF_SIZE_def tasks_placed_def)

context kernel_machine
begin

text \<open>The physics task draws its frame and wakes itself.\<close>

lemma physics_ok:
  assumes "tasks_placed held (add_mset 3 M) (irqs k)" "wakers (irqs k) = []" "schedule_ok k" "J l kb mt (kdesk k) (kworld k)"
  shows "\<exists>y' k'. kernel_poll m (Physics_tick y) 3 (Some k) = (Blocked, Physics_tick y', wakers (irqs k') @ [3], Some k') \<and>
    J l kb mt (kdesk k') (kworld k') \<and> schedule_ok k' \<and> tasks_placed held (M + mset (wakers (irqs k') @ [3])) (irqs k') \<and>
    (schedule k = [] \<longrightarrow> schedule k' = [] \<and> wakers (irqs k') = [])"
proof -
  let ?k = "k\<lparr>irqs := (irqs k)\<lparr>wakers := []\<rparr>\<rparr>"
  have k: "?k = k" using assms(2) by simp
  have "tasks_placed held (add_mset 3 M + mset (wakers (irqs k))) (irqs k)" using assms(1,2) by simp
  from hardware_ok [OF uart waker assms(3) this] obtain s where s: "hardware m k = Some (k\<lparr>irqs := s, schedule := tl (schedule k)\<rparr>)"
    "tasks_placed held (add_mset 3 M + mset (wakers s)) s" "schedule_ok (k\<lparr>irqs := s, schedule := tl (schedule k)\<rparr>)"
    "schedule k = [] \<longrightarrow> s = irqs k" by blast
  obtain d where d: "physics_round (m_font m) (m_gpu m) (m_backing m) (m_virtio m) (kdesk k) = Some d" "J l kb mt d (kworld k)"
    using keep assms(4) unfolding tasks_keep_def by metis
  let ?k' = "k\<lparr>irqs := s, schedule := tl (schedule k), kdesk := d\<rparr>"
  have body: "physics_body m k = Some ?k'" using s(1) d(1) by (simp add: physics_body_def)
  have ok: "schedule_ok ?k'" using s(3) by (simp add: schedule_ok_def)
  consider "kernel_poll m (Physics_tick y) 3 (Some k) = (Blocked, Physics_tick (Some \<lparr>yielded = True\<rparr>), wakers s @ [3], Some ?k')"
    | "kernel_poll m (Physics_tick y) 3 (Some k) = (Blocked, Physics_tick (Some \<lparr>yielded = True\<rparr>), [3], Some k)"
  proof (cases y)
    case None
    with body k that(1) show ?thesis by (simp add: kernel_poll_def physics_poll_def YieldNow_poll_def yield_now_def)
  next
    case (Some a)
    show ?thesis
    proof (cases "yielded a")
      case True
      with Some body k that(1) show ?thesis by (simp add: kernel_poll_def physics_poll_def YieldNow_poll_def yield_now_def)
    next
      case False
      with Some assms(2) that(2) show ?thesis by (simp add: kernel_poll_def physics_poll_def YieldNow_poll_def)
    qed
  qed
  then show ?thesis
  proof cases
    case 1
    with s(2,4) d(2) ok assms(2) show ?thesis
      by (intro exI [of _ "Some \<lparr>yielded = True\<rparr>"] exI [of _ ?k']) simp
  next
    case 2
    with assms show ?thesis by (intro exI [of _ "Some \<lparr>yielded = True\<rparr>"] exI [of _ k]) simp
  qed
qed

text \<open>A round of the event loop, for whichever task is first in the queue.\<close>

lemma kernel_poll_fresh:
  "kernel_poll m fut t (Some (k\<lparr>irqs := (irqs k)\<lparr>wakers := []\<rparr>\<rparr>)) = kernel_poll m fut t (Some k)"
  by (simp add: kernel_poll_def)

lemma round_task:
  assumes ex: "exec_inv ex" "view (ready_queue ex) = t # view q" and reg: "process_registry ex t = Some \<lparr>tid = t, future = fut\<rparr>"
    and poll: "\<exists>x k'. kernel_poll m fut t (Some k) = (Blocked, C x, wakers (irqs k') @ ws, Some k') \<and> I x (kdesk k') (kworld k') \<and>
      schedule_ok k' \<and> tasks_placed held (mset (view q) + mset (wakers (irqs k') @ ws)) (irqs k') \<and>
      (schedule k = [] \<longrightarrow> schedule k' = [] \<and> wakers (irqs k') = [])"
    and I: "\<And>x d w (ex' :: ('k kernel_task, 'q) MictExecutor). I x d w \<Longrightarrow> process_registry ex' = (process_registry ex)(t \<mapsto> \<lparr>tid = t, future = C x\<rparr>) \<Longrightarrow>
      \<exists>l kb mt y. registered ex' l kb mt y \<and> J l kb mt d w"
  shows "\<exists>ex' k'. run_task Q (kernel_poll m) t (ex\<lparr>ready_queue := q\<rparr>) (Some k) = Some (ex', Some k') \<and> loop_inv held view J ex' k' \<and>
    (schedule k = [] \<longrightarrow> schedule k' = [] \<and> view (ready_queue ex') = view q @ ws)"
proof -
  from poll obtain x k' where p: "kernel_poll m fut t (Some k) = (Blocked, C x, wakers (irqs k') @ ws, Some k')" "I x (kdesk k') (kworld k')"
    "schedule_ok k'" "tasks_placed held (mset (view q @ wakers (irqs k') @ ws)) (irqs k')"
    "schedule k = [] \<longrightarrow> schedule k' = [] \<and> wakers (irqs k') = []" by auto
  have "length (view q @ wakers (irqs k') @ ws) \<le> 4" using tasks_placed_size [OF p(4)] by simp
  then obtain ex' where ex': "run_task Q (kernel_poll m) t (ex\<lparr>ready_queue := q\<rparr>) (Some k) = Some (ex', Some k')" "exec_inv ex'"
    "view (ready_queue ex') = view q @ wakers (irqs k') @ ws" "process_registry ex' = (process_registry ex)(t \<mapsto> \<lparr>tid = t, future = C x\<rparr>)"
    using run_blocked [OF queue, of "ex\<lparr>ready_queue := q\<rparr>" t fut "kernel_poll m" "Some k" "C x" "wakers (irqs k') @ ws" "Some k'"] ex reg p(1)
    by auto
  have "loop_inv held view J ex' k'" using I [OF p(2) ex'(4)] ex'(2,3) p(3,4) by (auto simp: loop_inv_def)
  with ex'(1,3) p(5) show ?thesis by auto
qed

lemma round_ok:
  assumes "loop_inv held view J ex k"
  obtains t q ex' k' where "aq_pop Q (ready_queue ex) = Some (t, q)" "view (ready_queue ex) = t # view q"
    "run_task Q (kernel_poll m) t (ex\<lparr>ready_queue := q\<rparr>) (Some k) = Some (ex', Some k')" "loop_inv held view J ex' k'"
    "schedule k = [] \<longrightarrow> schedule k' = [] \<and> view (ready_queue ex') = view q @ (if t = 3 then [3] else [])"
proof -
  let ?k = "k\<lparr>irqs := (irqs k)\<lparr>wakers := []\<rparr>\<rparr>"
  from assms obtain l kb mt y where ex: "exec_inv ex" and sch: "schedule_ok k" and pl: "tasks_placed held (mset (view (ready_queue ex))) (irqs k)"
    and reg: "registered ex l kb mt y" and J: "J l kb mt (kdesk k) (kworld k)" by (auto simp: loop_inv_def)
  have "3 \<in># mset (view (ready_queue ex))" using pl by (intro count_inI) (simp add: tasks_placed_def)
  then have "view (ready_queue ex) \<noteq> []" by auto
  then obtain t q where t: "view (ready_queue ex) = t # view q" "aq_pop Q (ready_queue ex) = Some (t, q)"
    by (cases rule: aq_pop_cases [OF queue, of "ready_queue ex"]) auto
  have k: "tasks_placed held (add_mset t (mset (view q))) (irqs ?k)" "wakers (irqs ?k) = []" "schedule_ok ?k" "J l kb mt (kdesk ?k) (kworld ?k)"
    using pl t(1) sch J by (simp_all add: schedule_ok_def)
  have regs: "process_registry ex 0 = Some \<lparr>tid = 0, future = Genesis_init l\<rparr>" "process_registry ex 1 = Some \<lparr>tid = 1, future = Print_keypresses kb\<rparr>"
    "process_registry ex 2 = Some \<lparr>tid = 2, future = Desktop_compositor mt\<rparr>" "process_registry ex 3 = Some \<lparr>tid = 3, future = Physics_tick y\<rparr>"
    using reg by (simp_all add: registered_def)
  have "t \<in> {0, 1, 2, 3}" using pl t(1) by (auto simp: tasks_placed_def)
  then have "\<exists>ex' k'. run_task Q (kernel_poll m) t (ex\<lparr>ready_queue := q\<rparr>) (Some k) = Some (ex', Some k') \<and> loop_inv held view J ex' k' \<and>
    (schedule k = [] \<longrightarrow> schedule k' = [] \<and> view (ready_queue ex') = view q @ (if t = 3 then [3] else []))"
  proof (elim insertE emptyE)
    assume t0: "t = 0"
    from serial.poll_ok [OF k(1) [unfolded t0] k(2-4), of Genesis_init]
    have "\<exists>ex' k'. run_task Q (kernel_poll m) 0 (ex\<lparr>ready_queue := q\<rparr>) (Some k) = Some (ex', Some k') \<and> loop_inv held view J ex' k' \<and>
      (schedule k = [] \<longrightarrow> schedule k' = [] \<and> view (ready_queue ex') = view q @ [])"
      by (intro round_task [OF ex t(1) [unfolded t0] regs(1), where C = Genesis_init and I = "\<lambda>l. J l kb mt"])
        (simp add: kernel_poll_def serial_turn_def Let_def, use registered_upd(1) [OF reg] in blast)
    with t0 show ?thesis by simp
  next
    assume t1: "t = 1"
    from keyboard.poll_ok [OF k(1) [unfolded t1] k(2-4), of Print_keypresses]
    have "\<exists>ex' k'. run_task Q (kernel_poll m) 1 (ex\<lparr>ready_queue := q\<rparr>) (Some k) = Some (ex', Some k') \<and> loop_inv held view J ex' k' \<and>
      (schedule k = [] \<longrightarrow> schedule k' = [] \<and> view (ready_queue ex') = view q @ [])"
      by (intro round_task [OF ex t(1) [unfolded t1] regs(2), where C = Print_keypresses and I = "\<lambda>kb. J l kb mt"])
        (simp add: kernel_poll_def keyboard_turn_def Let_def, use registered_upd(2) [OF reg] in blast)
    with t1 show ?thesis by simp
  next
    assume t2: "t = 2"
    from mouse.poll_ok [OF k(1) [unfolded t2] k(2-4), of Desktop_compositor]
    have "\<exists>ex' k'. run_task Q (kernel_poll m) 2 (ex\<lparr>ready_queue := q\<rparr>) (Some k) = Some (ex', Some k') \<and> loop_inv held view J ex' k' \<and>
      (schedule k = [] \<longrightarrow> schedule k' = [] \<and> view (ready_queue ex') = view q @ [])"
      by (intro round_task [OF ex t(1) [unfolded t2] regs(3), where C = Desktop_compositor and I = "\<lambda>mt. J l kb mt"])
        (simp add: kernel_poll_def mouse_turn_def Let_def, use registered_upd(3) [OF reg] in blast)
    with t2 show ?thesis by simp
  next
    assume t3: "t = 3"
    from physics_ok [OF k(1) [unfolded t3] k(2-4), of y]
    have "\<exists>ex' k'. run_task Q (kernel_poll m) 3 (ex\<lparr>ready_queue := q\<rparr>) (Some k) = Some (ex', Some k') \<and> loop_inv held view J ex' k' \<and>
      (schedule k = [] \<longrightarrow> schedule k' = [] \<and> view (ready_queue ex') = view q @ [3])"
      unfolding kernel_poll_fresh
      by (intro round_task [OF ex t(1) [unfolded t3] regs(4), where C = Physics_tick and I = "\<lambda>_. J l kb mt"])
        (simp, use registered_upd(4) [OF reg] in blast)
    with t3 show ?thesis by simp
  qed
  then show ?thesis using that [OF t(2,1)] by blast
qed

lemma rounds_ok:
  assumes "loop_inv held view J ex k"
  shows "\<exists>ex' k'. kernel_rounds Q (kernel_poll m) n (ex, Some k) = Some (ex', Some k') \<and> loop_inv held view J ex' k' \<and>
    (schedule k = [] \<longrightarrow> schedule k' = [] \<and> set (view (ready_queue ex')) \<subseteq> insert 3 (set (drop n (view (ready_queue ex)))))"
  using assms
proof (induction n arbitrary: ex k)
  case 0
  then show ?case by (auto simp: loop_inv_def)
next
  case (Suc n)
  obtain t q ex1 k1 where r: "aq_pop Q (ready_queue ex) = Some (t, q)" "view (ready_queue ex) = t # view q"
    "run_task Q (kernel_poll m) t (ex\<lparr>ready_queue := q\<rparr>) (Some k) = Some (ex1, Some k1)" "loop_inv held view J ex1 k1"
    "schedule k = [] \<longrightarrow> schedule k1 = [] \<and> view (ready_queue ex1) = view q @ (if t = 3 then [3] else [])"
    by (rule round_ok [OF Suc.prems]) (rule that)
  from Suc.IH [OF r(4)] obtain ex' k' where s: "kernel_rounds Q (kernel_poll m) n (ex1, Some k1) = Some (ex', Some k')" "loop_inv held view J ex' k'"
    "schedule k1 = [] \<longrightarrow> schedule k' = [] \<and> set (view (ready_queue ex')) \<subseteq> insert 3 (set (drop n (view (ready_queue ex1))))" by blast
  have "set (drop n (view q @ (if t = 3 then [3] else []))) \<subseteq> insert 3 (set (drop n (view q)))"
    by (auto simp: drop_Cons' split: if_splits dest: in_set_dropD)
  with r s show ?case by fastforce
qed

text \<open>The loop of the executor never ends: the queue is never empty.\<close>

lemma run_never_ends:
  assumes "loop_inv held view J ex k"
  shows "run_ready_tasks Q (kernel_poll m) ex (Some k) = None"
proof (rule ccontr)
  assume "\<not> ?thesis"
  then obtain ex' env' where run: "run_ready_tasks Q (kernel_poll m) ex (Some k) = Some (ex', env')" by auto
  let ?I = "\<lambda>ex env. \<exists>k. env = Some k \<and> loop_inv held view J ex k"
  have "?I ex' env' \<and> aq_pop Q (ready_queue ex') = None"
  proof (rule run_ready_preserves [OF run])
    show "?I ex (Some k)" using assms by blast
  next
    fix e v t q e1 v1
    assume "?I e v" and pop: "aq_pop Q (ready_queue e) = Some (t, q)" and run: "run_task Q (kernel_poll m) t (e\<lparr>ready_queue := q\<rparr>) v = Some (e1, v1)"
    then obtain k where v: "v = Some k" and k: "loop_inv held view J e k" by blast
    show "?I e1 v1" by (rule round_ok [OF k]) (use pop run v in auto)
  qed
  then show False by (auto elim: round_ok)
qed

lemma spawn_tasks_ok:
  assumes "J genesis_init kb MouseTask_init (kdesk k) (kworld k)" "schedule_ok k"
    "ring_inv SERIAL_BUF_SIZE (serial_ring (irqs k))" "ring_inv KEYBOARD_BUF_SIZE (keyboard_ring (irqs k))"
    "ring_inv MOUSE_BUF_SIZE (mouse_ring (irqs k))"
    "\<forall>r \<in> {serial_ring (irqs k), keyboard_ring (irqs k), mouse_ring (irqs k)}. held (WAKER r) = None"
  shows "\<exists>ex. spawn_tasks Q kb = Some ex \<and> view (ready_queue ex) = [0, 1, 2, 3] \<and> loop_inv held view J ex k"
proof -
  from spawn_tasks_queued [OF queue, where kb = kb] obtain ex where ex: "spawn_tasks Q kb = Some ex" "view (ready_queue ex) = [0, 1, 2, 3]"
    "exec_inv ex" "registered ex genesis_init kb MouseTask_init None" by blast
  have "tasks_placed held (mset (view (ready_queue ex))) (irqs k)"
    using assms(3-6) by (simp add: ex(2) tasks_placed_def placed_def SERIAL_BUF_SIZE_def KEYBOARD_BUF_SIZE_def MOUSE_BUF_SIZE_def)
  with assms(1,2) ex show ?thesis by (auto simp: loop_inv_def)
qed

end

subsection \<open>A machine without a screen and without a drive\<close>

text \<open>There no task panics, whatever arrives: the command and the payload branch of the neural link included.\<close>

lemma str_find_at:
  assumes "str_find pat s = Some n"
  shows "n \<le> length s \<and> take (length pat) (drop n s) = pat"
  using assms
proof (induction s arbitrary: n)
  case (Cons b s)
  then show ?case by (cases n) (auto split: if_splits)
qed (auto split: if_splits)

lemma decoded_cont:
  "i < length (decoded bs) \<Longrightarrow> utf8_cont (decoded bs ! i) \<Longrightarrow> 0 < i \<and> 0x80 \<le> decoded bs ! (i - 1)"
proof (induction bs arbitrary: i)
  case (Cons b bs)
  have dec: "decoded (b # bs) = char_of_byte b @ decoded bs" by (simp add: decoded_def)
  obtain x xs where c: "char_of_byte b = x # xs" "\<not> utf8_cont x" using is_char_shape [OF char_of_byte_is_char] by metis
  show ?case
  proof (cases "i < length (char_of_byte b)")
    case True
    with Cons.prems(2) c have "0 < i" unfolding dec by (cases i) auto
    have ge: "0x80 \<le> (0xC0 OR drop_bit 6 b)" by (rule order_trans [OF _ le_word_or2]) simp
    with \<open>0 < i\<close> True show ?thesis unfolding dec by (auto simp: char_of_byte_def nth_append split: if_splits)
  next
    case False
    then have "decoded (b # bs) ! i = decoded bs ! (i - length (char_of_byte b))" unfolding dec by (simp add: nth_append)
    with Cons.IH [of "i - length (char_of_byte b)"] Cons.prems False
    have "0 < i - length (char_of_byte b) \<and> 0x80 \<le> decoded bs ! (i - length (char_of_byte b) - 1)" unfolding dec by simp
    then show ?thesis unfolding dec by (auto simp: nth_append)
  qed
qed (simp add: decoded_def)

lemma command_str_returns: "\<exists>c. command_str (decoded bs) = Some c"
proof (cases "str_find (quoted ''command'' @ [58, 34]) (decoded bs)")
  case (Some n)
  let ?s = "decoded bs" and ?pat = "quoted ''command'' @ [58, 34]"
  have pat: "length ?pat = 11" "?pat ! 10 = 34" by (simp_all add: quoted_def lit_def)
  have at: "take 11 (drop n ?s) = ?pat" using str_find_at [OF Some] pat(1) by metis
  have len: "n + 11 \<le> length ?s"
  proof -
    have "length (take 11 (drop n ?s)) = 11" unfolding at by (rule pat(1))
    then show ?thesis by (simp add: min_def split: if_splits)
  qed
  have "take 11 (drop n ?s) ! 10 = ?s ! (n + 10)" using len by simp
  then have before: "?s ! (n + 10) = 34" unfolding at pat(2) by simp
  have start: "is_char_boundary (n + 11) ?s"
    using decoded_cont [of "n + 11" bs] before [unfolded add.commute [of n 10]] len by (auto simp: is_char_boundary_def)
  have rest: "str_slice (n + 11) (length ?s) ?s = Some (drop (n + 11) ?s)"
    using start len by (simp add: str_slice_def slice_def is_char_boundary_def)
  show ?thesis
  proof (cases "str_find [34] (drop (n + 11) ?s)")
    case None
    with Some rest show ?thesis by (simp add: command_str_def)
  next
    case (Some k)
    have q: "take 1 (drop k (drop (n + 11) ?s)) = [34]" using str_find_at [OF Some] by simp
    then have "n + 11 + k < length ?s" by (cases "n + 11 + k < length ?s") simp_all
    moreover from this q have "?s ! (n + 11 + k) = 34" by (simp add: take_Suc_conv_app_nth add.commute add.left_commute hd_drop_conv_nth take_Suc)
    ultimately have "is_char_boundary (n + 11 + k) ?s" by (simp add: is_char_boundary_def utf8_cont_def)
    with start \<open>n + 11 + k < length ?s\<close> have "\<exists>c. str_slice (n + 11) (n + 11 + k) ?s = Some c"
      by (simp add: str_slice_def slice_def)
    with \<open>str_find ?pat ?s = Some n\<close> rest Some show ?thesis by (auto simp: command_str_def)
  qed
qed (simp add: command_str_def)

definition bare :: "link \<Rightarrow> 'k \<Rightarrow> MouseTask \<Rightarrow> 'd desk \<Rightarrow> ('s, 'h) world \<Rightarrow> bool" where
  "bare l kb mt d w \<longleftrightarrow> (\<exists>bs. json_buffer l = decoded bs) \<and> nvme_drive w = None \<and>
     (case d of (ui, display, s) \<Rightarrow> display = None \<and> 0 \<le>s screen_width ui - 6 \<and> 0 \<le>s screen_height ui - 6)"

lemma bare_link:
  assumes "bare l kb mt (ui, display, s) w"
  shows "\<exists>l' w'. link_byte p font gd vb hv b (l, (ui, display, s), w) = Some (l', (ui, display, s), w') \<and> bare l' kb mt (ui, display, s) w'"
proof -
  from assms obtain bs where bs: "json_buffer l = decoded bs" and none: "display = None" "nvme_drive w = None"
    and hw: "0 \<le>s screen_width ui - 6" "0 \<le>s screen_height ui - 6" by (auto simp: bare_def)
  have c: "char_of_byte b = decoded [b]" "decoded bs @ decoded [b] = decoded (bs @ [b])" by (simp_all add: decoded_def)
  have json: "concat (butlast (str_chars (decoded (bs @ [96])))) = decoded bs"
  proof -
    have "decoded (bs @ [96]) = decoded bs @ [96]" by (simp add: decoded_def char_of_byte_def)
    then show ?thesis by (simp add: decoded_chars) (simp add: decoded_def)
  qed
  have handle: "\<exists>n w'. handle_json p font gd vb hv (decoded bs) (payload_count l, (ui, None, s), w) = Some (n, (ui, None, s), w') \<and> nvme_drive w' = None"
  proof -
    obtain cmd where "command_str (decoded bs) = Some cmd" using command_str_returns by blast
    moreover have "free_payload (p_read p) (payload_count l) None = Some (payload_count l, None)"
      by (subst free_payload.simps) (simp add: find_file_def)
    then have "\<exists>r. store_payload (p_read p) (p_write p) (decoded bs) (payload_count l) None = Some (r, payload_count l, None)"
      by (simp add: store_payload_def save_file_def read_mft_def)
    ultimately show ?thesis using none(2)
      by (auto simp: handle_json_def run_json_command_def screen_print_def serial_print_def split: option.split)
  qed
  show ?thesis
  proof (cases "receiving_json l \<and> char_of_byte b = [96]")
    case True
    then have "b = 96" by (simp add: char_of_byte_ascii)
    with True handle json none hw bs show ?thesis
      by (auto simp: link_byte_def Let_def c bare_def simp del: append_assoc) (auto simp: decoded_def intro: exI [of _ "[]"])
  next
    case False
    with none hw bs show ?thesis by (auto simp: link_byte_def Let_def c bare_def) (metis+)
  qed
qed

lemma bare_keeps: "tasks_keep m bare"
proof -
  have key: "\<exists>kb' d' w'. key_scancode p font gd vb hv decode b (kb, d, w) = Some (kb', d', w') \<and> bare l kb' mt d' w'"
    if "bare l kb mt d w" for p :: "('d, 'e) platform" and font gd vb hv decode b l and kb :: 'f and mt and d :: "'c desk" and w
    using that by (cases d) (auto simp: key_scancode_def bare_def serial_print_def split: prod.split option.split)
  have clamp: "\<exists>y. iclamp x 0 hi = Some y" if "0 \<le>s hi" for x hi using that by (auto simp: iclamp_def word_sless_alt word_sle_eq)
  have mouse: "\<exists>mt' d'. mouse_byte font gd vb hv b has_data mt d = Some (mt', d') \<and> bare l kb mt' d' w"
    if "bare l kb mt d w" for font gd vb hv b has_data l mt and kb :: 'f and d :: "'c desk" and w :: "('d, 'e) world"
  proof -
    obtain ui display s where d: "d = (ui, display, s)" by (cases d)
    with that have bare: "display = None" "0 \<le>s screen_width ui - 6" "0 \<le>s screen_height ui - 6" "\<exists>bs. json_buffer l = decoded bs" "nvme_drive w = None"
      by (auto simp: bare_def)
    have move: "\<exists>ui'. move_cursor x y click ui = Some ui' \<and> screen_width ui' = screen_width ui \<and> screen_height ui' = screen_height ui" for x y click
      using clamp [OF bare(2), of "cursor_x ui + x"] clamp [OF bare(3), of "cursor_y ui - y"] by (auto simp: move_cursor_def)
    have pkt: "\<exists>mt' d'. mouse_packet font gd vb hv has_data t (ui, display, s) = Some (mt', d') \<and> bare l kb mt' d' w" for t
    proof -
      let ?x = "movement (packet t ! 1) (packet t ! 0 AND 0x10 \<noteq> 0)" and ?y = "movement (packet t ! 2) (packet t ! 0 AND 0x20 \<noteq> 0)"
      obtain ui' where "move_cursor ?x ?y (packet t ! 0 AND 0x01 \<noteq> 0) ui = Some ui'" "screen_width ui' = screen_width ui"
        "screen_height ui' = screen_height ui" using move by blast
      with bare show ?thesis by (simp add: mouse_packet_def Let_def redraw_def bare_def)
    qed
    with that show ?thesis unfolding d mouse_byte_def by (auto simp: bare_def)
  qed
  show ?thesis unfolding tasks_keep_def using bare_link key mouse by (fastforce simp: physics_round_def bare_def)
qed

text \<open>A machine with a serial line: \<open>demo_ports\<close> and the bare state, with any font and any display adapter.\<close>

definition demo_machine :: "font \<Rightarrow> 'd GpuDevice \<Rightarrow> (bytes, TaskId option, 'd, nvme_dev nvme, unit, unit) machine" where
  "demo_machine font gd = \<lparr>m_ports = demo_ports, m_waker = cell_waker, m_platform = demo_platform, m_font = font, m_gpu = gd,
     m_backing = 0, m_virtio = False, m_decode = \<lambda>k b. (k, Some [b AND 0x7F])\<rparr>"

definition demo_ring :: "nat \<Rightarrow> TaskId option ring" where
  "demo_ring n = \<lparr>BUFFER = replicate n 65, HEAD = 1, TAIL = 0, WAKER = None\<rparr>"

text \<open>A byte waits in each ring and two on the serial line. A third one and the interrupt of the line come in the middle of a poll, then
  the keyboard, the mouse and the timer raise theirs.\<close>

definition demo_kernel :: "'d gpu_state \<Rightarrow> (bytes, TaskId option, 'd, nvme_dev nvme, unit) kernel" where
  "demo_kernel s = \<lparr>irqs = \<lparr>ports = [104, 105], keyboard_ring = demo_ring KEYBOARD_BUF_SIZE, serial_ring = demo_ring SERIAL_BUF_SIZE,
       mouse_ring = demo_ring MOUSE_BUF_SIZE, wakers = []\<rparr>,
     kdesk = (UI_init, None, s), kworld = demo_world\<lparr>nvme_drive := None\<rparr>,
     schedule = [[], [], [Device (\<lambda>p. p @ [123]), Raise 36], [Raise 33, Raise 44], [Raise 32]]\<rparr>"

lemma demo_kernel_ok:
  fixes s :: "'d gpu_state" and es
  defines "k \<equiv> (demo_kernel s)\<lparr>schedule := es\<rparr>"
  shows "bare genesis_init () MouseTask_init (kdesk k) (kworld k)" "ring_inv SERIAL_BUF_SIZE (serial_ring (irqs k))"
    "ring_inv KEYBOARD_BUF_SIZE (keyboard_ring (irqs k))" "ring_inv MOUSE_BUF_SIZE (mouse_ring (irqs k))"
    "\<forall>r \<in> {serial_ring (irqs k), keyboard_ring (irqs k), mouse_ring (irqs k)}. (\<lambda>c. c) (WAKER r) = None"
proof -
  have "\<exists>bs. [] = decoded bs" by (rule exI [of _ "[]"]) (simp add: decoded_def)
  then show "bare genesis_init () MouseTask_init (kdesk k) (kworld k)"
    by (simp add: bare_def genesis_init_def demo_kernel_def k_def UI_init_def word_sle_eq)
qed (simp_all add: k_def demo_kernel_def demo_ring_def ring_inv_def SERIAL_BUF_SIZE_def KEYBOARD_BUF_SIZE_def MOUSE_BUF_SIZE_def)

lemma demo_ports_uart: "uart_conforms demo_ports (\<lambda>p. p)"
  by (simp add: uart_conforms_def demo_ports_def)

interpretation demo: kernel_machine "demo_machine font gd" "\<lambda>c. c" "\<lambda>p. p" bare "list_queue 100" "\<lambda>q. q" for font gd
  by unfold_locales (simp_all add: demo_machine_def demo_ports_uart cell_waker_ok list_queue_ok bare_keeps)

subsection \<open>No task is lost\<close>





end
