(* ===== verification/Kernel_Input.thy ===== *)
theory Kernel_Input
  imports Kernel_Loop
begin

text \<open>
  From the wire to the disk: the serial interrupt, the ring, the stream, the neural link and the file system in one poll of the
  task by the executor.
\<close>

subsection \<open>A poll consumes the ring\<close>

text \<open>A task whose body only looks at its local variables, the desktop and the devices takes all bytes of the ring, in order, when no
  interrupt comes in between; a panic of the body is included.\<close>

locale stream_reader =
  fixes ring :: "('p, 'c, TaskId) irq_state \<Rightarrow> 'c ring"
    and ring_update :: "('c ring \<Rightarrow> 'c ring) \<Rightarrow> ('p, 'c, TaskId) irq_state \<Rightarrow> ('p, 'c, TaskId) irq_state"
    and poll_next :: "('c, TaskId) AtomicWaker \<Rightarrow> TaskId \<Rightarrow> 'c ring \<Rightarrow> ('c ring \<times> poll) option" and n :: nat
    and body :: "u8 \<Rightarrow> 't \<times> ('p, 'c, 'd, 's, 'h) kernel \<Rightarrow> ('t \<times> ('p, 'c, 'd, 's, 'h) kernel) option"
    and f :: "u8 \<Rightarrow> 't \<times> 'd desk \<times> ('s, 'h) world \<Rightarrow> ('t \<times> 'd desk \<times> ('s, 'h) world) option"
  assumes poll: "poll_next aw = ring_poll_next aw n"
    and ring_update: "ring (ring_update g s) = g (ring s)" "ring_update (\<lambda>_. r) (ring_update g s) = ring_update (\<lambda>_. r) s"
    and body: "body b (t, k) = map_option (\<lambda>(t, d, w). (t, k\<lparr>kdesk := d, kworld := w\<rparr>)) (f b (t, kdesk k, kworld k))"
begin

lemma reads_all:
  assumes "schedule k = []" "ring_inv n (ring (irqs k))"
  shows "\<exists>r. ring_inv n r \<and> content n r = [] \<and> WAKER r = aw_register (m_waker m) i (WAKER (ring (irqs k))) \<and>
    stream_loop (stream_turn m ring ring_update poll_next body i) (t, k) =
      map_option (\<lambda>(t, d, w). (t, k\<lparr>irqs := ring_update (\<lambda>_. r) (irqs k), kdesk := d, kworld := w\<rparr>))
        (for_each (content n (ring (irqs k))) f (t, kdesk k, kworld k))"
  using assms
proof (induction "content n (ring (irqs k))" arbitrary: t k)
  case Nil
  let ?r = "(ring (irqs k))\<lparr>WAKER := aw_register (m_waker m) i (WAKER (ring (irqs k)))\<rparr>"
  have hw: "hardware m k = Some k" using Nil.prems(1) by (simp add: hardware_def)
  have "HEAD (ring (irqs k)) = TAIL (ring (irqs k))" using Nil.hyps content_Nil [OF Nil.prems(2)] by simp
  then have "stream_turn m ring ring_update poll_next body i (t, k) = Some (False, t, k\<lparr>irqs := ring_update (\<lambda>_. ?r) (irqs k)\<rparr>)"
    using hw by (simp add: stream_turn_def poll ring_poll_next_def)
  with Nil show ?case by (intro exI [of _ ?r], subst stream_loop.simps) (simp add: Nil.hyps [symmetric])
next
  case (Cons b bs)
  let ?r = "ring (irqs k)"
  have hw: "hardware m k = Some k" using Cons.prems(1) by (simp add: hardware_def)
  have ne: "HEAD ?r \<noteq> TAIL ?r" using Cons.hyps(2) content_Nil [OF Cons.prems(2)] by auto
  define r1 where "r1 = ?r\<lparr>TAIL := (TAIL ?r + 1) mod n\<rparr>"
  have r1: "ring_inv n r1" "content n r1 = bs" "WAKER r1 = WAKER ?r" "ring_poll_next (m_waker m) n i ?r = Some (r1, Ready b)"
    using content_read [OF Cons.prems(2) ne] Cons.hyps(2) Cons.prems(2) ne
    by (simp_all add: r1_def ring_poll_next_def ring_pop_def array_simps ring_inv_def)
  let ?k = "k\<lparr>irqs := ring_update (\<lambda>_. r1) (irqs k)\<rparr>"
  have turn: "stream_turn m ring ring_update poll_next body i (t, k) =
      map_option (\<lambda>(t, d, w). (True, t, ?k\<lparr>kdesk := d, kworld := w\<rparr>)) (f b (t, kdesk k, kworld k))"
    using hw r1(4) by (cases "f b (t, kdesk k, kworld k)") (auto simp: stream_turn_def poll body)
  show ?case
  proof (cases "f b (t, kdesk k, kworld k)")
    case None
    let ?e = "r1\<lparr>TAIL := HEAD r1, WAKER := aw_register (m_waker m) i (WAKER ?r)\<rparr>"
    have "ring_inv n ?e" "content n ?e = []" using r1(1) by (simp_all add: ring_inv_def content_def ring_len_def)
    with None turn show ?thesis
      by (intro exI [of _ ?e], subst stream_loop.simps) (simp add: Cons.hyps(2) [symmetric])
  next
    case (Some u)
    obtain t1 d w where u: "u = (t1, d, w)" by (cases u)
    let ?fin = "?k\<lparr>kdesk := d, kworld := w\<rparr>"
    have "bs = content n (ring (irqs ?fin))" "schedule ?fin = []" "ring_inv n (ring (irqs ?fin))"
      using r1 Cons.prems(1) by (simp_all add: ring_update)
    from Cons.hyps(1) [OF this, of t1] obtain r where r: "ring_inv n r" "content n r = []" "WAKER r = aw_register (m_waker m) i (WAKER r1)"
      "stream_loop (stream_turn m ring ring_update poll_next body i) (t1, ?fin) =
        map_option (\<lambda>(t, d, w). (t, ?fin\<lparr>irqs := ring_update (\<lambda>_. r) (irqs ?fin), kdesk := d, kworld := w\<rparr>)) (for_each bs f (t1, d, w))"
      using r1(2) by (auto simp: ring_update)
    have "stream_loop (stream_turn m ring ring_update poll_next body i) (t, k) = stream_loop (stream_turn m ring ring_update poll_next body i) (t1, ?fin)"
      using turn Some u by (subst stream_loop.simps) simp
    with r r1(3) Some u show ?thesis
      by (intro exI [of _ r]) (simp add: Cons.hyps(2) [symmetric] ring_update case_prod_beta)
  qed
qed

end

interpretation serial_reader: stream_reader serial_ring serial_ring_update serial_poll_next 65536 "genesis_body m"
    "link_byte (m_platform m) (m_font m) (m_gpu m) (m_backing m) (m_virtio m)" for m :: "('p, 'c, 'd, 's, 'h, 'k) machine"
  by unfold_locales (auto simp: serial_poll_next_def SERIAL_BUF_SIZE_def genesis_body_def split: option.splits bind_splits)

interpretation keyboard_reader: stream_reader keyboard_ring keyboard_ring_update scancode_poll_next 256 "keypress_body m"
    "key_scancode (m_platform m) (m_font m) (m_gpu m) (m_backing m) (m_virtio m) (m_decode m)" for m :: "('p, 'c, 'd, 's, 'h, 'k) machine"
  by unfold_locales (auto simp: scancode_poll_next_def KEYBOARD_BUF_SIZE_def keypress_body_def split: option.splits bind_splits)

subsection \<open>The serial interrupt\<close>

lemma loop_hardware:
  assumes "hardware m k = Some k1" "schedule k1 = []"
  shows "stream_loop (stream_turn m ring ring_update poll_next body i) (t, k) = stream_loop (stream_turn m ring ring_update poll_next body i) (t, k1)"
proof -
  have "hardware m k1 = Some k1" using assms(2) by (simp add: hardware_def)
  with assms(1) have "stream_turn m ring ring_update poll_next body i (t, k) = stream_turn m ring ring_update poll_next body i (t, k1)"
    by (simp add: stream_turn_def)
  then show ?thesis by (subst (1 2) stream_loop.simps) simp
qed

text \<open>The interrupt of the line brings the bytes of its FIFO into the ring.\<close>

lemma serial_interrupt_ok:
  assumes "uart_conforms (m_ports m) rx" "schedule k = [[Raise 36]]" "ring_inv 65536 (serial_ring (irqs k))"
    "length (content 65536 (serial_ring (irqs k)) @ rx (ports (irqs k))) \<le> 65535"
  shows "\<exists>s. hardware m k = Some (k\<lparr>irqs := s, schedule := []\<rparr>) \<and> ring_inv 65536 (serial_ring s) \<and>
    content 65536 (serial_ring s) = content 65536 (serial_ring (irqs k)) @ rx (ports (irqs k))"
proof -
  from drain_fifo_ok [OF assms(1,3)] obtain p r ws where d: "drain_fifo (m_ports m) (m_waker m) (irqs k) =
      Some ((irqs k)\<lparr>ports := p, serial_ring := r, wakers := wakers (irqs k) @ ws\<rparr>)" "ring_inv 65536 r"
    "content 65536 r = enqueue_all 65535 (content 65536 (serial_ring (irqs k))) (rx (ports (irqs k)))" by blast
  have "content 65536 r = content 65536 (serial_ring (irqs k)) @ rx (ports (irqs k))" using d(3) assms(4) by (simp add: enqueue_all_def)
  with d assms(2) show ?thesis
    by (intro exI [of _ "(irqs k)\<lparr>serial_ring := r, wakers := wakers (irqs k) @ ws, ports := notify_end_of_interrupt (m_ports m) 36 p\<rparr>"])
      (simp add: hardware_def IDT_def PIC_1_OFFSET_def serial1_interrupt_handler_def)
qed

lemma link_poll_reads:
  assumes "uart_conforms (m_ports m) rx" "schedule k = [[Raise 36]]" "ring_inv 65536 (serial_ring (irqs k))"
    "length (content 65536 (serial_ring (irqs k)) @ rx (ports (irqs k))) \<le> 65535"
  shows "\<exists>s. content 65536 (serial_ring s) = [] \<and> kernel_poll m (Genesis_init l) i (Some k) =
    (case for_each (content 65536 (serial_ring (irqs k)) @ rx (ports (irqs k)))
        (link_byte (m_platform m) (m_font m) (m_gpu m) (m_backing m) (m_virtio m)) (l, kdesk k, kworld k) of
       None \<Rightarrow> (Blocked, Genesis_init l, [], None)
     | Some (l, d, w) \<Rightarrow> (Blocked, Genesis_init l, wakers s, Some (k\<lparr>irqs := s, schedule := [], kdesk := d, kworld := w\<rparr>)))"
proof -
  let ?k = "k\<lparr>irqs := (irqs k)\<lparr>wakers := []\<rparr>\<rparr>"
  obtain s0 where s0: "hardware m ?k = Some (?k\<lparr>irqs := s0, schedule := []\<rparr>)" "ring_inv 65536 (serial_ring s0)"
    "content 65536 (serial_ring s0) = content 65536 (serial_ring (irqs k)) @ rx (ports (irqs k))"
    using serial_interrupt_ok [OF assms(1), of ?k] assms(2-4) by auto
  let ?base = "?k\<lparr>irqs := s0, schedule := []\<rparr>"
  have loop: "stream_loop (serial_turn m i) (l, ?k) = stream_loop (serial_turn m i) (l, ?base)"
    using loop_hardware [OF s0(1), of serial_ring serial_ring_update serial_poll_next "genesis_body m" i l] unfolding serial_turn_def by simp
  have "schedule ?base = []" "ring_inv 65536 (serial_ring (irqs ?base))" using s0(2) by simp_all
  from serial_reader.reads_all [OF this, where m = m and i = i and t = l] obtain r where r: "content 65536 r = []"
    "stream_loop (serial_turn m i) (l, ?base) = map_option (\<lambda>(t, d, w). (t, ?base\<lparr>irqs := s0\<lparr>serial_ring := r\<rparr>, kdesk := d, kworld := w\<rparr>))
      (for_each (content 65536 (serial_ring s0)) (link_byte (m_platform m) (m_font m) (m_gpu m) (m_backing m) (m_virtio m)) (l, kdesk k, kworld k))"
    unfolding serial_turn_def by auto
  have quiet: "hardware m (k'\<lparr>schedule := []\<rparr>) = Some (k'\<lparr>schedule := []\<rparr>)" for k' :: "('a, 'b, 'c, 'd, 'e) kernel" by (simp add: hardware_def)
  show ?thesis
  proof (cases "for_each (content 65536 (serial_ring s0)) (link_byte (m_platform m) (m_font m) (m_gpu m) (m_backing m) (m_virtio m)) (l, kdesk k, kworld k)")
    case None
    with loop r s0(3) show ?thesis
      by (intro exI [of _ "s0\<lparr>serial_ring := r\<rparr>"]) (simp add: kernel_poll_def stream_poll_def)
  next
    case (Some u)
    obtain l' d w where u: "u = (l', d, w)" by (cases u)
    let ?fin = "k\<lparr>irqs := s0\<lparr>serial_ring := r\<rparr>, schedule := [], kdesk := d, kworld := w\<rparr>"
    have "hardware m ?fin = Some ?fin" by (simp add: hardware_def)
    moreover have "stream_loop (serial_turn m i) (l, ?k) = Some (l', ?fin)" using loop r(2) Some u by simp
    ultimately show ?thesis using r(1) Some u s0(3)
      by (intro exI [of _ "s0\<lparr>serial_ring := r\<rparr>"]) (simp add: kernel_poll_def stream_poll_def)
  qed
qed

subsection \<open>From the wire to the disk\<close>


text \<open>One byte of noise waits in the ring; a new line and the frame are in the receive FIFO of the machine with a drive.\<close>

definition wire_kernel :: "'d gpu_state \<Rightarrow> (bytes, TaskId option, 'd, nvme_dev nvme, unit) kernel" where
  "wire_kernel s = (demo_kernel s)\<lparr>irqs := (irqs (demo_kernel s))\<lparr>ports := 10 # 123 # [34, 112, 97, 121, 108, 111, 97, 100, 34, 125] @ [96]\<rparr>,
     kworld := demo_world, schedule := [[Raise 36]]\<rparr>"


end
