(* ===== verification/Virtio_Init.thy ===== *)
theory Virtio_Init
  imports Desktop_Tasks Pci
begin

text \<open>
  The handshake with the graphics adapter, \<open>init_virtio_device\<close> of \<^verbatim>\<open>kernel/src/virtio_pci.rs\<close>: find and map the
  configuration of the device, walk it through its status steps, hand it the control queue, and set the screen up. The
  configuration registers are a parameter of the device: a read and a write by address, narrower values extended with zeros.
\<close>

unbundle bit_operations_syntax

subsection \<open>Registers\<close>

definition VIRTIO_STATUS_ACKNOWLEDGE :: u8 where "VIRTIO_STATUS_ACKNOWLEDGE = 1"
definition VIRTIO_STATUS_DRIVER :: u8 where "VIRTIO_STATUS_DRIVER = 2"
definition VIRTIO_STATUS_DRIVER_OK :: u8 where "VIRTIO_STATUS_DRIVER_OK = 4"
definition VIRTIO_STATUS_FEATURES_OK :: u8 where "VIRTIO_STATUS_FEATURES_OK = 8"

record 'd Transport =
  tr_read :: "nat \<Rightarrow> 'd \<Rightarrow> u64 \<times> 'd"
  tr_write :: "nat \<Rightarrow> u64 \<Rightarrow> 'd \<Rightarrow> 'd"

text \<open>The statics and resources the routine changes.\<close>

record ('fa, 'pt, 'd) gpu_boot =
  b_frames :: 'fa
  b_tables :: 'pt
  b_dev :: 'd
  b_mem :: gpu_mem
  b_ui :: UI
  b_writer :: "GpuDriver option"
  b_engine :: "SplatEngine option"
  b_backing :: nat
  b_gpu :: "VirtioGpuDriver option"

subsection \<open>The handshake\<close>

text \<open>Steps 1 to 5: the status that was set last, and whether the device accepted the features.\<close>

definition handshake :: "'d Transport \<Rightarrow> nat \<Rightarrow> 'd \<Rightarrow> u8 \<times> bool \<times> 'd" where
  "handshake tr cfg d = (
     let sp = cfg + 0x14;
         d = tr_write tr sp 0 d;
         (v, d) = tr_read tr sp d;
         status = ucast v OR VIRTIO_STATUS_ACKNOWLEDGE;
         d = tr_write tr sp (ucast status) d;
         status = status OR VIRTIO_STATUS_DRIVER;
         d = tr_write tr sp (ucast status) d;
         status = status OR VIRTIO_STATUS_FEATURES_OK;
         d = tr_write tr sp (ucast status) d;
         (check, d) = tr_read tr sp d
     in (status, (ucast check :: u8) AND VIRTIO_STATUS_FEATURES_OK \<noteq> 0, d))"

text \<open>The end of step 6 and step 7: the rings, the doorbell, the queue is enabled and the driver is ready.\<close>

definition wire_queue :: "'d Transport \<Rightarrow> nat \<Rightarrow> nat \<Rightarrow> u32 \<Rightarrow> u8 \<Rightarrow> nat \<times> nat \<times> nat \<Rightarrow> VirtioGpuDriver \<Rightarrow> 'd \<Rightarrow> VirtioGpuDriver \<times> 'd" where
  "wire_queue tr cfg ncfg multiplier status = (\<lambda>(desc_phys, avail_phys, used_phys) drv d.
     let d = tr_write tr (cfg + 0x20) (of_nat desc_phys) d;
         d = tr_write tr (cfg + 0x28) (of_nat avail_phys) d;
         d = tr_write tr (cfg + 0x30) (of_nat used_phys) d;
         (q_notify_off, d) = tr_read tr (cfg + 0x1E) d;
         doorbell = unat (of_nat ncfg + ucast (ucast q_notify_off :: u16) * ucast multiplier :: u64);
         drv = set_notify_address doorbell drv;
         d = tr_write tr (cfg + 0x1C) 1 d;
         status = status OR VIRTIO_STATUS_DRIVER_OK
     in (drv, tr_write tr (cfg + 0x14) (ucast status) d))"

text \<open>From the mapped configuration to the live device.\<close>

definition start_device :: "'d Transport \<Rightarrow> ('e, 'fa, 'pt) map_fun \<Rightarrow> 'fa frame_fun \<Rightarrow> nat \<Rightarrow> VirtioCapabilities \<Rightarrow> nat \<Rightarrow>
    ('fa, 'pt, 'd) gpu_boot \<Rightarrow> ((string, VirtioGpuDriver) result \<times> ('fa, 'pt, 'd) gpu_boot) option" where
  "start_device tr mto alf off caps cfg b = (
     let (status, accepted, d) = handshake tr cfg (b_dev b); b = b\<lparr>b_dev := d\<rparr> in
     if \<not> accepted then Some (Err ''Device refused our features!'', b)
     else let d = tr_write tr (cfg + 0x16) 0 (b_dev b); (q_size, d) = tr_read tr (cfg + 0x18) d; b = b\<lparr>b_dev := d\<rparr> in
       if (ucast q_size :: u16) = 0 then Some (Err ''GPU reports Control Queue size is 0.'', b)
       else case map_mmio mto (unat (notify_cfg_phys caps)) 4096 (b_frames b) (b_tables b) of
           (Err _, fa, pt) \<Rightarrow> Some (Err ''Failed to map Notify_Cfg MMIO space.'', b\<lparr>b_frames := fa, b_tables := pt\<rparr>)
         | (Ok ncfg, fa, pt) \<Rightarrow> do {
             let b = b\<lparr>b_frames := fa, b_tables := pt\<rparr>;
             (r, drv, fa, m) \<leftarrow> setup_control_queue alf off (VirtioGpuDriver_new (unat (common_cfg_phys caps))) (b_frames b) (b_mem b);
             let b = b\<lparr>b_frames := fa, b_mem := m\<rparr>;
             Some (case r of
                 Err e \<Rightarrow> (Err e, b)
               | Ok rings \<Rightarrow> (let (drv, d) = wire_queue tr cfg ncfg (notify_off_multiplier caps) status rings drv (b_dev b)
                   in (Ok drv, b\<lparr>b_dev := d\<rparr>))) })"

definition configure_device :: "'d Transport \<Rightarrow> ('e, 'fa, 'pt) map_fun \<Rightarrow> 'fa frame_fun \<Rightarrow> nat \<Rightarrow> VirtioCapabilities \<Rightarrow>
    ('fa, 'pt, 'd) gpu_boot \<Rightarrow> ((string, VirtioGpuDriver) result \<times> ('fa, 'pt, 'd) gpu_boot) option" where
  "configure_device tr mto alf off caps b = (case map_mmio mto (unat (common_cfg_phys caps)) 4096 (b_frames b) (b_tables b) of
       (Err _, fa, pt) \<Rightarrow> Some (Err ''Failed to map Common Configuration MMIO space.'', b\<lparr>b_frames := fa, b_tables := pt\<rparr>)
     | (Ok cfg, fa, pt) \<Rightarrow> start_device tr mto alf off caps cfg (b\<lparr>b_frames := fa, b_tables := pt\<rparr>))"

subsection \<open>The screen\<close>

text \<open>The size of the top-most window, 0.4 times the screen in single precision, comes out as 768 by 432.\<close>

definition center_window :: "SemanticWindow \<Rightarrow> SemanticWindow" where
  "center_window win = (let win = win\<lparr>ww := 768, wh := 432\<rparr> in move_to (idivp (1920 - ww win) 2) (idivp (1080 - wh win) 2) win)"

definition center_nebula :: "GaussianSplat list \<Rightarrow> GaussianSplat list" where
  "center_nebula ns = (case ns of
     a # b # rest \<Rightarrow> a\<lparr>sp_x := 960 - 200, sp_y := 540 - 100\<rparr> # b\<lparr>sp_x := 960 + 200, sp_y := 540 + 100\<rparr> # rest
   | _ \<Rightarrow> ns)"

definition center_desktop :: "SplatEngine \<Rightarrow> SplatEngine" where
  "center_desktop engine = engine\<lparr>
     windows := (if windows engine = [] then [] else butlast (windows engine) @ [center_window (last (windows engine))]),
     nebula_splats := center_nebula (nebula_splats engine)\<rparr>"

text \<open>The frame memory: 1920 times 1080 pixels of four bytes, in whole pages.\<close>

definition bytes_needed :: nat where "bytes_needed = 1920 * 1080 * 4"
definition pages_needed :: nat where "pages_needed = (bytes_needed + 4095) div 4096"

definition attach_frame_memory :: "'d GpuDevice \<Rightarrow> 'fa frame_fun \<Rightarrow> nat \<Rightarrow> 'd gpu_state \<Rightarrow> ('fa, 'pt, 'd) gpu_boot \<Rightarrow>
    ('d gpu_state \<times> ('fa, 'pt, 'd) gpu_boot) option" where
  "attach_frame_memory gd alf off s b = (case allocate_dma_frames alf off pages_needed (b_frames b) of
       (None, fa) \<Rightarrow> Some (s, b\<lparr>b_frames := fa\<rparr>)
     | (Some (phys, virt, Z), fa) \<Rightarrow> do {
         let b = b\<lparr>b_frames := fa, b_backing := virt\<rparr>;
         let s = s\<lparr>gmem := (gmem s)\<lparr>box := \<lambda>a. if off \<le> a \<and> a - off \<in> Z then 0 else box (gmem s) a\<rparr>\<rparr>;
         (_, s) \<leftarrow> attach_backing gd 1 (of_nat phys) (of_nat bytes_needed) s;
         (_, s) \<leftarrow> set_scanout gd 0 1 1920 1080 s;
         Some (s, b) })"

definition prime_display :: "'d GpuDevice \<Rightarrow> 'fa frame_fun \<Rightarrow> nat \<Rightarrow> VirtioGpuDriver \<Rightarrow> ('fa, 'pt, 'd) gpu_boot \<Rightarrow>
    ('fa, 'pt, 'd) gpu_boot option" where
  "prime_display gd alf off drv b = do {
     let b = b\<lparr>b_ui := (b_ui b)\<lparr>screen_width := 1920, screen_height := 1080\<rparr>,
       b_writer := map_option (resize_to_hardware 1920 1080) (b_writer b), b_engine := map_option center_desktop (b_engine b)\<rparr>;
     (_, s) \<leftarrow> create_2d_canvas gd 1 1920 1080 \<lparr>gdrv = drv, gmem = b_mem b, gdev = b_dev b\<rparr>;
     (s, b) \<leftarrow> attach_frame_memory gd alf off s b;
     Some (b\<lparr>b_dev := gdev s, b_mem := gmem s, b_gpu := Some (gdrv s)\<rparr>) }"

definition init_virtio_device :: "config \<Rightarrow> 'd Transport \<Rightarrow> 'd GpuDevice \<Rightarrow> ('e, 'fa, 'pt) map_fun \<Rightarrow> 'fa frame_fun \<Rightarrow> nat \<Rightarrow>
    u8 \<Rightarrow> u8 \<Rightarrow> u8 \<Rightarrow> ('fa, 'pt, 'd) gpu_boot \<Rightarrow> ((string, unit) result \<times> ('fa, 'pt, 'd) gpu_boot) option" where
  "init_virtio_device cfg tr gd mto alf off bus slot func b = (case find_capabilities cfg bus slot func of
       None \<Rightarrow> Some (Err ''Failed to find required VirtIO Capabilities.'', b)
     | Some caps \<Rightarrow> do {
         (r, b) \<leftarrow> configure_device tr mto alf off caps b;
         (case r of
            Err e \<Rightarrow> Some (Err e, b)
          | Ok drv \<Rightarrow> do { b \<leftarrow> prime_display gd alf off drv b; Some (Ok (), b) }) })"

subsection \<open>The order of the register writes\<close>

text \<open>A transport that also records the writes.\<close>

definition logged :: "'d Transport \<Rightarrow> ('d \<times> (nat \<times> u64) list) Transport" where
  "logged tr = \<lparr>tr_read = \<lambda>a x. (let (v, d) = tr_read tr a (fst x) in (v, (d, snd x))),
     tr_write = \<lambda>a v x. (tr_write tr a v (fst x), snd x @ [(a, v)])\<rparr>"

lemma logged_simps [simp]:
  "tr_write (logged tr) a v (d, l) = (tr_write tr a v d, l @ [(a, v)])"
  "tr_read (logged tr) a (d, l) = (let (v, d) = tr_read tr a d in (v, (d, l)))"
  by (simp_all add: logged_def)

text \<open>The writes the specification of the transport asks for, for a device whose status reads \<open>st\<close> after the reset and rings at
  \<open>desc\<close>.\<close>

definition startup_writes :: "nat \<Rightarrow> u8 \<Rightarrow> nat \<Rightarrow> (nat \<times> u64) list" where
  "startup_writes cfg st desc = [(cfg + 0x14, 0), (cfg + 0x14, ucast (st OR 1)), (cfg + 0x14, ucast (st OR 3)),
     (cfg + 0x14, ucast (st OR 11)), (cfg + 0x16, 0), (cfg + 0x20, of_nat desc), (cfg + 0x28, of_nat (desc + 1024)),
     (cfg + 0x30, of_nat (desc + 1160)), (cfg + 0x1C, 1), (cfg + 0x14, ucast (st OR 15))]"

lemmas status_defs = VIRTIO_STATUS_ACKNOWLEDGE_def VIRTIO_STATUS_DRIVER_def VIRTIO_STATUS_FEATURES_OK_def VIRTIO_STATUS_DRIVER_OK_def

lemma handshake_log:
  "\<exists>st ok d'. handshake (logged tr) cfg (d, l) = (st OR 11, ok, d', l @ take 4 (startup_writes cfg st desc))"
proof -
  let ?v = "tr_read tr (cfg + 0x14) (tr_write tr (cfg + 0x14) 0 d)"
  let ?st = "ucast (fst ?v) :: u8"
  have "\<exists>ok d'. handshake (logged tr) cfg (d, l) = (?st OR 11, ok, d', l @ take 4 (startup_writes cfg ?st desc))"
    by (simp add: handshake_def Let_def case_prod_beta startup_writes_def status_defs or.assoc)
  then show ?thesis by blast
qed

lemma wire_queue_log:
  "\<exists>a d'. wire_queue (logged tr) cfg ncfg k (st OR 11) (desc, desc + 1024, desc + 1160) drv (d, l) =
    (set_notify_address a drv, d', l @ drop 5 (startup_writes cfg st desc))"
  by (simp add: wire_queue_def Let_def case_prod_beta startup_writes_def status_defs or.assoc) blast

lemma setup_queue_ok:
  assumes "setup_control_queue alf off drv fa m = Some (Ok rings, drv', fa', m')"
  shows "\<exists>desc mp mv vq. rings = (desc, desc + 1024, desc + 1160) \<and>
    drv' = drv\<lparr>control_queue_virt := Some (off + desc), mailbox_phys := Some mp, mailbox_virt := Some mv\<rparr> \<and>
    VirtQueue_new = Some vq \<and> vq_heap m' (off + desc) = vq"
  using assms
  by (auto simp: setup_control_queue_def Let_def allocate_dma_frames_def avail_offset_def used_offset_def
      split: prod.splits option.splits bind_splits bool.splits) blast

lemma start_device_log:
  assumes "start_device (logged tr) mto alf off caps cfg b = Some (r, b')" "snd (b_dev b) = []"
  shows "\<exists>st desc n. snd (b_dev b') = take n (startup_writes cfg st desc) \<and> (case r of
      Err _ \<Rightarrow> n \<le> 5
    | Ok drv \<Rightarrow> n = 10 \<and> control_queue_virt drv = Some (off + desc) \<and> VirtQueue_new = Some (vq_heap (b_mem b') (off + desc)) \<and>
        notify_address drv \<noteq> None \<and> mailbox_virt drv \<noteq> None \<and> mailbox_phys drv \<noteq> None)"
proof -
  obtain d0 where d0: "b_dev b = (d0, [])" using assms(2) by (cases "b_dev b") simp
  obtain st ok d1 where h: "\<And>desc. handshake (logged tr) cfg (d0, []) = (st OR 11, ok, d1, take 4 (startup_writes cfg st desc))"
  proof -
    from handshake_log [of tr cfg d0 "[]" 0] obtain st ok d1 where
      "handshake (logged tr) cfg (d0, []) = (st OR 11, ok, d1, take 4 (startup_writes cfg st 0))" by auto
    moreover have "take 4 (startup_writes cfg st desc) = take 4 (startup_writes cfg st 0)" for desc by (simp add: startup_writes_def)
    ultimately show ?thesis using that by metis
  qed
  have sel: "take 4 (startup_writes cfg st desc) @ [(cfg + 0x16, 0)] = take 5 (startup_writes cfg st desc)" for desc
    by (simp add: startup_writes_def)
  have all: "take 5 (startup_writes cfg st desc) @ drop 5 (startup_writes cfg st desc) = take 10 (startup_writes cfg st desc)" for desc
    by (simp add: startup_writes_def)
  let ?q = "tr_read tr (cfg + 0x18) (tr_write tr (cfg + 0x16) 0 d1)"
  show ?thesis
  proof (cases "ok \<and> (ucast (fst ?q) :: u16) \<noteq> 0")
    case False
    then have "snd (b_dev b') = take (if ok then 5 else 4) (startup_writes cfg st 0) \<and> (\<exists>e. r = Err e)"
      using assms(1) h [of 0] sel [of 0] by (cases ok) (auto simp: start_device_def d0 Let_def case_prod_beta)
    then show ?thesis by (intro exI [of _ st] exI [of _ 0] exI [of _ "if ok then 5 else 4"]) auto
  next
    case ok: True
    let ?b = "b\<lparr>b_dev := (snd ?q, take 5 (startup_writes cfg st 0))\<rparr>"
    obtain mr fa pt where mm: "map_mmio mto (unat (notify_cfg_phys caps)) 4096 (b_frames b) (b_tables b) = (mr, fa, pt)"
      by (metis prod_cases3)
    show ?thesis
    proof (cases mr)
      case (Inl e)
      then have "snd (b_dev b') = take 5 (startup_writes cfg st 0)" "\<exists>e. r = Err e"
        using assms(1) h [of 0] sel [of 0] ok mm by (auto simp: start_device_def d0 Let_def case_prod_beta)
      then show ?thesis by (intro exI [of _ st] exI [of _ 0] exI [of _ 5]) auto
    next
      case (Inr ncfg)
      let ?drv = "VirtioGpuDriver_new (unat (common_cfg_phys caps))"
      obtain r1 drv1 fa1 m1 where su: "setup_control_queue alf off ?drv fa (b_mem b) = Some (r1, drv1, fa1, m1)"
        using assms(1) h [of 0] ok mm Inr by (auto simp: start_device_def d0 Let_def case_prod_beta split: bind_splits)
      show ?thesis
      proof (cases r1)
        case (Inl e)
        then have "snd (b_dev b') = take 5 (startup_writes cfg st 0)" "\<exists>e. r = Err e"
          using assms(1) h [of 0] sel [of 0] ok mm Inr su by (auto simp: start_device_def d0 Let_def case_prod_beta)
        then show ?thesis by (intro exI [of _ st] exI [of _ 0] exI [of _ 5]) auto
      next
        case ok1: (Inr rings)
        from setup_queue_ok [OF su [unfolded ok1]] obtain desc mp mv where s: "rings = (desc, desc + 1024, desc + 1160)"
          "drv1 = ?drv\<lparr>control_queue_virt := Some (off + desc), mailbox_phys := Some mp, mailbox_virt := Some mv\<rparr>"
          "VirtQueue_new = Some (vq_heap m1 (off + desc))" by auto
        from wire_queue_log [of tr cfg ncfg "notify_off_multiplier caps" st desc drv1 "snd ?q" "take 5 (startup_writes cfg st desc)"]
        obtain a d' where w: "wire_queue (logged tr) cfg ncfg (notify_off_multiplier caps) (st OR 11) rings drv1
            (snd ?q, take 5 (startup_writes cfg st desc)) = (set_notify_address a drv1, d', take 10 (startup_writes cfg st desc))"
          unfolding s(1) all by blast
        have "r = Ok (set_notify_address a drv1)" "snd (b_dev b') = take 10 (startup_writes cfg st desc)" "b_mem b' = m1"
          using assms(1) h [of desc] sel [of desc] ok mm Inr su ok1 w by (auto simp: start_device_def d0 Let_def case_prod_beta)
        then show ?thesis using s(2,3) by (intro exI [of _ st] exI [of _ desc] exI [of _ 10]) (simp add: set_notify_address_def)
      qed
    qed
  qed
qed

text \<open>C22. The device is brought up in the order of the specification: whatever the device answers, the writes to its configuration
  are a prefix of reset, ACKNOWLEDGE, DRIVER, FEATURES\_OK, queue selection, the addresses of the three rings, queue enable and
  DRIVER\_OK; an error stops before the first ring address, so the device never sees DRIVER\_OK or an enabled queue; success means
  all ten writes, and the ring addresses are those of the fresh queue the driver then uses.\<close>

theorem virtio_startup_order:
  assumes "configure_device (logged tr) mto alf off caps b = Some (r, b')" "snd (b_dev b) = []"
  shows "\<exists>st desc n. snd (b_dev b') = take n (startup_writes (unat (common_cfg_phys caps)) st desc) \<and> (case r of
      Err _ \<Rightarrow> n \<le> 5
    | Ok drv \<Rightarrow> n = 10 \<and> control_queue_virt drv = Some (off + desc) \<and> VirtQueue_new = Some (vq_heap (b_mem b') (off + desc)) \<and>
        notify_address drv \<noteq> None \<and> mailbox_virt drv \<noteq> None \<and> mailbox_phys drv \<noteq> None)"
proof (cases "map_mmio mto (unat (common_cfg_phys caps)) 4096 (b_frames b) (b_tables b)")
  case (fields mr fa pt)
  show ?thesis
  proof (cases mr)
    case (Inl e)
    then have "snd (b_dev b') = take 0 (startup_writes (unat (common_cfg_phys caps)) 0 0)" "\<exists>e. r = Err e"
      using assms fields by (auto simp: configure_device_def)
    then show ?thesis by (intro exI [of _ 0] exI [of _ "0 :: nat"]) auto
  next
    case (Inr cfg)
    then have "cfg = unat (common_cfg_phys caps)" using fields by (auto simp: map_mmio_def Let_def split: prod.splits sum.splits)
    with start_device_log [of tr mto alf off caps cfg "b\<lparr>b_frames := fa, b_tables := pt\<rparr>" r b'] assms fields Inr
    show ?thesis by (simp add: configure_device_def)
  qed
qed

subsection \<open>The desktop after the handshake\<close>

lemma outcome_ready:
  assumes "command_outcome q mv a b rest cmd err s out"
  shows "\<exists>r s' xs. out = Some (r, s') \<and> gdrv s' = gdrv s \<and> gpu_ready q mv xs s' \<and> length rest \<le> length xs"
  using assms unfolding command_outcome_def by (auto split: if_splits) (metis length_Cons le_SucI order.refl)+

lemma two_free: "2 \<le> length xs \<Longrightarrow> \<exists>a b rest. xs = a # b # rest \<and> length xs = length rest + 2"
  by (cases xs; cases "tl xs") auto

lemma ready_posting: "gpu_ready q mv xs s \<Longrightarrow> gpu_posting q mv s"
  by (auto simp: gpu_ready_def gpu_posting_def)

lemma ready_box: "gpu_ready q mv xs (s\<lparr>gmem := (gmem s)\<lparr>box := f\<rparr>\<rparr>) = gpu_ready q mv xs s"
  by (simp add: gpu_ready_def)

context gpu_device
begin

lemma commands_ready:
  assumes "gpu_ready q mv xs s" "2 \<le> length xs"
  shows "\<exists>r s' ys. create_2d_canvas gd i w h s = Some (r, s') \<and> gdrv s' = gdrv s \<and> gpu_ready q mv ys s' \<and> length xs \<le> length ys + 2"
    "\<exists>r s' ys. attach_backing gd i p l s = Some (r, s') \<and> gdrv s' = gdrv s \<and> gpu_ready q mv ys s' \<and> length xs \<le> length ys + 2"
    "\<exists>r s' ys. set_scanout gd k i w h s = Some (r, s') \<and> gdrv s' = gdrv s \<and> gpu_ready q mv ys s' \<and> length xs \<le> length ys + 2"
proof -
  from two_free [OF assms(2)] obtain a b rest where xs: "xs = a # b # rest" "length xs = length rest + 2" by blast
  note r = assms(1) [unfolded xs(1)]
  show "\<exists>r s' ys. create_2d_canvas gd i w h s = Some (r, s') \<and> gdrv s' = gdrv s \<and> gpu_ready q mv ys s' \<and> length xs \<le> length ys + 2"
    "\<exists>r s' ys. attach_backing gd i p l s = Some (r, s') \<and> gdrv s' = gdrv s \<and> gpu_ready q mv ys s' \<and> length xs \<le> length ys + 2"
    "\<exists>r s' ys. set_scanout gd k i w h s = Some (r, s') \<and> gdrv s' = gdrv s \<and> gpu_ready q mv ys s' \<and> length xs \<le> length ys + 2"
    using outcome_ready [OF create_2d_canvas_ok [OF r, of i w h]] outcome_ready [OF attach_backing_ok [OF r, of i p l]]
      outcome_ready [OF set_scanout_ok [OF r, of w h k i]] xs(2) by (metis add_le_cancel_right)+
qed

lemma attach_frame_memory_ok:
  assumes "gpu_ready q mv xs s" "4 \<le> length xs"
  shows "\<exists>s' b'. attach_frame_memory gd alf off s b = Some (s', b') \<and> gdrv s' = gdrv s \<and> gpu_posting q mv s' \<and>
    b_ui b' = b_ui b \<and> b_writer b' = b_writer b \<and> b_engine b' = b_engine b"
proof -
  obtain mem fa where al: "allocate_dma_frames alf off pages_needed (b_frames b) = (mem, fa)" by fastforce
  show ?thesis
  proof (cases mem)
    case None
    with al assms ready_posting show ?thesis by (auto simp: attach_frame_memory_def)
  next
    case (Some x)
    obtain phys virt Z where x: "x = (phys, virt, Z)" by (metis prod_cases3)
    let ?s = "s\<lparr>gmem := (gmem s)\<lparr>box := \<lambda>a. if off \<le> a \<and> a - off \<in> Z then 0 else box (gmem s) a\<rparr>\<rparr>"
    have s: "gpu_ready q mv xs ?s" "gdrv ?s = gdrv s" using assms(1) by (simp_all add: ready_box)
    have "2 \<le> length xs" using assms(2) by simp
    from commands_ready(2) [OF s(1) this, of 1 "of_nat phys" "of_nat bytes_needed"] obtain r1 s1 ys where
      a: "attach_backing gd 1 (of_nat phys) (of_nat bytes_needed) ?s = Some (r1, s1)" "gdrv s1 = gdrv s" "gpu_ready q mv ys s1"
      "length xs \<le> length ys + 2" using s(2) by auto
    have "2 \<le> length ys" using a(4) assms(2) by simp
    from commands_ready(3) [OF a(3) this, of 0 1 1920 1080] obtain r2 s2 zs where
      "set_scanout gd 0 1 1920 1080 s1 = Some (r2, s2)" "gdrv s2 = gdrv s1" "gpu_ready q mv zs s2" by auto
    with a al Some x ready_posting show ?thesis by (auto simp: attach_frame_memory_def Let_def)
  qed
qed

lemma prime_display_ok:
  assumes "gpu_ready q mv xs \<lparr>gdrv = drv, gmem = b_mem b, gdev = b_dev b\<rparr>" "6 \<le> length xs"
  shows "\<exists>b'. prime_display gd alf off drv b = Some b' \<and> b_gpu b' = Some drv \<and>
    gpu_posting q mv \<lparr>gdrv = drv, gmem = b_mem b', gdev = b_dev b'\<rparr> \<and>
    b_ui b' = (b_ui b)\<lparr>screen_width := 1920, screen_height := 1080\<rparr> \<and>
    b_writer b' = map_option (resize_to_hardware 1920 1080) (b_writer b) \<and> b_engine b' = map_option center_desktop (b_engine b)"
proof -
  let ?s = "\<lparr>gdrv = drv, gmem = b_mem b, gdev = b_dev b\<rparr>"
  let ?b = "b\<lparr>b_ui := (b_ui b)\<lparr>screen_width := 1920, screen_height := 1080\<rparr>,
       b_writer := map_option (resize_to_hardware 1920 1080) (b_writer b), b_engine := map_option center_desktop (b_engine b)\<rparr>"
  have "2 \<le> length xs" using assms(2) by simp
  from commands_ready(1) [OF assms(1) this, of 1 1920 1080] obtain r s1 ys where
    c: "create_2d_canvas gd 1 1920 1080 ?s = Some (r, s1)" "gdrv s1 = drv" "gpu_ready q mv ys s1" "length xs \<le> length ys + 2" by auto
  have "4 \<le> length ys" using c(4) assms(2) by simp
  from attach_frame_memory_ok [OF c(3) this, of alf off ?b] obtain s2 b2 where
    a: "attach_frame_memory gd alf off s1 ?b = Some (s2, b2)" "gdrv s2 = drv" "gpu_posting q mv s2"
      "b_ui b2 = b_ui ?b" "b_writer b2 = b_writer ?b" "b_engine b2 = b_engine ?b" using c(2) by auto
  then show ?thesis using c(1) by (simp add: prime_display_def Let_def gpu_posting_def)
qed

end

lemma wire_queue_driver: "\<exists>a d'. wire_queue tr cfg ncfg k st rings drv d = (set_notify_address a drv, d')"
  by (auto simp: wire_queue_def Let_def split: prod.splits)

lemma configure_device_ok:
  assumes "configure_device tr mto alf off caps b = Some (Ok drv, b1)"
  shows "\<exists>q mp mv. control_queue_virt drv = Some q \<and> mailbox_phys drv = Some mp \<and> mailbox_virt drv = Some mv \<and>
    VirtQueue_new = Some (vq_heap (b_mem b1) q) \<and> b_ui b1 = b_ui b \<and> b_writer b1 = b_writer b \<and> b_engine b1 = b_engine b"
proof -
  from assms obtain drv0 rings drv1 fa fa1 b0 cfg ncfg k st d where
    su: "setup_control_queue alf off drv0 fa (b_mem b) = Some (Ok rings, drv1, fa1, b_mem b1)"
    and w: "fst (wire_queue tr cfg ncfg k st rings drv1 d) = drv"
    and b: "b_ui b1 = b_ui b" "b_writer b1 = b_writer b" "b_engine b1 = b_engine b"
    by (auto simp: configure_device_def start_device_def Let_def case_prod_beta split: sum.splits if_splits prod.splits bind_splits)
  from wire_queue_driver [of tr cfg ncfg k st rings drv1 d] w obtain a where "drv = set_notify_address a drv1" by auto
  with setup_queue_ok [OF su] b show ?thesis by (auto simp: set_notify_address_def)
qed

lemma configured_ready:
  assumes "configure_device tr mto alf off caps b = Some (Ok drv, b1)" "control_queue_virt drv = Some q" "mailbox_virt drv = Some mv"
  shows "gpu_ready q mv [0..<64] \<lparr>gdrv = drv, gmem = b_mem b1, gdev = b_dev b1\<rparr>"
proof -
  obtain vq where v: "VirtQueue_new = Some vq" "free_list vq [0..<64]" "last_used_idx vq = 0" "us_idx (used vq) = 0"
    "av_idx (available vq) = 0" by (rule VirtQueue_new_free)
  from configure_device_ok [OF assms(1)] assms(2) have "VirtQueue_new = Some (vq_heap (b_mem b1) q)" "mailbox_phys drv \<noteq> None" by auto
  with v(2-5) assms(2,3) show ?thesis unfolding v(1) by (simp add: gpu_ready_def)
qed

lemma center_desktop_ok:
  assumes "engine_ok engine" "log_ok engine"
  shows "engine_ok (center_desktop engine)" "log_ok (center_desktop engine)"
proof -
  have win: "win_ok (center_window w) = win_ok w" "wstate (center_window w) = wstate w" "text_buffer (center_window w) = text_buffer w" for w
    by (simp_all add: center_window_def move_to_def Let_def win_ok_def)
  show "engine_ok (center_desktop engine)" "log_ok (center_desktop engine)"
    using assms by (cases "windows engine" rule: rev_cases; auto simp: center_desktop_def engine_ok_def log_ok_def win)+
qed

lemma resize_ok:
  assumes "screen_ok g" "length (back_buffer g) = width g * height g * bytes_per_pixel g" "bytes_per_pixel g \<le> 4"
  shows "screen_ok (resize_to_hardware 1920 1080 g)" "width (resize_to_hardware 1920 1080 g) = 1920"
    "height (resize_to_hardware 1920 1080 g) = 1080"
    "length (back_buffer (resize_to_hardware 1920 1080 g)) \<le> pages_needed * 4096"
  using assms by (auto simp: resize_to_hardware_def screen_ok_def Let_def pages_needed_def bytes_needed_def)

text \<open>The handshake leaves a desktop that runs: when the device has accepted its configuration, then, with any conforming graphics
  adapter, whether or not it carries the commands out and whether or not there is memory for the frames, \<open>init_virtio_device\<close> returns
  with success and everything the desktop tasks rely on holds: the queue has its free list, the cursor is on the screen of 1920 by
  1080 pixels, windows and logs are well formed, and a frame fits into the memory reserved for it (if the frame buffer of the boot
  loader had no padding).\<close>

lemma virtio_init_ok:
  assumes "find_capabilities cfg bus slot func = Some caps" "configure_device tr mto alf off caps b = Some (Ok drv, b1)"
    "control_queue_virt drv = Some q" "mailbox_virt drv = Some mv" "gpu_device gd q mv"
    "b_writer b = Some g" "b_engine b = Some engine" "engine_ok engine" "log_ok engine" "screen_ok g" "bytes_per_pixel g \<le> 4"
    "length (back_buffer g) = width g * height g * bytes_per_pixel g"
    "cursor_ok (b_ui b)" "sint (screen_width (b_ui b)) \<le> 1920" "sint (screen_height (b_ui b)) \<le> 1080"
  shows "\<exists>b2 g2. init_virtio_device cfg tr gd mto alf off bus slot func b = Some (Ok (), b2) \<and> b_gpu b2 = Some drv \<and>
    b_writer b2 = Some g2 \<and> width g2 = 1920 \<and> height g2 = 1080 \<and> length (back_buffer g2) \<le> pages_needed * 4096 \<and>
    b_engine b2 = Some (center_desktop engine) \<and>
    desk_ok q mv (MouseTask_init, b_ui b2, Some (center_desktop engine, g2), \<lparr>gdrv = drv, gmem = b_mem b2, gdev = b_dev b2\<rparr>)"
proof -
  have b1: "b_ui b1 = b_ui b" "b_writer b1 = b_writer b" "b_engine b1 = b_engine b" using configure_device_ok [OF assms(2)] by auto
  note ready = configured_ready [OF assms(2-4)]
  have "6 \<le> length [0..<64]" by simp
  from gpu_device.prime_display_ok [OF assms(5) ready this, of alf off] obtain b2 where
    p: "prime_display gd alf off drv b1 = Some b2" "b_gpu b2 = Some drv" "gpu_posting q mv \<lparr>gdrv = drv, gmem = b_mem b2, gdev = b_dev b2\<rparr>"
    "b_ui b2 = (b_ui b)\<lparr>screen_width := 1920, screen_height := 1080\<rparr>" "b_writer b2 = Some (resize_to_hardware 1920 1080 g)"
    "b_engine b2 = Some (center_desktop engine)" using assms(6,7) b1 by auto
  have "init_virtio_device cfg tr gd mto alf off bus slot func b = Some (Ok (), b2)"
    using assms(1,2) p(1) by (simp add: init_virtio_device_def)
  moreover have "cursor_ok (b_ui b2)" using assms(13-15) p(4) by (simp add: cursor_ok_def)
  ultimately show ?thesis
    using p resize_ok [OF assms(10,12,11)] center_desktop_ok [OF assms(8,9)]
    by (simp add: mouse_task_ok_def MouseTask_init_def)
qed

text \<open>A device that accepts everything, a mapper that maps everything and an allocator that counts.\<close>

definition demo_transport :: "unit Transport" where
  "demo_transport = \<lparr>tr_read = \<lambda>a d. (0x4B, d), tr_write = \<lambda>a v d. d\<rparr>"

definition demo_map :: "(unit, nat, unit) map_fun" where
  "demo_map page frame fl fa pt = (Ok (), fa, pt)"

definition demo_frames :: "nat frame_fun" where
  "demo_frames n = (Some (4096 * n), n + 1)"

definition demo_capabilities :: VirtioCapabilities where
  "demo_capabilities = \<lparr>common_cfg_phys = 0xFE000000, notify_cfg_phys = 0xFE003000, isr_cfg_phys = 0, notify_off_multiplier = 4\<rparr>"

definition demo_boot :: "'d \<Rightarrow> (nat, unit, 'd) gpu_boot" where
  "demo_boot d = \<lparr>b_frames = 1, b_tables = (), b_dev = d, b_mem = \<lparr>vq_heap = \<lambda>_. VirtQueue_empty, box = \<lambda>_. 0\<rparr>, b_ui = UI_init,
     b_writer = Some demo_screen, b_engine = Some SplatEngine_new, b_backing = 0, b_gpu = None\<rparr>"

lemma demo_map_mmio: "map_mmio demo_map a n fa pt = (Ok a, fa, pt)"
proof -
  have "map_frames demo_map fl fs fa pt = (Ok (), fa, pt)" for fl fs by (induction fs) (simp_all add: demo_map_def)
  then show ?thesis by (simp add: map_mmio_def Let_def)
qed

lemma demo_reserve: "reserve_frames demo_frames n fa = (True, fa + n)"
  by (induction n arbitrary: fa) (simp_all add: demo_frames_def)

lemma demo_dma: "allocate_dma_frames demo_frames off pages fa =
    (Some (4096 * fa, off + 4096 * fa, {4096 * fa ..< 4096 * fa + pages * 4096}), fa + 1 + (pages - 1))"
  by (simp add: allocate_dma_frames_def demo_reserve) (simp add: demo_frames_def demo_reserve)

lemma demo_setup:
  assumes "VirtQueue_new = Some vq"
  shows "\<exists>m'. setup_control_queue demo_frames 0x1000 drv 1 m = Some (Ok (4096, 5120, 5256),
    drv\<lparr>control_queue_virt := Some 8192, mailbox_phys := Some 16384, mailbox_virt := Some 20480\<rparr>, 5, m')"
  unfolding setup_control_queue_def assms by (simp add: demo_dma Let_def avail_offset_def used_offset_def)

lemma demo_configured:
  assumes "\<And>a d. fst (tr_read tr a d) = 0x4B"
  shows "\<exists>drv b1. configure_device tr demo_map demo_frames 0x1000 demo_capabilities (demo_boot d) = Some (Ok drv, b1) \<and>
    control_queue_virt drv = Some 8192 \<and> mailbox_virt drv = Some 20480"
proof -
  obtain vq where vq: "VirtQueue_new = Some vq" by (rule VirtQueue_new_free)
  have hs: "\<exists>st d'. handshake tr c x = (st, True, d')" for c x
    using assms by (simp add: handshake_def Let_def case_prod_beta status_defs)
  obtain m' where m': "setup_control_queue demo_frames 0x1000 (VirtioGpuDriver_new (unat (common_cfg_phys demo_capabilities))) 1 (b_mem (demo_boot d)) =
    Some (Ok (4096, 5120, 5256), (VirtioGpuDriver_new (unat (common_cfg_phys demo_capabilities)))\<lparr>control_queue_virt := Some 8192,
      mailbox_phys := Some 16384, mailbox_virt := Some 20480\<rparr>, 5, m')" using demo_setup [OF vq] by blast
  obtain st d' where h: "handshake tr (unat (common_cfg_phys demo_capabilities)) d = (st, True, d')" using hs by blast
  let ?q = "tr_read tr (unat (common_cfg_phys demo_capabilities) + 0x18) (tr_write tr (unat (common_cfg_phys demo_capabilities) + 0x16) 0 d')"
  have "fst ?q = 0x4B" by (rule assms)
  then obtain d2 where q: "?q = (0x4B, d2)" by (metis prod.collapse)
  have b: "b_dev (demo_boot d) = d" "b_frames (demo_boot d) = 1" by (simp_all add: demo_boot_def)
  obtain a d3 where w: "wire_queue tr (unat (common_cfg_phys demo_capabilities)) (unat (notify_cfg_phys demo_capabilities)) (notify_off_multiplier demo_capabilities) st
      (4096, 5120, 5256) ((VirtioGpuDriver_new (unat (common_cfg_phys demo_capabilities)))\<lparr>control_queue_virt := Some 8192,
        mailbox_phys := Some 16384, mailbox_virt := Some 20480\<rparr>) d2 =
      (set_notify_address a ((VirtioGpuDriver_new (unat (common_cfg_phys demo_capabilities)))\<lparr>control_queue_virt := Some 8192,
        mailbox_phys := Some 16384, mailbox_virt := Some 20480\<rparr>), d3)" by (metis wire_queue_driver)
  show ?thesis unfolding configure_device_def start_device_def demo_map_mmio using h q m' w
    by (simp add: Let_def b) (simp add: set_notify_address_def)
qed

theorem virtio_startup_order_witness:
  "\<exists>drv b' st desc. configure_device (logged demo_transport) demo_map demo_frames 0x1000 demo_capabilities (demo_boot ((), [])) = Some (Ok drv, b') \<and>
    snd (b_dev b') = startup_writes 0xFE000000 st desc \<and> control_queue_virt drv = Some (0x1000 + desc)"
proof -
  have "fst (tr_read (logged demo_transport) a d) = 0x4B" for a d by (simp add: logged_def demo_transport_def)
  from demo_configured [OF this] obtain drv b1 where
    c: "configure_device (logged demo_transport) demo_map demo_frames 0x1000 demo_capabilities (demo_boot ((), [])) = Some (Ok drv, b1)" by blast
  have "snd (b_dev (demo_boot ((), [] :: (nat \<times> u64) list))) = []" by (simp add: demo_boot_def)
  from virtio_startup_order [OF c this] c show ?thesis by (auto simp: startup_writes_def demo_capabilities_def)
qed

lemma demo_found: "find_capabilities demo_config 0 4 0 = Some demo_capabilities"
  by code_simp

end
