(* ===== verification/Boot.thy ===== *)
theory Boot
  imports Virtio_Init
begin

text \<open>
  The display part of \<open>kernel_main\<close> in \<^verbatim>\<open>kernel/src/main.rs\<close>: the first scene in the frame buffer of the boot loader, the messages on
  the screen, the handshake with the graphics adapter that the bus scan finds, and the frame before the tasks start. The steps of
  \<open>kernel_main\<close> between them (file system, executor) do not touch this state; \<^verbatim>\<open>Kernel_Main\<close> has the whole sequence.
\<close>

subsection \<open>The screen among the statics\<close>

definition screen_of :: "('fa, 'pt, 'd) gpu_boot \<Rightarrow> (SplatEngine \<times> GpuDriver) option" where
  "screen_of b = (case (b_engine b, b_writer b) of (Some engine, Some gpu) \<Rightarrow> Some (engine, gpu) | _ \<Rightarrow> None)"

text \<open>The state of the GPU driver; without one, \<open>swap_buffers\<close> uses only the memory.\<close>

definition gpu_of :: "('fa, 'pt, 'd) gpu_boot \<Rightarrow> 'd gpu_state" where
  "gpu_of b = \<lparr>gdrv = (case b_gpu b of Some drv \<Rightarrow> drv | None \<Rightarrow> VirtioGpuDriver_new 0), gmem = b_mem b, gdev = b_dev b\<rparr>"

definition put_desk :: "('fa, 'pt, 'd) gpu_boot \<Rightarrow> 'd desk \<Rightarrow> ('fa, 'pt, 'd) gpu_boot" where
  "put_desk b = (\<lambda>(ui, display, s).
     (case display of None \<Rightarrow> b | Some (engine, gpu) \<Rightarrow> b\<lparr>b_engine := Some engine, b_writer := Some gpu\<rparr>)
       \<lparr>b_ui := ui, b_mem := gmem s, b_dev := gdev s, b_gpu := map_option (\<lambda>_. gdrv s) (b_gpu b)\<rparr>)"

definition desk_of :: "('fa, 'pt, 'd) gpu_boot \<Rightarrow> 'd desk" where
  "desk_of b = (b_ui b, screen_of b, gpu_of b)"

definition on_desk :: "(nat \<Rightarrow> bool \<Rightarrow> 'd desk \<Rightarrow> 'd desk option) \<Rightarrow> ('fa, 'pt, 'd) gpu_boot \<Rightarrow> ('fa, 'pt, 'd) gpu_boot option" where
  "on_desk f b = do {
     desk \<leftarrow> f (b_backing b) (b_gpu b \<noteq> None) (desk_of b);
     Some (put_desk b desk) }"

text \<open>\<open>screen_println!\<close>\<close>

definition screen_println :: "font \<Rightarrow> 'd GpuDevice \<Rightarrow> string \<Rightarrow> ('fa, 'pt, 'd) gpu_boot \<Rightarrow> ('fa, 'pt, 'd) gpu_boot option" where
  "screen_println font gd line = on_desk (\<lambda>backing has_virtio. screen_print font gd backing has_virtio [map of_char line, [10]])"

subsection \<open>The first scene\<close>

definition boot_nebula :: "GaussianSplat list" where
  "boot_nebula =
    [\<lparr>sp_x = 400, sp_y = 300, sp_z = -100, scale_x = 200, scale_y = 200, sp_r = 0, sp_g = 150, sp_b = 255, opacity = 100\<rparr>,
     \<lparr>sp_x = 800, sp_y = 500, sp_z = -100, scale_x = 250, scale_y = 250, sp_r = 100, sp_g = 0, sp_b = 200, opacity = 80\<rparr>,
     \<lparr>sp_x = 640, sp_y = 400, sp_z = 0, scale_x = 120, scale_y = 120, sp_r = 0, sp_g = 255, sp_b = 180, opacity = 150\<rparr>,
     \<lparr>sp_x = 600, sp_y = 380, sp_z = 10, scale_x = 80, scale_y = 80, sp_r = 255, sp_g = 255, sp_b = 255, opacity = 200\<rparr>,
     \<lparr>sp_x = 700, sp_y = 450, sp_z = 50, scale_x = 60, scale_y = 60, sp_r = 255, sp_g = 50, sp_b = 100, opacity = 220\<rparr>]"

definition boot_launcher :: AppLauncher where
  "boot_launcher = \<lparr>lx = 960, ly = 1000, radius = 25\<rparr>"

definition boot_scene :: "font \<Rightarrow> FrameBuffer \<Rightarrow> (SplatEngine \<times> GpuDriver) option" where
  "boot_scene font framebuffer = do {
     let gpu = GpuDriver_new framebuffer;
     gpu \<leftarrow> clear_screen 10 15 25 gpu;
     let engine = SplatEngine_new\<lparr>nebula_splats := boot_nebula\<rparr>;
     (engine, gpu) \<leftarrow> render font engine gpu;
     gpu \<leftarrow> save_to_nebula_cache gpu;
     Some (engine\<lparr>launchers := launchers engine @ [boot_launcher]\<rparr>, gpu) }"

definition boot_display :: "font \<Rightarrow> 'd GpuDevice \<Rightarrow> FrameBuffer option \<Rightarrow> ('fa, 'pt, 'd) gpu_boot \<Rightarrow> ('fa, 'pt, 'd) gpu_boot option" where
  "boot_display font gd framebuffer b = (case framebuffer of
       None \<Rightarrow> Some b
     | Some fb \<Rightarrow> do {
         (engine, gpu) \<leftarrow> boot_scene font fb;
         let b = b\<lparr>b_writer := Some gpu, b_engine := Some engine\<rparr>;
         b \<leftarrow> screen_println font gd ''========================================================'' b;
         b \<leftarrow> screen_println font gd ''[GENESIS OS] 3D GAUSSIAN SPLAT ENGINE ONLINE        '' b;
         screen_println font gd ''========================================================'' b })"

subsection \<open>The frame before the tasks\<close>

definition pre_flight :: "font \<Rightarrow> 'd GpuDevice \<Rightarrow> nat \<Rightarrow> bool \<Rightarrow> 'd desk \<Rightarrow> 'd desk option" where
  "pre_flight font gd backing has_virtio = (\<lambda>(ui, display, s). case display of
     None \<Rightarrow> Some (ui, None, s)
   | Some (engine, gpu) \<Rightarrow> do {
       gpu \<leftarrow> clear_screen 10 15 25 gpu;
       let temp_windows = windows engine;
       let temp_launchers = launchers engine;
       let engine = engine\<lparr>windows := [], launchers := []\<rparr>;
       (engine, gpu) \<leftarrow> render font engine gpu;
       gpu \<leftarrow> save_to_nebula_cache gpu;
       let engine = engine\<lparr>windows := temp_windows, launchers := temp_launchers\<rparr>;
       (ui, engine, gpu, s) \<leftarrow> render_desktop font gd backing has_virtio ui engine gpu s;
       Some (ui, Some (engine, gpu), s) })"

text \<open>The whole display part. The result of the handshake is only reported on the serial port.\<close>

definition boot_screen :: "font \<Rightarrow> config \<Rightarrow> 'd Transport \<Rightarrow> 'd GpuDevice \<Rightarrow> ('e, 'fa, 'pt) map_fun \<Rightarrow> 'fa frame_fun \<Rightarrow> nat \<Rightarrow>
    u8 \<Rightarrow> u8 \<Rightarrow> u8 \<Rightarrow> FrameBuffer option \<Rightarrow> ('fa, 'pt, 'd) gpu_boot \<Rightarrow> ('fa, 'pt, 'd) gpu_boot option" where
  "boot_screen font cfg tr gd mto alf off bus slot func framebuffer b = do {
     b \<leftarrow> boot_display font gd framebuffer b;
     (_, b) \<leftarrow> init_virtio_device cfg tr gd mto alf off bus slot func b;
     b \<leftarrow> screen_println font gd ''[MICT: MAP] PCIe Hardware Radar complete.'' b;
     on_desk (pre_flight font gd) b }"

subsection \<open>Clearing and caching\<close>

lemma length_fill_chunks:
  assumes "length pat = 4"
  shows "length (fill_chunks pat buf) = length buf"
proof -
  have "length (concat (replicate n pat)) = 4 * n" for n using assms by (induction n) auto
  moreover have "4 * (length buf div 4) \<le> length buf" by simp
  ultimately show ?thesis by (simp add: fill_chunks_def Let_def)
qed

lemma draws_clear [drawing]: "draws (clear_screen r gr b)"
proof (rule drawsI)
  fix g assume ok: "screen_ok g"
  show "\<exists>g'. clear_screen r gr b g = Some g' \<and> same_screen g g'"
  proof (cases "bytes_per_pixel g = 4")
    case True
    then show ?thesis by (auto simp: clear_screen_def same_screen_def length_fill_chunks)
  next
    case False
    have "draws (for_each [0..<height g] (\<lambda>y. for_each [0..<width g] (\<lambda>x. draw_pixel (of_nat x) (of_nat y) r gr b)))"
      by (intro drawing)
    from drawsE [OF this ok] False show ?thesis by (auto simp: clear_screen_def clear_slow_def)
  qed
qed

lemma save_ok:
  assumes "screen_ok g"
  shows "\<exists>g'. save_to_nebula_cache g = Some g' \<and> screen_ok g' \<and> back_buffer g' = back_buffer g \<and> width g' = width g \<and>
    height g' = height g \<and> bytes_per_pixel g' = bytes_per_pixel g"
  using assms by (auto simp: save_to_nebula_cache_def screen_ok_def)

lemma same_screen_facts:
  assumes "same_screen g g'"
  shows "screen_ok g' = screen_ok g" "length (back_buffer g') = length (back_buffer g)" "width g' = width g" "height g' = height g"
    "bytes_per_pixel g' = bytes_per_pixel g"
  using assms by (auto simp: same_screen_def screen_ok_def)

text \<open>Clear, draw, keep a copy: the start of both scenes.\<close>

lemma scene_ok:
  assumes "screen_ok g"
  obtains g1 e g2 g3 where "clear_screen r gr b g = Some g1" "render font engine g1 = Some (e, g2)" "save_to_nebula_cache g2 = Some g3"
    "screen_ok g3" "length (back_buffer g3) = length (back_buffer g)" "width g3 = width g" "height g3 = height g"
    "bytes_per_pixel g3 = bytes_per_pixel g" "windows e = windows engine" "launchers e = launchers engine"
proof -
  from drawsE [OF draws_clear assms] obtain g1 where g1: "clear_screen r gr b g = Some g1" "same_screen g g1" by blast
  then have "screen_ok g1" using assms same_screen_facts(1) by blast
  from render_ok [OF this, of font engine] obtain e g2 where g2: "render font engine g1 = Some (e, g2)" "same_screen g1 g2"
    "windows e = windows engine" "launchers e = launchers engine" by blast
  then have "screen_ok g2" using \<open>screen_ok g1\<close> same_screen_facts(1) by blast
  from save_ok [OF this] that [OF g1(1) g2(1)] g2(3,4) same_screen_facts(2-) [OF g1(2)] same_screen_facts(2-) [OF g2(2)]
  show ?thesis by auto
qed

subsection \<open>Frames keep the screen\<close>

definition same_frame :: "GpuDriver \<Rightarrow> GpuDriver \<Rightarrow> bool" where
  "same_frame g g' \<longleftrightarrow> width g' = width g \<and> height g' = height g \<and> bytes_per_pixel g' = bytes_per_pixel g \<and>
     length (back_buffer g') = length (back_buffer g)"

lemma compose_frame:
  assumes "compose_desktop font ui engine gpu = Some (ui', engine', gpu')" "screen_ok gpu"
  shows "same_frame gpu gpu'" "\<not> left_click ui \<Longrightarrow> ui' = ui\<lparr>is_dragging := False\<rparr>"
proof -
  from assms obtain e1 e3 g1 e4 g2 r where s: "handle_mouse ui engine = Some (ui', e1)" "restore_from_nebula_cache gpu = Some g1"
    "render font e3 g1 = Some (e4, g2)" "draw_cursor ui' r g2 = Some gpu'"
    by (auto simp: compose_desktop_def split: bind_splits)
  have g1: "screen_ok g1" "same_frame gpu g1" using s(2) assms(2)
    by (auto simp: restore_from_nebula_cache_def screen_ok_def same_frame_def split: if_splits)
  from render_ok [OF g1(1), of font e3] s(3) have g2: "same_screen g1 g2" by auto
  then have "screen_ok g2" using g1(1) same_screen_facts(1) by blast
  from drawsE [OF draws_cursor this] s(4) have "same_screen g2 gpu'" by (metis option.inject)
  with g1(2) g2 same_screen_facts(2-) show "same_frame gpu gpu'" by (simp add: same_frame_def)
  show "\<not> left_click ui \<Longrightarrow> ui' = ui\<lparr>is_dragging := False\<rparr>" using s(1) by (simp add: handle_mouse_def)
qed

text \<open>Log messages and a frame, whatever there is behind the screen.\<close>

lemma print_pieces_ok:
  assumes "engine_ok e" "log_ok e" "\<forall>piece \<in> set pieces. ascii piece"
  shows "\<exists>e'. for_each pieces write_str e = Some e' \<and> engine_ok e' \<and> log_ok e' \<and> launchers e' = launchers e"
proof (rule for_each_inv [where P = "\<lambda>e'. engine_ok e' \<and> log_ok e' \<and> launchers e' = launchers e"])
  show "\<exists>e2. write_str piece e1 = Some e2 \<and> engine_ok e2 \<and> log_ok e2 \<and> launchers e2 = launchers e"
    if "piece \<in> set pieces" "engine_ok e1 \<and> log_ok e1 \<and> launchers e1 = launchers e" for piece e1
    using write_str_ok [of e1 piece] that assms(3) by auto
qed (use assms in simp)

lemma redraw_cases:
  assumes "redraw font gd vb hv (ui, Some (e, g), s) = Some desk" "engine_ok e" "screen_ok g"
  obtains ui' e' g' s' where "desk = (ui', Some (e', g'), s')" "launchers e' = launchers e" "same_frame g g'"
proof -
  from compose_desktop_ok [OF assms(2,3), of font ui] obtain ui' e' g' where
    c: "compose_desktop font ui e g = Some (ui', e', g')" "launchers e' = launchers e" by blast
  with assms(1) obtain s' where "desk = (ui', Some (e', g'), s')" by (auto simp: redraw_def render_desktop_def split: bind_splits)
  with that c compose_frame(1) [OF c(1) assms(3)] show ?thesis by blast
qed

lemma screen_print_frame:
  assumes "gpu_device gd q mv" "desk_ok q mv (task, ui, Some (e, g), s)" "\<forall>piece \<in> set pieces. ascii piece"
  shows "\<exists>ui' e' g' s'. screen_print font gd vb hv pieces (ui, Some (e, g), s) = Some (ui', Some (e', g'), s') \<and>
    desk_ok q mv (task, ui', Some (e', g'), s') \<and> launchers e' = launchers e \<and> same_frame g g'"
proof -
  from assms(2) have o: "engine_ok e" "log_ok e" "screen_ok g" by simp_all
  from print_pieces_ok [OF o(1,2) assms(3)] obtain e1 where
    e1: "for_each pieces write_str e = Some e1" "engine_ok e1" "log_ok e1" "launchers e1 = launchers e" by blast
  then have "desk_ok q mv (task, ui, Some (e1, g), s)" using assms(2) by simp
  from redraw_ok [OF assms(1) this, of font vb hv] obtain desk where
    r: "redraw font gd vb hv (ui, Some (e1, g), s) = Some desk" "desk_ok q mv (task, desk)" by blast
  from r(1) e1(2) o(3) obtain ui' e' g' s' where "desk = (ui', Some (e', g'), s')" "launchers e' = launchers e1" "same_frame g g'"
    by (rule redraw_cases)
  with r e1 show ?thesis by (auto simp: screen_print_def)
qed

lemma pre_flight_ok:
  assumes "gpu_device gd q mv" "desk_ok q mv (task, ui, Some (e, g), s)"
  shows "\<exists>ui' e' g' s'. pre_flight font gd vb hv (ui, Some (e, g), s) = Some (ui', Some (e', g'), s') \<and>
    desk_ok q mv (task, ui', Some (e', g'), s') \<and> launchers e' = launchers e \<and> same_frame g g'"
proof -
  from assms(2) have o: "engine_ok e" "log_ok e" "screen_ok g" by simp_all
  obtain g1 e2 g2 g3 where sc: "clear_screen 10 15 25 g = Some g1" "render font (e\<lparr>windows := [], launchers := []\<rparr>) g1 = Some (e2, g2)"
    "save_to_nebula_cache g2 = Some g3" "screen_ok g3" "same_frame g g3"
    by (rule scene_ok [OF o(3), of 10 15 25 font "e\<lparr>windows := [], launchers := []\<rparr>"]) (simp add: same_frame_def)
  let ?e = "e2\<lparr>windows := windows e, launchers := launchers e\<rparr>"
  have e: "engine_ok ?e" "log_ok ?e" using o by (simp_all add: engine_ok_def log_ok_def)
  then have "desk_ok q mv (task, ui, Some (?e, g3), s)" using assms(2) sc(4) by simp
  from redraw_ok [OF assms(1) this, of font vb hv] obtain desk where
    r: "redraw font gd vb hv (ui, Some (?e, g3), s) = Some desk" "desk_ok q mv (task, desk)" by blast
  from r(1) e(1) sc(4) obtain ui' e' g' s' where d: "desk = (ui', Some (e', g'), s')" "launchers e' = launchers ?e" "same_frame g3 g'"
    by (rule redraw_cases)
  have "pre_flight font gd vb hv (ui, Some (e, g), s) = Some desk"
    using sc(1-3) r(1) by (simp add: pre_flight_def redraw_def Let_def)
  with d r(2) sc(5) show ?thesis by (auto simp: same_frame_def)
qed

text \<open>The same before there is a graphics adapter: the memory stays as it is, and so does an idle mouse.\<close>

lemma screen_print_quiet:
  assumes "engine_ok e" "log_ok e" "screen_ok g" "cursor_ok ui" "\<not> left_click ui" "\<not> is_dragging ui" "\<forall>piece \<in> set pieces. ascii piece"
  shows "\<exists>e' g'. screen_print font gd 0 hv pieces (ui, Some (e, g), s) = Some (ui, Some (e', g'), s) \<and>
    engine_ok e' \<and> log_ok e' \<and> screen_ok g' \<and> launchers e' = launchers e \<and> same_frame g g'"
proof -
  from print_pieces_ok [OF assms(1,2,7)] obtain e1 where
    e1: "for_each pieces write_str e = Some e1" "engine_ok e1" "log_ok e1" "launchers e1 = launchers e" by blast
  from compose_desktop_ok [OF e1(2) assms(3), of font ui] obtain ui' e' g' where
    c: "compose_desktop font ui e1 g = Some (ui', e', g')" "engine_ok e'" "screen_ok g'" "launchers e' = launchers e1" by blast
  have "ui' = ui" using compose_frame(2) [OF c(1) assms(3,5)] assms(6) by simp
  with c e1 compose_frame(1) [OF c(1) assms(3)] compose_desktop_keeps [OF c(1) e1(2,3) assms(4)] show ?thesis
    by (simp add: screen_print_def redraw_def render_desktop_def swap_buffers_def)
qed

subsection \<open>From the boot loader to the desktop\<close>

text \<open>A frame buffer without padding, in a format of three or four bytes.\<close>

definition plain_frame :: "FrameBuffer \<Rightarrow> bool" where
  "plain_frame fb \<longleftrightarrow> fb_width fb < 2147483648 \<and> fb_height fb < 2147483648 \<and> fb_bytes_per_pixel fb \<in> {3, 4} \<and>
     fb_len fb = fb_width fb * fb_height fb * fb_bytes_per_pixel fb"

definition first_screen :: "FrameBuffer \<Rightarrow> SplatEngine \<Rightarrow> GpuDriver \<Rightarrow> bool" where
  "first_screen fb e g \<longleftrightarrow> engine_ok e \<and> log_ok e \<and> screen_ok g \<and> launchers e = [boot_launcher] \<and> same_frame (GpuDriver_new fb) g"

lemma boot_scene_ok:
  assumes "plain_frame fb"
  shows "\<exists>e g. boot_scene font fb = Some (e, g) \<and> first_screen fb e g"
proof -
  let ?e = "SplatEngine_new\<lparr>nebula_splats := boot_nebula\<rparr>"
  have "screen_ok (GpuDriver_new fb)" using assms by (auto simp: plain_frame_def screen_ok_def GpuDriver_new_def)
  then obtain g1 e g2 g3 where "clear_screen 10 15 25 (GpuDriver_new fb) = Some g1" "render font ?e g1 = Some (e, g2)"
    "save_to_nebula_cache g2 = Some g3" "screen_ok g3" "same_frame (GpuDriver_new fb) g3" "windows e = []" "launchers e = []"
    by (rule scene_ok [of _ 10 15 25 font ?e]) (simp add: same_frame_def SplatEngine_new_def)
  then show ?thesis by (simp add: boot_scene_def Let_def first_screen_def engine_ok_def log_ok_def)
qed

lemma println_quiet:
  assumes "first_screen fb e g" "b_ui b = UI_init" "b_gpu b = None" "b_backing b = 0" "ascii (map of_char line)"
  shows "\<exists>e' g'. screen_println font gd line (b\<lparr>b_writer := Some g, b_engine := Some e\<rparr>) =
    Some (b\<lparr>b_writer := Some g', b_engine := Some e'\<rparr>) \<and> first_screen fb e' g'"
proof -
  have u: "cursor_ok UI_init" "\<not> left_click UI_init" "\<not> is_dragging UI_init" by (simp_all add: UI_init_def cursor_ok_def)
  have a: "\<forall>piece \<in> set [map of_char line, [10]]. ascii piece" using assms(5) by (simp add: ascii_def)
  from assms(1) have f: "engine_ok e" "log_ok e" "screen_ok g" by (simp_all add: first_screen_def)
  let ?b = "b\<lparr>b_writer := Some g, b_engine := Some e\<rparr>"
  from screen_print_quiet [OF f u a, of font gd False "gpu_of ?b"] obtain e' g' where
    p: "screen_print font gd 0 False [map of_char line, [10]] (UI_init, Some (e, g), gpu_of ?b) = Some (UI_init, Some (e', g'), gpu_of ?b)"
    "engine_ok e'" "log_ok e'" "screen_ok g'" "launchers e' = launchers e" "same_frame g g'" by blast
  have "put_desk ?b (UI_init, Some (e', g'), gpu_of ?b) = b\<lparr>b_writer := Some g', b_engine := Some e'\<rparr>"
    using assms(2,3) by (simp add: put_desk_def gpu_of_def)
  with p assms(1-4) show ?thesis
    by (intro exI [of _ e'] exI [of _ g'])
      (simp add: screen_println_def on_desk_def desk_of_def screen_of_def first_screen_def same_frame_def)
qed

lemma boot_display_ok:
  assumes "plain_frame fb" "b_ui b = UI_init" "b_gpu b = None" "b_backing b = 0"
  shows "\<exists>e g. boot_display font gd (Some fb) b = Some (b\<lparr>b_writer := Some g, b_engine := Some e\<rparr>) \<and> first_screen fb e g"
proof -
  let ?l1 = "''========================================================''" and ?l2 = "''[GENESIS OS] 3D GAUSSIAN SPLAT ENGINE ONLINE        ''"
  have l: "ascii (map of_char ?l1)" "ascii (map of_char ?l2)" by (simp_all add: ascii_def)
  from boot_scene_ok [OF assms(1), of font] obtain e0 g0 where s0: "boot_scene font fb = Some (e0, g0)" "first_screen fb e0 g0" by blast
  from println_quiet [OF s0(2) assms(2-4) l(1), of font gd] obtain e1 g1 where
    s1: "screen_println font gd ?l1 (b\<lparr>b_writer := Some g0, b_engine := Some e0\<rparr>) = Some (b\<lparr>b_writer := Some g1, b_engine := Some e1\<rparr>)"
      "first_screen fb e1 g1" by blast
  from println_quiet [OF s1(2) assms(2-4) l(2), of font gd] obtain e2 g2 where
    s2: "screen_println font gd ?l2 (b\<lparr>b_writer := Some g1, b_engine := Some e1\<rparr>) = Some (b\<lparr>b_writer := Some g2, b_engine := Some e2\<rparr>)"
      "first_screen fb e2 g2" by blast
  from println_quiet [OF s2(2) assms(2-4) l(1), of font gd] obtain e3 g3 where
    s3: "screen_println font gd ?l1 (b\<lparr>b_writer := Some g2, b_engine := Some e2\<rparr>) = Some (b\<lparr>b_writer := Some g3, b_engine := Some e3\<rparr>)"
      "first_screen fb e3 g3" by blast
  have "boot_display font gd (Some fb) b = Some (b\<lparr>b_writer := Some g3, b_engine := Some e3\<rparr>)"
    unfolding boot_display_def option.case s0(1) bind.simps prod.case Let_def s1(1) s2(1) s3(1) ..
  with s3(2) show ?thesis by blast
qed

text \<open>The handshake does not look at the screen.\<close>

lemma configure_device_screen:
  assumes "configure_device tr mto alf off caps b = Some (r, b1)"
  shows "configure_device tr mto alf off caps (b\<lparr>b_writer := w, b_engine := e\<rparr>) = Some (r, b1\<lparr>b_writer := w, b_engine := e\<rparr>)"
  using assms
  by (auto simp: configure_device_def start_device_def Let_def case_prod_beta split: sum.splits if_splits prod.splits bind_splits)

lemma center_launchers: "launchers (center_desktop e) = launchers e"
  by (simp add: center_desktop_def)

text \<open>A step on the desktop once there is an adapter.\<close>

lemma on_desk_ok:
  assumes "b_gpu b \<noteq> None" "f (b_backing b) True (desk_of b) = Some (ui, Some (e, g), s)"
  shows "\<exists>b'. on_desk f b = Some b' \<and> desk_of b' = (ui, Some (e, g), s) \<and> b_gpu b' \<noteq> None"
  using assms by (auto simp: on_desk_def put_desk_def desk_of_def screen_of_def gpu_of_def)

text \<open>The handshake itself uses up frames; preparing the screen takes one block more and leaves the page tables alone.\<close>

lemma virtio_init_frames:
  assumes "init_virtio_device cfg tr gd mto alf off bus slot func b = Some (Ok (), b2)"
    "find_capabilities cfg bus slot func = Some caps" "configure_device tr mto alf off caps b = Some (Ok drv, b1)"
  shows "b_frames b2 = snd (allocate_dma_frames alf off pages_needed (b_frames b1))" "b_tables b2 = b_tables b1"
  using assms
  by (auto simp: init_virtio_device_def prime_display_def attach_frame_memory_def Let_def split: bind_splits prod.splits option.splits)

text \<open>The first scene and the handshake.\<close>

lemma boot_adapter_up:
  assumes "plain_frame fb" "b_ui b = UI_init" "b_gpu b = None" "b_backing b = 0"
    "find_capabilities cfg bus slot func = Some caps" "configure_device tr mto alf off caps b = Some (Ok drv, b1)"
    "control_queue_virt drv = Some q" "mailbox_virt drv = Some mv" "gpu_device gd q mv"
  shows "\<exists>d1 b2 e g. boot_display font gd (Some fb) b = Some d1 \<and>
    init_virtio_device cfg tr gd mto alf off bus slot func d1 = Some (Ok (), b2) \<and> b_gpu b2 \<noteq> None \<and>
    b_frames b2 = snd (allocate_dma_frames alf off pages_needed (b_frames b1)) \<and> b_tables b2 = b_tables b1 \<and>
    screen_of b2 = Some (e, g) \<and> desk_ok q mv (MouseTask_init, desk_of b2) \<and> launchers e = [boot_launcher] \<and>
    width g = 1920 \<and> height g = 1080 \<and> length (back_buffer g) \<le> pages_needed * 4096"
proof -
  from boot_display_ok [OF assms(1-4), of font gd] obtain e0 g0 where
    d0: "boot_display font gd (Some fb) b = Some (b\<lparr>b_writer := Some g0, b_engine := Some e0\<rparr>)" "first_screen fb e0 g0" by blast
  let ?b = "b\<lparr>b_writer := Some g0, b_engine := Some e0\<rparr>"
  have f: "engine_ok e0" "log_ok e0" "screen_ok g0" "launchers e0 = [boot_launcher]" "bytes_per_pixel g0 \<le> 4"
    "length (back_buffer g0) = width g0 * height g0 * bytes_per_pixel g0"
    using d0(2) assms(1) by (auto simp: first_screen_def same_frame_def plain_frame_def GpuDriver_new_def)
  have u: "cursor_ok (b_ui ?b)" "sint (screen_width (b_ui ?b)) \<le> 1920" "sint (screen_height (b_ui ?b)) \<le> 1080" "b_writer ?b = Some g0"
    "b_engine ?b = Some e0" using assms(2) by (simp_all add: UI_init_def cursor_ok_def)
  note conf = configure_device_screen [OF assms(6), where w = "Some g0" and e = "Some e0"]
  from virtio_init_ok [OF assms(5) conf assms(7-9) u(4,5) f(1-3,5,6) u(1-3)] obtain b2 g2 where
    b2: "init_virtio_device cfg tr gd mto alf off bus slot func ?b = Some (Ok (), b2)" "b_gpu b2 = Some drv" "b_writer b2 = Some g2"
      "width g2 = 1920" "height g2 = 1080" "length (back_buffer g2) \<le> pages_needed * 4096" "b_engine b2 = Some (center_desktop e0)"
      "desk_ok q mv (MouseTask_init, b_ui b2, Some (center_desktop e0, g2), \<lparr>gdrv = drv, gmem = b_mem b2, gdev = b_dev b2\<rparr>)" by blast
  have "desk_of b2 = (b_ui b2, Some (center_desktop e0, g2), \<lparr>gdrv = drv, gmem = b_mem b2, gdev = b_dev b2\<rparr>)"
    using b2(2,3,7) by (simp add: desk_of_def screen_of_def gpu_of_def)
  moreover have "screen_of b2 = Some (center_desktop e0, g2)" using b2(3,7) by (simp add: screen_of_def)
  ultimately show ?thesis using d0(1) b2 f(4) virtio_init_frames [OF b2(1) assms(5) conf] by (auto simp: center_launchers)
qed

text \<open>The last message on the screen and the frame before the tasks.\<close>

lemma boot_finish:
  assumes "gpu_device gd q mv" "screen_of b2 = Some (e, g)" "desk_ok q mv (task, desk_of b2)" "b_gpu b2 \<noteq> None"
  shows "\<exists>b3 b4 e' g'. screen_println font gd ''[MICT: MAP] PCIe Hardware Radar complete.'' b2 = Some b3 \<and>
    on_desk (pre_flight font gd) b3 = Some b4 \<and> screen_of b4 = Some (e', g') \<and> desk_ok q mv (task, desk_of b4) \<and>
    launchers e' = launchers e \<and> same_frame g g'"
proof -
  let ?l = "''[MICT: MAP] PCIe Hardware Radar complete.''"
  obtain ui s where k2: "desk_of b2 = (ui, Some (e, g), s)" using assms(2) by (simp add: desk_of_def)
  have "\<forall>piece \<in> set [map of_char ?l, [10]]. ascii piece" by (simp add: ascii_def)
  from screen_print_frame [OF assms(1) assms(3) [unfolded k2] this, of font "b_backing b2" True] obtain ui3 e3 g3 s3 where
    p: "screen_print font gd (b_backing b2) True [map of_char ?l, [10]] (desk_of b2) = Some (ui3, Some (e3, g3), s3)"
      "desk_ok q mv (task, ui3, Some (e3, g3), s3)" "launchers e3 = launchers e" "same_frame g g3" unfolding k2 by blast
  from on_desk_ok [of b2 "\<lambda>vb hv. screen_print font gd vb hv [map of_char ?l, [10]]", OF assms(4) p(1)] obtain b3 where
    b3: "screen_println font gd ?l b2 = Some b3" "desk_of b3 = (ui3, Some (e3, g3), s3)" "b_gpu b3 \<noteq> None"
    unfolding screen_println_def by auto
  from pre_flight_ok [OF assms(1) p(2), of font "b_backing b3" True] obtain ui4 e4 g4 s4 where
    r: "pre_flight font gd (b_backing b3) True (desk_of b3) = Some (ui4, Some (e4, g4), s4)"
      "desk_ok q mv (task, ui4, Some (e4, g4), s4)" "launchers e4 = launchers e" "same_frame g3 g4"
    unfolding b3(2) p(3) by blast
  from on_desk_ok [of b3 "pre_flight font gd", OF b3(3) r(1)] obtain b4 where
    b4: "on_desk (pre_flight font gd) b3 = Some b4" "desk_of b4 = (ui4, Some (e4, g4), s4)" by blast
  moreover have "screen_of b4 = Some (e4, g4)" using b4(2) by (simp add: desk_of_def)
  moreover have "same_frame g g4" using p(4) r(4) by (simp add: same_frame_def)
  ultimately show ?thesis using b3(1) r(2,3) by auto
qed

text \<open>The kernel boots to a desktop that runs: with an unpadded frame buffer from the boot loader and a graphics adapter that accepts
  its configuration, the display part of \<open>kernel_main\<close> returns, for every font, every memory contents and every conforming adapter.
  It ends with a screen of 1920 by 1080 pixels that fits the memory reserved for frames, the launcher in its place, and everything the
  desktop tasks rely on.\<close>

theorem boot_reaches_desktop:
  assumes "plain_frame fb" "b_ui b = UI_init" "b_gpu b = None" "b_backing b = 0"
    "find_capabilities cfg bus slot func = Some caps" "configure_device tr mto alf off caps b = Some (Ok drv, b1)"
    "control_queue_virt drv = Some q" "mailbox_virt drv = Some mv" "gpu_device gd q mv"
  shows "\<exists>b2 e g. boot_screen font cfg tr gd mto alf off bus slot func (Some fb) b = Some b2 \<and> screen_of b2 = Some (e, g) \<and>
    desk_ok q mv (MouseTask_init, desk_of b2) \<and> launchers e = [boot_launcher] \<and>
    width g = 1920 \<and> height g = 1080 \<and> length (back_buffer g) \<le> pages_needed * 4096"
proof -
  from boot_adapter_up [OF assms, of font] obtain d1 b2 e g where up: "boot_display font gd (Some fb) b = Some d1"
    "init_virtio_device cfg tr gd mto alf off bus slot func d1 = Some (Ok (), b2)" "b_gpu b2 \<noteq> None" "screen_of b2 = Some (e, g)"
    "desk_ok q mv (MouseTask_init, desk_of b2)" "launchers e = [boot_launcher]"
    "width g = 1920" "height g = 1080" "length (back_buffer g) \<le> pages_needed * 4096" by blast
  from boot_finish [OF assms(9) up(4,5,3), of font] obtain b3 b4 e' g' where
    "screen_println font gd ''[MICT: MAP] PCIe Hardware Radar complete.'' b2 = Some b3" "on_desk (pre_flight font gd) b3 = Some b4"
    "screen_of b4 = Some (e', g')" "desk_ok q mv (MouseTask_init, desk_of b4)" "launchers e' = launchers e" "same_frame g g'" by blast
  with up show ?thesis by (auto simp: boot_screen_def same_frame_def)
qed

definition demo_frame :: FrameBuffer where
  "demo_frame = \<lparr>fb_ptr = 0xB0000000, fb_len = 800 * 600 * 3, fb_width = 800, fb_height = 600, fb_bytes_per_pixel = 3\<rparr>"

end
