(* ===== verification/Cpu_Setup.thy ===== *)
theory Cpu_Setup
  imports Interrupts Rust_Str
begin

text \<open>
  The processor tables of \<^verbatim>\<open>kernel/src/gdt.rs\<close>, the initialisation \<open>init\<close> and the test runner of \<^verbatim>\<open>kernel/src/lib.rs\<close>, and
  the serial port of \<^verbatim>\<open>kernel/src/serial.rs\<close>. The table type of the x86\_64 crate, \<open>initialize\<close> of the pic8259 crate and the
  port of the uart\_16550 crate are parameters.
\<close>

subsection \<open>The task state segment\<close>

definition DOUBLE_FAULT_IST_INDEX :: nat where "DOUBLE_FAULT_IST_INDEX = 0"
definition STACK_SIZE :: nat where "STACK_SIZE = 4096 * 5"

record TaskStateSegment =
  interrupt_stack_table :: "u64 list"

definition TaskStateSegment_new :: TaskStateSegment where
  "TaskStateSegment_new = \<lparr>interrupt_stack_table = replicate 7 0\<rparr>"

text \<open>The address of the static \<open>STACK\<close> is an argument.\<close>

definition TSS :: "u64 \<Rightarrow> TaskStateSegment option" where
  "TSS stack_start = do {
     let stack_end = stack_start + of_nat STACK_SIZE;
     ist \<leftarrow> aset (interrupt_stack_table TaskStateSegment_new) DOUBLE_FAULT_IST_INDEX stack_end;
     Some (TaskStateSegment_new\<lparr>interrupt_stack_table := ist\<rparr>) }"

subsection \<open>The descriptor table\<close>

datatype Descriptor = kernel_code_segment | kernel_data_segment | tss_segment TaskStateSegment

text \<open>\<open>add_entry\<close> gives the selector of the new entry; it panics when the table is full.\<close>

record 'g GlobalDescriptorTable =
  gdt_new :: 'g
  add_entry :: "Descriptor \<Rightarrow> 'g \<Rightarrow> (u16 \<times> 'g) option"

text \<open>What the crate documents: eight slots, the first one empty; an entry goes to the next free slot, a system segment takes two,
  and a selector is eight times the number of the slot.\<close>

definition descriptor_slots :: "Descriptor \<Rightarrow> Descriptor option list" where
  "descriptor_slots d = (case d of tss_segment _ \<Rightarrow> [Some d, None] | _ \<Rightarrow> [Some d])"

definition descriptor_table :: "'g GlobalDescriptorTable \<Rightarrow> ('g \<Rightarrow> Descriptor option list) \<Rightarrow> bool" where
  "descriptor_table G table_slots \<longleftrightarrow> table_slots (gdt_new G) = [None] \<and>
     (\<forall>d g. if length (table_slots g @ descriptor_slots d) \<le> 8
        then \<exists>g'. add_entry G d g = Some (of_nat (8 * length (table_slots g)), g') \<and> table_slots g' = table_slots g @ descriptor_slots d
        else add_entry G d g = None)"

definition slot_table :: "Descriptor option list GlobalDescriptorTable" where
  "slot_table = \<lparr>gdt_new = [None], add_entry = \<lambda>d g. if length (g @ descriptor_slots d) \<le> 8
     then Some (of_nat (8 * length g), g @ descriptor_slots d) else None\<rparr>"

lemma slot_table_ok: "descriptor_table slot_table (\<lambda>g. g)"
  by (simp add: descriptor_table_def slot_table_def)

record Selectors =
  code_selector :: u16
  data_selector :: u16
  tss_selector :: u16

definition GDT :: "'g GlobalDescriptorTable \<Rightarrow> u64 \<Rightarrow> ('g \<times> Selectors) option" where
  "GDT G stack_start = do {
     let gdt = gdt_new G;
     (code, gdt) \<leftarrow> add_entry G kernel_code_segment gdt;
     (dat, gdt) \<leftarrow> add_entry G kernel_data_segment gdt;
     tss \<leftarrow> TSS stack_start;
     (tss_sel, gdt) \<leftarrow> add_entry G (tss_segment tss) gdt;
     Some (gdt, \<lparr>code_selector = code, data_selector = dat, tss_selector = tss_sel\<rparr>) }"

subsection \<open>Initialisation\<close>

datatype 'g cpu_step = Load_gdt 'g | Set_CS u16 | Set_DS u16 | Set_ES u16 | Set_SS u16 | Load_tss u16 | Load_idt
  | Initialize_pics u8 u8 | Setup_ports | Enable_interrupts

definition gdt_init :: "'g GlobalDescriptorTable \<Rightarrow> u64 \<Rightarrow> 'g cpu_step list option" where
  "gdt_init G stack_start = do {
     (gdt, sel) \<leftarrow> GDT G stack_start;
     Some [Load_gdt gdt, Set_CS (code_selector sel), Set_DS (data_selector sel), Set_ES (data_selector sel),
       Set_SS (data_selector sel), Load_tss (tss_selector sel)] }"

text \<open>The steps of \<open>polymorph_os::init\<close>, in order; \<open>Setup_ports\<close> stands for the accesses of \<open>init_ports\<close>.\<close>

definition kernel_init :: "'g GlobalDescriptorTable \<Rightarrow> u64 \<Rightarrow> 'g cpu_step list option" where
  "kernel_init G stack_start = do {
     steps \<leftarrow> gdt_init G stack_start;
     Some (steps @ [Load_idt, Initialize_pics PIC_1_OFFSET PIC_2_OFFSET, Setup_ports, Enable_interrupts]) }"

text \<open>What the steps do to the ports.\<close>

fun port_steps :: "'p Ports \<Rightarrow> (u8 \<Rightarrow> u8 \<Rightarrow> 'p \<Rightarrow> 'p) \<Rightarrow> 'g cpu_step list \<Rightarrow> 'p \<Rightarrow> 'p" where
  "port_steps P pics_initialize [] p = p"
| "port_steps P pics_initialize (Initialize_pics o1 o2 # steps) p = port_steps P pics_initialize steps (pics_initialize o1 o2 p)"
| "port_steps P pics_initialize (Setup_ports # steps) p = port_steps P pics_initialize steps (init_ports P p)"
| "port_steps P pics_initialize (_ # steps) p = port_steps P pics_initialize steps p"

subsection \<open>The test runner\<close>

datatype QemuExitCode = Success | Failed

fun exit_code :: "QemuExitCode \<Rightarrow> u32" where
  "exit_code Success = 0x10"
| "exit_code Failed = 0x11"

text \<open>A test gives the state after it or the message of its panic, which \<open>test_panic_handler\<close> prints. The result is what was printed
  and the code written to the exit port.\<close>

fun run_tests :: "(string \<times> ('s \<Rightarrow> string + 's)) list \<Rightarrow> 's \<Rightarrow> string \<times> QemuExitCode" where
  "run_tests [] s = ([], Success)"
| "run_tests ((name, test) # tests) s = (case test s of
     Inr s \<Rightarrow> (let (out, code) = run_tests tests s in (name @ ''...'' @ [CHR 0x09] @ ''[ok]'' @ [CHR 0x0A] @ out, code))
   | Inl info \<Rightarrow> (name @ ''...'' @ [CHR 0x09] @ ''[failed]'' @ [CHR 0x0A, CHR 0x0A] @ ''Error: '' @ info @ [CHR 0x0A, CHR 0x0A], Failed))"

definition test_runner :: "(string \<times> ('s \<Rightarrow> string + 's)) list \<Rightarrow> 's \<Rightarrow> string \<times> u32" where
  "test_runner tests s = (let (out, code) = run_tests tests s in
     (''Running '' @ map (\<lambda>b. char_of (unat b)) (dec_nat (length tests)) @ '' tests'' @ [CHR 0x0A] @ out, exit_code code))"

text \<open>The exit code is the one of success exactly when every test returns from the state its predecessors left.\<close>

fun tests_pass :: "(string \<times> ('s \<Rightarrow> string + 's)) list \<Rightarrow> 's \<Rightarrow> bool" where
  "tests_pass [] s = True"
| "tests_pass ((name, test) # tests) s = (case test s of Inr s \<Rightarrow> tests_pass tests s | Inl _ \<Rightarrow> False)"

lemma test_runner_code: "snd (test_runner tests s) = 0x10 \<longleftrightarrow> tests_pass tests s"
proof -
  have "snd (run_tests tests s) = (if tests_pass tests s then Success else Failed)"
    by (induction tests s rule: run_tests.induct) (auto split: sum.splits prod.splits)
  then show ?thesis by (cases "run_tests tests s") (auto simp: test_runner_def split: if_splits)
qed

subsection \<open>The serial port\<close>

text \<open>\<open>SERIAL1\<close> is set up at its first use: the port of the crate, then the receive interrupt.\<close>

definition serial_init :: "'p Ports \<Rightarrow> (u16 \<Rightarrow> 'p \<Rightarrow> 'p) \<Rightarrow> 'p \<Rightarrow> 'p" where
  "serial_init P uart_init p = port_write P 0x3F9 0x01 (uart_init 0x3F8 p)"

definition print_serial :: "'p Ports \<Rightarrow> (u16 \<Rightarrow> 'p \<Rightarrow> 'p) \<Rightarrow> (bytes \<Rightarrow> 'p \<Rightarrow> 'p) \<Rightarrow> bytes \<Rightarrow> bool \<times> 'p \<Rightarrow> bool \<times> 'p" where
  "print_serial P uart_init write_fmt args = (\<lambda>(ready, p).
     (True, write_fmt args (if ready then p else serial_init P uart_init p)))"

subsection \<open>A processor\<close>

text \<open>The rules of the architecture: a segment register takes a selector of a loaded table whose slot has a descriptor of the right
  kind, and an interrupt can only be delivered with a vector table, remapped controllers and a task state segment.\<close>

record cpu =
  gdtr :: "Descriptor option list"
  cs :: "Descriptor option"
  ds :: "Descriptor option"
  es :: "Descriptor option"
  ss :: "Descriptor option"
  tr :: "TaskStateSegment option"
  idt_loaded :: bool
  pics_at :: "(u8 \<times> u8) option"
  interrupts_on :: bool

definition cpu_reset :: cpu where
  "cpu_reset = \<lparr>gdtr = [], cs = None, ds = None, es = None, ss = None, tr = None, idt_loaded = False, pics_at = None, interrupts_on = False\<rparr>"

definition slot_of :: "u16 \<Rightarrow> cpu \<Rightarrow> Descriptor option" where
  "slot_of sel c = (let i = unat sel div 8 in if unat sel mod 8 = 0 \<and> i < length (gdtr c) then gdtr c ! i else None)"

fun cpu_exec :: "('g \<Rightarrow> Descriptor option list) \<Rightarrow> 'g cpu_step \<Rightarrow> cpu \<Rightarrow> cpu option" where
  "cpu_exec table_slots (Load_gdt g) c = Some (c\<lparr>gdtr := table_slots g\<rparr>)"
| "cpu_exec table_slots (Set_CS sel) c = (if slot_of sel c = Some kernel_code_segment then Some (c\<lparr>cs := slot_of sel c\<rparr>) else None)"
| "cpu_exec table_slots (Set_DS sel) c = (if slot_of sel c = Some kernel_data_segment then Some (c\<lparr>ds := slot_of sel c\<rparr>) else None)"
| "cpu_exec table_slots (Set_ES sel) c = (if slot_of sel c = Some kernel_data_segment then Some (c\<lparr>es := slot_of sel c\<rparr>) else None)"
| "cpu_exec table_slots (Set_SS sel) c = (if slot_of sel c = Some kernel_data_segment then Some (c\<lparr>ss := slot_of sel c\<rparr>) else None)"
| "cpu_exec table_slots (Load_tss sel) c = (case slot_of sel c of Some (tss_segment t) \<Rightarrow> Some (c\<lparr>tr := Some t\<rparr>) | _ \<Rightarrow> None)"
| "cpu_exec table_slots Load_idt c = Some (c\<lparr>idt_loaded := True\<rparr>)"
| "cpu_exec table_slots (Initialize_pics o1 o2) c = Some (c\<lparr>pics_at := Some (o1, o2)\<rparr>)"
| "cpu_exec table_slots Setup_ports c = Some c"
| "cpu_exec table_slots Enable_interrupts c =
     (if idt_loaded c \<and> pics_at c \<noteq> None \<and> tr c \<noteq> None then Some (c\<lparr>interrupts_on := True\<rparr>) else None)"

fun cpu_run :: "('g \<Rightarrow> Descriptor option list) \<Rightarrow> 'g cpu_step list \<Rightarrow> cpu \<Rightarrow> cpu option" where
  "cpu_run table_slots [] c = Some c"
| "cpu_run table_slots (s # steps) c = do { c \<leftarrow> cpu_exec table_slots s c; cpu_run table_slots steps c }"

text \<open>A line of the controllers: what the processor is given for it.\<close>

definition line_vector :: "cpu \<Rightarrow> nat \<Rightarrow> u8 option" where
  "line_vector c irq = (case pics_at c of None \<Rightarrow> None
     | Some (o1, o2) \<Rightarrow> Some (if irq < 8 then o1 + of_nat irq else o2 + of_nat (irq - 8)))"

lemma GDT_ok:
  assumes "descriptor_table G table_slots"
  shows "\<exists>g. GDT G stack = Some (g, \<lparr>code_selector = 8, data_selector = 16, tss_selector = 24\<rparr>) \<and>
    table_slots g = [None, Some kernel_code_segment, Some kernel_data_segment,
      Some (tss_segment \<lparr>interrupt_stack_table = (stack + 20480) # replicate 6 0\<rparr>), None]"
proof -
  have add: "\<exists>g'. add_entry G d g = Some (of_nat (8 * length (table_slots g)), g') \<and> table_slots g' = table_slots g @ descriptor_slots d"
    if "length (table_slots g @ descriptor_slots d) \<le> 8" for d g using assms that unfolding descriptor_table_def by presburger
  have new: "table_slots (gdt_new G) = [None]" using assms by (simp add: descriptor_table_def)
  obtain g1 where g1: "add_entry G kernel_code_segment (gdt_new G) = Some (8, g1)" "table_slots g1 = [None, Some kernel_code_segment]"
    using add [of "gdt_new G" kernel_code_segment] by (auto simp: new descriptor_slots_def)
  obtain g2 where g2: "add_entry G kernel_data_segment g1 = Some (16, g2)"
    "table_slots g2 = [None, Some kernel_code_segment, Some kernel_data_segment]"
    using add [of g1 kernel_data_segment] by (auto simp: g1 descriptor_slots_def)
  have tss: "TSS stack = Some \<lparr>interrupt_stack_table = (stack + 20480) # replicate 6 0\<rparr>"
    by (simp add: TSS_def TaskStateSegment_new_def DOUBLE_FAULT_IST_INDEX_def STACK_SIZE_def array_simps numeral_eq_Suc)
  let ?t = "tss_segment \<lparr>interrupt_stack_table = (stack + 20480) # replicate 6 0\<rparr>"
  obtain g3 where "add_entry G ?t g2 = Some (24, g3)" "table_slots g3 = [None, Some kernel_code_segment, Some kernel_data_segment, Some ?t, None]"
    using add [of g2 ?t] by (auto simp: g2 descriptor_slots_def)
  with g1 g2 tss show ?thesis by (simp add: GDT_def)
qed

lemma kernel_init_ok:
  assumes "descriptor_table G table_slots"
  shows "\<exists>g steps. steps = [Load_gdt g, Set_CS 8, Set_DS 16, Set_ES 16, Set_SS 16, Load_tss 24, Load_idt,
      Initialize_pics PIC_1_OFFSET PIC_2_OFFSET, Setup_ports, Enable_interrupts] \<and> kernel_init G stack = Some steps \<and>
    cpu_run table_slots steps cpu_reset = Some \<lparr>gdtr = table_slots g, cs = Some kernel_code_segment, ds = Some kernel_data_segment,
      es = Some kernel_data_segment, ss = Some kernel_data_segment, tr = Some \<lparr>interrupt_stack_table = (stack + 20480) # replicate 6 0\<rparr>,
      idt_loaded = True, pics_at = Some (PIC_1_OFFSET, PIC_2_OFFSET), interrupts_on = True\<rparr>"
proof -
  from GDT_ok [OF assms, of stack] obtain g where g: "GDT G stack = Some (g, \<lparr>code_selector = 8, data_selector = 16, tss_selector = 24\<rparr>)"
    "table_slots g = [None, Some kernel_code_segment, Some kernel_data_segment,
      Some (tss_segment \<lparr>interrupt_stack_table = (stack + 20480) # replicate 6 0\<rparr>), None]" by blast
  then show ?thesis by (intro exI [of _ g]) (simp add: kernel_init_def gdt_init_def cpu_reset_def slot_of_def)
qed



end
