(* ===== verification/Nvme_Init.thy ===== *)
theory Nvme_Init
  imports Nvme
begin

text \<open>
  From power-on to the first block: the calls that the bus scan of \<^verbatim>\<open>kernel/src/pci.rs\<close> makes on a new NVMe driver, and what the
  driver relies on of the admin side of the controller (registers and admin queue pair). The result is the state from which
  \<^verbatim>\<open>Nvme\<close> starts: driver and controller in step on I/O queue pair 1.
\<close>

definition nvme_bring_up :: "'h nvme_hw \<Rightarrow> static_addrs \<Rightarrow> (u64 \<Rightarrow> u64 option) \<Rightarrow> 'h nvme \<Rightarrow> ((u16, bytes) result \<times> 'h nvme) option" where
  "nvme_bring_up D A translate_addr d = do {
     let (_, d) = ping D d;
     d \<leftarrow> disable D d;
     d \<leftarrow> configure_and_enable D A translate_addr d;
     (model, d) \<leftarrow> identify_controller D A translate_addr d;
     d \<leftarrow> setup_io_queues D A translate_addr d;
     Some (model, d) }"

subsection \<open>The admin side of the controller\<close>

text \<open>The controller has the registers, the number of further reads of \<open>CSTS\<close> until \<open>RDY\<close> follows the enable bit, the positions of the
  admin queues and whether I/O completion queue 1 exists.\<close>

record nvme_admin =
  a_regs :: "NvmeRegs \<Rightarrow> u32"
  a_wait :: nat
  a_fetch :: nat
  a_db :: nat
  a_post :: nat
  a_phase :: bool
  a_delay :: nat
  a_cq1 :: bool

text \<open>The physical addresses of the static queues and buffers are a \<open>static_addrs\<close> too. The admin commands the driver uses, with the
  fields that the specification asks for; anything else fails.\<close>

datatype admin_effect = Identified | Made_cq | Made_sq

definition admin_exec :: "static_addrs \<Rightarrow> bool \<Rightarrow> NvmeCmd \<Rightarrow> admin_effect option" where
  "admin_exec P cq1 cmd = (
     if opcode cmd = 0x06 \<and> cdw10 cmd = 1 \<and> hd (dptr cmd) = a_IDENTIFY_BUF P then Some Identified
     else if opcode cmd = 0x05 \<and> cdw10 cmd = 0x003F0001 \<and> cdw11 cmd = 1 \<and> hd (dptr cmd) = a_IO_CQ P then Some Made_cq
     else if opcode cmd = 0x01 \<and> cq1 \<and> cdw10 cmd = 0x003F0001 \<and> cdw11 cmd = 0x00010001 \<and> hd (dptr cmd) = a_IO_SQ P then Some Made_sq
     else None)"

text \<open>Queues of 64 entries at the addresses of the statics, and the controller enabled with entries of 64 and 16 bytes, pages of 4096
  bytes and the NVM command set.\<close>

definition admin_running :: "static_addrs \<Rightarrow> nvme_admin \<Rightarrow> bool" where
  "admin_running P w \<longleftrightarrow> a_regs w cc AND 0x00FFFFF1 = 0x00460001 \<and> a_wait w = 0 \<and> a_regs w aqa = 0x003F003F \<and>
     unat (a_regs w asq_low) + 2 ^ 32 * unat (a_regs w asq_high) = unat (a_ADMIN_SQ P) \<and>
     unat (a_regs w acq_low) + 2 ^ 32 * unat (a_regs w acq_high) = unat (a_ADMIN_CQ P)"

text \<open>The effect of one completed admin command on the memory, the admin side and I/O queue pair 1.\<close>

definition admin_completes :: "static_addrs \<Rightarrow> bytes \<Rightarrow> nvme_mem \<Rightarrow> nvme_admin \<Rightarrow> nvme_dev \<Rightarrow> nvme_mem \<Rightarrow> nvme_admin \<Rightarrow> nvme_dev \<Rightarrow> bool" where
  "admin_completes P ident m w d m' w' d' \<longleftrightarrow>
     (let x = admin_exec P (a_cq1 w) (ADMIN_SQ m ! a_fetch w) in
      \<exists>e k j. status e AND 1 = of_bool (a_phase w) \<and> (drop_bit 1 (status e) = 0 \<longleftrightarrow> x \<noteq> None) \<and>
        m' = m\<lparr>ADMIN_CQ := (ADMIN_CQ m)[a_post w := e], IDENTIFY_BUF := (if x = Some Identified then ident else IDENTIFY_BUF m)\<rparr> \<and>
        w' = w\<lparr>a_fetch := (a_fetch w + 1) mod ADMIN_QUEUE_SIZE, a_post := (a_post w + 1) mod ADMIN_QUEUE_SIZE,
          a_phase := (if a_post w + 1 = ADMIN_QUEUE_SIZE then \<not> a_phase w else a_phase w),
          a_delay := k, a_cq1 := (a_cq1 w \<or> x = Some Made_cq)\<rparr> \<and>
        d' = (if x = Some Made_sq then d\<lparr>d_fetch := 0, d_db := 0, d_post := 0, d_phase := 1, d_delay := j\<rparr> else d))"

definition queue_regs :: "NvmeRegs set" where
  "queue_regs = {aqa, asq_low, asq_high, acq_low, acq_high}"

text \<open>A controller conforms on its admin side when, through a view \<open>W\<close>: only reads of \<open>CSTS\<close> count; a cleared enable bit resets the
  queues and drops what was pending for I/O, and the sectors stay; queue registers and the enable bit are taken over while it is disabled;
  \<open>RDY\<close> follows the enable bit after finitely many reads; and with no I/O pending an announced admin command is delayed a
  finite number of accesses and then completes.\<close>

definition admin_conforms :: "'h nvme_hw \<Rightarrow> ('h \<Rightarrow> nvme_dev) \<Rightarrow> ('h \<Rightarrow> nvme_admin) \<Rightarrow> nat \<Rightarrow> u32 \<Rightarrow> static_addrs \<Rightarrow> bytes \<Rightarrow> bool" where
  "admin_conforms D V W base caph P ident \<longleftrightarrow> length ident = 4096 \<and>
     (\<forall>r h. r \<noteq> csts \<longrightarrow> V (snd (mmio_read D (base + reg_offset r) h)) = V h \<and> W (snd (mmio_read D (base + reg_offset r) h)) = W h) \<and>
     (\<forall>h. fst (mmio_read D (base + reg_offset cc) h) = a_regs (W h) cc) \<and>
     (\<forall>h. let (v, h') = mmio_read D (base + reg_offset csts) h in V h' = V h \<and>
        (if a_wait (W h) = 0 then v AND 1 = a_regs (W h) cc AND 1 \<and> W h' = W h
         else v AND 1 \<noteq> a_regs (W h) cc AND 1 \<and> W h' = (W h)\<lparr>a_wait := a_wait (W h) - 1\<rparr>)) \<and>
     (\<forall>v h. let h' = mmio_write D (base + reg_offset cc) v h in
        if v AND 1 = 0
        then d_disk (V h') = d_disk (V h) \<and> d_db (V h') = d_fetch (V h') \<and>
          (\<exists>k. W h' = (W h)\<lparr>a_regs := (a_regs (W h))(cc := v), a_wait := k, a_fetch := 0, a_db := 0, a_post := 0, a_phase := True, a_cq1 := False\<rparr>)
        else a_regs (W h) cc AND 1 = 0 \<longrightarrow> V h' = V h \<and> (\<exists>k. W h' = (W h)\<lparr>a_regs := (a_regs (W h))(cc := v), a_wait := k\<rparr>)) \<and>
     (\<forall>r \<in> queue_regs. \<forall>v h. a_regs (W h) cc AND 1 = 0 \<longrightarrow> V (mmio_write D (base + reg_offset r) v h) = V h \<and>
        W (mmio_write D (base + reg_offset r) v h) = (W h)\<lparr>a_regs := (a_regs (W h))(r := v)\<rparr>) \<and>
     (\<forall>v h. V (mmio_write D (base + 0x1000) v h) = V h \<and>
        (\<exists>k. W (mmio_write D (base + 0x1000) v h) = (W h)\<lparr>a_db := unat v, a_delay := k\<rparr>)) \<and>
     (\<forall>v h. V (mmio_write D (base + (0x1000 + 4 * 2 ^ unat (caph AND 0xF))) v h) = V h \<and>
        W (mmio_write D (base + (0x1000 + 4 * 2 ^ unat (caph AND 0xF))) v h) = W h) \<and>
     (\<forall>m h. admin_running P (W h) \<and> d_db (V h) = d_fetch (V h) \<and> a_db (W h) \<noteq> a_fetch (W h) \<longrightarrow>
        (if 0 < a_delay (W h)
         then fst (dma D m h) = m \<and> V (snd (dma D m h)) = V h \<and> W (snd (dma D m h)) = (W h)\<lparr>a_delay := a_delay (W h) - 1\<rparr>
         else admin_completes P ident m (W h) (V h) (fst (dma D m h)) (W (snd (dma D m h))) (V (snd (dma D m h)))))"

subsection \<open>Registers\<close>

lemma admin_conformsD:
  assumes "admin_conforms D V W base caph P ident"
  shows "length ident = 4096"
    "r \<noteq> csts \<Longrightarrow> V (snd (mmio_read D (base + reg_offset r) h)) = V h \<and> W (snd (mmio_read D (base + reg_offset r) h)) = W h"
    "fst (mmio_read D (base + reg_offset cc) h) = a_regs (W h) cc"
    "let (v, h') = mmio_read D (base + reg_offset csts) h in V h' = V h \<and>
        (if a_wait (W h) = 0 then v AND 1 = a_regs (W h) cc AND 1 \<and> W h' = W h
         else v AND 1 \<noteq> a_regs (W h) cc AND 1 \<and> W h' = (W h)\<lparr>a_wait := a_wait (W h) - 1\<rparr>)"
    "let h' = mmio_write D (base + reg_offset cc) v h in
        if v AND 1 = 0
        then d_disk (V h') = d_disk (V h) \<and> d_db (V h') = d_fetch (V h') \<and>
          (\<exists>k. W h' = (W h)\<lparr>a_regs := (a_regs (W h))(cc := v), a_wait := k, a_fetch := 0, a_db := 0, a_post := 0, a_phase := True, a_cq1 := False\<rparr>)
        else a_regs (W h) cc AND 1 = 0 \<longrightarrow> V h' = V h \<and> (\<exists>k. W h' = (W h)\<lparr>a_regs := (a_regs (W h))(cc := v), a_wait := k\<rparr>)"
    "r \<in> queue_regs \<Longrightarrow> a_regs (W h) cc AND 1 = 0 \<Longrightarrow> V (mmio_write D (base + reg_offset r) v h) = V h \<and>
        W (mmio_write D (base + reg_offset r) v h) = (W h)\<lparr>a_regs := (a_regs (W h))(r := v)\<rparr>"
    "V (mmio_write D (base + 0x1000) v h) = V h \<and> (\<exists>k. W (mmio_write D (base + 0x1000) v h) = (W h)\<lparr>a_db := unat v, a_delay := k\<rparr>)"
    "V (mmio_write D (base + (0x1000 + 4 * 2 ^ unat (caph AND 0xF))) v h) = V h \<and>
        W (mmio_write D (base + (0x1000 + 4 * 2 ^ unat (caph AND 0xF))) v h) = W h"
    "admin_running P (W h) \<Longrightarrow> d_db (V h) = d_fetch (V h) \<Longrightarrow> a_db (W h) \<noteq> a_fetch (W h) \<Longrightarrow>
        (if 0 < a_delay (W h)
         then fst (dma D m h) = m \<and> V (snd (dma D m h)) = V h \<and> W (snd (dma D m h)) = (W h)\<lparr>a_delay := a_delay (W h) - 1\<rparr>
         else admin_completes P ident m (W h) (V h) (fst (dma D m h)) (W (snd (dma D m h))) (V (snd (dma D m h))))"
  using assms unfolding admin_conforms_def by - (elim conjE; blast)+

lemma admin_reads:
  assumes "admin_conforms D V W base caph P ident" "mmio_base (ctl s) = base" "r \<noteq> csts"
  obtains h where "reg_read D r s = (fst (mmio_read D (base + reg_offset r) (hw s)), s\<lparr>hw := h\<rparr>)" "V h = V (hw s)" "W h = W (hw s)"
  using admin_conformsD(2) [OF assms(1,3), of "hw s"] assms(2) by (simp add: reg_read_def case_prod_beta)

lemma admin_csts:
  assumes "admin_conforms D V W base caph P ident" "mmio_base (ctl s) = base"
  obtains v h where "reg_read D csts s = (v, s\<lparr>hw := h\<rparr>)" "V h = V (hw s)"
    "a_wait (W (hw s)) = 0 \<Longrightarrow> v AND 1 = a_regs (W (hw s)) cc AND 1 \<and> W h = W (hw s)"
    "a_wait (W (hw s)) = Suc n \<Longrightarrow> v AND 1 \<noteq> a_regs (W (hw s)) cc AND 1 \<and> W h = (W (hw s))\<lparr>a_wait := n\<rparr>"
  using admin_conformsD(4) [OF assms(1), of "hw s"] assms(2) by (auto simp: reg_read_def case_prod_beta split: if_splits)

lemma wait_rdy_returns:
  assumes "admin_conforms D V W base caph P ident" "mmio_base (ctl s) = base" "a_regs (W (hw s)) cc AND 1 = rdy"
  shows "\<exists>h. wait_rdy D rdy s = Some (s\<lparr>hw := h\<rparr>) \<and> V h = V (hw s) \<and> W h = (W (hw s))\<lparr>a_wait := 0\<rparr>"
  using assms(2,3)
proof (induction "a_wait (W (hw s))" arbitrary: s)
  case 0
  from admin_csts [OF assms(1) 0(2)] obtain v h where
    "reg_read D csts s = (v, s\<lparr>hw := h\<rparr>)" "V h = V (hw s)" "v AND 1 = rdy" "W h = W (hw s)" using 0(1,3) by metis
  moreover have "W (hw s) = (W (hw s))\<lparr>a_wait := 0\<rparr>" using 0(1) by (cases "W (hw s)") simp
  ultimately show ?case by (subst wait_rdy.simps) (auto intro!: exI [of _ h])
next
  case (Suc n)
  from admin_csts [OF assms(1) Suc(3), of n] obtain v h where
    h: "reg_read D csts s = (v, s\<lparr>hw := h\<rparr>)" "V h = V (hw s)" "v AND 1 \<noteq> rdy" "W h = (W (hw s))\<lparr>a_wait := n\<rparr>"
    using Suc(2,4) by metis
  have "wait_rdy D rdy s = wait_rdy D rdy (s\<lparr>hw := h\<rparr>)" using h(1,3) by (subst wait_rdy.simps) simp
  with Suc.hyps(1) [of "s\<lparr>hw := h\<rparr>"] Suc.prems h(2,4) show ?case by auto
qed

subsection \<open>Off and on again\<close>

lemma ping_ok:
  assumes "admin_conforms D V W base caph P ident" "mmio_base (ctl s) = base"
  shows "\<exists>out h. ping D s = (out, s\<lparr>hw := h\<rparr>) \<and> d_disk (V h) = d_disk (V (hw s))"
proof -
  obtain h1 where 1: "reg_read D vs s = (fst (mmio_read D (base + reg_offset vs) (hw s)), s\<lparr>hw := h1\<rparr>)" "V h1 = V (hw s)"
    by (rule admin_reads [OF assms, of vs]) simp_all
  obtain v h2 where 2: "reg_read D csts (s\<lparr>hw := h1\<rparr>) = (v, s\<lparr>hw := h2\<rparr>)" "V h2 = V h1"
    using admin_csts [OF assms(1), of "s\<lparr>hw := h1\<rparr>"] assms(2) by (metis nvme.select_convs(1,3) nvme.update_convs(3) nvme.surjective)
  obtain h3 where 3: "reg_read D cap_low (s\<lparr>hw := h2\<rparr>) = (fst (mmio_read D (base + reg_offset cap_low) h2), s\<lparr>hw := h3\<rparr>)" "V h3 = V h2"
    using admin_reads [OF assms(1), of "s\<lparr>hw := h2\<rparr>" cap_low] assms(2)
    by (metis NvmeRegs.distinct(13) nvme.select_convs(1,3) nvme.update_convs(3) nvme.surjective)
  show ?thesis using 1 2 3 by (auto simp: ping_def Let_def intro!: exI [of _ h3])
qed

definition admin_off :: "nvme_admin \<Rightarrow> bool" where
  "admin_off w \<longleftrightarrow> a_regs w cc AND 1 = 0 \<and> a_fetch w = 0 \<and> a_db w = 0 \<and> a_post w = 0 \<and> a_phase w \<and> \<not> a_cq1 w"

lemma disable_ok:
  assumes "admin_conforms D V W base caph P ident" "mmio_base (ctl s) = base"
  shows "\<exists>h. disable D s = Some (s\<lparr>hw := h\<rparr>) \<and> admin_off (W h) \<and> d_disk (V h) = d_disk (V (hw s)) \<and> d_db (V h) = d_fetch (V h)"
proof -
  obtain h1 where h1: "reg_read D cc s = (fst (mmio_read D (base + reg_offset cc) (hw s)), s\<lparr>hw := h1\<rparr>)" "V h1 = V (hw s)"
    by (rule admin_reads [OF assms, of cc]) simp_all
  let ?c = "fst (mmio_read D (base + reg_offset cc) (hw s)) AND NOT 1" and ?h = "\<lambda>c. mmio_write D (base + reg_offset cc) c h1"
  have c: "?c AND 1 = 0" by (simp add: and.assoc)
  from admin_conformsD(5) [OF assms(1), of ?c h1] obtain k where
    k: "W (?h ?c) = (W h1)\<lparr>a_regs := (a_regs (W h1))(cc := ?c), a_wait := k, a_fetch := 0, a_db := 0, a_post := 0, a_phase := True, a_cq1 := False\<rparr>"
    "d_disk (V (?h ?c)) = d_disk (V h1)" "d_db (V (?h ?c)) = d_fetch (V (?h ?c))" unfolding Let_def if_P [OF c] by blast
  from wait_rdy_returns [OF assms(1), of "s\<lparr>hw := ?h ?c\<rparr>" 0] k(1) c assms(2) obtain h where
    "wait_rdy D 0 (s\<lparr>hw := ?h ?c\<rparr>) = Some (s\<lparr>hw := h\<rparr>)" "V h = V (?h ?c)" "W h = (W (?h ?c))\<lparr>a_wait := 0\<rparr>" by auto
  with h1 k c assms(2) show ?thesis by (auto simp: disable_def reg_write_def admin_off_def)
qed

lemma admin_write:
  assumes "admin_conforms D V W base caph P ident" "mmio_base (ctl s) = base" "r \<in> queue_regs" "a_regs (W (hw s)) cc AND 1 = 0"
  shows "\<exists>h. reg_write D r v s = s\<lparr>hw := h\<rparr> \<and> V h = V (hw s) \<and> W h = (W (hw s))\<lparr>a_regs := (a_regs (W (hw s)))(r := v)\<rparr>"
  using admin_conformsD(6) [OF assms(1,3,4)] assms(2) by (auto simp: reg_write_def)

lemma admin_writes:
  assumes "admin_conforms D V W base caph P ident" "mmio_base (ctl s) = base" "set (map fst rvs) \<subseteq> queue_regs" "a_regs (W (hw s)) cc AND 1 = 0"
  shows "\<exists>h. fold (\<lambda>(r, v). reg_write D r v) rvs s = s\<lparr>hw := h\<rparr> \<and> V h = V (hw s) \<and>
    W h = (W (hw s))\<lparr>a_regs := fold (\<lambda>(r, v) f. f(r := v)) rvs (a_regs (W (hw s)))\<rparr>"
  using assms(2-4)
proof (induction rvs arbitrary: s)
  case Nil
  then show ?case by (auto intro!: exI [of _ "hw s"])
next
  case (Cons rv rvs)
  obtain r v where rv: "rv = (r, v)" by fastforce
  from admin_write [OF assms(1) Cons.prems(1), of r v] Cons.prems rv obtain h where
    h: "reg_write D r v s = s\<lparr>hw := h\<rparr>" "V h = V (hw s)" "W h = (W (hw s))\<lparr>a_regs := (a_regs (W (hw s)))(r := v)\<rparr>" by auto
  have "r \<noteq> cc" using Cons.prems(2) rv by (auto simp: queue_regs_def)
  with Cons.IH [of "s\<lparr>hw := h\<rparr>"] Cons.prems h rv show ?case by auto
qed

lemma halves: "unat (ucast (w AND 0xFFFFFFFF) :: u32) + 2 ^ 32 * unat (ucast (drop_bit 32 w) :: u32) = unat (w :: u64)"
  using cmd_lba_rw [of 0 0 w] by (simp add: cmd_lba_def rw_cmd_def)

text \<open>The configuration the driver writes, whatever was in the register.\<close>

lemma enabled_cc: "((c AND 0xFF00000F) OR (push_bit 20 4 OR push_bit 16 6 OR 1)) AND 1 = (1 :: u32)"
  "((c AND 0xFF00000F) OR (push_bit 20 4 OR push_bit 16 6 OR 1)) AND 0x00FFFFF1 = 0x00460001 OR (c AND (1 :: u32))"
proof -
  have n: "push_bit 20 4 OR push_bit 16 6 OR 1 = (0x00460001 :: u32)" by code_simp
  show "((c AND 0xFF00000F) OR (push_bit 20 4 OR push_bit 16 6 OR 1)) AND 1 = (1 :: u32)"
    unfolding n by (simp add: bit.conj_disj_distrib2 and.assoc)
  have m: "(0xFF00000F :: u32) AND 0x00FFFFF1 = 1" "(0x00460001 :: u32) AND 0x00FFFFF1 = 0x00460001" by code_simp+
  show "((c AND 0xFF00000F) OR (push_bit 20 4 OR push_bit 16 6 OR 1)) AND 0x00FFFFF1 = 0x00460001 OR (c AND (1 :: u32))"
    unfolding n bit.conj_disj_distrib2 and.assoc m by (simp add: or.commute)
qed

lemma configure_ok:
  assumes "admin_conforms D V W base caph P ident" "mmio_base (ctl s) = base" "admin_off (W (hw s))"
    "tr (a_ADMIN_SQ A) = Some (a_ADMIN_SQ P)" "tr (a_ADMIN_CQ A) = Some (a_ADMIN_CQ P)"
  shows "\<exists>h. configure_and_enable D A tr s = Some (s\<lparr>hw := h\<rparr>) \<and> V h = V (hw s) \<and> admin_running P (W h) \<and>
    a_fetch (W h) = 0 \<and> a_db (W h) = 0 \<and> a_post (W h) = 0 \<and> a_phase (W h) \<and> \<not> a_cq1 (W h)"
proof -
  let ?sq = "a_ADMIN_SQ P" and ?cq = "a_ADMIN_CQ P"
  let ?rvs = "[(aqa, 0x003F003F), (asq_low, ucast (?sq AND 0xFFFFFFFF)), (asq_high, ucast (drop_bit 32 ?sq)),
    (acq_low, ucast (?cq AND 0xFFFFFFFF)), (acq_high, ucast (drop_bit 32 ?cq))]"
  have off: "a_regs (W (hw s)) cc AND 1 = 0" using assms(3) by (simp add: admin_off_def)
  from admin_writes [OF assms(1,2) _ off, of ?rvs] obtain h1 where
    h1: "fold (\<lambda>(r, v). reg_write D r v) ?rvs s = s\<lparr>hw := h1\<rparr>" "V h1 = V (hw s)"
    "W h1 = (W (hw s))\<lparr>a_regs := fold (\<lambda>(r, v) f. f(r := v)) ?rvs (a_regs (W (hw s)))\<rparr>" by (auto simp: queue_regs_def)
  have cc1: "a_regs (W h1) cc = a_regs (W (hw s)) cc" by (simp add: h1(3))
  obtain h2 where h2: "reg_read D cc (s\<lparr>hw := h1\<rparr>) = (a_regs (W h1) cc, s\<lparr>hw := h2\<rparr>)" "V h2 = V h1" "W h2 = W h1"
    using admin_reads [OF assms(1), of "s\<lparr>hw := h1\<rparr>" cc] assms(2) admin_conformsD(3) [OF assms(1)] by (auto simp del: reg_offset.simps)
  define c where "c = (a_regs (W h1) cc AND 0xFF00000F) OR (push_bit 20 4 OR push_bit 16 6 OR 1)"
  have c: "c AND 1 = 1" "c AND 0x00FFFFF1 = 0x00460001" using enabled_cc [of "a_regs (W h1) cc"] off by (simp_all add: c_def cc1)
  let ?h = "mmio_write D (base + reg_offset cc) c h2"
  from admin_conformsD(5) [OF assms(1), of c h2] c(1) off h2(3) cc1 obtain k where
    k: "V ?h = V h2" "W ?h = (W h2)\<lparr>a_regs := (a_regs (W h2))(cc := c), a_wait := k\<rparr>" by (auto simp: Let_def simp del: reg_offset.simps)
  from wait_rdy_returns [OF assms(1), of "s\<lparr>hw := ?h\<rparr>" 1] k(2) c(1) assms(2) obtain h where
    h: "wait_rdy D 1 (s\<lparr>hw := ?h\<rparr>) = Some (s\<lparr>hw := h\<rparr>)" "V h = V ?h" "W h = (W ?h)\<lparr>a_wait := 0\<rparr>" by auto
  have aqa: "push_bit 16 (of_nat ADMIN_QUEUE_SIZE - 1) OR (of_nat ADMIN_QUEUE_SIZE - 1) = (0x003F003F :: u32)"
    unfolding ADMIN_QUEUE_SIZE_def by code_simp
  have "configure_and_enable D A tr s = Some (s\<lparr>hw := h\<rparr>)"
    using h1(1) h2(1) h(1) [unfolded c_def] assms(2) unfolding configure_and_enable_def assms(4,5) aqa
    by (simp add: reg_write_def [of D cc])
  moreover have "admin_running P (W h)" unfolding admin_running_def h(3) k(2) h2(3) h1(3) by (simp add: c(2) halves [simplified])
  moreover have "a_fetch (W h) = 0" "a_db (W h) = 0" "a_post (W h) = 0" "a_phase (W h)" "\<not> a_cq1 (W h)" "V h = V (hw s)"
    unfolding h(2,3) k h2(2,3) h1(2,3) using assms(3) by (simp_all add: admin_off_def)
  ultimately show ?thesis by blast
qed

subsection \<open>Admin commands\<close>

text \<open>Driver and controller agree on the admin queues, which do not wrap during the bring-up: \<open>n\<close> commands have completed and \<open>t\<close> were
  submitted. The completion slots from \<open>n\<close> on carry the old tag.\<close>

definition admin_state :: "('h \<Rightarrow> nvme_dev) \<Rightarrow> ('h \<Rightarrow> nvme_admin) \<Rightarrow> nat \<Rightarrow> static_addrs \<Rightarrow> nat \<Rightarrow> nat \<Rightarrow> 'h nvme \<Rightarrow> bool" where
  "admin_state V W base P n t s \<longleftrightarrow> mmio_base (ctl s) = base \<and> admin_running P (W (hw s)) \<and> d_db (V (hw s)) = d_fetch (V (hw s)) \<and>
     admin_sq_tail (ctl s) = t \<and> admin_cq_head (ctl s) = n \<and> a_fetch (W (hw s)) = n \<and> a_db (W (hw s)) = t \<and> a_post (W (hw s)) = n \<and>
     a_phase (W (hw s)) \<and> length (ADMIN_SQ (nmem s)) = 64 \<and> length (ADMIN_CQ (nmem s)) = 64 \<and>
     (\<forall>i. n \<le> i \<and> i < 64 \<longrightarrow> status (ADMIN_CQ (nmem s) ! i) AND 1 = 0)"

lemma admin_doorbells:
  assumes "admin_conforms D V W base caph P ident" "nvme_conforms D V base caph buf B cap" "mmio_base (ctl s) = base"
  shows "\<exists>h k. sq_doorbell D 0 v s = s\<lparr>hw := h\<rparr> \<and> V h = V (hw s) \<and> W h = (W (hw s))\<lparr>a_db := unat (of_nat v :: u32), a_delay := k\<rparr>"
    and "\<exists>h. cq_doorbell D 0 v s = s\<lparr>hw := h\<rparr> \<and> V h = V (hw s) \<and> W h = W (hw s)"
proof -
  have "fst (mmio_read D (base + reg_offset cap_high) (hw s)) = caph" using assms(2) unfolding nvme_conforms_def by blast
  with admin_reads [OF assms(1,3), of cap_high] obtain h1 where
    r: "reg_read D cap_high s = (caph, s\<lparr>hw := h1\<rparr>)" "V h1 = V (hw s)" "W h1 = W (hw s)" by (auto simp del: reg_offset.simps)
  from admin_conformsD(7) [OF assms(1), of "of_nat v" h1] obtain k where
    "V (mmio_write D (base + 0x1000) (of_nat v) h1) = V h1"
    "W (mmio_write D (base + 0x1000) (of_nat v) h1) = (W h1)\<lparr>a_db := unat (of_nat v :: u32), a_delay := k\<rparr>" by blast
  with r assms(3) show "\<exists>h k. sq_doorbell D 0 v s = s\<lparr>hw := h\<rparr> \<and> V h = V (hw s) \<and>
      W h = (W (hw s))\<lparr>a_db := unat (of_nat v :: u32), a_delay := k\<rparr>" by (auto simp: sq_doorbell_def Let_def)
  from admin_conformsD(8) [OF assms(1), of "of_nat v" h1] r assms(3)
  show "\<exists>h. cq_doorbell D 0 v s = s\<lparr>hw := h\<rparr> \<and> V h = V (hw s) \<and> W h = W (hw s)" by (auto simp: cq_doorbell_def Let_def)
qed

text \<open>What a completed command leaves behind, seen from the driver.\<close>

definition admin_done :: "('h \<Rightarrow> nvme_dev) \<Rightarrow> ('h \<Rightarrow> nvme_admin) \<Rightarrow> bytes \<Rightarrow> admin_effect option \<Rightarrow> 'h nvme \<Rightarrow> (u16, unit) result \<Rightarrow> 'h nvme \<Rightarrow> bool" where
  "admin_done V W ident x s r s' \<longleftrightarrow> (if x = None then \<exists>e. r = Err e else r = Ok ()) \<and>
     nmem s' = (nmem s)\<lparr>ADMIN_SQ := ADMIN_SQ (nmem s'), ADMIN_CQ := ADMIN_CQ (nmem s'),
       IDENTIFY_BUF := (if x = Some Identified then ident else IDENTIFY_BUF (nmem s))\<rparr> \<and>
     ctl s' = (ctl s)\<lparr>admin_sq_tail := admin_sq_tail (ctl s'), admin_cq_head := admin_cq_head (ctl s')\<rparr> \<and>
     a_cq1 (W (hw s')) = (a_cq1 (W (hw s)) \<or> x = Some Made_cq) \<and>
     (\<exists>j. V (hw s') = (if x = Some Made_sq then (V (hw s))\<lparr>d_fetch := 0, d_db := 0, d_post := 0, d_phase := 1, d_delay := j\<rparr> else V (hw s)))"

lemma admin_running_cong:
  "a_regs w' = a_regs w \<Longrightarrow> a_wait w' = a_wait w \<Longrightarrow> admin_running P w' = admin_running P w"
  by (simp add: admin_running_def)

lemma poll_admin_completes:
  assumes "admin_conforms D V W base caph P ident" "nvme_conforms D V base caph buf B cap"
    "admin_state V W base P n (n + 1) s" "n + 1 < 64" "a_delay (W (hw s)) = 0" "x = admin_exec P (a_cq1 (W (hw s))) (ADMIN_SQ (nmem s) ! n)"
  shows "\<exists>r s'. poll_admin D s = Some (r, s') \<and> admin_state V W base P (n + 1) (n + 1) s' \<and> admin_done V W ident x s r s'"
proof -
  let ?w = "W (hw s)"
  have st: "mmio_base (ctl s) = base" "admin_running P ?w" "d_db (V (hw s)) = d_fetch (V (hw s))" "admin_sq_tail (ctl s) = n + 1"
    "admin_cq_head (ctl s) = n" "a_fetch ?w = n" "a_db ?w = n + 1" "a_post ?w = n" "a_phase ?w"
    "length (ADMIN_SQ (nmem s)) = 64" "length (ADMIN_CQ (nmem s)) = 64" "\<forall>i. n \<le> i \<and> i < 64 \<longrightarrow> status (ADMIN_CQ (nmem s) ! i) AND 1 = 0"
    using assms(3) by (simp_all add: admin_state_def)
  obtain m h where mh: "dma D (nmem s) (hw s) = (m, h)" by fastforce
  from admin_conformsD(9) [OF assms(1) st(2,3), of "nmem s"] st(6,7) assms(5) mh
  have "admin_completes P ident (nmem s) ?w (V (hw s)) m (W h) (V h)" by simp
  then obtain e k j where e: "status e AND 1 = 1" "drop_bit 1 (status e) = 0 \<longleftrightarrow> x \<noteq> None"
    "m = (nmem s)\<lparr>ADMIN_CQ := (ADMIN_CQ (nmem s))[n := e], IDENTIFY_BUF := (if x = Some Identified then ident else IDENTIFY_BUF (nmem s))\<rparr>"
    "W h = ?w\<lparr>a_fetch := n + 1, a_post := n + 1, a_phase := True, a_delay := k, a_cq1 := (a_cq1 ?w \<or> x = Some Made_cq)\<rparr>"
    "V h = (if x = Some Made_sq then (V (hw s))\<lparr>d_fetch := 0, d_db := 0, d_post := 0, d_phase := 1, d_delay := j\<rparr> else V (hw s))"
    using st(6,8,9) assms(4,6) unfolding admin_completes_def by (auto simp: Let_def ADMIN_QUEUE_SIZE_def)
  define s1 where "s1 = s\<lparr>nmem := m, hw := h, ctl := (ctl s)\<lparr>admin_cq_head := n + 1\<rparr>\<rparr>"
  obtain h' where h': "cq_doorbell D 0 (n + 1) s1 = s1\<lparr>hw := h'\<rparr>" "V h' = V h" "W h' = W h"
    using admin_doorbells(2) [OF assms(1,2), of s1 "n + 1"] st(1) by (auto simp: s1_def)
  define s' where "s' = s1\<lparr>hw := h'\<rparr>"
  have "aget (ADMIN_CQ m) n = Some e" using st(11) assms(4) by (simp add: e(3) array_simps)
  then have p: "poll_admin D s = Some (if drop_bit 1 (status e) = 0 then Ok () else Err (status e), s')"
    using mh e(1) h'(1) st(5) by (subst poll_admin.simps) (simp add: s1_def s'_def)
  have s': "ctl s' = (ctl s)\<lparr>admin_cq_head := n + 1\<rparr>" "nmem s' = m" "V (hw s') = V h" "W (hw s') = W h"
    using h'(2,3) by (simp_all add: s'_def s1_def)
  have "admin_running P (W h)" using st(2) admin_running_cong [of "W h" ?w] by (simp add: e(4))
  then have "admin_state V W base P (n + 1) (n + 1) s'" using st by (simp add: admin_state_def s' e(3-5))
  moreover have "admin_done V W ident x s (if drop_bit 1 (status e) = 0 then Ok () else Err (status e)) s'"
    unfolding admin_done_def s' e(3,4,5) using e(2) by (cases "ctl s"; cases "nmem s") (auto intro!: exI [of _ j])
  ultimately show ?thesis using p by blast
qed

lemma admin_done_hw:
  assumes "V h = V (hw s)" "a_cq1 (W h) = a_cq1 (W (hw s))"
  shows "admin_done V W ident x (s\<lparr>hw := h\<rparr>) r s' = admin_done V W ident x s r s'"
  using assms by (simp add: admin_done_def)

lemma poll_admin_returns:
  assumes "admin_conforms D V W base caph P ident" "nvme_conforms D V base caph buf B cap"
    "admin_state V W base P n (n + 1) s" "n + 1 < 64" "x = admin_exec P (a_cq1 (W (hw s))) (ADMIN_SQ (nmem s) ! n)"
  shows "\<exists>r s'. poll_admin D s = Some (r, s') \<and> admin_state V W base P (n + 1) (n + 1) s' \<and> admin_done V W ident x s r s'"
  using assms(3,5)
proof (induction "a_delay (W (hw s))" arbitrary: s)
  case 0
  from poll_admin_completes [OF assms(1,2) 0(2) assms(4) 0(1) [symmetric] 0(3)] show ?case .
next
  case (Suc k)
  obtain m h where mh: "dma D (nmem s) (hw s) = (m, h)" by fastforce
  have st: "admin_running P (W (hw s))" "d_db (V (hw s)) = d_fetch (V (hw s))" "a_fetch (W (hw s)) = n" "a_db (W (hw s)) = n + 1"
    "admin_cq_head (ctl s) = n" "length (ADMIN_CQ (nmem s)) = 64" "status (ADMIN_CQ (nmem s) ! n) AND 1 = 0"
    using Suc.prems(1) assms(4) by (simp_all add: admin_state_def)
  from admin_conformsD(9) [OF assms(1) st(1,2), of "nmem s"] st(3,4) Suc.hyps(2) mh
  have h: "m = nmem s" "V h = V (hw s)" "W h = (W (hw s))\<lparr>a_delay := k\<rparr>" by (simp_all split: if_splits)
  have "poll_admin D s = poll_admin D (s\<lparr>hw := h\<rparr>)" using mh h(1) st(5-7) assms(4) by (subst poll_admin.simps) (simp add: array_simps)
  moreover have "admin_state V W base P n (n + 1) (s\<lparr>hw := h\<rparr>)"
    using Suc.prems(1) by (simp add: admin_state_def h admin_running_def)
  ultimately show ?case
    using Suc.hyps(1) [of "s\<lparr>hw := h\<rparr>"] Suc.prems(2) admin_done_hw [of V h s W ident x] by (simp add: h)
qed

lemma submit_admin_ok:
  assumes "admin_conforms D V W base caph P ident" "nvme_conforms D V base caph buf B cap"
    "admin_state V W base P n n s" "n + 1 < 64" "x = admin_exec P (a_cq1 (W (hw s))) cmd"
  shows "\<exists>r s'. submit_admin_cmd D cmd s = Some (r, s') \<and> admin_state V W base P (n + 1) (n + 1) s' \<and> admin_done V W ident x s r s'"
proof -
  let ?s = "s\<lparr>nmem := (nmem s)\<lparr>ADMIN_SQ := (ADMIN_SQ (nmem s))[n := cmd]\<rparr>, ctl := (ctl s)\<lparr>admin_sq_tail := n + 1\<rparr>\<rparr>"
  have st: "admin_sq_tail (ctl s) = n" "length (ADMIN_SQ (nmem s)) = 64" "mmio_base (ctl s) = base" using assms(3) by (simp_all add: admin_state_def)
  have v: "unat (of_nat (n + 1) :: u32) = n + 1" using assms(4) by (simp add: unat_of_nat take_bit_nat_def del: of_nat_Suc of_nat_add)
  have "mmio_base (ctl ?s) = base" using st(3) by simp
  from admin_doorbells(1) [OF assms(1,2) this, of "n + 1", unfolded v] obtain h k where
    h: "sq_doorbell D 0 (n + 1) ?s = ?s\<lparr>hw := h\<rparr>" "V h = V (hw s)" "W h = (W (hw s))\<lparr>a_db := n + 1, a_delay := k\<rparr>" by auto
  have "admin_state V W base P n (n + 1) (?s\<lparr>hw := h\<rparr>)"
    using assms(3) by (simp add: admin_state_def h(2,3) admin_running_def)
  from poll_admin_returns [OF assms(1,2) this assms(4) refl] obtain r s' where
    p: "poll_admin D (?s\<lparr>hw := h\<rparr>) = Some (r, s')" "admin_state V W base P (n + 1) (n + 1) s'"
    "admin_done V W ident x (?s\<lparr>hw := h\<rparr>) r s'"
    using assms(4,5) st(2) by (simp add: h(3)) blast
  have "submit_admin_cmd D cmd s = Some (r, s')"
    using p(1) h(1) st assms(4) by (simp add: submit_admin_cmd_def array_simps)
  moreover have "admin_done V W ident x s r s'" using p(3) by (simp add: admin_done_def h(2,3) cong: if_cong)
  ultimately show ?thesis using p(2) by blast
qed

lemma identify_ok:
  assumes "admin_conforms D V W base caph P ident" "nvme_conforms D V base caph buf B cap" "admin_state V W base P 0 0 s"
    "tr (a_IDENTIFY_BUF A) = Some (a_IDENTIFY_BUF P)"
  shows "\<exists>s'. identify_controller D A tr s = Some (Ok (take 40 (drop 24 ident)), s') \<and> admin_state V W base P 1 1 s' \<and>
    admin_done V W ident (Some Identified) s (Ok ()) s'"
proof -
  let ?cmd = "NvmeCmd_empty\<lparr>opcode := 0x06, cdw10 := 1, dptr := [a_IDENTIFY_BUF P, 0]\<rparr>"
  have "Some Identified = admin_exec P (a_cq1 (W (hw s))) ?cmd" by (simp add: admin_exec_def NvmeCmd_empty_def)
  from submit_admin_ok [OF assms(1-3) _ this] obtain r s' where
    s': "submit_admin_cmd D ?cmd s = Some (r, s')" "admin_state V W base P 1 1 s'" "admin_done V W ident (Some Identified) s r s'" by auto
  from s'(3) have d: "r = Ok ()" "nmem s' = (nmem s)\<lparr>ADMIN_SQ := ADMIN_SQ (nmem s'), ADMIN_CQ := ADMIN_CQ (nmem s'), IDENTIFY_BUF := ident\<rparr>"
    by (simp_all add: admin_done_def)
  have "IDENTIFY_BUF (nmem s') = ident" using arg_cong [OF d(2), of IDENTIFY_BUF] by simp
  with d(1) s' assms(4) admin_conformsD(1) [OF assms(1)] show ?thesis by (auto simp: identify_controller_def slice_def)
qed

lemma setup_ok:
  assumes "admin_conforms D V W base caph P ident" "nvme_conforms D V base caph buf B cap" "admin_state V W base P 1 1 s"
    "tr (a_IO_CQ A) = Some (a_IO_CQ P)" "tr (a_IO_SQ A) = Some (a_IO_SQ P)" "tr (a_IO_BUF A) = Some (a_IO_BUF P)"
  shows "\<exists>s0 s1 s'. setup_io_queues D A tr s = Some s' \<and> s0 = s\<lparr>ctl := (ctl s)\<lparr>io_buf_phys := a_IO_BUF P\<rparr>\<rparr> \<and>
    admin_done V W ident (Some Made_cq) s0 (Ok ()) s1 \<and> admin_done V W ident (Some Made_sq) s1 (Ok ()) s' \<and> admin_state V W base P 3 3 s'"
proof -
  let ?s = "s\<lparr>ctl := (ctl s)\<lparr>io_buf_phys := a_IO_BUF P\<rparr>\<rparr>"
  let ?cq = "NvmeCmd_empty\<lparr>opcode := 0x05, dptr := [a_IO_CQ P, 0], cdw10 := push_bit 16 (of_nat IO_QUEUE_SIZE - 1) OR 1, cdw11 := 1\<rparr>"
  let ?sq = "NvmeCmd_empty\<lparr>opcode := 0x01, dptr := [a_IO_SQ P, 0], cdw10 := push_bit 16 (of_nat IO_QUEUE_SIZE - 1) OR 1,
    cdw11 := push_bit 16 1 OR 1\<rparr>"
  have q: "push_bit 16 (of_nat IO_QUEUE_SIZE - 1) OR 1 = (0x003F0001 :: u32)" "push_bit 16 1 OR 1 = (0x00010001 :: u32)"
    unfolding IO_QUEUE_SIZE_def by code_simp+
  have st: "admin_state V W base P 1 1 ?s" using assms(3) by (simp add: admin_state_def)
  have "Some Made_cq = admin_exec P (a_cq1 (W (hw ?s))) ?cq" unfolding q by (simp add: admin_exec_def NvmeCmd_empty_def)
  from submit_admin_ok [OF assms(1,2) st _ this] obtain s1 where
    s1: "submit_admin_cmd D ?cq ?s = Some (Ok (), s1)" "admin_state V W base P 2 2 s1" "admin_done V W ident (Some Made_cq) ?s (Ok ()) s1"
    by (auto simp: admin_done_def numeral_2_eq_2)
  have "a_cq1 (W (hw s1))" using s1(3) by (simp add: admin_done_def)
  then have "Some Made_sq = admin_exec P (a_cq1 (W (hw s1))) ?sq" unfolding q by (simp add: admin_exec_def NvmeCmd_empty_def)
  from submit_admin_ok [OF assms(1,2) s1(2) _ this] obtain s2 where
    s2: "submit_admin_cmd D ?sq s1 = Some (Ok (), s2)" "admin_state V W base P 3 3 s2" "admin_done V W ident (Some Made_sq) s1 (Ok ()) s2"
    by (auto simp: admin_done_def numeral_3_eq_3)
  have "setup_io_queues D A tr s = Some s2" unfolding setup_io_queues_def assms(4-6) using s1(1) s2(1) by (simp add: Let_def)
  with s1(3) s2(2,3) show ?thesis by blast
qed

subsection \<open>From power-on to the first block\<close>

text \<open>The page tables translate the addresses of the statics.\<close>

definition translates :: "(u64 \<Rightarrow> u64 option) \<Rightarrow> static_addrs \<Rightarrow> static_addrs \<Rightarrow> bool" where
  "translates tr A P \<longleftrightarrow> tr (a_ADMIN_SQ A) = Some (a_ADMIN_SQ P) \<and> tr (a_ADMIN_CQ A) = Some (a_ADMIN_CQ P) \<and>
     tr (a_IO_SQ A) = Some (a_IO_SQ P) \<and> tr (a_IO_CQ A) = Some (a_IO_CQ P) \<and>
     tr (a_IDENTIFY_BUF A) = Some (a_IDENTIFY_BUF P) \<and> tr (a_IO_BUF A) = Some (a_IO_BUF P)"

definition nvme_power_on :: "nat \<Rightarrow> 'h \<Rightarrow> 'h nvme" where
  "nvme_power_on base h = \<lparr>ctl = NvmeController_new base, nmem = nvme_mem_init, hw = h\<rparr>"

text \<open>An admin command leaves the I/O queues of the driver, the data buffer and the sectors alone.\<close>

lemma admin_done_frame:
  assumes "admin_done V W ident x s r s'"
  shows "IO_SQ (nmem s') = IO_SQ (nmem s)" "IO_CQ (nmem s') = IO_CQ (nmem s)" "IO_BUF (nmem s') = IO_BUF (nmem s)"
    "io_sq_tail (ctl s') = io_sq_tail (ctl s)" "io_cq_head (ctl s') = io_cq_head (ctl s)" "io_phase (ctl s') = io_phase (ctl s)"
    "mmio_base (ctl s') = mmio_base (ctl s)" "io_buf_phys (ctl s') = io_buf_phys (ctl s)" "d_disk (V (hw s')) = d_disk (V (hw s))"
proof -
  from assms have m: "nmem s' = (nmem s)\<lparr>ADMIN_SQ := ADMIN_SQ (nmem s'), ADMIN_CQ := ADMIN_CQ (nmem s'),
      IDENTIFY_BUF := (if x = Some Identified then ident else IDENTIFY_BUF (nmem s))\<rparr>"
    and c: "ctl s' = (ctl s)\<lparr>admin_sq_tail := admin_sq_tail (ctl s'), admin_cq_head := admin_cq_head (ctl s')\<rparr>"
    unfolding admin_done_def by blast+
  show "IO_SQ (nmem s') = IO_SQ (nmem s)" by (subst m) simp
  show "IO_CQ (nmem s') = IO_CQ (nmem s)" by (subst m) simp
  show "IO_BUF (nmem s') = IO_BUF (nmem s)" by (subst m) simp
  show "io_sq_tail (ctl s') = io_sq_tail (ctl s)" by (subst c) simp
  show "io_cq_head (ctl s') = io_cq_head (ctl s)" by (subst c) simp
  show "io_phase (ctl s') = io_phase (ctl s)" by (subst c) simp
  show "mmio_base (ctl s') = mmio_base (ctl s)" by (subst c) simp
  show "io_buf_phys (ctl s') = io_buf_phys (ctl s)" by (subst c) simp
  show "d_disk (V (hw s')) = d_disk (V (hw s))" using assms by (auto simp: admin_done_def split: if_splits)
qed

lemma nvme_bring_up_ok:
  assumes "admin_conforms D V W base caph P ident" "nvme_conforms D V base caph (a_IO_BUF P) B cap" "translates tr A P"
    "\<forall>n. length (d_disk (V h) n) = B" "B \<le> 4096"
  shows "\<exists>s. nvme_bring_up D A tr (nvme_power_on base h) = Some (Ok (take 40 (drop 24 ident)), s) \<and>
    nvme_sync V base (a_IO_BUF P) B s \<and> d_disk (V (hw s)) = d_disk (V h)"
proof -
  let ?s = "nvme_power_on base h"
  note tr = assms(3) [unfolded translates_def]
  have base: "mmio_base (ctl (?s\<lparr>hw := x\<rparr>)) = base" for x by (simp add: nvme_power_on_def NvmeController_new_def)
  from ping_ok [OF assms(1) base, of h] obtain out h1 where
    1: "ping D ?s = (out, ?s\<lparr>hw := h1\<rparr>)" "d_disk (V h1) = d_disk (V h)" by (auto simp: nvme_power_on_def)
  from disable_ok [OF assms(1) base, of h1] obtain h2 where
    2: "disable D (?s\<lparr>hw := h1\<rparr>) = Some (?s\<lparr>hw := h2\<rparr>)" "admin_off (W h2)" "d_disk (V h2) = d_disk (V h1)" "d_db (V h2) = d_fetch (V h2)" by auto
  from configure_ok [OF assms(1) base, of h2 tr A] 2(2) tr obtain h3 where
    3: "configure_and_enable D A tr (?s\<lparr>hw := h2\<rparr>) = Some (?s\<lparr>hw := h3\<rparr>)" "V h3 = V h2" "admin_running P (W h3)"
      "a_fetch (W h3) = 0" "a_db (W h3) = 0" "a_post (W h3) = 0" "a_phase (W h3)" by auto
  have st: "admin_state V W base P 0 0 (?s\<lparr>hw := h3\<rparr>)"
    using 3(3-7) 2(4) by (simp add: admin_state_def 3(2) nvme_power_on_def NvmeController_new_def nvme_mem_init_def ADMIN_QUEUE_SIZE_def NvmeComp_empty_def)
  from identify_ok [OF assms(1,2) st, of tr A] tr obtain s4 where
    4: "identify_controller D A tr (?s\<lparr>hw := h3\<rparr>) = Some (Ok (take 40 (drop 24 ident)), s4)" "admin_state V W base P 1 1 s4"
      "admin_done V W ident (Some Identified) (?s\<lparr>hw := h3\<rparr>) (Ok ()) s4" by blast
  from setup_ok [OF assms(1,2) 4(2), of tr A] tr obtain s0 s5 s6 where
    5: "setup_io_queues D A tr s4 = Some s6" "s0 = s4\<lparr>ctl := (ctl s4)\<lparr>io_buf_phys := a_IO_BUF P\<rparr>\<rparr>"
      "admin_done V W ident (Some Made_cq) s0 (Ok ()) s5" "admin_done V W ident (Some Made_sq) s5 (Ok ()) s6" by blast
  have up: "nvme_bring_up D A tr ?s = Some (Ok (take 40 (drop 24 ident)), s6)"
    unfolding nvme_bring_up_def using 1(1) 2(1) 3(1) 4(1) 5(1) by simp
  note frame = admin_done_frame [OF 4(3)] admin_done_frame [OF 5(3)] admin_done_frame [OF 5(4)]
  have io: "IO_SQ (nmem s6) = replicate 64 NvmeCmd_empty" "IO_CQ (nmem s6) = replicate 64 NvmeComp_empty" "IO_BUF (nmem s6) = replicate 4096 0"
    "io_sq_tail (ctl s6) = 0" "io_cq_head (ctl s6) = 0" "io_phase (ctl s6) = 1" "mmio_base (ctl s6) = base" "io_buf_phys (ctl s6) = a_IO_BUF P"
    unfolding frame 5(2) by (simp_all add: nvme_power_on_def nvme_mem_init_def NvmeController_new_def IO_QUEUE_SIZE_def frame(1-9))
  have disk: "d_disk (V (hw s6)) = d_disk (V h)" unfolding frame 5(2) by (simp add: frame 3(2) 2(3) 1(2))
  obtain j where "V (hw s6) = (V (hw s5))\<lparr>d_fetch := 0, d_db := 0, d_post := 0, d_phase := 1, d_delay := j\<rparr>"
    using 5(4) by (auto simp: admin_done_def)
  then have "nvme_sync V base (a_IO_BUF P) B s6"
    using io assms(4,5) disk by (simp add: nvme_sync_def nvme_armed_def IO_QUEUE_SIZE_def cq_tags_def NvmeComp_empty_def)
  with up disk show ?thesis by blast
qed

text \<open>C5. The drive works from power-on: on a controller that conforms on both its sides, whatever state the firmware left it in, the
  calls of the bus scan on a new driver all return (the two waits for \<open>CSTS.RDY\<close> and the three for a completion end), the model name
  printed is bytes 24 to 63 of the identify data, no sector changes, and from then on every sequence of block reads and writes gives
  the results of the same operations on an array of sectors.\<close>

theorem nvme_from_power_on:
  assumes "admin_conforms D V W base caph P ident" "nvme_conforms D V base caph (a_IO_BUF P) B cap" "translates tr A P"
    "\<forall>n. length (d_disk (V h) n) = B" "B \<le> 4096"
  shows "\<exists>s s'. nvme_bring_up D A tr (nvme_power_on base h) = Some (Ok (take 40 (drop 24 ident)), s) \<and>
    nvme_sync V base (a_IO_BUF P) B s \<and> d_disk (V (hw s)) = d_disk (V h) \<and>
    run_ops D ops s = Some (disk_ops B cap ops (d_disk (V h)), s')"
proof -
  from nvme_bring_up_ok [OF assms] obtain s where s: "nvme_bring_up D A tr (nvme_power_on base h) = Some (Ok (take 40 (drop 24 ident)), s)"
    "nvme_sync V base (a_IO_BUF P) B s" "d_disk (V (hw s)) = d_disk (V h)" by blast
  from run_ops_ok [OF assms(2) s(2), of ops] obtain s' where "run_ops D ops s = Some (disk_ops B cap ops (d_disk (V h)), s')"
    unfolding s(3) by blast
  with s show ?thesis by blast
qed

subsection \<open>A reference controller\<close>

text \<open>A controller whose \<open>RDY\<close> takes two reads to follow and whose commands take one extra access, on top of the device of \<^verbatim>\<open>Nvme\<close>.\<close>

definition admin_dma :: "static_addrs \<Rightarrow> bytes \<Rightarrow> nvme_mem \<Rightarrow> nvme_admin \<times> nvme_dev \<Rightarrow> nvme_mem \<times> nvme_admin \<times> nvme_dev" where
  "admin_dma P ident m = (\<lambda>(w, d).
     if a_db w = a_fetch w then (m, w, d)
     else if 0 < a_delay w then (m, w\<lparr>a_delay := a_delay w - 1\<rparr>, d)
     else let x = admin_exec P (a_cq1 w) (ADMIN_SQ m ! a_fetch w) in
       (m\<lparr>ADMIN_CQ := (ADMIN_CQ m)[a_post w := NvmeComp_empty\<lparr>status := (if x = None then 2 else 0) OR of_bool (a_phase w)\<rparr>],
          IDENTIFY_BUF := (if x = Some Identified then ident else IDENTIFY_BUF m)\<rparr>,
        w\<lparr>a_fetch := (a_fetch w + 1) mod ADMIN_QUEUE_SIZE, a_post := (a_post w + 1) mod ADMIN_QUEUE_SIZE,
          a_phase := (if a_post w + 1 = ADMIN_QUEUE_SIZE then \<not> a_phase w else a_phase w), a_delay := 0, a_cq1 := (a_cq1 w \<or> x = Some Made_cq)\<rparr>,
        if x = Some Made_sq then d\<lparr>d_fetch := 0, d_db := 0, d_post := 0, d_phase := 1, d_delay := 0\<rparr> else d))"

definition boot_hw :: "nat \<Rightarrow> nat \<Rightarrow> nat \<Rightarrow> static_addrs \<Rightarrow> bytes \<Rightarrow> (nvme_admin \<times> nvme_dev) nvme_hw" where
  "boot_hw base B cap P ident = \<lparr>
     mmio_read = \<lambda>a (w, d).
       if a = base + reg_offset csts
       then if a_wait w = 0 then (a_regs w cc AND 1, w, d) else (NOT (a_regs w cc) AND 1, w\<lparr>a_wait := a_wait w - 1\<rparr>, d)
       else (if a = base + reg_offset cc then a_regs w cc else 0, w, d),
     mmio_write = \<lambda>a v (w, d).
       if a = base + reg_offset cc
       then if v AND 1 = 0
         then (w\<lparr>a_regs := (a_regs w)(cc := v), a_wait := 2, a_fetch := 0, a_db := 0, a_post := 0, a_phase := True, a_cq1 := False\<rparr>, d\<lparr>d_db := d_fetch d\<rparr>)
         else (w\<lparr>a_regs := (a_regs w)(cc := v), a_wait := 2\<rparr>, d)
       else if a = base + 0x1000 then (w\<lparr>a_db := unat v, a_delay := 1\<rparr>, d)
       else if a = sq1_addr base 0 then (w, d\<lparr>d_db := unat v, d_delay := 1\<rparr>)
       else (case filter (\<lambda>r. a = base + reg_offset r) [aqa, asq_low, asq_high, acq_low, acq_high] of
           r # _ \<Rightarrow> (w\<lparr>a_regs := (a_regs w)(r := v)\<rparr>, d)
         | [] \<Rightarrow> (w, d)),
     dma = \<lambda>m (w, d). if d_db d \<noteq> d_fetch d then (let (m, d) = ref_dma B cap (a_IO_BUF P) m d in (m, w, d)) else admin_dma P ident m (w, d)\<rparr>"

lemma boot_hw_io: "nvme_conforms (boot_hw base B cap P ident) snd base 0 (a_IO_BUF P) B cap"
proof -
  have c: "dev_completes B cap buf m d (fst (ref_dma B cap buf m d)) (snd (ref_dma B cap buf m d))"
    if "d_db d \<noteq> d_fetch d" "d_delay d = 0" for buf m d
    using that unfolding dev_completes_def ref_dma_def
    by (auto simp: Let_def split: prod.splits intro!: exI [of _ "NvmeComp_empty\<lparr>status := _\<rparr>"] exI [of _ 0])
  have f: "filter (\<lambda>r. sq1_addr base 0 = base + reg_offset r) [aqa, asq_low, asq_high, acq_low, acq_high] = []"
    "filter (\<lambda>r. cq1_addr base 0 = base + reg_offset r) [aqa, asq_low, asq_high, acq_low, acq_high] = []"
    by (simp_all add: sq1_addr_def cq1_addr_def)
  show ?thesis unfolding nvme_conforms_def boot_hw_def
    by (auto simp: sq1_addr_def cq1_addr_def c case_prod_beta intro!: exI [of _ "1 :: nat"]) (auto simp: ref_dma_def)
qed

lemma not_bit: "NOT c AND 1 \<noteq> c AND (1 :: u32)"
proof
  assume "NOT c AND 1 = c AND 1"
  then have "bit (NOT c AND 1) 0 = bit (c AND 1) 0" by simp
  then show False by (simp add: bit_simps)
qed

lemma admin_dma_completes:
  assumes "a_db w \<noteq> a_fetch w" "a_delay w = 0" "admin_dma P ident m (w, d) = (m', w', d')"
  shows "admin_completes P ident m w d m' w' d'"
proof -
  let ?x = "admin_exec P (a_cq1 w) (ADMIN_SQ m ! a_fetch w)"
  let ?e = "NvmeComp_empty\<lparr>status := (if ?x = None then 2 else 0) OR of_bool (a_phase w)\<rparr>"
  have e: "status ?e AND 1 = of_bool (a_phase w)" "drop_bit 1 (status ?e) = 0 \<longleftrightarrow> ?x \<noteq> None"
    by (cases "a_phase w"; cases "?x = None"; simp)+
  have m: "m' = m\<lparr>ADMIN_CQ := (ADMIN_CQ m)[a_post w := ?e], IDENTIFY_BUF := (if ?x = Some Identified then ident else IDENTIFY_BUF m)\<rparr>"
    "w' = w\<lparr>a_fetch := (a_fetch w + 1) mod ADMIN_QUEUE_SIZE, a_post := (a_post w + 1) mod ADMIN_QUEUE_SIZE,
       a_phase := (if a_post w + 1 = ADMIN_QUEUE_SIZE then \<not> a_phase w else a_phase w), a_delay := 0, a_cq1 := (a_cq1 w \<or> ?x = Some Made_cq)\<rparr>"
    "d' = (if ?x = Some Made_sq then d\<lparr>d_fetch := 0, d_db := 0, d_post := 0, d_phase := 1, d_delay := 0\<rparr> else d)"
    using assms(3) unfolding admin_dma_def prod.case if_not_P [OF assms(1)] Let_def by (simp_all add: assms(2))
  show ?thesis unfolding admin_completes_def Let_def
    by (rule exI [of _ ?e], rule exI [of _ 0], rule exI [of _ 0], intro conjI) (rule e m)+
qed

lemma boot_hw_admin:
  assumes "length ident = 4096"
  shows "admin_conforms (boot_hw base B cap P ident) snd fst base 0 P ident"
proof -
  let ?D = "boot_hw base B cap P ident"
  have queue: "filter (\<lambda>r'. base + reg_offset r = base + reg_offset r') [aqa, asq_low, asq_high, acq_low, acq_high] = [r]"
    "base + reg_offset r \<noteq> base + reg_offset cc" "base + reg_offset r \<noteq> base + 0x1000" "base + reg_offset r \<noteq> sq1_addr base 0"
    if "r \<in> queue_regs" for r using that by (auto simp: queue_regs_def sq1_addr_def)
  have other: "base + reg_offset r \<noteq> base + reg_offset csts" if "r \<noteq> csts" for r using that by (cases r) simp_all
  have reads: "snd (snd (mmio_read ?D (base + reg_offset r) h)) = snd h \<and> fst (snd (mmio_read ?D (base + reg_offset r) h)) = fst h"
    if "r \<noteq> csts" for r h using other [OF that] by (simp add: boot_hw_def case_prod_beta del: reg_offset.simps)
  have writes: "snd (mmio_write ?D (base + reg_offset r) v h) = snd h \<and>
      fst (mmio_write ?D (base + reg_offset r) v h) = (fst h)\<lparr>a_regs := (a_regs (fst h))(r := v)\<rparr>" if "r \<in> queue_regs" for r v h
    using queue [OF that] by (simp add: boot_hw_def case_prod_beta del: reg_offset.simps filter.simps)
  have cc_read: "fst (mmio_read ?D (base + reg_offset cc) h) = a_regs (fst h) cc" for h by (simp add: boot_hw_def case_prod_beta)
  have cc_write: "let h' = mmio_write ?D (base + reg_offset cc) v h in
      if v AND 1 = 0
      then d_disk (snd h') = d_disk (snd h) \<and> d_db (snd h') = d_fetch (snd h') \<and>
        (\<exists>k. fst h' = (fst h)\<lparr>a_regs := (a_regs (fst h))(cc := v), a_wait := k, a_fetch := 0, a_db := 0, a_post := 0, a_phase := True, a_cq1 := False\<rparr>)
      else a_regs (fst h) cc AND 1 = 0 \<longrightarrow> snd h' = snd h \<and> (\<exists>k. fst h' = (fst h)\<lparr>a_regs := (a_regs (fst h))(cc := v), a_wait := k\<rparr>)" for v h
    by (auto simp: boot_hw_def case_prod_beta Let_def intro!: exI [of _ "2 :: nat"])
  have sq_bell: "snd (mmio_write ?D (base + 0x1000) v h) = snd h \<and>
      (\<exists>k. fst (mmio_write ?D (base + 0x1000) v h) = (fst h)\<lparr>a_db := unat v, a_delay := k\<rparr>)" for v h
    by (auto simp: boot_hw_def case_prod_beta intro!: exI [of _ "1 :: nat"])
  have cq_bell: "snd (mmio_write ?D (base + (0x1000 + 4 * 2 ^ unat (0 AND 0xF :: u32))) v h) = snd h \<and>
      fst (mmio_write ?D (base + (0x1000 + 4 * 2 ^ unat (0 AND 0xF :: u32))) v h) = fst h" for v h
    by (simp add: boot_hw_def case_prod_beta sq1_addr_def)
  have works: "if 0 < a_delay (fst h)
      then fst (dma ?D m h) = m \<and> snd (snd (dma ?D m h)) = snd h \<and> fst (snd (dma ?D m h)) = (fst h)\<lparr>a_delay := a_delay (fst h) - 1\<rparr>
      else admin_completes P ident m (fst h) (snd h) (fst (dma ?D m h)) (fst (snd (dma ?D m h))) (snd (snd (dma ?D m h)))"
    if "d_db (snd h) = d_fetch (snd h)" "a_db (fst h) \<noteq> a_fetch (fst h)" for m h
  proof -
    have "dma ?D m h = admin_dma P ident m (fst h, snd h)" using that(1) by (simp add: boot_hw_def case_prod_beta)
    moreover have "admin_dma P ident m (fst h, snd h) = (m, (fst h)\<lparr>a_delay := a_delay (fst h) - 1\<rparr>, snd h)" if "0 < a_delay (fst h)"
      using that \<open>a_db (fst h) \<noteq> a_fetch (fst h)\<close> unfolding admin_dma_def prod.case by simp
    ultimately show ?thesis using admin_dma_completes [OF that(2), of P ident m "snd h"] by (metis gr0I prod.collapse prod.sel)
  qed
  have csts: "let (v, h') = mmio_read ?D (base + reg_offset csts) h in snd h' = snd h \<and>
      (if a_wait (fst h) = 0 then v AND 1 = a_regs (fst h) cc AND 1 \<and> fst h' = fst h
       else v AND 1 \<noteq> a_regs (fst h) cc AND 1 \<and> fst h' = (fst h)\<lparr>a_wait := a_wait (fst h) - 1\<rparr>)" for h
    using not_bit by (auto simp: boot_hw_def case_prod_beta and.assoc)
  show ?thesis unfolding admin_conforms_def
    by (intro conjI; (rule assms | (intro allI impI ballI, (rule cc_read | rule csts | rule cc_write | rule sq_bell | rule cq_bell |
      erule reads | (rule writes, assumption) | (elim conjE, rule works, assumption, assumption)))))
qed

text \<open>Statics that are mapped to their own addresses, and the controller as firmware leaves it:
  enabled, with queues of its own, and an I/O queue in use.\<close>

definition demo_phys :: static_addrs where
  "demo_phys = \<lparr>a_ADMIN_SQ = 0x300000, a_ADMIN_CQ = 0x301000, a_IO_SQ = 0x302000, a_IO_CQ = 0x303000, a_IDENTIFY_BUF = 0x304000, a_IO_BUF = 0x305000\<rparr>"

definition demo_ident :: bytes where
  "demo_ident = replicate 24 0 @ map of_char ''QEMU NVMe Ctrl                          '' @ replicate 4032 0"

definition firmware_left :: "(nat \<Rightarrow> bytes) \<Rightarrow> nvme_admin \<times> nvme_dev" where
  "firmware_left dsk = (\<lparr>a_regs = (\<lambda>_. 0)(cc := 0x00460001, aqa := 0x00070007), a_wait = 0, a_fetch = 3, a_db = 3, a_post = 3,
      a_phase = False, a_delay = 0, a_cq1 = True\<rparr>,
     \<lparr>d_fetch = 5, d_db = 6, d_post = 5, d_phase = 0, d_delay = 7, d_disk = dsk\<rparr>)"

lemma demo_ident_length: "length demo_ident = 4096"
  by (simp add: demo_ident_def)

lemma demo_translates: "translates Some demo_phys demo_phys"
  by (simp add: translates_def)

theorem nvme_from_power_on_witness:
  "\<exists>s s'. nvme_bring_up (boot_hw 0x1000 4096 8 demo_phys demo_ident) demo_phys Some (nvme_power_on 0x1000 (firmware_left (\<lambda>_. replicate 4096 0))) =
      Some (Ok (map of_char ''QEMU NVMe Ctrl                          ''), s) \<and>
    run_ops (boot_hw 0x1000 4096 8 demo_phys demo_ident) [WriteBlock 3 [1, 2, 3], ReadBlock 3, ReadBlock 9] s =
      Some ([Some [], Some (pad_block [1, 2, 3]), None], s')"
proof -
  have d: "\<forall>n. length (d_disk (snd (firmware_left (\<lambda>_. replicate 4096 0))) n) = 4096" by (simp add: firmware_left_def)
  have m: "take 40 (drop 24 demo_ident) = map of_char ''QEMU NVMe Ctrl                          ''" by (simp add: demo_ident_def)
  from nvme_from_power_on [OF boot_hw_admin [OF demo_ident_length] boot_hw_io demo_translates d order.refl,
      of "0x1000" 8 "[WriteBlock 3 [1, 2, 3], ReadBlock 3, ReadBlock 9]", unfolded m]
  show ?thesis by (auto simp: pad_block_def)
qed

end
