(* ===== verification/Kernel_Main.thy ===== *)
theory Kernel_Main
  imports Kernel_Loop Boot Cpu_Setup Nvme_Init E1000_Rx
begin

text \<open>
  \<open>kernel_main\<close> of \<^verbatim>\<open>kernel/src/main.rs\<close> up to the event loop: the parts that the other theories model, in the order of the
  code and on one state, with the drivers that the bus scan of \<^verbatim>\<open>kernel/src/pci.rs\<close> starts and the page tables of
  \<open>init\<close> in \<^verbatim>\<open>kernel/src/memory.rs\<close>. Messages on the serial port are left out; a panic is \<open>None\<close>.
\<close>

subsection \<open>The machine at boot\<close>

text \<open>What the boot loader hands over.\<close>

record BootInfo =
  physical_memory_offset :: "nat option"
  memory_map :: "MemoryRegion list"
  framebuffer :: "FrameBuffer option"

text \<open>The statics of the kernel and the devices. The queues of the NVMe driver and the DMA memory of the network adapter are shared by
  all devices of the kind.\<close>

record ('pt, 'd, 'v, 'h) boot_state =
  bs_gpu :: "(BootInfoFrameAllocator, 'pt, 'd) gpu_boot"
  bs_heap :: MictGlobalAllocator
  bs_nvme :: "nvme_mem \<times> 'v"
  bs_drive :: "'v nvme option"
  bs_nic :: "dma_store \<times> 'h"
  bs_net :: "'h e1000_state option"

text \<open>The devices, the crates and the addresses that the linker and the processor choose.\<close>

record ('e, 'pt, 'd, 'v, 'h, 'g, 'q) boot_env =
  v_gdt :: "'g GlobalDescriptorTable"
  v_stack :: u64
  v_cr3 :: nat
  v_page_table :: "nat \<Rightarrow> nat \<Rightarrow> 'pt"
  v_map :: "('e, BootInfoFrameAllocator, 'pt) map_fun"
  v_no_frame :: 'e
  v_translate :: "'pt \<Rightarrow> u64 \<Rightarrow> u64 option"
  v_config :: config
  v_font :: font
  v_transport :: "'d Transport"
  v_gpu :: "'d GpuDevice"
  v_nvme :: "'v nvme_hw"
  v_statics :: static_addrs
  v_nic :: "'h Nic"
  v_queue :: "'q ArrayQueue"

subsection \<open>The drivers of the bus scan\<close>

definition nvme_statics :: "('pt, 'd, 'v, 'h) boot_state \<Rightarrow> nvme_mem \<times> 'v" where
  "nvme_statics s = (case bs_drive s of None \<Rightarrow> bs_nvme s | Some d \<Rightarrow> (nmem d, nvme.hw d))"

definition nic_statics :: "('pt, 'd, 'v, 'h) boot_state \<Rightarrow> dma_store \<times> 'h" where
  "nic_statics s = (case bs_net s of None \<Rightarrow> bs_nic s | Some n \<Rightarrow> (mem n, e1000_state.hw n))"

definition put_tables :: "BootInfoFrameAllocator \<Rightarrow> 'pt \<Rightarrow> ('pt, 'd, 'v, 'h) boot_state \<Rightarrow> ('pt, 'd, 'v, 'h) boot_state" where
  "put_tables fa pt s = s\<lparr>bs_gpu := (bs_gpu s)\<lparr>b_frames := fa, b_tables := pt\<rparr>\<rparr>"

definition boot_nvme :: "('e, 'pt, 'd, 'v, 'h, 'g, 'q) boot_env \<Rightarrow> u64 \<Rightarrow> ('pt, 'd, 'v, 'h) boot_state \<Rightarrow> ('pt, 'd, 'v, 'h) boot_state option" where
  "boot_nvme v base s = (case map_mmio (v_map v) (unat base) 0x4000 (b_frames (bs_gpu s)) (b_tables (bs_gpu s)) of
       (Err _, _, _) \<Rightarrow> None
     | (Ok nvme_virtual_addr, fa, pt) \<Rightarrow> do {
         let (m, h) = nvme_statics s;
         let d = \<lparr>ctl = NvmeController_new nvme_virtual_addr, nmem = m, hw = h\<rparr>;
         (_, d) \<leftarrow> nvme_bring_up (v_nvme v) (v_statics v) (v_translate v pt) d;
         Some ((put_tables fa pt s)\<lparr>bs_drive := Some d\<rparr>) })"

definition boot_e1000 :: "('e, 'pt, 'd, 'v, 'h, 'g, 'q) boot_env \<Rightarrow> nat \<Rightarrow> u64 \<Rightarrow> ('pt, 'd, 'v, 'h) boot_state \<Rightarrow> ('pt, 'd, 'v, 'h) boot_state option" where
  "boot_e1000 v off base s = (case map_mmio (v_map v) (unat base) 0x20000 (b_frames (bs_gpu s)) (b_tables (bs_gpu s)) of
       (Err _, fa, pt) \<Rightarrow> Some (put_tables fa pt s)
     | (Ok _, fa, pt) \<Rightarrow> do {
         let (m, h) = nic_statics s;
         (driver, fa) \<leftarrow> E1000Driver_new (v_nic v) allocate_frame (unat base) off fa m h;
         Some ((put_tables fa pt s)\<lparr>bs_net := Some driver\<rparr>) })"

definition boot_virtio :: "('e, 'pt, 'd, 'v, 'h, 'g, 'q) boot_env \<Rightarrow> nat \<Rightarrow> u8 \<Rightarrow> u8 \<Rightarrow> u8 \<Rightarrow> ('pt, 'd, 'v, 'h) boot_state \<Rightarrow>
    ('pt, 'd, 'v, 'h) boot_state option" where
  "boot_virtio v off bus slot func s = do {
     (_, b) \<leftarrow> init_virtio_device (v_config v) (v_transport v) (v_gpu v) (v_map v) allocate_frame off bus slot func (bs_gpu s);
     Some (s\<lparr>bs_gpu := b\<rparr>) }"

definition boot_drivers :: "('e, 'pt, 'd, 'v, 'h, 'g, 'q) boot_env \<Rightarrow> nat \<Rightarrow> ('pt, 'd, 'v, 'h) boot_state drivers" where
  "boot_drivers v off = \<lparr>init_nvme = boot_nvme v, init_e1000 = boot_e1000 v off, init_virtio = boot_virtio v off\<rparr>"

subsection \<open>kernel\_main\<close>

definition active_level_4_table :: "nat \<Rightarrow> nat \<Rightarrow> nat" where
  "active_level_4_table offset level_4_table_frame = offset + level_4_table_frame"

definition memory_init :: "('e, 'pt, 'd, 'v, 'h, 'g, 'q) boot_env \<Rightarrow> nat \<Rightarrow> 'pt" where
  "memory_init v offset = v_page_table v (active_level_4_table offset (v_cr3 v)) offset"

text \<open>The result: the steps of \<open>init\<close>, what the self-test prints of its file, the executor and the statics.\<close>

definition kernel_main :: "('e, 'pt, 'd, 'v, 'h, 'g, 'q) boot_env \<Rightarrow> BootInfo \<Rightarrow> 'k \<Rightarrow> ('pt, 'd, 'v, 'h) boot_state \<Rightarrow>
    ('g cpu_step list \<times> bytes option \<times> ('k kernel_task, 'q) MictExecutor \<times> ('pt, 'd, 'v, 'h) boot_state) option" where
  "kernel_main v boot_info keyboard s = do {
     steps \<leftarrow> kernel_init (v_gdt v) (v_stack v);
     off \<leftarrow> physical_memory_offset boot_info;
     let mapper = memory_init v off;
     let frame_allocator = BootInfoFrameAllocator_init (memory_map boot_info);
     (case init_heap (v_no_frame v) allocate_frame (v_map v) (bs_heap s) frame_allocator mapper of
        (Err _, _, _, _) \<Rightarrow> None
      | (Ok _, heap, fa, pt) \<Rightarrow> do {
          let s = (put_tables fa pt s)\<lparr>bs_heap := heap\<rparr>;
          b \<leftarrow> boot_display (v_font v) (v_gpu v) (framebuffer boot_info) (bs_gpu s);
          s \<leftarrow> enumerate_buses (v_config v) (boot_drivers v off) (s\<lparr>bs_gpu := b\<rparr>);
          b \<leftarrow> screen_println (v_font v) (v_gpu v) ''[MICT: MAP] PCIe Hardware Radar complete.'' (bs_gpu s);
          (out, drive) \<leftarrow> boot_vault (read_block (v_nvme v)) (write_block (v_nvme v)) (bs_drive s);
          ex \<leftarrow> spawn_tasks (v_queue v) keyboard;
          b \<leftarrow> on_desk (pre_flight (v_font v) (v_gpu v)) b;
          Some (steps, out, ex, s\<lparr>bs_gpu := b, bs_drive := drive\<rparr>) }) }"

subsection \<open>The devices on the bus\<close>

text \<open>What configuration space says of the three devices the kernel drives, and of those it passes over.\<close>

definition class_nvme :: "config \<Rightarrow> u8 \<times> u8 \<times> u8 \<Rightarrow> bool" where
  "class_nvme cfg = (\<lambda>(bus, slot, func). let word2 = pci_read_word cfg bus slot func 8 in
     drop_bit 24 word2 AND 0xFF = 1 \<and> drop_bit 16 word2 AND 0xFF = 8)"

definition identity :: "config \<Rightarrow> u8 \<times> u8 \<times> u8 \<Rightarrow> u32" where
  "identity cfg = (\<lambda>(bus, slot, func). pci_read_word cfg bus slot func 0)"

definition passed_over :: "config \<Rightarrow> u8 \<times> u8 \<times> u8 \<Rightarrow> bool" where
  "passed_over cfg f \<longleftrightarrow> \<not> class_nvme cfg f \<and> identity cfg f \<notin> {0x100E8086, 0x10501AF4}"

definition nvme_at :: "config \<Rightarrow> u8 \<times> u8 \<times> u8 \<Rightarrow> u64 \<Rightarrow> bool" where
  "nvme_at cfg f base \<longleftrightarrow> class_nvme cfg f \<and> (case f of (bus, slot, func) \<Rightarrow> pci_read_word cfg bus slot func 0x10 AND 1 = 0 \<and>
     nvme_base (pci_read_word cfg bus slot func 0x10) (pci_read_word cfg bus slot func 0x14) = base)"

definition e1000_at :: "config \<Rightarrow> u8 \<times> u8 \<times> u8 \<Rightarrow> u64 \<Rightarrow> bool" where
  "e1000_at cfg f base \<longleftrightarrow> \<not> class_nvme cfg f \<and> identity cfg f = 0x100E8086 \<and> (case f of (bus, slot, func) \<Rightarrow>
     pci_read_word cfg bus slot func 0x10 AND 1 = 0 \<and> ucast (pci_read_word cfg bus slot func 0x10 AND 0xFFFFFFF0) = base)"

definition virtio_at :: "config \<Rightarrow> u8 \<times> u8 \<times> u8 \<Rightarrow> bool" where
  "virtio_at cfg f \<longleftrightarrow> \<not> class_nvme cfg f \<and> identity cfg f = 0x10501AF4"

lemma words_of_identity: "(w :: u32) AND 0xFFFF = a \<Longrightarrow> drop_bit 16 w = b \<Longrightarrow> w = push_bit 16 b OR a"
proof -
  assume "w AND 0xFFFF = a" "drop_bit 16 w = b"
  moreover have "w AND 0xFFFF = take_bit 16 w" by (simp add: take_bit_eq_mask mask_eq_exp_minus_1)
  moreover have "w = push_bit 16 (drop_bit 16 w) OR take_bit 16 w" by (rule bit_word_eqI) (auto simp: bit_simps not_less)
  ultimately show ?thesis by simp
qed

lemma check_passed_over:
  assumes "passed_over cfg (bus, slot, func)"
  shows "check_device cfg drivers bus slot func s = Some s"
proof -
  have n: "push_bit 16 0x100E OR 0x8086 = (0x100E8086 :: u32)" "push_bit 16 0x1050 OR 0x1AF4 = (0x10501AF4 :: u32)" by code_simp+
  have "\<not> (w AND 0xFFFF = 0x8086 \<and> drop_bit 16 w = 0x100E)" "\<not> (w AND 0xFFFF = 0x1AF4 \<and> drop_bit 16 w = 0x1050)"
    if "w \<notin> {0x100E8086, 0x10501AF4}" for w :: u32
    using words_of_identity [of w "0x8086" "0x100E", unfolded n] words_of_identity [of w "0x1AF4" "0x1050", unfolded n] that by blast+
  with assms show ?thesis by (auto simp: check_device_def passed_over_def class_nvme_def identity_def Let_def)
qed

lemma check_nvme: "nvme_at cfg (bus, slot, func) base \<Longrightarrow> check_device cfg drivers bus slot func s = init_nvme drivers base s"
  by (simp add: check_device_def nvme_at_def class_nvme_def Let_def)

lemma check_e1000:
  assumes "e1000_at cfg (bus, slot, func) base"
  shows "check_device cfg drivers bus slot func s = init_e1000 drivers base s"
proof -
  have "(0x100E8086 :: u32) AND 0xFFFF = 0x8086" "drop_bit 16 (0x100E8086 :: u32) = 0x100E" by code_simp+
  then show ?thesis using assms by (auto simp: check_device_def e1000_at_def class_nvme_def identity_def Let_def)
qed

lemma check_virtio:
  assumes "virtio_at cfg (bus, slot, func)"
  shows "check_device cfg drivers bus slot func s = init_virtio drivers bus slot func s"
proof -
  have "(0x10501AF4 :: u32) AND 0xFFFF = 0x1AF4" "drop_bit 16 (0x10501AF4 :: u32) = 0x1050" by code_simp+
  then show ?thesis using assms by (auto simp: check_device_def virtio_at_def class_nvme_def identity_def Let_def)
qed

text \<open>The scan comes down to the devices that have a driver.\<close>

lemma enumerate_driven:
  "enumerate_buses cfg drivers s =
     for_each (filter (\<lambda>f. \<not> passed_over cfg f) (present cfg)) (\<lambda>(bus, slot, func). check_device cfg drivers bus slot func) s"
proof -
  have "(\<lambda>(bus, slot, func). check_device cfg drivers bus slot func) f s = Some s" if "passed_over cfg f" for f s
    using that check_passed_over by (cases f) auto
  then have "(\<lambda>f s. if \<not> passed_over cfg f then (\<lambda>(bus, slot, func). check_device cfg drivers bus slot func) f s else Some s) =
      (\<lambda>(bus, slot, func). check_device cfg drivers bus slot func)" by (intro ext) (auto simp: fun_eq_iff)
  then show ?thesis unfolding pci_scans_agree [THEN conjunct1] for_each_filter_if by simp
qed

subsection \<open>The storage and network drivers at boot\<close>

lemma map_mmio_Ok: "map_mmio mto a n fa pt = (Ok x, fa', pt') \<Longrightarrow> x = a"
  by (auto simp: map_mmio_def Let_def split: prod.splits sum.splits)

lemma boot_nvme_ok:
  assumes "bs_drive s = None" "bs_nvme s = (nvme_mem_init, h)"
    "map_mmio (v_map v) (unat base) 0x4000 (b_frames (bs_gpu s)) (b_tables (bs_gpu s)) = (Ok x, fa, pt)"
    "admin_conforms (v_nvme v) V W (unat base) caph P ident" "nvme_conforms (v_nvme v) V (unat base) caph (a_IO_BUF P) 4096 cap"
    "translates (v_translate v pt) (v_statics v) P" "\<forall>n. length (d_disk (V h) n) = 4096"
  shows "\<exists>d. boot_nvme v base s = Some ((put_tables fa pt s)\<lparr>bs_drive := Some d\<rparr>) \<and>
    nvme_sync V (unat base) (a_IO_BUF P) 4096 d \<and> d_disk (V (nvme.hw d)) = d_disk (V h)"
proof -
  from nvme_bring_up_ok [OF assms(4-7) order.refl] obtain d where
    d: "nvme_bring_up (v_nvme v) (v_statics v) (v_translate v pt) (nvme_power_on (unat base) h) = Some (Ok (take 40 (drop 24 ident)), d)"
    "nvme_sync V (unat base) (a_IO_BUF P) 4096 d" "d_disk (V (nvme.hw d)) = d_disk (V h)" by blast
  have "x = unat base" by (rule map_mmio_Ok [OF assms(3)])
  with d(1) assms(1-3) have "boot_nvme v base s = Some ((put_tables fa pt s)\<lparr>bs_drive := Some d\<rparr>)"
    by (simp add: boot_nvme_def nvme_statics_def nvme_power_on_def)
  with d(2,3) show ?thesis by blast
qed

lemma boot_e1000_ok:
  assumes "bs_net s = None" "map_mmio (v_map v) (unat base) 0x20000 (b_frames (bs_gpu s)) (b_tables (bs_gpu s)) = (Ok x, fa, pt)"
    "nic_conforms (v_nic v) (unat base) off regs" "map_ok (memory_regions fa)" "next_frame fa + 35 \<le> length (usable_frames fa)"
    "\<forall>f \<in> set (usable_frames fa). f < 2 ^ 64"
  shows "\<exists>n. boot_e1000 v off base s = Some ((put_tables (fa\<lparr>next_frame := next_frame fa + 35\<rparr>) pt s)\<lparr>bs_net := Some n\<rparr>) \<and>
    tx_wired off (drv n) \<and> rx_inv (unat base) off regs n \<and> rx_view regs n = []"
proof -
  from E1000_new_ok [OF assms(3-6), of "fst (bs_nic s)" "snd (bs_nic s)"] obtain n where
    n: "E1000Driver_new (v_nic v) allocate_frame (unat base) off fa (fst (bs_nic s)) (snd (bs_nic s)) = Some (n, fa\<lparr>next_frame := next_frame fa + 35\<rparr>)"
    "tx_wired off (drv n)" "rx_inv (unat base) off regs n" "rx_view regs n = []" by blast
  with assms(1,2) show ?thesis by (auto simp: boot_e1000_def nic_statics_def case_prod_beta)
qed

subsection \<open>The machine of the boot image\<close>

text \<open>The file table with the file of the self-test.\<close>

definition with_vault :: "FileEntry list \<Rightarrow> FileEntry list" where
  "with_vault tbl = tbl @ [new_entry tbl vault_name forge_dummy_mdo_payload]"


subsection \<open>A concrete machine\<close>

text \<open>One region of memory, a mapper that maps everything, and a bus with a host bridge in slot 0, the adapter of \<open>demo_config\<close>
  in slot 4, an NVMe drive in slot 5 and an E1000 in slot 6.\<close>

definition demo_pages :: nat where "demo_pages = 20000"

definition demo_region :: MemoryRegion where
  "demo_region = \<lparr>rstart = 0x1000, rend = 0x1000 + 4096 * demo_pages, rusable = True\<rparr>"

definition region_frames_at :: "nat \<Rightarrow> BootInfoFrameAllocator" where
  "region_frames_at n = \<lparr>memory_regions = [demo_region], next_frame = n\<rparr>"

definition map_all :: "(unit, BootInfoFrameAllocator, unit) map_fun" where
  "map_all page frame fl fa pt = (Ok (), fa, pt)"

definition board_config :: config where
  "board_config a = (let slot = a AND 0x00FFFF00; offset = a AND 0xFF in
     if slot = 0 then if offset = 0 then 0x12378086 else if offset = 8 then 0x06000002 else 0
     else if slot = 0x2000 then if offset = 0 then 0x10501AF4 else demo_config a
     else if slot = 0x2800 then if offset = 0 then 0x00101B36 else if offset = 8 then 0x01080202 else if offset = 0x10 then 0xFEBF0004 else 0
     else if slot = 0x3000 then if offset = 0 then 0x100E8086 else if offset = 8 then 0x02000003 else if offset = 0x10 then 0xFEB80000 else 0
     else 0xFFFFFFFF)"

lemma region_frame:
  assumes "n < demo_pages"
  shows "allocate_frame (region_frames_at n) = (Some (4096 * (n + 1)), region_frames_at (n + 1))"
proof -
  have aligned: "containing_address (0x1000 + 4096 * i) = 4096 * (i + 1)" for i by (simp add: containing_address_def)
  have "usable_frames (region_frames_at n) = map (\<lambda>i. 4096 * (i + 1)) [0..<demo_pages]"
    by (simp add: usable_frames_def region_frames_at_def demo_region_def step_by_4096_def aligned comp_def del: upt.simps)
  then show ?thesis using assms by (simp add: allocate_frame_def) (simp add: region_frames_at_def)
qed

lemma region_reserve: "n + k \<le> demo_pages \<Longrightarrow> reserve_frames allocate_frame k (region_frames_at n) = (True, region_frames_at (n + k))"
  by (induction k arbitrary: n) (simp_all add: region_frame)

lemma region_dma:
  assumes "0 < pages" "n + pages \<le> demo_pages"
  shows "allocate_dma_frames allocate_frame off pages (region_frames_at n) =
    (Some (4096 * (n + 1), off + 4096 * (n + 1), {4096 * (n + 1) ..< 4096 * (n + 1) + pages * 4096}), region_frames_at (n + pages))"
  using assms by (simp add: allocate_dma_frames_def region_frame region_reserve)

lemma region_heap: "n + length ps \<le> demo_pages \<Longrightarrow> map_heap () allocate_frame map_all ps (region_frames_at n) () = (Ok (), region_frames_at (n + length ps), ())"
  by (induction ps arbitrary: n) (simp_all add: region_frame map_all_def)

lemma demo_init_heap:
  "init_heap () allocate_frame map_all MictGlobalAllocator_new (BootInfoFrameAllocator_init [demo_region]) () =
    (Ok (), MictGlobalAllocator_init MictGlobalAllocator_new HEAP_START HEAP_SIZE, region_frames_at 16384, ())"
proof -
  have "length (range_inclusive (containing_address HEAP_START) (containing_address (HEAP_START + HEAP_SIZE - 1))) = 16384"
    by (simp add: range_inclusive_def containing_address_def HEAP_START_def HEAP_SIZE_def del: upt_Suc)
  moreover have "BootInfoFrameAllocator_init [demo_region] = region_frames_at 0" by (simp add: BootInfoFrameAllocator_init_def region_frames_at_def)
  ultimately show ?thesis
    using region_heap [of 0 "range_inclusive (containing_address HEAP_START) (containing_address (HEAP_START + HEAP_SIZE - 1))"]
    by (simp add: init_heap_def Let_def demo_pages_def)
qed

lemma map_all_mmio: "map_mmio map_all a n fa pt = (Ok a, fa, pt)"
proof -
  have "map_frames map_all fl fs fa pt = (Ok (), fa, pt)" for fl fs by (induction fs) (simp_all add: map_all_def)
  then show ?thesis by (simp add: map_mmio_def Let_def)
qed

lemma demo_adapter:
  assumes "b_frames b = region_frames_at 16384"
  shows "\<exists>adapter b1. configure_device demo_transport map_all allocate_frame 0x1000 demo_capabilities b = Some (Ok adapter, b1) \<and>
    control_queue_virt adapter = Some 67117056 \<and> mailbox_virt adapter = Some 67129344 \<and> b_frames b1 = region_frames_at 16388"
proof -
  let ?new = "VirtioGpuDriver_new (unat (common_cfg_phys demo_capabilities))"
  obtain vq where vq: "VirtQueue_new = Some vq" by (rule VirtQueue_new_free)
  have "\<exists>m'. setup_control_queue allocate_frame 0x1000 ?new (region_frames_at 16384) (b_mem b) =
    Some (Ok (67112960, 67112960 + avail_offset, 67112960 + used_offset), ?new\<lparr>control_queue_virt := Some 67117056, mailbox_phys := Some 67125248,
      mailbox_virt := Some 67129344\<rparr>, region_frames_at 16388, m')"
    by (simp add: setup_control_queue_def vq region_dma demo_pages_def Let_def)
  then obtain m' where m': "setup_control_queue allocate_frame 0x1000 ?new (region_frames_at 16384) (b_mem b) =
    Some (Ok (67112960, 67112960 + avail_offset, 67112960 + used_offset), ?new\<lparr>control_queue_virt := Some 67117056, mailbox_phys := Some 67125248,
      mailbox_virt := Some 67129344\<rparr>, region_frames_at 16388, m')" by blast
  have hs: "\<exists>st d'. handshake demo_transport c x = (st, True, d')" for c x
    by (simp add: handshake_def Let_def case_prod_beta status_defs demo_transport_def)
  then obtain st d' where h: "handshake demo_transport (unat (common_cfg_phys demo_capabilities)) (b_dev b) = (st, True, d')" by blast
  obtain a d3 where w: "wire_queue demo_transport (unat (common_cfg_phys demo_capabilities)) (unat (notify_cfg_phys demo_capabilities))
      (notify_off_multiplier demo_capabilities) st (67112960, 67112960 + avail_offset, 67112960 + used_offset)
      (?new\<lparr>control_queue_virt := Some 67117056, mailbox_phys := Some 67125248, mailbox_virt := Some 67129344\<rparr>) () =
    (set_notify_address a (?new\<lparr>control_queue_virt := Some 67117056, mailbox_phys := Some 67125248, mailbox_virt := Some 67129344\<rparr>), d3)"
    by (metis wire_queue_driver)
  show ?thesis unfolding configure_device_def start_device_def map_all_mmio using h m' w assms
    by (simp add: Let_def demo_transport_def) (simp add: set_notify_address_def)
qed

text \<open>The bus.\<close>

lemma board_other_bus:
  assumes "bus \<noteq> 0" "slot \<in> set slots"
  shows "board_config (pci_address bus slot 0 0) = 0xFFFFFFFF"
proof -
  have b: "push_bit 16 (ucast bus :: u32) AND 0x00FF0000 \<noteq> 0"
  proof -
    have "\<forall>i \<in> set [1 .. 255]. push_bit 16 (ucast (word_of_int i :: u8) :: u32) AND 0x00FF0000 \<noteq> 0" by code_simp
    moreover have "uint bus \<noteq> 0" "0 \<le> uint bus" "uint bus < 256" using assms(1) uint_bounded [of bus] by (simp_all add: uint_0_iff)
    then have "uint bus \<in> set [1 .. 255]" unfolding set_upto atLeastAtMost_iff by linarith
    ultimately have "push_bit 16 (ucast (word_of_int (uint bus) :: u8) :: u32) AND 0x00FF0000 \<noteq> 0" by blast
    then show ?thesis by simp
  qed
  have s: "pci_address bus slot 0 0 AND 0x00FF0000 = push_bit 16 (ucast bus) AND 0x00FF0000"
  proof -
    have "\<forall>slot \<in> set slots. push_bit 11 (ucast slot :: u32) AND 0x00FF0000 = 0" by code_simp
    then have "push_bit 11 (ucast slot :: u32) AND 0x00FF0000 = 0" using assms(2) by blast
    then show ?thesis by (simp add: pci_address_def bit.conj_disj_distrib2)
  qed
  have "pci_address bus slot 0 0 AND 0x00FFFF00 \<noteq> x" if "x AND 0x00FF0000 = 0" for x
  proof
    assume "pci_address bus slot 0 0 AND 0x00FFFF00 = x"
    then have "(pci_address bus slot 0 0 AND 0x00FFFF00) AND 0x00FF0000 = 0" using that by simp
    then have "pci_address bus slot 0 0 AND 0x00FF0000 = 0" by (simp add: and.assoc)
    with b s show False by simp
  qed
  then show ?thesis by (simp add: board_config_def Let_def)
qed

lemma board_present: "present board_config = [(0, 0, 0), (0, 4, 0), (0, 5, 0), (0, 6, 0)]"
proof -
  have quiet: "concat (map (\<lambda>slot. map (\<lambda>func. (bus, slot, func)) (filter (responds board_config bus slot) all_funcs)) slots) = []"
    if "bus \<noteq> 0" for bus
  proof -
    have "filter (responds board_config bus slot) all_funcs = []" if "slot \<in> set slots" for slot
      using board_other_bus [OF \<open>bus \<noteq> 0\<close> that] by (simp add: responding pci_read_word_def)
    then show ?thesis by simp
  qed
  have nz: "(of_nat k :: u8) \<noteq> 0" if "k \<in> set [1..<256]" for k
    using that unat_of_nat [of k, where 'a = 8] by (auto simp: of_nat_eq_0_iff)
  have tail: "concat (map (\<lambda>bus. concat (map (\<lambda>slot. map (\<lambda>func. (bus, slot, func)) (filter (responds board_config bus slot) all_funcs)) slots))
      (map of_nat [1..<256])) = []" using quiet [OF nz] by auto
  have first: "concat (map (\<lambda>slot. map (\<lambda>func. (0 :: u8, slot, func)) (filter (responds board_config 0 slot) all_funcs)) slots) =
      [(0, 0, 0), (0, 4, 0), (0, 5, 0), (0, 6, 0)]"
    by code_simp
  have buses: "buses = 0 # map of_nat [1..<256]" unfolding buses_def by (subst upt_conv_Cons) simp_all
  show ?thesis unfolding present_nested buses list.map concat.simps tail first by simp
qed

lemma region_usable: "usable_frames (region_frames_at n) = map (\<lambda>i. 4096 * (i + 1)) [0..<demo_pages]"
proof -
  have aligned: "containing_address (0x1000 + 4096 * i) = 4096 * (i + 1)" for i by (simp add: containing_address_def)
  show ?thesis by (simp add: usable_frames_def region_frames_at_def demo_region_def step_by_4096_def aligned comp_def del: upt.simps)
qed

text \<open>A blank drive of ten megabytes reads as an empty table.\<close>

definition blank :: "nat \<Rightarrow> bytes" where
  "blank n = replicate 4096 0"

lemma blank_readable: "fs_readable 2560 blank []"
proof -
  have "takeWhile (\<lambda>b. b \<noteq> 0) (replicate n (0 :: u8)) = []" for n by (cases n) simp_all
  then show ?thesis by (simp add: fs_readable_def parse_mft_def clean_mft_def blank_def MFS_MAGIC_def)
qed

definition demo_env :: "(unit, unit, unit, nvme_admin \<times> nvme_dev, u32 \<Rightarrow> u32, Descriptor option list, TaskId list) boot_env" where
  "demo_env = \<lparr>v_gdt = slot_table, v_stack = 0x200000, v_cr3 = 0x3000, v_page_table = \<lambda>_ _. (), v_map = map_all, v_no_frame = (),
     v_translate = \<lambda>_. Some, v_config = board_config, v_font = \<lambda>_. [], v_transport = demo_transport,
     v_gpu = ref_gpu 0x1200 67117056 67129344, v_nvme = boot_hw 0xFEBF0000 4096 2560 demo_phys demo_ident, v_statics = demo_phys,
     v_nic = ref_nic 0xFEB80000 0x1000, v_queue = list_queue 100\<rparr>"

definition demo_info :: BootInfo where
  "demo_info = \<lparr>physical_memory_offset = Some 0x1000, memory_map = [demo_region], framebuffer = Some demo_frame\<rparr>"

definition demo_start :: "dma_store \<times> (u32 \<Rightarrow> u32) \<Rightarrow> (unit, unit, nvme_admin \<times> nvme_dev, u32 \<Rightarrow> u32) boot_state" where
  "demo_start nc = \<lparr>bs_gpu = \<lparr>b_frames = region_frames_at 0, b_tables = (), b_dev = (), b_mem = \<lparr>vq_heap = \<lambda>_. VirtQueue_empty, box = \<lambda>_. 0\<rparr>,
       b_ui = UI_init, b_writer = None, b_engine = None, b_backing = 0, b_gpu = None\<rparr>,
     bs_heap = MictGlobalAllocator_new, bs_nvme = (nvme_mem_init, firmware_left blank), bs_drive = None, bs_nic = nc, bs_net = None\<rparr>"

lemma board_devices:
  "filter (\<lambda>f. \<not> passed_over board_config f) (present board_config) = [(0, 4, 0), (0, 5, 0), (0, 6, 0)]"
  "virtio_at board_config (0, 4, 0)" "nvme_at board_config (0, 5, 0) 0xFEBF0000" "e1000_at board_config (0, 6, 0) 0xFEB80000"
  "find_capabilities board_config 0 4 0 = Some demo_capabilities"
  unfolding board_present by code_simp+


end
