(* ===== verification/Spec2Isabelle.thy ===== *)
theory Spec2Isabelle
  imports Mict_Alloc Memory E1000_Rx Vga_Buffer Virtio_Net Fixed_Size_Block Bump Interrupt_Wakeups Kernel_Input Kernel_Main
begin

text \<open>
  \<^bold>\<open>PolymorphOS: a verification of the kernel.\<close>

  PolymorphOS is a small x86-64 kernel in Rust (\<^verbatim>\<open>kernel/src\<close>). At boot it sets up physical memory and a heap, scans the
  PCI buses, and brings up an NVMe drive, an Intel network card and a VirtIO graphics adapter. Then an executor
  polls cooperative tasks: the neural link on the serial port, the desktop compositor fed by the mouse, and an animation task.
  Files live on the drive behind policies, which are programs of a small virtual machine that runs at each access.
  Interrupt handlers communicate with the tasks only through the byte streams.

  \<^bold>\<open>Conventions.\<close> The model is a shallow embedding. A Rust structure is a record, an enumeration a datatype, a machine
  integer a word of its width; arithmetic wraps around as in the release build. A function that
  may panic or spin for ever returns an option, with \<open>None\<close> for both: a theorem that a call gives \<open>Some\<close> says that it
  returns. \<open>Result\<close> is a sum. Loops are recursive functions with termination proofs, loops over ranges and slices are
  \<open>for_each\<close> or \<open>fold\<close>, and loops that may not end are \<open>partial_function (option)\<close>. There is no fuel in the
  development. Messages on the serial port are left out, but for those of the terminal and the neural link, where the port is a
  second terminal. Code that is not in the repository is a parameter,
  and what is assumed of it is written out (see below).

  \<^bold>\<open>Theories.\<close>

  \<^item> \<^verbatim>\<open>Rust_Prelude\<close>, \<^verbatim>\<open>Rust_I32\<close>, \<^verbatim>\<open>Rust_Str\<close>, \<^verbatim>\<open>Byte_Store\<close>: the parts of the language and its standard library that the
    kernel uses: checked array accesses, signed integers and ranges, UTF-8, decimal text, memory as bytes.
  \<^item> \<^verbatim>\<open>Mdo_VM\<close> (\<^verbatim>\<open>mdo_vm.rs\<close>): stack, instructions and the fetch-execute loop. An abstract machine on disassembled
    programs is the specification; the byte-level loop refines it, always ends, and grants exactly on a successful run
    to the halt instruction.
  \<^item> \<^verbatim>\<open>Alloc_Spec\<close>, \<^verbatim>\<open>Mict_Alloc\<close> (\<^verbatim>\<open>allocator/mict_global_allocator.rs\<close>): the locale \<open>heap_interface\<close> says what
    a heap promises, \<open>heap_contract\<close> what one that loses nothing does; its interpretation discharges it for the bitmap allocator. Live allocations stay disjoint, aligned
    and inside the heap over all sequences of calls; \<open>alloc\<close> is first fit; \<open>dealloc\<close> undoes \<open>alloc\<close>.
  \<^item> \<^verbatim>\<open>Linked_List\<close>, \<^verbatim>\<open>Fixed_Size_Block\<close>, \<^verbatim>\<open>Bump\<close> (\<^verbatim>\<open>allocator/linked_list.rs\<close>, \<^verbatim>\<open>allocator/fixed_size_block.rs\<close>,
    \<^verbatim>\<open>allocator/bump.rs\<close>): the alternative allocators. The first meets \<open>heap_interface\<close> (and loses the bytes an alignment skips), the
    second turns any heap that meets it into another one that does, the third is safe while its counter counts.
  \<^item> \<^verbatim>\<open>Streams\<close> (\<^verbatim>\<open>task/keyboard.rs\<close>, \<^verbatim>\<open>task/mouse_stream.rs\<close>, \<^verbatim>\<open>task/serial_stream.rs\<close>): the lock-free rings. The locale
    \<open>bounded_fifo\<close> is interpreted three times; an inductive step relation interleaves the interrupt handler with the
    micro-steps of a poll, and no byte is lost or reordered and no wake-up missed.
  \<^item> \<^verbatim>\<open>Block_Device\<close>, \<^verbatim>\<open>Nvme\<close> (\<^verbatim>\<open>nvme.rs\<close>): queue pairs, phase tags, doorbells. On every conforming controller the driver
    refines an array of sectors; the locale \<open>block_device\<close> is the interface the file system uses.
  \<^item> \<^verbatim>\<open>Nvme_Init\<close> (\<^verbatim>\<open>nvme.rs\<close> as called by \<^verbatim>\<open>pci.rs\<close>): the drive from power-on, with its registers and admin queue pair, to the state
    from which \<^verbatim>\<open>Nvme\<close> starts.
  \<^item> \<^verbatim>\<open>Mfs\<close>, \<^verbatim>\<open>Mfs_Spec\<close>, \<^verbatim>\<open>Mfs_Props\<close> (\<^verbatim>\<open>mfs.rs\<close> and the boot self-test of \<^verbatim>\<open>main.rs\<close>): the text of the file table and its
    round trip, save, read, delete, rename and the policy gate, proved over the block device and stated on the NVMe driver.
  \<^item> \<^verbatim>\<open>Executor\<close> (\<^verbatim>\<open>task/mod.rs\<close>, \<^verbatim>\<open>task/executor.rs\<close>, \<^verbatim>\<open>task/simple_executor.rs\<close>): spawning, the ready loop, wakers; its
    invariant, when it ends, and the self-waking task that keeps it from ever being idle.
  \<^item> \<^verbatim>\<open>Memory\<close> (\<^verbatim>\<open>memory.rs\<close>, \<^verbatim>\<open>allocator.rs\<close>): frames are handed out once, DMA blocks, MMIO mapping, the heap mapping.
  \<^item> \<^verbatim>\<open>Checksum\<close>, \<^verbatim>\<open>E1000\<close>, \<^verbatim>\<open>E1000_Rx\<close> (\<^verbatim>\<open>e1000.rs\<close>): descriptor rings and packets. Echo requests are well formed with
    checksums that verify; the receive ring with the controller is a bounded queue of 31 frames.
  \<^item> \<^verbatim>\<open>Virtqueue\<close>, \<^verbatim>\<open>Virtio_Gpu\<close>, \<^verbatim>\<open>Virtio_Gpu_Props\<close> (\<^verbatim>\<open>virtqueue.rs\<close>, \<^verbatim>\<open>virtio_gpu.rs\<close>): the command queue of the graphics
    adapter. The locales \<open>gpu_device\<close> and \<open>gpu_device_code\<close> say what a device does; commands return and restore their
    descriptors on success, and leak them on an error.
  \<^item> \<^verbatim>\<open>Gpu_Driver\<close> (\<^verbatim>\<open>gpu_driver.rs\<close>): the software frame buffer. Rectangles are equivalent to blending pixel by pixel; bounds
    of blending; no access leaves the buffer.
  \<^item> \<^verbatim>\<open>Splat\<close>, \<^verbatim>\<open>Desktop\<close> (\<^verbatim>\<open>splat.rs\<close>): projected splats, windows and their animation, text, the engine, mouse handling,
    composition of a frame, the screen log. Animations end at their exact destination.
  \<^item> \<^verbatim>\<open>Desktop_Tasks\<close> (\<^verbatim>\<open>main.rs\<close>): the compositor and physics tasks. Together with the GPU driver they run without a panic
    under every interleaving of mouse bytes, animation rounds and log messages.
  \<^item> \<^verbatim>\<open>Pci\<close> (\<^verbatim>\<open>pci.rs\<close> and the capability walk of \<^verbatim>\<open>virtio_pci.rs\<close>): both bus scans visit exactly the functions that
    answer; the capability walk of 48 steps misses no entry of a well-formed list.
  \<^item> \<^verbatim>\<open>Utf8\<close>, \<^verbatim>\<open>Terminal\<close>, \<^verbatim>\<open>Terminal_Props\<close> (\<open>execute_command\<close> and \<open>process_keystroke\<close> of \<^verbatim>\<open>splat.rs\<close>, \<open>print_keypresses\<close> of
    \<^verbatim>\<open>task/keyboard.rs\<close>): the command interpreter with its calls of the file system, the bus scan and the network card, and the
    keyboard task. Its strings stay valid UTF-8; the exact conditions under which a command panics, on a drive of any contents.
  \<^item> \<^verbatim>\<open>Mfs_Forge\<close> (\<^verbatim>\<open>mfs.rs\<close>): a file name with separators forges a table entry through which the access check is bypassed.
  \<^item> \<^verbatim>\<open>Neural_Link\<close> (\<open>genesis_init_task\<close> of \<^verbatim>\<open>main.rs\<close>): framing of the serial bytes, commands for the terminal, payloads for the
    file system. The search for a free name ends, and what is stored can never be read.
  \<^item> \<^verbatim>\<open>Vga_Buffer\<close> (\<^verbatim>\<open>vga_buffer.rs\<close>): the text writer refines a scrolling list of rows and never leaves its buffer.
  \<^item> \<^verbatim>\<open>Virtio_Init\<close> (\<^verbatim>\<open>virtio_pci.rs\<close>): the handshake with the graphics adapter. The register writes follow the order of the
    specification whatever the device answers, and a successful handshake leaves a state in which the desktop tasks run.
  \<^item> \<^verbatim>\<open>Boot\<close> (\<open>kernel_main\<close> of \<^verbatim>\<open>main.rs\<close>): the display part of the boot sequence, composed of the theories above, ends in a
    state in which the desktop tasks run.
  \<^item> \<^verbatim>\<open>Virtio_Net\<close> (\<^verbatim>\<open>virtio_net.rs\<close>, not yet in the build): the network driver over virtqueues. Frames sent in a row overwrite
    each other; the outcome of a poll on every branch.
  \<^item> \<^verbatim>\<open>Interrupts\<close> (\<^verbatim>\<open>interrupts.rs\<close>, \<open>init\<close> of \<^verbatim>\<open>lib.rs\<close>): the vector table, the handlers, which return and feed the rings of
    \<^verbatim>\<open>Streams\<close>, and the lines that \<open>init\<close> opens.
  \<^item> \<^verbatim>\<open>Interrupt_Wakeups\<close> (\<^verbatim>\<open>task/interrupt_wakeups.rs\<close>, a draft that no module includes): up to ten wakers are kept in order, the
    others dropped with a warning.
  \<^item> \<^verbatim>\<open>Cpu_Setup\<close> (\<^verbatim>\<open>gdt.rs\<close>, \<open>init\<close> and the test runner of \<^verbatim>\<open>lib.rs\<close>, \<^verbatim>\<open>serial.rs\<close>): the descriptor table, the task state
    segment and the steps of \<open>init\<close> on a processor that refuses a wrong selector and an early interrupt.
  \<^item> \<^verbatim>\<open>Kernel_Loop\<close> (\<open>kernel_main\<close> and the four tasks of \<^verbatim>\<open>main.rs\<close> and \<^verbatim>\<open>task/keyboard.rs\<close>, on \<^verbatim>\<open>Executor\<close>,
    \<^verbatim>\<open>Streams\<close> and \<^verbatim>\<open>Interrupts\<close>): the running kernel. No task is lost under any schedule of interrupts, every round of the event
    loop returns, and without further interrupts the streams are drained in four rounds.
  \<^item> \<^verbatim>\<open>Kernel_Input\<close>: one poll of a task consumes its ring in order; a payload on the serial line is stored on the drive.
  \<^item> \<^verbatim>\<open>Kernel_Main\<close> (\<open>kernel_main\<close> of \<^verbatim>\<open>main.rs\<close>, \<open>init\<close> of \<^verbatim>\<open>memory.rs\<close>, the drivers started by \<^verbatim>\<open>pci.rs\<close>): the boot
    sequence as one function, from the processor tables to the spawned tasks. On a machine with the three devices it ends at the event loop
    with each of them in the state its theory asks for.

  \<^bold>\<open>How the parts compose.\<close> \<open>kernel_main\<close> runs \<open>kernel_init\<close>, \<open>init_heap\<close>, \<open>boot_display\<close>, \<open>enumerate_buses\<close> with the drivers of
  \<open>boot_drivers\<close>, \<open>boot_vault\<close> and \<open>spawn_tasks\<close> on one state. The executor it returns is polled with \<open>kernel_poll\<close>: a poll of a task is
  its loop body on the bytes of its ring, and before each access of the ring the schedule may \<open>deliver\<close> device changes and
  interrupts, whose handlers fill the rings and wake the tasks (\<open>wake_all\<close>) by pushing their ids on the ready queue. The rings are
  modelled in \<^verbatim>\<open>Streams\<close> at the granularity of single memory accesses; \<^verbatim>\<open>Kernel_Loop\<close> uses whole polls of a stream.

  \<^bold>\<open>Locales.\<close> \<open>heap_interface\<close> and \<open>heap_contract\<close> (heaps), \<open>bounded_fifo\<close> (rings), \<open>block_device\<close> (drive below the file system),
  \<open>gpu_device\<close> and \<open>gpu_device_code\<close> (graphics adapter), \<open>stream_task\<close> (a task that reads a stream: its poll ends, keeps the ring
  well formed and leaves its waker), \<open>kernel_machine\<close> (the kernel with its devices, a \<open>stream_task\<close> three times over), \<open>stream_reader\<close> (a body that
  does not look at the rings); locally \<open>bounded_stack\<close> (virtual machine), \<open>rounding\<close> and \<open>fallback_heap\<close> (alternative allocators).
  Each is interpreted on the definitions of the model.

  \<^bold>\<open>Parameters.\<close> The NVMe controller (\<open>nvme_conforms\<close>, and \<open>admin_conforms\<close> before its queues exist), the network controller (\<open>nic_conforms\<close>) and the GPU
  (\<open>gpu_device\<close>) are functions on their own state and the memory they share with the driver; each assumption has a
  concrete device that satisfies it (\<open>ref_hw\<close>, \<open>boot_hw\<close>, \<open>ref_nic\<close>, \<open>ref_gpu\<close>). Also parameters are the atomic waker, the array queue
  of the executor, the page table mapper, the configuration registers of the graphics adapter and the device of the VirtIO network driver (nothing is assumed of the first), the I/O
  ports with the end-of-interrupt command (\<open>uart_conforms\<close>), what a task does when it is polled, the font, PCI configuration space, the key decoder of
  the pc-keyboard crate and the upper-case table of the Unicode standard beyond ASCII (assumed to give strings). The
  queue of the GPU, its mailbox and the frame memory are separate stores: the kernel allocates them apart.
  The alternative allocators take \<open>align_up\<close>, which their parent module no longer has, as a parameter that rounds up
  (\<open>align_up_ok\<close>), and the fixed-size-block allocator its fallback heap.
  In \<^verbatim>\<open>Pci\<close> the initialisation of a driver is an argument of \<open>check_device\<close>; \<^verbatim>\<open>Kernel_Main\<close> instantiates it (\<open>boot_drivers\<close>).
  The descriptor table of the x86\_64 crate has its documented behaviour (\<open>descriptor_table\<close>, met by \<open>slot_table\<close>); the initialisation of the
  interrupt controllers, the driver of the serial port and the offset page table are arguments, and of them nothing is assumed. Of
  the devices, the event loop assumes what is said at \<open>kernel_machine\<close>, and nothing of when interrupts come.

  \<^bold>\<open>Not modelled.\<close> \<^verbatim>\<open>splat_1.rs\<close> is an earlier version of \<^verbatim>\<open>splat.rs\<close>: no module includes it, and it would not compile, since it
  calls \<open>read_file\<close> without the context that \<^verbatim>\<open>mfs.rs\<close> now asks for. The entry points of the test builds, the panic handler and \<open>hlt_loop\<close> only print and halt. The image builder and the integration
  tests (\<^verbatim>\<open>tests\<close>) run outside the kernel. Log messages on the serial port are left out. The processor's own page walk is not
  modelled: memory is what the stores of the single theories say.
\<close>

end
